(* ===== verification/Go_Prelude.thy ===== *)
theory Go_Prelude
  imports Main "HOL-Library.AList" "HOL-Library.Multiset"
begin

text \<open>
  What every component of the gateway's model shares: Go's 64-bit signed integers (as \<open>int\<close> with
  the wrap-around of \<open>+\<close>, \<open>-\<close> and \<open>*\<close> written out by \<open>i64\<close>), Go maps (a partial function
  where only lookups matter, an association list where the code iterates), instants and durations
  of package \<open>time\<close> (nanoseconds), the functions of package \<open>strings\<close> the code calls, and the
  lemma collections of the development.
\<close>

named_theorems i64_defs \<open>definitions of saturating and wrapping operations\<close>
named_theorems i64_spec \<open>closed forms of the saturating operations on nonnegative values\<close>
named_theorems frame \<open>fields an operation leaves alone\<close>
named_theorems inv_intro \<open>operations that keep an invariant\<close>

section \<open>Signed 64-bit integers\<close>

abbreviation MaxInt64 :: int where
  "MaxInt64 \<equiv> 9223372036854775807"

abbreviation MinInt64 :: int where
  "MinInt64 \<equiv> - 9223372036854775808"

text \<open>The value a two's complement 64-bit register holds after an exact result \<open>x\<close>.\<close>

definition i64 :: "int \<Rightarrow> int" where
  "i64 x = (x + 9223372036854775808) mod 18446744073709551616 - 9223372036854775808"

definition in_i64 :: "int \<Rightarrow> bool" where
  "in_i64 x \<longleftrightarrow> MinInt64 \<le> x \<and> x \<le> MaxInt64"

lemma i64_id [simp]: "MinInt64 \<le> x \<Longrightarrow> x \<le> MaxInt64 \<Longrightarrow> i64 x = x"
  by (simp add: i64_def)

lemma in_i64_i64 [simp]: "in_i64 (i64 x)"
  unfolding in_i64_def i64_def
  using pos_mod_bound [of 18446744073709551616 "x + 9223372036854775808"]
    pos_mod_sign [of 18446744073709551616 "x + 9223372036854775808"]
  by linarith

lemma i64_wraps: "i64 (MaxInt64 + 1) = MinInt64"
  by (simp add: i64_def)

text \<open>The mathematical value of a saturating sum of two counts.\<close>

definition sat_sum :: "int \<Rightarrow> int \<Rightarrow> int" where
  "sat_sum a b = min MaxInt64 (max 0 a + max 0 b)"

lemma sat_sum_nonneg [simp]: "0 \<le> sat_sum a b"
  by (simp add: sat_sum_def)

lemma sat_sum_le_max [simp]: "sat_sum a b \<le> MaxInt64"
  by (simp add: sat_sum_def)

lemma in_i64_sat_sum [simp]: "in_i64 (sat_sum a b)"
  by (simp add: in_i64_def sat_sum_def)

lemma sat_sum_commute: "sat_sum a b = sat_sum b a"
  by (simp add: sat_sum_def add.commute)

lemma sat_sum_assoc: "sat_sum (sat_sum a b) c = sat_sum a (sat_sum b c)"
  unfolding sat_sum_def min_def max_def by auto

lemma sat_sum_left_commute: "sat_sum a (sat_sum b c) = sat_sum b (sat_sum a c)"
  by (metis sat_sum_assoc sat_sum_commute)

lemma sat_sum_mono: "a \<le> a' \<Longrightarrow> b \<le> b' \<Longrightarrow> sat_sum a b \<le> sat_sum a' b'"
  by (auto simp: sat_sum_def)

lemma sat_sum_zero [simp]: "0 \<le> a \<Longrightarrow> a \<le> MaxInt64 \<Longrightarrow> sat_sum a 0 = a"
  by (simp add: sat_sum_def)

lemma sat_sum_ge_left: "a \<le> MaxInt64 \<Longrightarrow> a \<le> sat_sum a b"
  by (auto simp: sat_sum_def)

lemma sat_sum_exact: "0 \<le> a \<Longrightarrow> 0 \<le> b \<Longrightarrow> a + b \<le> MaxInt64 \<Longrightarrow> sat_sum a b = a + b"
  by (simp add: sat_sum_def)

lemma sat_sum_eq_0: "sat_sum a b = 0 \<longleftrightarrow> a \<le> 0 \<and> b \<le> 0"
  by (auto simp: sat_sum_def)

text \<open>Go's integer division and remainder truncate towards zero.\<close>

definition go_div :: "int \<Rightarrow> int \<Rightarrow> int" where
  "go_div a b = sgn a * sgn b * (\<bar>a\<bar> div \<bar>b\<bar>)"

definition go_mod :: "int \<Rightarrow> int \<Rightarrow> int" where
  "go_mod a b = sgn a * (\<bar>a\<bar> mod \<bar>b\<bar>)"

lemma go_div_nonneg [simp]: "0 \<le> a \<Longrightarrow> 0 < b \<Longrightarrow> go_div a b = a div b"
  by (cases "a = 0") (simp_all add: go_div_def)

lemma go_mod_nonneg [simp]: "0 \<le> a \<Longrightarrow> 0 < b \<Longrightarrow> go_mod a b = a mod b"
  by (cases "a = 0") (simp_all add: go_mod_def)

section \<open>Maps\<close>

text \<open>Reading a Go map at a missing key gives the zero value of the element type.\<close>

definition mget :: "('k \<rightharpoonup> int) \<Rightarrow> 'k \<Rightarrow> int" where
  "mget m k = (case m k of None \<Rightarrow> 0 | Some v \<Rightarrow> v)"

lemma mget_simps [simp]:
  "m k = None \<Longrightarrow> mget m k = 0"
  "m k = Some v \<Longrightarrow> mget m k = v"
  by (simp_all add: mget_def)

lemma mget_upd [simp]:
  "mget (m(k \<mapsto> v)) k' = (if k' = k then v else mget m k')"
  "mget (m(k := None)) k' = (if k' = k then 0 else mget m k')"
  by (simp_all add: mget_def)

lemma mget_empty [simp]: "mget Map.empty k = 0"
  by (simp add: mget_def)

text \<open>A map that the code iterates over: an association list, in the iteration order of the run.\<close>

type_synonym ('k, 'v) gomap = "('k \<times> 'v) list"

definition wf_gomap :: "('k, 'v) gomap \<Rightarrow> bool" where
  "wf_gomap m \<longleftrightarrow> distinct (map fst m)"

lemma wf_gomap_Nil [simp]: "wf_gomap []"
  by (simp add: wf_gomap_def)

lemma wf_gomap_update [simp]: "wf_gomap m \<Longrightarrow> wf_gomap (AList.update k v m)"
  by (simp add: wf_gomap_def distinct_update)

lemma wf_gomap_delete [simp]: "wf_gomap m \<Longrightarrow> wf_gomap (AList.delete k m)"
  by (simp add: wf_gomap_def distinct_delete)

lemma wf_gomap_filter [simp]: "wf_gomap m \<Longrightarrow> wf_gomap (filter P m)"
  by (auto simp: wf_gomap_def distinct_map inj_on_def)

lemma map_of_update_simp [simp]: "map_of (AList.update k v m) k' = (if k' = k then Some v else map_of m k')"
  by (simp add: update_conv')

lemma map_of_delete_simp [simp]: "map_of (AList.delete k m) k' = (if k' = k then None else map_of m k')"
  by (simp add: delete_conv')

lemma map_of_filter_wf:
  "wf_gomap m \<Longrightarrow>
    map_of (filter P m) k = (case map_of m k of None \<Rightarrow> None | Some v \<Rightarrow> if P (k, v) then Some v else None)"
proof (induction m)
  case Nil
  then show ?case by simp
next
  case (Cons kv m)
  obtain a v where kv: "kv = (a, v)" by (cases kv)
  from Cons.prems kv have wf: "wf_gomap m" and fresh: "map_of m a = None"
    by (auto simp: wf_gomap_def map_of_eq_None_iff)
  show ?case
    using Cons.IH [OF wf] fresh kv by (cases "k = a") (auto split: option.splits)
qed

lemma set_gomap_map_of: "wf_gomap m \<Longrightarrow> (k, v) \<in> set m \<longleftrightarrow> map_of m k = Some v"
  by (simp add: wf_gomap_def)

lemma set_gomap_update: "e \<in> set (AList.update k v m) \<Longrightarrow> e = (k, v) \<or> e \<in> set m"
  by (induction m) (auto split: if_splits)

lemma set_gomap_delete: "e \<in> set (AList.delete k m) \<longleftrightarrow> e \<in> set m \<and> fst e \<noteq> k"
  by (cases e) (auto simp: AList.delete_eq)

section \<open>Instants and durations\<close>

text \<open>
  An instant (\<open>time.Time\<close>) is the number of nanoseconds since Go's zero time, January 1 of year 1
  UTC, so \<open>IsZero\<close> is \<open>t = 0\<close>, \<open>Before\<close> and \<open>After\<close> are \<open><\<close> and \<open>>\<close>, and \<open>Add\<close> is \<open>+\<close>
  (the seconds of an instant have 64 bits of their own, out of reach of any clock). A duration is
  an \<open>int64\<close> count of nanoseconds.
\<close>

type_synonym instant = int
type_synonym duration = int

abbreviation Second :: duration where "Second \<equiv> 1000000000"
abbreviation Millisecond :: duration where "Millisecond \<equiv> 1000000"
abbreviation Minute :: duration where "Minute \<equiv> 60000000000"
abbreviation Hour :: duration where "Hour \<equiv> 3600000000000"

abbreviation IsZero :: "instant \<Rightarrow> bool" where "IsZero t \<equiv> t = 0"

text \<open>\<open>t.Sub(u)\<close> saturates at the range of a duration.\<close>

definition t_Sub :: "instant \<Rightarrow> instant \<Rightarrow> duration" where
  "t_Sub t u = max MinInt64 (min MaxInt64 (t - u))"

text \<open>
  The clock: every \<open>time.Now()\<close> of a component's operation takes the next reading of a sequence
  the environment chooses.
\<close>

type_synonym clock = "nat \<Rightarrow> instant"

section \<open>Strings\<close>

text \<open>
  Strings are byte sequences. \<open>TrimSpace\<close> removes every Unicode white space, by its UTF-8
  encoding; \<open>ToLower\<close> and \<open>ToUpper\<close> are modelled on ASCII letters and leave other bytes alone.
\<close>

definition space_encodings :: "string list" where
  "space_encodings =
     [[CHR 0x09], [CHR 0x0A], [CHR 0x0B], [CHR 0x0C], [CHR 0x0D], [CHR 0x20],
      [CHR 0xC2, CHR 0x85], [CHR 0xC2, CHR 0xA0], [CHR 0xE1, CHR 0x9A, CHR 0x80],
      [CHR 0xE2, CHR 0x80, CHR 0x80], [CHR 0xE2, CHR 0x80, CHR 0x81], [CHR 0xE2, CHR 0x80, CHR 0x82],
      [CHR 0xE2, CHR 0x80, CHR 0x83], [CHR 0xE2, CHR 0x80, CHR 0x84], [CHR 0xE2, CHR 0x80, CHR 0x85],
      [CHR 0xE2, CHR 0x80, CHR 0x86], [CHR 0xE2, CHR 0x80, CHR 0x87], [CHR 0xE2, CHR 0x80, CHR 0x88],
      [CHR 0xE2, CHR 0x80, CHR 0x89], [CHR 0xE2, CHR 0x80, CHR 0x8A], [CHR 0xE2, CHR 0x80, CHR 0xA8],
      [CHR 0xE2, CHR 0x80, CHR 0xA9], [CHR 0xE2, CHR 0x80, CHR 0xAF], [CHR 0xE2, CHR 0x81, CHR 0x9F],
      [CHR 0xE3, CHR 0x80, CHR 0x80]]"

fun strip_prefix :: "string \<Rightarrow> string \<Rightarrow> string option" where
  "strip_prefix [] s = Some s"
| "strip_prefix (c # cs) [] = None"
| "strip_prefix (c # cs) (d # ds) = (if c = d then strip_prefix cs ds else None)"

fun strip_any :: "string list \<Rightarrow> string \<Rightarrow> string option" where
  "strip_any [] s = None"
| "strip_any (p # ps) s = (case strip_prefix p s of Some r \<Rightarrow> Some r | None \<Rightarrow> strip_any ps s)"

lemma strip_prefix_Some: "strip_prefix p s = Some r \<longleftrightarrow> s = p @ r"
  by (induction p s rule: strip_prefix.induct) auto

lemma strip_any_Some: "strip_any ps s = Some r \<Longrightarrow> \<exists>p \<in> set ps. s = p @ r"
  by (induction ps) (auto split: option.splits simp: strip_prefix_Some)

lemma space_encodings_nonempty: "p \<in> set space_encodings \<Longrightarrow> p \<noteq> []"
  by (auto simp: space_encodings_def)

lemma strip_any_space_shorter: "strip_any space_encodings s = Some r \<Longrightarrow> length r < length s"
  by (drule strip_any_Some) (auto dest: space_encodings_nonempty)

lemma strip_any_rev_space_shorter:
  "strip_any (map rev space_encodings) s = Some r \<Longrightarrow> length r < length s"
  by (drule strip_any_Some) (auto dest: space_encodings_nonempty)

function trim_left :: "string \<Rightarrow> string" where
  "trim_left s = (case strip_any space_encodings s of Some r \<Rightarrow> trim_left r | None \<Rightarrow> s)"
  by pat_completeness auto
termination
  by (relation "measure length") (auto dest: strip_any_space_shorter)

function trim_right_rev :: "string \<Rightarrow> string" where
  "trim_right_rev s =
     (case strip_any (map rev space_encodings) s of Some r \<Rightarrow> trim_right_rev r | None \<Rightarrow> s)"
  by pat_completeness auto
termination
  by (relation "measure length") (auto dest: strip_any_rev_space_shorter)

declare trim_left.simps [simp del] trim_right_rev.simps [simp del]

definition TrimSpace :: "string \<Rightarrow> string" where
  "TrimSpace s = rev (trim_right_rev (rev (trim_left s)))"

lemma TrimSpace_Nil [simp]: "TrimSpace [] = []"
  by (simp add: TrimSpace_def trim_left.simps [of "[]"] trim_right_rev.simps [of "[]"] space_encodings_def)

text \<open>Bytes as numbers, for the character classes the code tests.\<close>

abbreviation byte :: "char \<Rightarrow> nat" where
  "byte c \<equiv> of_char c"

definition to_lower_char :: "char \<Rightarrow> char" where
  "to_lower_char c = (if 65 \<le> byte c \<and> byte c \<le> 90 then char_of (byte c + 32) else c)"

definition to_upper_char :: "char \<Rightarrow> char" where
  "to_upper_char c = (if 97 \<le> byte c \<and> byte c \<le> 122 then char_of (byte c - 32) else c)"

definition ToLower :: "string \<Rightarrow> string" where
  "ToLower = map to_lower_char"

definition ToUpper :: "string \<Rightarrow> string" where
  "ToUpper = map to_upper_char"

definition HasPrefix :: "string \<Rightarrow> string \<Rightarrow> bool" where
  "HasPrefix s p \<longleftrightarrow> strip_prefix p s \<noteq> None"

fun JoinStrings :: "string list \<Rightarrow> string \<Rightarrow> string" where
  "JoinStrings [] sep = []"
| "JoinStrings [x] sep = x"
| "JoinStrings (x # y # xs) sep = x @ sep @ JoinStrings (y # xs) sep"

fun SplitByte :: "char \<Rightarrow> string \<Rightarrow> string list" where
  "SplitByte c [] = [[]]"
| "SplitByte c (d # ds) =
     (if d = c then [] # SplitByte c ds
      else (case SplitByte c ds of [] \<Rightarrow> [[d]] | x # xs \<Rightarrow> (d # x) # xs))"

fun firstNonEmpty :: "string list \<Rightarrow> string" where
  "firstNonEmpty [] = []"
| "firstNonEmpty (x # xs) = (if x \<noteq> [] then x else firstNonEmpty xs)"

text \<open>Decimal digits (\<open>strconv.FormatInt\<close>, \<open>strconv.Itoa\<close>).\<close>

definition digit_char :: "nat \<Rightarrow> char" where
  "digit_char d = char_of (48 + d)"

fun show_nat :: "nat \<Rightarrow> string" where
  "show_nat n = (if n < 10 then [digit_char n] else show_nat (n div 10) @ [digit_char (n mod 10)])"

declare show_nat.simps [simp del]

definition show_int :: "int \<Rightarrow> string" where
  "show_int i = (if i < 0 then CHR ''-'' # show_nat (nat (- i)) else show_nat (nat i))"

lemma show_nat_nonempty [simp]: "show_nat n \<noteq> []"
  by (subst show_nat.simps) simp

text \<open>
  The verb \<open>%q\<close> of \<open>fmt\<close> (\<open>strconv.Quote\<close>) on ASCII: quotes, backslashes and control characters are escaped. Bytes
  beyond ASCII are kept, as those of a printable rune are.
\<close>

definition hex_char :: "nat \<Rightarrow> char" where
  "hex_char d = (if d < 10 then digit_char d else char_of (87 + d))"

definition quote_byte :: "char \<Rightarrow> string" where
  "quote_byte c =
     (case map_of [(0x22, CHR 0x22), (0x5C, CHR 0x5C), (7, CHR ''a''), (8, CHR ''b''), (9, CHR ''t''), (10, CHR ''n''),
                   (11, CHR ''v''), (12, CHR ''f''), (13, CHR ''r'')] (byte c) of
        Some d \<Rightarrow> [CHR 0x5C, d]
      | None \<Rightarrow> if byte c < 32 \<or> byte c = 127 then [CHR 0x5C, CHR ''x'', hex_char (byte c div 16), hex_char (byte c mod 16)] else [c])"

definition quoted :: "string \<Rightarrow> string" where
  "quoted s = [CHR 0x22] @ concat (map quote_byte s) @ [CHR 0x22]"

lemma digit_char_inj: "a < 10 \<Longrightarrow> b < 10 \<Longrightarrow> digit_char a = digit_char b \<longleftrightarrow> a = b"
  by (auto simp: digit_char_def dest!: arg_cong [where f = "of_char :: char \<Rightarrow> nat"])

end
