(* ===== verification/Go_Float.thy ===== *)
theory Go_Float
  imports Complex_Main "HOL-Library.Log_Nat" Go_Prelude
begin

text \<open>
  Go's \<open>float64\<close>, which the price arithmetic uses: IEEE 754 binary64 with round-to-nearest,
  ties-to-even, over exact rationals, with the infinities and NaN as values of their own. Signed
  zeros are identified: no operation used by the gateway tells them apart. Every operation rounds
  its exact result once, as amd64 does (no fused multiply-add).
\<close>

datatype f64 = Fin rat | PInf | NInf | NaN

definition pow2 :: "int \<Rightarrow> rat" where
  "pow2 k = (if 0 \<le> k then 2 ^ nat k else 1 / 2 ^ nat (- k))"

text \<open>The exponent \<open>k\<close> with \<open>2 ^ k \<le> a < 2 ^ (k + 1)\<close>.\<close>

definition flog2 :: "rat \<Rightarrow> int" where
  "flog2 a =
     (let (n, d) = quotient_of a; k = bitlen n - bitlen d
      in if pow2 k \<le> a then k else k - 1)"

definition round_half_even :: "rat \<Rightarrow> int" where
  "round_half_even x =
     (let f = \<lfloor>x\<rfloor>; r = x - of_int f
      in if r < 1 / 2 then f else if r > 1 / 2 then f + 1 else if even f then f else f + 1)"

definition round64 :: "rat \<Rightarrow> f64" where
  "round64 x =
     (if x = 0 then Fin 0
      else
        let a = \<bar>x\<bar>;
            e = max (flog2 a - 52) (- 1074);
            r = of_int (round_half_even (a / pow2 e)) * pow2 e
        in if r \<ge> pow2 1024 then (if x > 0 then PInf else NInf) else Fin (sgn x * r))"

definition f64_of_int :: "int \<Rightarrow> f64" where
  "f64_of_int i = round64 (of_int i)"

fun f64_neg :: "f64 \<Rightarrow> f64" where
  "f64_neg (Fin x) = Fin (- x)"
| "f64_neg PInf = NInf"
| "f64_neg NInf = PInf"
| "f64_neg NaN = NaN"

definition inf_times :: "rat \<Rightarrow> f64" where
  "inf_times a = (if a = 0 then NaN else if a > 0 then PInf else NInf)"

fun f64_mul :: "f64 \<Rightarrow> f64 \<Rightarrow> f64" where
  "f64_mul NaN y = NaN"
| "f64_mul x NaN = NaN"
| "f64_mul (Fin a) (Fin b) = round64 (a * b)"
| "f64_mul (Fin a) PInf = inf_times a"
| "f64_mul (Fin a) NInf = f64_neg (inf_times a)"
| "f64_mul PInf (Fin b) = inf_times b"
| "f64_mul NInf (Fin b) = f64_neg (inf_times b)"
| "f64_mul PInf PInf = PInf"
| "f64_mul PInf NInf = NInf"
| "f64_mul NInf PInf = NInf"
| "f64_mul NInf NInf = PInf"

fun f64_add :: "f64 \<Rightarrow> f64 \<Rightarrow> f64" where
  "f64_add NaN y = NaN"
| "f64_add x NaN = NaN"
| "f64_add (Fin a) (Fin b) = round64 (a + b)"
| "f64_add (Fin a) y = y"
| "f64_add x (Fin b) = x"
| "f64_add PInf PInf = PInf"
| "f64_add NInf NInf = NInf"
| "f64_add PInf NInf = NaN"
| "f64_add NInf PInf = NaN"

text \<open>\<open>x <= y\<close>; every comparison with NaN is false.\<close>

fun f64_le :: "f64 \<Rightarrow> f64 \<Rightarrow> bool" where
  "f64_le NaN y = False"
| "f64_le x NaN = False"
| "f64_le (Fin a) (Fin b) = (a \<le> b)"
| "f64_le NInf y = True"
| "f64_le x PInf = True"
| "f64_le x y = False"

definition f64_lt :: "f64 \<Rightarrow> f64 \<Rightarrow> bool" where
  "f64_lt x y \<longleftrightarrow> f64_le x y \<and> \<not> f64_le y x"

definition f64_eq :: "f64 \<Rightarrow> f64 \<Rightarrow> bool" where
  "f64_eq x y \<longleftrightarrow> f64_le x y \<and> f64_le y x"

fun math_Ceil :: "f64 \<Rightarrow> f64" where
  "math_Ceil (Fin x) = Fin (of_int \<lceil>x\<rceil>)"
| "math_Ceil x = x"

text \<open>
  \<open>int64(x)\<close> truncates; where the value does not fit, Go leaves the result to the implementation
  and amd64 gives the smallest integer.
\<close>

fun f64_to_int64 :: "f64 \<Rightarrow> int" where
  "f64_to_int64 (Fin x) =
     (let t = (if x \<ge> 0 then \<lfloor>x\<rfloor> else \<lceil>x\<rceil>) in if MinInt64 \<le> t \<and> t \<le> MaxInt64 then t else MinInt64)"
| "f64_to_int64 x = MinInt64"

text \<open>A finite, nonnegative price (what configuration validation accepts), or an overflowed sum of such.\<close>

fun f64_nonneg :: "f64 \<Rightarrow> bool" where
  "f64_nonneg (Fin x) = (0 \<le> x)"
| "f64_nonneg PInf = True"
| "f64_nonneg NInf = False"
| "f64_nonneg NaN = False"

fun f64_finite_nonneg :: "f64 \<Rightarrow> bool" where
  "f64_finite_nonneg (Fin x) = (0 \<le> x)"
| "f64_finite_nonneg x = False"

section \<open>Rounding\<close>

lemma pow2_pos [simp]: "0 < pow2 k"
  by (simp add: pow2_def)

lemma pow2_nonneg [simp]: "0 \<le> pow2 k"
  by (simp add: less_imp_le)

lemma pow2_neq_0 [simp]: "pow2 k \<noteq> 0"
  by (rule less_imp_neq [OF pow2_pos, symmetric])

lemma pow2_Suc: "pow2 (k + 1) = 2 * pow2 k"
proof (cases "0 \<le> k")
  case True
  then show ?thesis by (simp add: pow2_def nat_add_distrib)
next
  case False
  then have "nat (- k) = Suc (nat (- (k + 1)))" by simp
  with False show ?thesis by (simp add: pow2_def)
qed

lemma pow2_add_nat: "pow2 (k + int n) = 2 ^ n * pow2 k"
proof (induction n)
  case (Suc n)
  have "pow2 (k + int (Suc n)) = pow2 ((k + int n) + 1)" by (simp add: algebra_simps)
  then show ?case using Suc.IH by (simp add: pow2_Suc)
qed simp

lemma pow2_diff: "i \<le> j \<Longrightarrow> pow2 j = 2 ^ nat (j - i) * pow2 i"
  using pow2_add_nat [of i "nat (j - i)"] by simp

lemma pow2_mono: "i \<le> j \<Longrightarrow> pow2 i \<le> pow2 j"
  by (simp add: pow2_diff [of i j])

lemma pow2_nat: "pow2 (int n) = 2 ^ n"
  by (simp add: pow2_def)

text \<open>The exponent is right: the upper half, which bounds the significand.\<close>

lemma flog2_upper:
  assumes "0 < a"
  shows "a < pow2 (flog2 a + 1)"
proof -
  obtain n d where q: "quotient_of a = (n, d)" by force
  have d: "0 < d" using q by (rule quotient_of_denom_pos)
  have a: "a = of_int n / of_int d" using q by (rule quotient_of_div)
  with assms d have n: "0 < n" by (simp add: zero_less_divide_iff)
  let ?k = "bitlen n - bitlen d"
  have bn: "n < 2 ^ nat (bitlen n)" using bitlen_bounds [OF n] by simp
  have bd: "2 ^ nat (bitlen d - 1) \<le> d" using bitlen_bounds [OF d] by simp
  have bdpos: "0 < bitlen d" using d by (metis bitlen_eq_zero_iff bitlen_nonneg not_less order_le_less)
  have bnpos: "0 \<le> bitlen n" by (simp add: bitlen_nonneg)
  have "of_int n < pow2 (bitlen n)"
    using bn bnpos by (simp add: pow2_def)
  moreover have "pow2 (bitlen d - 1) \<le> of_int d"
    using bd bdpos by (simp add: pow2_def)
  ultimately have "a * pow2 (bitlen d - 1) < pow2 (bitlen n)"
    using a d assms
    by (metis (no_types, lifting) less_le_trans mult_left_mono nonzero_eq_divide_eq of_int_pos
        less_irrefl order.strict_trans1 less_imp_le)
  moreover have "pow2 (bitlen n) = pow2 (?k + 1) * pow2 (bitlen d - 1)"
  proof -
    have "bitlen n = (?k + 1) + int (nat (bitlen d - 1))" using bdpos by simp
    then have "pow2 (bitlen n) = 2 ^ nat (bitlen d - 1) * pow2 (?k + 1)"
      by (metis pow2_add_nat)
    then show ?thesis using bdpos by (simp add: pow2_def mult.commute)
  qed
  ultimately have up: "a < pow2 (?k + 1)"
    by (simp add: mult_less_cancel_right_pos)
  show ?thesis
  proof (cases "pow2 ?k \<le> a")
    case True
    then show ?thesis using up q by (simp add: flog2_def)
  next
    case False
    then show ?thesis using q by (simp add: flog2_def)
  qed
qed

lemma round_half_even_le: "x \<le> of_int m \<Longrightarrow> round_half_even x \<le> m"
proof -
  assume x: "x \<le> of_int m"
  show ?thesis
  proof (cases "\<lfloor>x\<rfloor> < m")
    case True
    then show ?thesis by (auto simp: round_half_even_def Let_def)
  next
    case False
    with x have "\<lfloor>x\<rfloor> = m" "x = of_int m"
      by (simp_all add: antisym floor_le_iff le_floor_iff not_less)
    then show ?thesis by (simp add: round_half_even_def)
  qed
qed

lemma round_half_even_nonneg: "0 \<le> x \<Longrightarrow> 0 \<le> round_half_even x"
  by (auto simp: round_half_even_def Let_def)

lemma round_half_even_of_int [simp]: "round_half_even (of_int m) = m"
  by (simp add: round_half_even_def)

text \<open>A finite rounded value is an integer of at most 53 bits times a power of two.\<close>

definition representable :: "rat \<Rightarrow> bool" where
  "representable v \<longleftrightarrow> (\<exists>m e. v = of_int m * pow2 e \<and> \<bar>m\<bar> \<le> 2 ^ 53)"

lemma round64_representable:
  assumes "round64 x = Fin v"
  shows "representable v"
proof (cases "x = 0")
  case True
  with assms have "v = 0" by (simp add: round64_def)
  then show ?thesis unfolding representable_def by (intro exI [of _ 0]) simp
next
  case False
  define e where "e = max (flog2 \<bar>x\<bar> - 52) (- 1074)"
  define m where "m = round_half_even (\<bar>x\<bar> / pow2 e)"
  have v: "v = sgn x * (of_int m * pow2 e)"
    using assms False by (auto simp: round64_def Let_def e_def m_def split: if_splits)
  have "\<bar>x\<bar> < pow2 (flog2 \<bar>x\<bar> + 1)" using False by (intro flog2_upper) simp
  also have "\<dots> \<le> pow2 (e + 53)" by (rule pow2_mono) (simp add: e_def)
  also have "\<dots> = 2 ^ 53 * pow2 e" using pow2_add_nat [of e 53] by simp
  finally have "\<bar>x\<bar> / pow2 e \<le> of_int (2 ^ 53)" by (simp add: divide_le_eq)
  then have up: "m \<le> 2 ^ 53" unfolding m_def by (rule round_half_even_le)
  have "0 \<le> m" unfolding m_def by (rule round_half_even_nonneg) simp
  with up have "\<bar>m\<bar> \<le> 2 ^ 53" by simp
  moreover have "v = of_int ((if x > 0 then 1 else - 1) * m) * pow2 e"
    using v False by (simp add: sgn_if)
  moreover have "\<bar>(if x > 0 then 1 else - 1) * m\<bar> = \<bar>m\<bar>" by simp
  ultimately show ?thesis unfolding representable_def by metis
qed

text \<open>Below \<open>2^63\<close> the ceiling of a rounded value still fits in an \<open>int64\<close>.\<close>

lemma representable_ceiling_fits:
  assumes "representable v" and "v < 9223372036854775808"
  shows "\<lceil>v\<rceil> \<le> MaxInt64"
proof -
  from assms(1) obtain m e where v: "v = of_int m * pow2 e" and m: "\<bar>m\<bar> \<le> 2 ^ 53"
    by (auto simp: representable_def)
  show ?thesis
  proof (cases "0 \<le> e")
    case True
    then have "v = of_int (m * 2 ^ nat e)" by (simp add: v pow2_def)
    then obtain n where n: "v = of_int n" by blast
    with assms(2) have "(of_int n :: rat) < of_int 9223372036854775808" by simp
    then have "n < 9223372036854775808" by (simp only: of_int_less_iff)
    with n show ?thesis by simp
  next
    case False
    then have "pow2 e \<le> 1" using pow2_mono [of e 0] by (simp add: pow2_def)
    then have "v \<le> of_int \<bar>m\<bar>"
    proof -
      have "v \<le> of_int \<bar>m\<bar> * pow2 e" unfolding v by (intro mult_right_mono) simp_all
      also have "\<dots> \<le> of_int \<bar>m\<bar> * 1" by (intro mult_left_mono \<open>pow2 e \<le> 1\<close>) simp
      finally show ?thesis by simp
    qed
    then have "\<lceil>v\<rceil> \<le> \<bar>m\<bar>" by (rule ceiling_le)
    also have "\<dots> \<le> MaxInt64" using m by simp
    finally show ?thesis .
  qed
qed

lemma round64_nonneg: "0 \<le> x \<Longrightarrow> f64_nonneg (round64 x)"
  by (auto simp: round64_def Let_def round_half_even_nonneg)

lemma f64_of_int_nonneg [simp]: "0 \<le> i \<Longrightarrow> f64_nonneg (f64_of_int i)"
  by (simp add: f64_of_int_def round64_nonneg)

lemma f64_of_int_finite:
  assumes "0 \<le> i" "i \<le> MaxInt64"
  shows "\<exists>x. f64_of_int i = Fin x \<and> 0 \<le> x"
proof (cases "i = 0")
  case True
  then show ?thesis by (simp add: f64_of_int_def round64_def)
next
  case False
  let ?x = "of_int i :: rat"
  have pos: "0 < ?x" using assms False by simp
  define e where "e = max (flog2 \<bar>?x\<bar> - 52) (- 1074)"
  define r where "r = of_int (round_half_even (\<bar>?x\<bar> / pow2 e)) * pow2 e"
  have e: "e \<le> 63"
  proof (rule ccontr)
    assume "\<not> e \<le> 63"
    then have f: "115 < flog2 ?x" using pos by (simp add: e_def)
    obtain n d where q: "quotient_of ?x = (n, d)" by force
    then have nd: "n = i" "d = 1" by (simp_all add: quotient_of_int)
    have "flog2 ?x \<le> bitlen i - bitlen 1" using q nd by (simp add: flog2_def Let_def)
    moreover have "bitlen (1 :: int) = 1" by (simp add: bitlen_def floorlog_def)
    moreover have "bitlen i \<le> 64"
    proof -
      have "i < 2 ^ 63" using assms(2) by simp
      then have "bitlen i \<le> int 63" using assms(1) bitlen_le_iff_power [of i 63] by simp
      then show ?thesis by simp
    qed
    ultimately show False using f by simp
  qed
  have "\<bar>?x\<bar> < pow2 (flog2 \<bar>?x\<bar> + 1)" using pos by (intro flog2_upper) simp
  also have "\<dots> \<le> pow2 (e + 53)" by (rule pow2_mono) (simp add: e_def)
  also have "\<dots> = 2 ^ 53 * pow2 e" using pow2_add_nat [of e 53] by simp
  finally have "\<bar>?x\<bar> / pow2 e \<le> of_int (2 ^ 53)" by (simp add: divide_le_eq)
  then have "round_half_even (\<bar>?x\<bar> / pow2 e) \<le> 2 ^ 53" by (rule round_half_even_le)
  then have "(of_int (round_half_even (\<bar>?x\<bar> / pow2 e)) :: rat) \<le> 2 ^ 53"
    by (metis of_int_le_iff of_int_numeral of_int_power)
  then have "r \<le> 2 ^ 53 * pow2 e" unfolding r_def by (rule mult_right_mono) simp
  also have "\<dots> = pow2 (e + 53)" using pow2_add_nat [of e 53] by simp
  also have "\<dots> < pow2 1024"
  proof -
    have "pow2 (e + 53) \<le> pow2 1023" by (rule pow2_mono) (use e in simp)
    also have "\<dots> < pow2 1024" using pow2_Suc [of 1023] pow2_pos [of 1023] by simp
    finally show ?thesis .
  qed
  finally have "r < pow2 1024" .
  moreover have "0 \<le> r" by (simp add: r_def round_half_even_nonneg)
  ultimately have "round64 ?x = Fin r"
    using pos by (simp add: round64_def Let_def e_def r_def not_le)
  with \<open>0 \<le> r\<close> show ?thesis by (simp add: f64_of_int_def)
qed

lemma f64_mul_nonneg:
  "f64_finite_nonneg x \<Longrightarrow> f64_finite_nonneg y \<Longrightarrow> f64_nonneg (f64_mul x y)"
  by (cases x; cases y) (simp_all add: round64_nonneg)

lemma f64_add_nonneg: "f64_nonneg x \<Longrightarrow> f64_nonneg y \<Longrightarrow> f64_nonneg (f64_add x y)"
  by (cases x; cases y) (simp_all add: round64_nonneg)

text \<open>The values the price arithmetic produces: exact zero, rounded, or infinite.\<close>

fun f64_wf :: "f64 \<Rightarrow> bool" where
  "f64_wf (Fin v) = representable v"
| "f64_wf _ = True"

lemma round64_wf [simp]: "f64_wf (round64 x)"
  by (cases "round64 x") (auto dest: round64_representable)

lemma f64_mul_wf [simp]: "f64_wf (f64_mul x y)"
  by (cases x; cases y) (simp_all add: inf_times_def)

lemma f64_add_wf: "f64_wf x \<Longrightarrow> f64_wf y \<Longrightarrow> f64_wf (f64_add x y)"
  by (cases x; cases y) simp_all

end
