(* ===== verification/Gateway_Types.thy ===== *)
theory Gateway_Types
  imports Go_Float
begin

text \<open>
  The data of package \<open>gateway\<close>: usage and quota types (\<open>types.go\<close>), routes, limits and prices
  (\<open>config.go\<close>), the attempt and route records (\<open>gateway.go\<close>), and Go errors as a datatype with
  \<open>errors.As\<close>, \<open>errors.Is\<close> and \<open>errors.Join\<close>. Field names carry a prefix per struct.
\<close>

section \<open>Usage\<close>

record EstimatedUsage =
  eu_InputTokens :: int
  eu_ReservedOutputTokens :: int
  eu_EstimatedSpendMicros :: int

record ActualUsage =
  au_InputTokens :: int
  au_OutputTokens :: int
  au_SpendMicros :: int

abbreviation zero_estimate :: EstimatedUsage where
  "zero_estimate \<equiv> \<lparr>eu_InputTokens = 0, eu_ReservedOutputTokens = 0, eu_EstimatedSpendMicros = 0\<rparr>"

abbreviation zero_actual :: ActualUsage where
  "zero_actual \<equiv> \<lparr>au_InputTokens = 0, au_OutputTokens = 0, au_SpendMicros = 0\<rparr>"

record QuotaUsage =
  qu_ActiveRequests :: int
  qu_RPMCurrent :: int
  qu_TPMCurrent :: int
  qu_SpendUsedMicros :: int
  qu_SpendHeldMicros :: int
  qu_DailyUsedTokens :: int
  qu_DailyHeldTokens :: int
  qu_MonthUsedTokens :: int
  qu_MonthHeldTokens :: int

text \<open>
  A nil map and an empty one behave alike in every use the code makes of the two detail maps, so
  both are the empty association list. A nil pointer is \<open>None\<close>.
\<close>

record UsageDetails =
  ud_TextTokens :: int
  ud_AudioTokens :: int
  ud_ReasoningTokens :: int
  ud_ToolTokens :: int
  ud_CachedTokens :: int
  ud_ByModality :: "(string, int) gomap"

record Usage =
  u_InputTokens :: int
  u_OutputTokens :: int
  u_TotalTokens :: int
  u_CacheReadTokens :: int
  u_CacheWriteTokens :: int
  u_InputDetails :: "UsageDetails option"
  u_OutputDetails :: "UsageDetails option"
  u_ProviderDetails :: "(string, int) gomap"

abbreviation zero_usage :: Usage where
  "zero_usage \<equiv>
     \<lparr>u_InputTokens = 0, u_OutputTokens = 0, u_TotalTokens = 0, u_CacheReadTokens = 0,
      u_CacheWriteTokens = 0, u_InputDetails = None, u_OutputDetails = None, u_ProviderDetails = []\<rparr>"

abbreviation zero_details :: UsageDetails where
  "zero_details \<equiv>
     \<lparr>ud_TextTokens = 0, ud_AudioTokens = 0, ud_ReasoningTokens = 0, ud_ToolTokens = 0,
      ud_CachedTokens = 0, ud_ByModality = []\<rparr>"

definition Usage_IsZero :: "Usage \<Rightarrow> bool" where
  "Usage_IsZero u \<longleftrightarrow>
     u_InputTokens u = 0 \<and> u_OutputTokens u = 0 \<and> u_TotalTokens u = 0 \<and>
     u_CacheReadTokens u = 0 \<and> u_CacheWriteTokens u = 0 \<and>
     u_InputDetails u = None \<and> u_OutputDetails u = None \<and> u_ProviderDetails u = []"

definition saturatingUsageAdd :: "int \<Rightarrow> int \<Rightarrow> int" where
  "saturatingUsageAdd first second =
     (let first = (if first < 0 then 0 else first);
          second = (if second < 0 then 0 else second)
      in if first > i64 (MaxInt64 - second) then MaxInt64 else i64 (first + second))"

lemma saturatingUsageAdd_spec [i64_spec]:
  "in_i64 a \<Longrightarrow> in_i64 b \<Longrightarrow> saturatingUsageAdd a b = sat_sum a b"
  by (auto simp: saturatingUsageAdd_def sat_sum_def in_i64_def Let_def)

definition EstimatedUsage_TotalTokens :: "EstimatedUsage \<Rightarrow> int" where
  "EstimatedUsage_TotalTokens u = saturatingUsageAdd (eu_InputTokens u) (eu_ReservedOutputTokens u)"

definition ActualUsage_TotalTokens :: "ActualUsage \<Rightarrow> int" where
  "ActualUsage_TotalTokens u = saturatingUsageAdd (au_InputTokens u) (au_OutputTokens u)"

section \<open>Scopes, limits and tickets\<close>

record ScopeRef =
  sr_Kind :: string
  sr_ID :: string

definition ScopeKey :: string where
  "ScopeKey = ''key''"

text \<open>
  The allow lists are slices: \<open>None\<close> is the nil slice, which \<open>reflect.DeepEqual\<close> tells apart
  from an empty one.
\<close>

record LimitSpec =
  ls_RPM :: int
  ls_TPM :: int
  ls_MaxParallel :: int
  ls_MaxSpendMicros :: int
  ls_SoftSpendMicros :: int
  ls_DailyTokens :: int
  ls_MonthlyTokens :: int
  ls_BudgetDuration :: duration
  ls_MaxInputTokens :: int
  ls_MaxOutputTokens :: int
  ls_ModelAllowlist :: "string list option"
  ls_ProviderAllowlist :: "string list option"

abbreviation zero_limit :: LimitSpec where
  "zero_limit \<equiv>
     \<lparr>ls_RPM = 0, ls_TPM = 0, ls_MaxParallel = 0, ls_MaxSpendMicros = 0, ls_SoftSpendMicros = 0,
      ls_DailyTokens = 0, ls_MonthlyTokens = 0, ls_BudgetDuration = 0, ls_MaxInputTokens = 0,
      ls_MaxOutputTokens = 0, ls_ModelAllowlist = None, ls_ProviderAllowlist = None\<rparr>"

definition slice_elems :: "'a list option \<Rightarrow> 'a list" where
  "slice_elems s = (case s of None \<Rightarrow> [] | Some xs \<Rightarrow> xs)"

lemma slice_elems_simps [simp]: "slice_elems None = []" "slice_elems (Some xs) = xs"
  by (simp_all add: slice_elems_def)

record ScopedLimit =
  sl_Ref :: ScopeRef
  sl_Limits :: LimitSpec

record QuotaTicket =
  qt_RequestID :: string
  qt_Scopes :: "ScopeRef list"

abbreviation zero_ticket :: QuotaTicket where
  "zero_ticket \<equiv> \<lparr>qt_RequestID = [], qt_Scopes = []\<rparr>"

section \<open>Requests\<close>

type_synonym Operation = string

definition OpChatCompletions :: Operation where "OpChatCompletions = ''chat.completions''"
definition OpResponses :: Operation where "OpResponses = ''responses''"
definition OpCompletions :: Operation where "OpCompletions = ''completions''"
definition OpEmbeddings :: Operation where "OpEmbeddings = ''embeddings''"

type_synonym Header = "(string, string list) gomap"

record Meta =
  m_RequestID :: string
  m_ExecutionID :: string
  m_Principal :: string
  m_User :: string
  m_Project :: string
  m_RemoteAddr :: string
  m_BodyBytes :: int
  m_Headers :: Header
  m_ReceivedAt :: instant

record RequestHints =
  h_Metadata :: "(string, string) gomap"
  h_User :: string
  h_MaxOutputTokens :: int
  h_OutputMultiplicity :: int
  h_PromptText :: string
  h_EstimatedInputTokens :: int
  h_VisionInputParts :: int
  h_AudioInputParts :: int
  h_RequiresTools :: bool
  h_RequiresStructuredOutput :: bool
  h_RequiresVision :: bool
  h_RequiresAudio :: bool
  h_RequiresReasoning :: bool
  h_ProviderUnits :: "string list"
  h_MayWritePromptCache :: bool
  h_APIVersion :: string

record Request =
  rq_Meta :: Meta
  rq_Provider :: string
  rq_Operation :: Operation
  rq_Model :: string
  rq_Stream :: bool
  rq_RawBody :: string
  rq_Hints :: RequestHints

section \<open>Routes\<close>

record LimitConfig =
  lc_RPM :: int
  lc_TPM :: int
  lc_Concurrency :: int
  lc_ProviderConcurrency :: int
  lc_MaxBodyBytes :: int
  lc_MaxResponseBytes :: int

record CircuitConfig =
  cc_Failures :: int
  cc_Cooldown :: duration

record ProviderUnitPricing =
  pu_MicrosPerUnit :: f64
  pu_MaxUnitsPerRequest :: int

record Pricing =
  p_InputPer1M :: f64
  p_OutputPer1M :: f64
  p_CacheReadPer1M :: f64
  p_CacheWritePer1M :: f64
  p_ProviderUnits :: "(string, ProviderUnitPricing) gomap"

abbreviation zero_pricing :: Pricing where
  "zero_pricing \<equiv>
     \<lparr>p_InputPer1M = Fin 0, p_OutputPer1M = Fin 0, p_CacheReadPer1M = Fin 0,
      p_CacheWritePer1M = Fin 0, p_ProviderUnits = []\<rparr>"

record Capability =
  cap_Operations :: "Operation list"
  cap_Streaming :: bool
  cap_ToolCalling :: bool
  cap_StructuredOutput :: bool
  cap_VisionInput :: bool
  cap_Audio :: bool
  cap_Reasoning :: bool
  cap_MaxInputTokens :: int
  cap_MaxOutputTokens :: int
  cap_Tokenizer :: string
  cap_VisionInputTokenSurcharge :: int
  cap_AudioInputTokenSurcharge :: int

record Route =
  r_Name :: string
  r_Provider :: string
  r_Backend :: string
  r_Model :: string
  r_UpstreamModel :: string
  r_BaseURL :: string
  r_APIKey :: string
  r_APIKeyEnv :: string
  r_Project :: string
  r_ProjectEnv :: string
  r_Location :: string
  r_LocationEnv :: string
  r_APIVersion :: string
  r_Headers :: "(string, string) gomap"
  r_Priority :: int
  r_Weight :: int
  r_Retries :: int
  r_Timeout :: duration
  r_Limits :: LimitConfig
  r_Circuit :: CircuitConfig
  r_Capabilities :: Capability
  r_Pricing :: Pricing

definition Capability_Supports :: "Capability \<Rightarrow> Operation \<Rightarrow> bool" where
  "Capability_Supports c op \<longleftrightarrow> op \<in> set (cap_Operations c)"

record EffectiveParams =
  ep_MaxOutputTokens :: int

record ResolvedRoute =
  rr_Route :: "Route option"
  rr_Request :: Request
  rr_BridgeFrom :: Operation
  rr_Headers :: Header
  rr_Effective :: "EffectiveParams option"
  rr_Estimate :: Usage

record Attempt =
  at_Number :: int
  at_Retry :: int
  at_ID :: string
  at_Route :: ResolvedRoute
  at_StartedAt :: instant

datatype ExecutionStage =
  ExecutionReserved | ExecutionDispatched | ExecutionFirstByte | ExecutionCompleted
  | ExecutionFailed | ExecutionAborted

section \<open>Errors\<close>

record APIError =
  ae_Status :: int
  ae_Type :: string
  ae_Code :: string
  ae_Param :: string
  ae_Message :: string
  ae_Retryable :: bool
  ae_Fallback :: bool
  ae_CircuitFailure :: bool
  ae_Headers :: Header
  ae_dispositionSet :: bool

datatype sentinel =
  Canceled | DeadlineExceeded | EOF | UnexpectedEOF
  | ErrQuotaReservationNotFound | ErrQuotaReservationConflict | ErrQuotaAccountingCapacity
  | ErrQuotaLimitStoreClosed | ErrEncodingNotSupported

text \<open>
  The dynamic types of the \<open>error\<close> values the gateway builds: \<open>*APIError\<close> with its cause,
  \<open>*attemptErrorMetadata\<close>, \<open>fmt.Errorf\<close> with \<open>%w\<close>, \<open>errors.Join\<close>, the package-level sentinels,
  \<open>*BatchRateLimitError\<close> and errors with only a text.
\<close>

datatype goerr =
  ApiErr APIError "goerr option"
  | AttemptMeta goerr Usage bool
  | Wrapped string goerr
  | Joined "goerr list"
  | Sentinel sentinel
  | BatchRateLimitError string
  | Plain string

definition NewError :: "int \<Rightarrow> string \<Rightarrow> string \<Rightarrow> string \<Rightarrow> APIError" where
  "NewError status typ code message =
     \<lparr>ae_Status = status, ae_Type = typ, ae_Code = code, ae_Param = [], ae_Message = message,
      ae_Retryable = False, ae_Fallback = False, ae_CircuitFailure = False, ae_Headers = [],
      ae_dispositionSet = False\<rparr>"

definition WithDisposition :: "bool \<Rightarrow> bool \<Rightarrow> bool \<Rightarrow> APIError \<Rightarrow> APIError" where
  "WithDisposition retryable fallback circuitFailure e =
     e\<lparr>ae_Retryable := retryable, ae_Fallback := fallback, ae_CircuitFailure := circuitFailure,
       ae_dispositionSet := True\<rparr>"

definition UnsupportedOperation :: "string \<Rightarrow> APIError" where
  "UnsupportedOperation message = NewError 400 ''invalid_request_error'' ''unsupported_operation'' message"

definition ModelNotFound :: "string \<Rightarrow> APIError" where
  "ModelNotFound model =
     NewError 404 ''invalid_request_error'' ''model_not_found''
       (''model '' @ quoted model @ '' is not configured'')"

definition RateLimited :: "string \<Rightarrow> APIError" where
  "RateLimited message =
     WithDisposition False True False (NewError 429 ''rate_limit_error'' ''rate_limit_exceeded'' message)"

definition Unauthorized :: "string \<Rightarrow> APIError" where
  "Unauthorized message = NewError 401 ''invalid_request_error'' ''unauthorized'' message"

definition Forbidden :: "string \<Rightarrow> APIError" where
  "Forbidden message = NewError 403 ''permission_error'' ''forbidden'' message"

abbreviation api :: "APIError \<Rightarrow> goerr" where
  "api e \<equiv> ApiErr e None"

text \<open>\<open>errors.As(err, &apiErr)\<close>: the first \<open>*APIError\<close> of the error's tree, depth first.\<close>

fun as_api :: "goerr \<Rightarrow> APIError option"
  and as_api_list :: "goerr list \<Rightarrow> APIError option" where
  "as_api (ApiErr a c) = Some a"
| "as_api (AttemptMeta e u b) = as_api e"
| "as_api (Wrapped m e) = as_api e"
| "as_api (Joined es) = as_api_list es"
| "as_api (Sentinel s) = None"
| "as_api (BatchRateLimitError k) = Some (RateLimited ''rate limit exceeded'')"
| "as_api (Plain m) = None"
| "as_api_list [] = None"
| "as_api_list (e # es) = (case as_api e of Some a \<Rightarrow> Some a | None \<Rightarrow> as_api_list es)"

text \<open>\<open>errors.Is(err, s)\<close> for a sentinel \<open>s\<close>.\<close>

fun err_is :: "sentinel \<Rightarrow> goerr \<Rightarrow> bool"
  and err_is_list :: "sentinel \<Rightarrow> goerr list \<Rightarrow> bool" where
  "err_is s (ApiErr a None) = False"
| "err_is s (ApiErr a (Some c)) = err_is s c"
| "err_is s (AttemptMeta e u b) = err_is s e"
| "err_is s (Wrapped m e) = err_is s e"
| "err_is s (Joined es) = err_is_list s es"
| "err_is s (Sentinel t) = (s = t)"
| "err_is s (BatchRateLimitError k) = False"
| "err_is s (Plain m) = False"
| "err_is_list s [] = False"
| "err_is_list s (e # es) = (err_is s e \<or> err_is_list s es)"

text \<open>Writing through the pointer that \<open>errors.As\<close> finds; a batch error builds a fresh one each time.\<close>

fun upd_api :: "(APIError \<Rightarrow> APIError) \<Rightarrow> goerr \<Rightarrow> goerr"
  and upd_api_list :: "(APIError \<Rightarrow> APIError) \<Rightarrow> goerr list \<Rightarrow> goerr list" where
  "upd_api f (ApiErr a c) = ApiErr (f a) c"
| "upd_api f (AttemptMeta e u b) = AttemptMeta (upd_api f e) u b"
| "upd_api f (Wrapped m e) = Wrapped m (upd_api f e)"
| "upd_api f (Joined es) = Joined (upd_api_list f es)"
| "upd_api f (Sentinel s) = Sentinel s"
| "upd_api f (BatchRateLimitError k) = BatchRateLimitError k"
| "upd_api f (Plain m) = Plain m"
| "upd_api_list f [] = []"
| "upd_api_list f (e # es) =
     (case as_api e of Some _ \<Rightarrow> upd_api f e # es | None \<Rightarrow> e # upd_api_list f es)"

definition AllowFallback :: "goerr \<Rightarrow> goerr" where
  "AllowFallback err = upd_api (\<lambda>a. a\<lparr>ae_Fallback := True, ae_dispositionSet := True\<rparr>) err"

definition DisallowFallback :: "goerr \<Rightarrow> goerr" where
  "DisallowFallback err = upd_api (\<lambda>a. a\<lparr>ae_Fallback := False, ae_dispositionSet := True\<rparr>) err"

definition AsAPIError :: "goerr \<Rightarrow> APIError" where
  "AsAPIError err =
     (case as_api err of
        Some a \<Rightarrow> a
      | None \<Rightarrow> NewError 500 ''server_error'' ''internal_error'' ''internal server error'')"

definition errors_Join :: "goerr option list \<Rightarrow> goerr option" where
  "errors_Join errs =
     (let es = map the (filter (\<lambda>e. e \<noteq> None) errs) in if es = [] then None else Some (Joined es))"

definition WithAttemptUsage :: "goerr \<Rightarrow> Usage \<Rightarrow> goerr" where
  "WithAttemptUsage err usage = AttemptMeta err usage False"

definition WithoutAttemptCharge :: "goerr \<Rightarrow> goerr" where
  "WithoutAttemptCharge err = AttemptMeta err zero_usage True"

fun as_meta :: "goerr \<Rightarrow> (Usage \<times> bool) option"
  and as_meta_list :: "goerr list \<Rightarrow> (Usage \<times> bool) option" where
  "as_meta (ApiErr a None) = None"
| "as_meta (ApiErr a (Some c)) = as_meta c"
| "as_meta (AttemptMeta e u b) = Some (u, b)"
| "as_meta (Wrapped m e) = as_meta e"
| "as_meta (Joined es) = as_meta_list es"
| "as_meta (Sentinel s) = None"
| "as_meta (BatchRateLimitError k) = None"
| "as_meta (Plain m) = None"
| "as_meta_list [] = None"
| "as_meta_list (e # es) = (case as_meta e of Some a \<Rightarrow> Some a | None \<Rightarrow> as_meta_list es)"

text \<open>The usage, whether it is known, and whether the attempt is unbillable.\<close>

definition attemptErrorUsage :: "goerr \<Rightarrow> Usage \<times> bool \<times> bool" where
  "attemptErrorUsage err =
     (case as_meta err of
        None \<Rightarrow> (zero_usage, False, False)
      | Some (usage, unbillable) \<Rightarrow> (usage, \<not> Usage_IsZero usage, unbillable))"

definition AttemptUnbillable :: "goerr \<Rightarrow> bool" where
  "AttemptUnbillable err = snd (snd (attemptErrorUsage err))"

definition providerStatusError :: "int \<Rightarrow> APIError" where
  "providerStatusError status =
     (if status < 200 \<or> (300 \<le> status \<and> status < 400) \<or> status > 599 then
        WithDisposition False True True
          (NewError 502 ''upstream_error'' ''unexpected_upstream_status''
             ''upstream returned an unexpected HTTP status'')
      else if status = 401 \<or> status = 403 then
        WithDisposition False True True
          (NewError 502 ''upstream_error'' ''upstream_authentication_failed''
             ''upstream route authentication failed'')
      else if 500 \<le> status then
        WithDisposition True True True
          (NewError status ''upstream_error'' ''upstream_status''
             (''upstream returned status '' @ show_int status))
      else if status = 429 then
        WithDisposition False True False
          (NewError status ''rate_limit_error'' ''upstream_rate_limit'' ''upstream rate limit exceeded'')
      else NewError status ''upstream_error'' ''upstream_status'' ''upstream rejected the request'')"

definition fallbackEligible :: "goerr \<Rightarrow> bool" where
  "fallbackEligible err =
     (case as_api err of
        None \<Rightarrow> True
      | Some a \<Rightarrow>
          if ae_dispositionSet a then ae_Fallback a
          else if 500 \<le> ae_Status a then True
          else if ae_Fallback a then True
          else ae_Status a \<in> {408, 409, 425, 429})"

section \<open>Results\<close>

text \<open>
  The stream of a response is the sequence of what its \<open>Read\<close> calls return, then end of file; the
  usage snapshot is the value its function has at the end.
\<close>

type_synonym rawStream = "(string \<times> goerr option) list"

record Result =
  rs_Provider :: string
  rs_Route :: string
  rs_Model :: string
  rs_AttemptID :: string
  rs_Headers :: Header
  rs_ContentType :: string
  rs_RawBody :: string
  rs_RawStream :: "rawStream option"
  rs_Usage :: Usage
  rs_UsageSnapshot :: "Usage option"
  rs_StatusCode :: int

definition FinalUsage :: "Result option \<Rightarrow> Usage" where
  "FinalUsage result =
     (case result of
        None \<Rightarrow> zero_usage
      | Some r \<Rightarrow>
          (case rs_UsageSnapshot r of
             Some usage \<Rightarrow> if \<not> Usage_IsZero usage then usage else rs_Usage r
           | None \<Rightarrow> rs_Usage r))"

section \<open>Facts about errors\<close>

lemmas api_defs = NewError_def WithDisposition_def UnsupportedOperation_def RateLimited_def
  Unauthorized_def Forbidden_def ModelNotFound_def

lemma as_api_api [simp]: "as_api (api a) = Some a"
  by simp

lemma as_api_upd_None [simp]: "as_api (upd_api f e) = None \<longleftrightarrow> as_api e = None"
  and as_api_upd_list_None [simp]: "as_api_list (upd_api_list f es) = None \<longleftrightarrow> as_api_list es = None"
  by (induction f e and f es rule: upd_api_upd_api_list.induct) (auto split: option.splits)

text \<open>After an update the found error is the updated one, or a batch rejection, which is rebuilt.\<close>

lemma as_api_upd:
  "as_api (upd_api f e) = Some b \<Longrightarrow> (\<exists>a. as_api e = Some a \<and> (b = f a \<or> b = a))"
  and as_api_upd_list:
  "as_api_list (upd_api_list f es) = Some b \<Longrightarrow>
     (\<exists>a. as_api_list es = Some a \<and> (b = f a \<or> b = a))"
  by (induction f e and f es rule: upd_api_upd_api_list.induct)
    (auto split: option.splits dest: as_api_upd_None [THEN iffD1])


section \<open>Sample values\<close>

text \<open>A route, a request and a usage that the worked examples of the components share.\<close>

definition demo_usage :: Usage where
  "demo_usage = zero_usage\<lparr>u_InputTokens := 100, u_OutputTokens := 20, u_TotalTokens := 150\<rparr>"

definition demo_pricing :: Pricing where
  "demo_pricing = zero_pricing\<lparr>p_InputPer1M := Fin 3, p_OutputPer1M := Fin (1 / 2)\<rparr>"

definition demo_route :: Route where
  "demo_route = \<lparr>r_Name = ''a'', r_Provider = ''openai'', r_Backend = [], r_Model = ''gpt'', r_UpstreamModel = ''gpt'',
     r_BaseURL = [], r_APIKey = [], r_APIKeyEnv = [], r_Project = [], r_ProjectEnv = [], r_Location = [],
     r_LocationEnv = [], r_APIVersion = [], r_Headers = [], r_Priority = 0, r_Weight = 1, r_Retries = 0,
     r_Timeout = 0,
     r_Limits = \<lparr>lc_RPM = 0, lc_TPM = 0, lc_Concurrency = 0, lc_ProviderConcurrency = 0, lc_MaxBodyBytes = 0,
       lc_MaxResponseBytes = 0\<rparr>,
     r_Circuit = \<lparr>cc_Failures = 3, cc_Cooldown = Second\<rparr>,
     r_Capabilities = \<lparr>cap_Operations = [OpChatCompletions], cap_Streaming = True, cap_ToolCalling = False,
       cap_StructuredOutput = False, cap_VisionInput = False, cap_Audio = False, cap_Reasoning = False,
       cap_MaxInputTokens = 0, cap_MaxOutputTokens = 0, cap_Tokenizer = [], cap_VisionInputTokenSurcharge = 0,
       cap_AudioInputTokenSurcharge = 0\<rparr>,
     r_Pricing = demo_pricing\<rparr>"

definition demo_request :: Request where
  "demo_request = \<lparr>rq_Meta = \<lparr>m_RequestID = ''r1'', m_ExecutionID = ''x1'', m_Principal = ''p'', m_User = [],
       m_Project = [], m_RemoteAddr = [], m_BodyBytes = 0, m_Headers = [], m_ReceivedAt = 0\<rparr>,
     rq_Provider = [], rq_Operation = OpChatCompletions, rq_Model = ''gpt'', rq_Stream = False, rq_RawBody = [],
     rq_Hints = \<lparr>h_Metadata = [], h_User = [], h_MaxOutputTokens = 0, h_OutputMultiplicity = 0, h_PromptText = [],
       h_EstimatedInputTokens = 0, h_VisionInputParts = 0, h_AudioInputParts = 0, h_RequiresTools = False,
       h_RequiresStructuredOutput = False, h_RequiresVision = False, h_RequiresAudio = False,
       h_RequiresReasoning = False, h_ProviderUnits = [], h_MayWritePromptCache = False, h_APIVersion = []\<rparr>\<rparr>"

definition demo_resolved :: ResolvedRoute where
  "demo_resolved = \<lparr>rr_Route = Some demo_route, rr_Request = demo_request, rr_BridgeFrom = [], rr_Headers = [],
     rr_Effective = None, rr_Estimate = demo_usage\<rparr>"

end
