(* ===== verification/Quota_Keys.thy ===== *)
theory Quota_Keys
  imports Gateway_Types
begin

text \<open>
  The accounting keys of a quota scope (\<open>store/store.go\<close>: \<open>quotaKeysForScope\<close>,
  \<open>quotaExpiriesForLimit\<close>, \<open>budgetBucket\<close>, \<open>timeUntilNextMinute\<close>) with the calendar functions of
  package \<open>time\<close> they format. The lemmas show that a key can be read back: it names one metric of
  one scope, so two scopes or two metrics never share a counter.
\<close>

section \<open>The UTC calendar\<close>

abbreviation Day :: duration where "Day \<equiv> 86400000000000"

definition unix_epoch :: instant where
  "unix_epoch = 62135596800 * Second"

text \<open>Days since January 1 of year 1 to year, month and day (proleptic Gregorian calendar).\<close>

definition civil :: "int \<Rightarrow> int \<times> int \<times> int" where
  "civil days =
     (let z = days + 306;
          era = z div 146097;
          doe = z mod 146097;
          yoe = (doe - doe div 1460 + doe div 36524 - doe div 146096) div 365;
          doy = doe - (365 * yoe + yoe div 4 - yoe div 100);
          mp = (5 * doy + 2) div 153;
          d = doy - (153 * mp + 2) div 5 + 1;
          m = (if mp < 10 then mp + 3 else mp - 9);
          y = yoe + era * 400
      in (if m \<le> 2 then y + 1 else y, m, d))"

definition days_from_civil :: "int \<Rightarrow> int \<Rightarrow> int \<Rightarrow> int" where
  "days_from_civil y m d =
     (let y' = (if m \<le> 2 then y - 1 else y);
          era = y' div 400;
          yoe = y' mod 400;
          mp = (m + 9) mod 12;
          doy = (153 * mp + 2) div 5 + d - 1;
          doe = yoe * 365 + yoe div 4 - yoe div 100 + doy
      in era * 146097 + doe - 306)"

text \<open>\<open>time.Date(y, m, d, 0, 0, 0, 0, time.UTC)\<close>, with months and days out of range carried over.\<close>

definition time_Date :: "int \<Rightarrow> int \<Rightarrow> int \<Rightarrow> instant" where
  "time_Date y m d =
     (days_from_civil (y + (m - 1) div 12) ((m - 1) mod 12 + 1) 1 + (d - 1)) * Day"

definition utc_Year :: "instant \<Rightarrow> int" where
  "utc_Year t = fst (civil (t div Day))"

definition utc_Month :: "instant \<Rightarrow> int" where
  "utc_Month t = fst (snd (civil (t div Day)))"

definition utc_Day :: "instant \<Rightarrow> int" where
  "utc_Day t = snd (snd (civil (t div Day)))"

definition pad :: "nat \<Rightarrow> int \<Rightarrow> string" where
  "pad w i = (let s = show_nat (nat i) in replicate (w - length s) (CHR ''0'') @ s)"

text \<open>\<open>Format("200601")\<close>, \<open>Format("20060102")\<close>, \<open>Format("200601021504")\<close>.\<close>

definition format_month :: "instant \<Rightarrow> string" where
  "format_month t = pad 4 (utc_Year t) @ pad 2 (utc_Month t)"

definition format_day :: "instant \<Rightarrow> string" where
  "format_day t = format_month t @ pad 2 (utc_Day t)"

definition format_minute :: "instant \<Rightarrow> string" where
  "format_minute t = format_day t @ pad 2 (t mod Day div Hour) @ pad 2 (t mod Hour div Minute)"

text \<open>\<open>time.RFC3339Nano\<close> in UTC: the fraction of the second without trailing zeros.\<close>

definition fraction :: "instant \<Rightarrow> string" where
  "fraction t =
     (let f = rev (dropWhile (\<lambda>c. c = CHR ''0'') (rev (pad 9 (t mod Second))))
      in if f = [] then [] else CHR ''.'' # f)"

definition format_rfc3339nano :: "instant \<Rightarrow> string" where
  "format_rfc3339nano t =
     pad 4 (utc_Year t) @ ''-'' @ pad 2 (utc_Month t) @ ''-'' @ pad 2 (utc_Day t) @ ''T'' @
     pad 2 (t mod Day div Hour) @ '':'' @ pad 2 (t mod Hour div Minute) @ '':'' @
     pad 2 (t mod Minute div Second) @ fraction t @ ''Z''"

section \<open>Keys and expiries\<close>

record quotaKeys =
  k_active :: string
  k_rpm :: string
  k_tpm :: string
  k_spendUsed :: string
  k_spendHeld :: string
  k_dayUsed :: string
  k_dayHeld :: string
  k_monthUsed :: string
  k_monthHeld :: string

record quotaExpiries =
  x_spendUsed :: instant
  x_dayUsed :: instant
  x_monthUsed :: instant

definition budgetBucketStart :: "duration \<Rightarrow> instant \<Rightarrow> instant" where
  "budgetBucketStart period now =
     (if period \<le> 0 then 0
      else
        let unixNanos = i64 (now - unix_epoch);
            remainder = go_mod unixNanos period;
            remainder = (if remainder < 0 then i64 (remainder + period) else remainder)
        in unix_epoch + i64 (unixNanos - remainder))"

definition budgetBucket :: "duration \<Rightarrow> instant \<Rightarrow> string" where
  "budgetBucket period now =
     (if period \<le> 0 then ''forever''
      else show_int period @ '':'' @ format_rfc3339nano (budgetBucketStart period now))"

definition quotaKeysForScope :: "ScopeRef \<Rightarrow> LimitSpec \<Rightarrow> instant \<Rightarrow> quotaKeys" where
  "quotaKeysForScope ref limit now =
     (let prefix = ''quota:'' @ sr_Kind ref @ '':'' @ sr_ID ref;
          spend = ls_MaxSpendMicros limit > 0 \<or> ls_SoftSpendMicros limit > 0;
          bucket = budgetBucket (ls_BudgetDuration limit) now
      in \<lparr>k_active = (if ls_MaxParallel limit > 0 then prefix @ '':active'' else []),
          k_rpm = (if ls_RPM limit > 0 then prefix @ '':rpm:'' @ format_minute now else []),
          k_tpm = (if ls_TPM limit > 0 then prefix @ '':tpm:'' @ format_minute now else []),
          k_spendUsed = (if spend then prefix @ '':used:spend:'' @ bucket else []),
          k_spendHeld = (if spend then prefix @ '':held:spend:'' @ bucket else []),
          k_dayUsed = (if ls_DailyTokens limit > 0 then prefix @ '':used:day:'' @ format_day now else []),
          k_dayHeld = (if ls_DailyTokens limit > 0 then prefix @ '':held:day:'' @ format_day now else []),
          k_monthUsed =
            (if ls_MonthlyTokens limit > 0 then prefix @ '':used:month:'' @ format_month now else []),
          k_monthHeld =
            (if ls_MonthlyTokens limit > 0 then prefix @ '':held:month:'' @ format_month now else [])\<rparr>)"

definition quotaBucketExpiryGrace :: duration where
  "quotaBucketExpiryGrace = Hour"

definition quotaExpiriesForLimit :: "LimitSpec \<Rightarrow> instant \<Rightarrow> quotaExpiries" where
  "quotaExpiriesForLimit limit now =
     \<lparr>x_spendUsed =
        (if ls_BudgetDuration limit > 0
         then budgetBucketStart (ls_BudgetDuration limit) now + ls_BudgetDuration limit + quotaBucketExpiryGrace
         else 0),
      x_dayUsed =
        (if ls_DailyTokens limit > 0
         then time_Date (utc_Year now) (utc_Month now) (utc_Day now + 1) + quotaBucketExpiryGrace
         else 0),
      x_monthUsed =
        (if ls_MonthlyTokens limit > 0
         then time_Date (utc_Year now) (utc_Month now + 1) 1 + quotaBucketExpiryGrace
         else 0)\<rparr>"

text \<open>\<open>now.UTC().Truncate(time.Minute).Add(time.Minute).Sub(now.UTC())\<close>; Truncate rounds down from Go's zero time.\<close>

definition timeUntilNextMinute :: "instant \<Rightarrow> duration" where
  "timeUntilNextMinute now = t_Sub (now - now mod Minute + Minute) now"

lemma timeUntilNextMinute_range: "0 < timeUntilNextMinute now \<and> timeUntilNextMinute now \<le> Minute"
proof -
  have "0 \<le> now mod Minute" "now mod Minute < Minute" by simp_all
  then show ?thesis by (simp add: timeUntilNextMinute_def t_Sub_def)
qed

section \<open>Reading a key back\<close>

definition colon_free :: "string \<Rightarrow> bool" where
  "colon_free s \<longleftrightarrow> CHR '':'' \<notin> set s"

lemma colon_free_append [simp]: "colon_free (a @ b) \<longleftrightarrow> colon_free a \<and> colon_free b"
  by (auto simp: colon_free_def)

lemma colon_free_Cons [simp]: "colon_free (c # s) \<longleftrightarrow> c \<noteq> CHR '':'' \<and> colon_free s"
  by (auto simp: colon_free_def)

lemma colon_free_Nil [simp]: "colon_free []"
  by (simp add: colon_free_def)

definition is_digit :: "char \<Rightarrow> bool" where
  "is_digit c \<longleftrightarrow> 48 \<le> byte c \<and> byte c \<le> 57"

lemma digit_char_digit: "d < 10 \<Longrightarrow> is_digit (digit_char d)"
  by (simp add: is_digit_def digit_char_def)

lemma show_nat_digits: "c \<in> set (show_nat n) \<Longrightarrow> is_digit c"
proof (induction n rule: show_nat.induct)
  case (1 n)
  show ?case
  proof (cases "n < 10")
    case True
    with "1.prems" show ?thesis by (auto simp: show_nat.simps [of n] digit_char_digit)
  next
    case False
    with "1.prems" have "c \<in> set (show_nat (n div 10)) \<or> c = digit_char (n mod 10)"
      by (auto simp: show_nat.simps [of n])
    with False "1.IH" show ?thesis by (auto simp: digit_char_digit)
  qed
qed

lemma pad_digits: "c \<in> set (pad w i) \<Longrightarrow> is_digit c"
  by (auto simp: pad_def Let_def is_digit_def dest!: show_nat_digits)

lemma pad_nonempty [simp]: "pad w i \<noteq> []"
  by (simp add: pad_def Let_def)

lemma colon_free_digits: "(\<And>c. c \<in> set s \<Longrightarrow> is_digit c) \<Longrightarrow> colon_free s"
  by (force simp: colon_free_def is_digit_def)

lemma colon_free_pad [simp]: "colon_free (pad w i)"
  by (rule colon_free_digits) (rule pad_digits)

lemma colon_free_show_int [simp]: "colon_free (show_int i)"
  by (auto simp: show_int_def intro!: colon_free_digits dest: show_nat_digits)

lemma colon_free_fraction [simp]: "colon_free (fraction t)"
proof -
  have "colon_free (rev (dropWhile P (rev (pad 9 (t mod Second)))))" for P
    using colon_free_pad [of 9 "t mod Second"]
    by (auto simp: colon_free_def dest: set_dropWhileD)
  then show ?thesis by (simp add: fraction_def Let_def)
qed

lemma colon_free_format [simp]:
  "colon_free (format_month t)" "colon_free (format_day t)" "colon_free (format_minute t)"
  by (simp_all add: format_month_def format_day_def format_minute_def)

abbreviation comps :: "string \<Rightarrow> string list" where
  "comps s \<equiv> rev (SplitByte (CHR '':'') s)"

lemma SplitByte_nonempty [simp]: "SplitByte c s \<noteq> []"
  by (induction s) (auto split: list.splits)

lemma SplitByte_append:
  "SplitByte c (a @ c # b) = SplitByte c a @ SplitByte c b"
  by (induction a) (auto split: list.splits)

lemma SplitByte_free: "colon_free s \<Longrightarrow> SplitByte (CHR '':'') s = [s]"
  by (induction s) auto

lemma SplitByte_inj: "SplitByte c a = SplitByte c b \<Longrightarrow> a = b"
proof (induction a arbitrary: b)
  case Nil
  then show ?case by (cases b) (auto dest: sym [of "[]"] split: if_splits list.splits)
next
  case (Cons x a)
  show ?case
  proof (cases b)
    case Nil
    with Cons.prems show ?thesis by (auto split: if_splits list.splits)
  next
    case (Cons y b')
    have na: "SplitByte c a \<noteq> []" and nb: "SplitByte c b' \<noteq> []" by simp_all
    then obtain h t h' t' where "SplitByte c a = h # t" "SplitByte c b' = h' # t'"
      by (meson list.exhaust)
    with Cons.prems Cons Cons.IH [of b'] show ?thesis by (auto split: if_splits)
  qed
qed

text \<open>The metric a key accounts for, and the components of the scope's prefix, innermost last.\<close>

datatype metric = Active | Rpm | Tpm | SpendUsed | SpendHeld | DayUsed | DayHeld | MonthUsed | MonthHeld

fun held_or_used :: "metric \<Rightarrow> metric \<Rightarrow> string list \<Rightarrow> (metric \<times> string list) option" where
  "held_or_used h u (w # rest) =
     (if w = ''held'' then Some (h, rest) else if w = ''used'' then Some (u, rest) else None)"
| "held_or_used h u [] = None"

definition parse_comps :: "string list \<Rightarrow> (metric \<times> string list) option" where
  "parse_comps cs =
     (case cs of
        [] \<Rightarrow> None
      | a # cs1 \<Rightarrow>
          if a = ''active'' then Some (Active, cs1)
          else (case cs1 of
             [] \<Rightarrow> None
           | b # cs2 \<Rightarrow>
               if b = ''rpm'' then Some (Rpm, cs2)
               else if b = ''tpm'' then Some (Tpm, cs2)
               else if b = ''day'' then held_or_used DayHeld DayUsed cs2
               else if b = ''month'' then held_or_used MonthHeld MonthUsed cs2
               else if b = ''spend'' then held_or_used SpendHeld SpendUsed cs2
               else (case drop 3 cs1 of
                  e # cs5 \<Rightarrow> if e = ''spend'' then held_or_used SpendHeld SpendUsed cs5 else None
                | [] \<Rightarrow> None)))"

definition parse_key :: "string \<Rightarrow> (metric \<times> string list) option" where
  "parse_key key = parse_comps (comps key)"

definition scope_prefix :: "ScopeRef \<Rightarrow> string" where
  "scope_prefix ref = ''quota:'' @ sr_Kind ref @ '':'' @ sr_ID ref"

lemma comps_append: "comps (p @ CHR '':'' # s) = comps s @ comps p"
  by (simp add: SplitByte_append)

lemma comps_free: "colon_free s \<Longrightarrow> comps s = [s]"
  by (simp add: SplitByte_free)

lemma not_word_of_digit: "is_digit c \<Longrightarrow> c \<in> set s \<Longrightarrow> s \<notin> {''active'', ''rpm'', ''tpm'', ''day'', ''month'', ''spend''}"
  by (auto simp: is_digit_def)

lemma pad_not_word: "set (pad w i) \<subseteq> set s \<Longrightarrow> s \<notin> {''active'', ''rpm'', ''tpm'', ''day'', ''month'', ''spend''}"
  by (meson not_word_of_digit pad_digits pad_nonempty set_empty subset_iff all_not_in_conv)

lemma format_not_word:
  "format_month t \<noteq> ''active''" "format_day t \<noteq> ''active''" "format_minute t \<noteq> ''active''"
  using pad_not_word [of 4 "utc_Year t" "format_month t"]
    pad_not_word [of 4 "utc_Year t" "format_day t"]
    pad_not_word [of 4 "utc_Year t" "format_minute t"]
  by (simp_all add: format_month_def format_day_def format_minute_def subset_iff)

lemma comps_bucket:
  "period \<le> 0 \<Longrightarrow> comps (budgetBucket period now) = [''forever'']"
  "0 < period \<Longrightarrow> \<exists>s m h. comps (budgetBucket period now) = [s, m, h, show_int period] \<and>
     s \<noteq> ''active'' \<and> m \<notin> {''rpm'', ''tpm'', ''day'', ''month'', ''spend''}"
proof -
  show "period \<le> 0 \<Longrightarrow> comps (budgetBucket period now) = [''forever'']"
    by (simp add: budgetBucket_def)
next
  assume p: "0 < period"
  let ?t = "budgetBucketStart period now"
  let ?s = "pad 2 (?t mod Minute div Second) @ fraction ?t @ ''Z''"
  let ?m = "pad 2 (?t mod Hour div Minute)"
  let ?h = "pad 4 (utc_Year ?t) @ ''-'' @ pad 2 (utc_Month ?t) @ ''-'' @ pad 2 (utc_Day ?t) @ ''T'' @
     pad 2 (?t mod Day div Hour)"
  have eq: "budgetBucket period now = show_int period @ CHR '':'' # (?h @ CHR '':'' # (?m @ CHR '':'' # ?s))"
    using p by (simp add: budgetBucket_def format_rfc3339nano_def)
  have fs: "comps ?s = [?s]" by (rule comps_free) simp
  have fm: "comps ?m = [?m]" by (rule comps_free) simp
  have fh: "comps ?h = [?h]" by (rule comps_free) simp
  have fp: "comps (show_int period) = [show_int period]" by (rule comps_free) simp
  have "comps (budgetBucket period now) = [?s, ?m, ?h, show_int period]"
    unfolding eq comps_append fs fm fh fp by simp
  moreover have "?s \<noteq> ''active''"
    using pad_not_word [of 2 "?t mod Minute div Second" ?s] by auto
  moreover have "?m \<notin> {''rpm'', ''tpm'', ''day'', ''month'', ''spend''}"
    using pad_not_word [of 2 "?t mod Hour div Minute" ?m] by auto
  ultimately show "\<exists>s m h. comps (budgetBucket period now) = [s, m, h, show_int period] \<and>
     s \<noteq> ''active'' \<and> m \<notin> {''rpm'', ''tpm'', ''day'', ''month'', ''spend''}"
    by blast
qed

lemma comps_tagged:
  "comps (p @ '':active'') = ''active'' # comps p"
  "comps (p @ '':rpm:'' @ s) = comps s @ ''rpm'' # comps p"
  "comps (p @ '':tpm:'' @ s) = comps s @ ''tpm'' # comps p"
  "comps (p @ '':used:day:'' @ s) = comps s @ ''day'' # ''used'' # comps p"
  "comps (p @ '':held:day:'' @ s) = comps s @ ''day'' # ''held'' # comps p"
  "comps (p @ '':used:month:'' @ s) = comps s @ ''month'' # ''used'' # comps p"
  "comps (p @ '':held:month:'' @ s) = comps s @ ''month'' # ''held'' # comps p"
  "comps (p @ '':used:spend:'' @ s) = comps s @ ''spend'' # ''used'' # comps p"
  "comps (p @ '':held:spend:'' @ s) = comps s @ ''spend'' # ''held'' # comps p"
  by (simp_all add: SplitByte_append split: list.splits)

lemma parse_spend:
  "parse_comps (comps (budgetBucket period now) @ ''spend'' # w # rest) =
     held_or_used SpendHeld SpendUsed (w # rest)"
proof (cases "0 < period")
  case False
  then show ?thesis by (simp add: comps_bucket parse_comps_def)
next
  case True
  then obtain s m h where "comps (budgetBucket period now) = [s, m, h, show_int period]"
    "s \<noteq> ''active''" "m \<notin> {''rpm'', ''tpm'', ''day'', ''month'', ''spend''}"
    using comps_bucket(2) by blast
  then show ?thesis by (simp add: parse_comps_def del: held_or_used.simps)
qed

text \<open>Every key of a scope reads back as its metric and the scope's prefix.\<close>

definition key_of :: "metric \<Rightarrow> quotaKeys \<Rightarrow> string" where
  "key_of mt ks =
     (case mt of Active \<Rightarrow> k_active ks | Rpm \<Rightarrow> k_rpm ks | Tpm \<Rightarrow> k_tpm ks
      | SpendUsed \<Rightarrow> k_spendUsed ks | SpendHeld \<Rightarrow> k_spendHeld ks | DayUsed \<Rightarrow> k_dayUsed ks
      | DayHeld \<Rightarrow> k_dayHeld ks | MonthUsed \<Rightarrow> k_monthUsed ks | MonthHeld \<Rightarrow> k_monthHeld ks)"

lemma quotaKeys_sel:
  "k_active (quotaKeysForScope ref limit now) =
     (if ls_MaxParallel limit > 0 then scope_prefix ref @ '':active'' else [])"
  "k_rpm (quotaKeysForScope ref limit now) =
     (if ls_RPM limit > 0 then scope_prefix ref @ '':rpm:'' @ format_minute now else [])"
  "k_tpm (quotaKeysForScope ref limit now) =
     (if ls_TPM limit > 0 then scope_prefix ref @ '':tpm:'' @ format_minute now else [])"
  "k_spendUsed (quotaKeysForScope ref limit now) =
     (if ls_MaxSpendMicros limit > 0 \<or> ls_SoftSpendMicros limit > 0
      then scope_prefix ref @ '':used:spend:'' @ budgetBucket (ls_BudgetDuration limit) now else [])"
  "k_spendHeld (quotaKeysForScope ref limit now) =
     (if ls_MaxSpendMicros limit > 0 \<or> ls_SoftSpendMicros limit > 0
      then scope_prefix ref @ '':held:spend:'' @ budgetBucket (ls_BudgetDuration limit) now else [])"
  "k_dayUsed (quotaKeysForScope ref limit now) =
     (if ls_DailyTokens limit > 0 then scope_prefix ref @ '':used:day:'' @ format_day now else [])"
  "k_dayHeld (quotaKeysForScope ref limit now) =
     (if ls_DailyTokens limit > 0 then scope_prefix ref @ '':held:day:'' @ format_day now else [])"
  "k_monthUsed (quotaKeysForScope ref limit now) =
     (if ls_MonthlyTokens limit > 0 then scope_prefix ref @ '':used:month:'' @ format_month now else [])"
  "k_monthHeld (quotaKeysForScope ref limit now) =
     (if ls_MonthlyTokens limit > 0 then scope_prefix ref @ '':held:month:'' @ format_month now else [])"
  by (simp_all add: quotaKeysForScope_def scope_prefix_def Let_def)

lemma parse_tagged:
  "parse_key (p @ '':active'') = Some (Active, comps p)"
  "parse_key (p @ '':rpm:'' @ format_minute now) = Some (Rpm, comps p)"
  "parse_key (p @ '':tpm:'' @ format_minute now) = Some (Tpm, comps p)"
  "parse_key (p @ '':used:day:'' @ format_day now) = Some (DayUsed, comps p)"
  "parse_key (p @ '':held:day:'' @ format_day now) = Some (DayHeld, comps p)"
  "parse_key (p @ '':used:month:'' @ format_month now) = Some (MonthUsed, comps p)"
  "parse_key (p @ '':held:month:'' @ format_month now) = Some (MonthHeld, comps p)"
  "parse_key (p @ '':used:spend:'' @ budgetBucket period now) = Some (SpendUsed, comps p)"
  "parse_key (p @ '':held:spend:'' @ budgetBucket period now) = Some (SpendHeld, comps p)"
  unfolding parse_key_def comps_tagged parse_spend
  by (simp_all add: comps_free parse_comps_def format_not_word)

theorem parse_key_of:
  assumes "key_of mt (quotaKeysForScope ref limit now) \<noteq> []"
  shows "parse_key (key_of mt (quotaKeysForScope ref limit now)) = Some (mt, comps (scope_prefix ref))"
  using assms unfolding key_of_def
  by (cases mt) (auto simp only: metric.case quotaKeys_sel parse_tagged split: if_splits)

lemma parse_key_Nil [simp]: "parse_key [] = None"
  by (simp add: parse_key_def parse_comps_def)

text \<open>The metric of a key, \<open>None\<close> for a string that is no accounting key.\<close>

definition metric_of :: "string \<Rightarrow> metric option" where
  "metric_of key = map_option fst (parse_key key)"

lemma metric_of_Nil [simp]: "metric_of [] = None"
  by (simp add: metric_of_def)

lemma metric_of_key:
  "key_of mt (quotaKeysForScope ref limit now) \<noteq> [] \<Longrightarrow>
     metric_of (key_of mt (quotaKeysForScope ref limit now)) = Some mt"
  by (simp add: metric_of_def parse_key_of)

text \<open>Two scopes of the same kind share a key only when they are the same scope and metric.\<close>

lemma quota_key_inj:
  assumes "key_of mt (quotaKeysForScope ref limit now) = key_of mt' (quotaKeysForScope ref' limit' now')"
    and "key_of mt (quotaKeysForScope ref limit now) \<noteq> []"
    and "sr_Kind ref = sr_Kind ref'"
  shows "mt = mt' \<and> ref = ref'"
proof -
  have "parse_key (key_of mt (quotaKeysForScope ref limit now)) = Some (mt, comps (scope_prefix ref))"
    using assms(2) by (rule parse_key_of)
  moreover have "parse_key (key_of mt' (quotaKeysForScope ref' limit' now')) = Some (mt', comps (scope_prefix ref'))"
    using assms(1,2) by (intro parse_key_of) simp
  ultimately have mt: "mt = mt'" and "comps (scope_prefix ref) = comps (scope_prefix ref')"
    using assms(1) by simp_all
  then have "SplitByte (CHR '':'') (scope_prefix ref) = SplitByte (CHR '':'') (scope_prefix ref')"
    by simp
  then have "scope_prefix ref = scope_prefix ref'" by (rule SplitByte_inj)
  with assms(3) have "sr_ID ref = sr_ID ref'" by (simp add: scope_prefix_def)
  with assms(3) mt show ?thesis by simp
qed

end
