(* ===== verification/Memory_Quota_Store.thy ===== *)
theory Memory_Quota_Store
  imports Quota_Keys
begin

text \<open>
  \<open>store/store.go\<close>: the in-memory quota store and the in-memory counter store. Every public method
  is one function from the receiver's state to the result and the new state; the mutex makes each
  method one atomic step. The argument \<open>ctx\<close> gives the values that the method's successive calls
  of \<open>ctx.Err()\<close> return; \<open>time.Now()\<close> takes the next reading of the store's clock.
\<close>

section \<open>Saturating arithmetic and limits\<close>

definition saturatingAddNonnegative :: "int \<Rightarrow> int \<Rightarrow> int" where
  "saturatingAddNonnegative current delta =
     (let current = (if current < 0 then 0 else current)
      in if delta < 0 then
           (if delta = MinInt64 \<or> i64 (- delta) \<ge> current then 0 else i64 (current + delta))
         else if current > i64 (MaxInt64 - delta) then MaxInt64
         else i64 (current + delta))"

fun exceedsFrom :: "int \<Rightarrow> int \<Rightarrow> int list \<Rightarrow> bool" where
  "exceedsFrom limit tot [] = False"
| "exceedsFrom limit tot (v # vs) =
     (let value = (if v < 0 then 0 else v)
      in if value > i64 (limit - tot) then True else exceedsFrom limit (i64 (tot + value)) vs)"

definition exceedsLimit :: "int \<Rightarrow> int list \<Rightarrow> bool" where
  "exceedsLimit limit values = (if limit \<le> 0 then False else exceedsFrom limit 0 values)"

definition normalizeEstimatedUsage :: "EstimatedUsage \<Rightarrow> EstimatedUsage" where
  "normalizeEstimatedUsage usage =
     (let usage = (if eu_InputTokens usage < 0 then usage\<lparr>eu_InputTokens := 0\<rparr> else usage);
          usage = (if eu_ReservedOutputTokens usage < 0 then usage\<lparr>eu_ReservedOutputTokens := 0\<rparr> else usage);
          usage = (if eu_EstimatedSpendMicros usage < 0 then usage\<lparr>eu_EstimatedSpendMicros := 0\<rparr> else usage)
      in if eu_InputTokens usage > i64 (MaxInt64 - eu_ReservedOutputTokens usage)
         then usage\<lparr>eu_InputTokens := MaxInt64, eu_ReservedOutputTokens := 0\<rparr> else usage)"

definition normalizeActualUsage :: "ActualUsage \<Rightarrow> ActualUsage" where
  "normalizeActualUsage usage =
     (let usage = (if au_InputTokens usage < 0 then usage\<lparr>au_InputTokens := 0\<rparr> else usage);
          usage = (if au_OutputTokens usage < 0 then usage\<lparr>au_OutputTokens := 0\<rparr> else usage);
          usage = (if au_SpendMicros usage < 0 then usage\<lparr>au_SpendMicros := 0\<rparr> else usage)
      in if au_InputTokens usage > i64 (MaxInt64 - au_OutputTokens usage)
         then usage\<lparr>au_InputTokens := MaxInt64, au_OutputTokens := 0\<rparr> else usage)"

definition normalizeReservationTTL :: "duration \<Rightarrow> duration" where
  "normalizeReservationTTL ttl = (if ttl \<le> 0 then 10 * Minute else ttl)"

section \<open>State\<close>

record counterEntry =
  ce_Value :: int
  ce_Expires :: instant

abbreviation zero_entry :: counterEntry where
  "zero_entry \<equiv> \<lparr>ce_Value = 0, ce_Expires = 0\<rparr>"

record memoryScopeReservation =
  ms_ref :: ScopeRef
  ms_limit :: LimitSpec
  ms_keys :: quotaKeys
  ms_expires :: quotaExpiries

record memoryReservation =
  mr_ticket :: QuotaTicket
  mr_held :: EstimatedUsage
  mr_scopes :: "memoryScopeReservation list"
  mr_expires :: instant

text \<open>An element of \<open>container/list\<close> has an identity of its own: its number in order of creation.\<close>

record memorySettlement =
  st_expires :: instant
  st_expired :: bool
  st_element :: "nat option"

record MemoryQuotaStore =
  q_values :: "string \<rightharpoonup> int"
  q_valueExpires :: "string \<rightharpoonup> instant"
  q_counters :: "string \<rightharpoonup> counterEntry"
  q_reservations :: "(string, memoryReservation) gomap"
  q_settlements :: "(string, memorySettlement) gomap"
  q_settledOrder :: "(nat \<times> string) list"
  q_nextElement :: nat
  q_clock :: clock
  q_reads :: nat
  q_diverged :: bool

text \<open>
  \<open>q_diverged\<close> records that a loop of the source would run forever (the eviction loop of
  \<open>recordSettlement\<close> on an empty order list); no reachable state has it set.
\<close>

definition NewMemoryQuotaStore :: "clock \<Rightarrow> MemoryQuotaStore" where
  "NewMemoryQuotaStore clk =
     \<lparr>q_values = Map.empty, q_valueExpires = Map.empty, q_counters = Map.empty,
      q_reservations = [], q_settlements = [], q_settledOrder = [], q_nextElement = 0,
      q_clock = clk, q_reads = 0, q_diverged = False\<rparr>"

definition time_Now :: "MemoryQuotaStore \<Rightarrow> instant \<times> MemoryQuotaStore" where
  "time_Now s = (q_clock s (q_reads s), s\<lparr>q_reads := Suc (q_reads s)\<rparr>)"

definition quotaSettlementReplayWindow :: duration where
  "quotaSettlementReplayWindow = Minute"

definition maxMemorySettlements :: nat where
  "maxMemorySettlements = 65536"

section \<open>Counters and values\<close>

definition get_entry :: "(string \<rightharpoonup> counterEntry) \<Rightarrow> string \<Rightarrow> counterEntry" where
  "get_entry m key = (case m key of None \<Rightarrow> zero_entry | Some e \<Rightarrow> e)"

definition counterValue :: "string \<Rightarrow> instant \<Rightarrow> MemoryQuotaStore \<Rightarrow> int" where
  "counterValue key now s =
     (let entry = get_entry (q_counters s) key
      in if ce_Expires entry < now then 0 else ce_Value entry)"

definition addCounter :: "string \<Rightarrow> int \<Rightarrow> duration \<Rightarrow> MemoryQuotaStore \<Rightarrow> MemoryQuotaStore" where
  "addCounter key delta ttl s =
     (if key = [] \<or> delta = 0 then s
      else
        let (now, s) = time_Now s;
            entry = get_entry (q_counters s) key;
            value = (if ce_Expires entry < now then 0 else ce_Value entry)
        in s\<lparr>q_counters := (q_counters s)
               (key \<mapsto> \<lparr>ce_Value = saturatingAddNonnegative value delta, ce_Expires = now + ttl\<rparr>)\<rparr>)"

definition addValue :: "string \<Rightarrow> int \<Rightarrow> instant \<Rightarrow> MemoryQuotaStore \<Rightarrow> MemoryQuotaStore" where
  "addValue key delta expires s =
     (if key = [] \<or> delta = 0 then s
      else
        let s = s\<lparr>q_values := (q_values s)(key \<mapsto> saturatingAddNonnegative (mget (q_values s) key) delta)\<rparr>
        in if IsZero expires then s
           else
             let (now, s) = time_Now s;
                 expires = (if \<not> expires > now then now + quotaBucketExpiryGrace else expires)
             in s\<lparr>q_valueExpires := (q_valueExpires s)(key \<mapsto> expires)\<rparr>)"

definition decrValue :: "string \<Rightarrow> int \<Rightarrow> MemoryQuotaStore \<Rightarrow> MemoryQuotaStore" where
  "decrValue key delta s =
     (if key = [] \<or> delta = 0 then s
      else
        let v = i64 (mget (q_values s) key - delta);
            s = s\<lparr>q_values := (q_values s)(key \<mapsto> v)\<rparr>
        in if v \<le> 0
           then s\<lparr>q_values := (q_values s)(key := None), q_valueExpires := (q_valueExpires s)(key := None)\<rparr>
           else s)"

definition reconcileCounter :: "string \<Rightarrow> int \<Rightarrow> int \<Rightarrow> instant \<Rightarrow> MemoryQuotaStore \<Rightarrow> MemoryQuotaStore" where
  "reconcileCounter key held actual now s =
     (if key = [] then s
      else
        case q_counters s key of
          None \<Rightarrow> s\<lparr>q_counters := (q_counters s)(key := None)\<rparr>
        | Some entry \<Rightarrow>
            if \<not> IsZero (ce_Expires entry) \<and> \<not> now < ce_Expires entry
            then s\<lparr>q_counters := (q_counters s)(key := None)\<rparr>
            else
              let held = max held 0;
                  actual = max actual 0;
                  v = (if actual \<ge> held
                       then saturatingAddNonnegative (ce_Value entry) (i64 (actual - held))
                       else saturatingAddNonnegative (ce_Value entry) (i64 (- i64 (held - actual))))
              in if v = 0 then s\<lparr>q_counters := (q_counters s)(key := None)\<rparr>
                 else s\<lparr>q_counters := (q_counters s)(key \<mapsto> entry\<lparr>ce_Value := v\<rparr>)\<rparr>)"

section \<open>Holds\<close>

definition checkScope ::
  "memoryScopeReservation \<Rightarrow> EstimatedUsage \<Rightarrow> instant \<Rightarrow> bool \<Rightarrow> MemoryQuotaStore \<Rightarrow> goerr option" where
  "checkScope scope estimate now topUp s =
     (let ks = ms_keys scope; lim = ms_limit scope; v = mget (q_values s);
          tokens = EstimatedUsage_TotalTokens estimate
      in if \<not> topUp \<and> exceedsLimit (ls_MaxParallel lim) [v (k_active ks), 1]
         then Some (api (RateLimited ''quota exceeded: max parallel''))
         else if \<not> topUp \<and> exceedsLimit (ls_RPM lim) [counterValue (k_rpm ks) now s, 1]
         then Some (api (RateLimited ''quota exceeded: rpm''))
         else if exceedsLimit (ls_TPM lim) [counterValue (k_tpm ks) now s, tokens]
         then Some (api (RateLimited ''quota exceeded: tpm''))
         else if exceedsLimit (ls_MaxSpendMicros lim)
                   [v (k_spendUsed ks), v (k_spendHeld ks), eu_EstimatedSpendMicros estimate]
         then Some (api (RateLimited ''quota exceeded: spend''))
         else if exceedsLimit (ls_DailyTokens lim) [v (k_dayUsed ks), v (k_dayHeld ks), tokens]
         then Some (api (RateLimited ''quota exceeded: daily tokens''))
         else if exceedsLimit (ls_MonthlyTokens lim) [v (k_monthUsed ks), v (k_monthHeld ks), tokens]
         then Some (api (RateLimited ''quota exceeded: monthly tokens''))
         else None)"

fun checkScopes ::
  "memoryScopeReservation list \<Rightarrow> EstimatedUsage \<Rightarrow> instant \<Rightarrow> bool \<Rightarrow> MemoryQuotaStore \<Rightarrow> goerr option" where
  "checkScopes [] estimate now topUp s = None"
| "checkScopes (sc # scs) estimate now topUp s =
     (case checkScope sc estimate now topUp s of
        Some err \<Rightarrow> Some err
      | None \<Rightarrow> checkScopes scs estimate now topUp s)"

definition applyScopeHold ::
  "memoryScopeReservation \<Rightarrow> EstimatedUsage \<Rightarrow> instant \<Rightarrow> bool \<Rightarrow> MemoryQuotaStore \<Rightarrow> MemoryQuotaStore" where
  "applyScopeHold scope estimate now topUp s =
     (let ks = ms_keys scope; tokens = EstimatedUsage_TotalTokens estimate;
          s = (if \<not> topUp
               then addCounter (k_rpm ks) 1 (timeUntilNextMinute now) (addValue (k_active ks) 1 0 s)
               else s);
          s = addCounter (k_tpm ks) tokens (timeUntilNextMinute now) s;
          s = addValue (k_spendHeld ks) (eu_EstimatedSpendMicros estimate) 0 s;
          s = addValue (k_dayHeld ks) tokens 0 s
      in addValue (k_monthHeld ks) tokens 0 s)"

fun applyScopeHolds ::
  "memoryScopeReservation list \<Rightarrow> EstimatedUsage \<Rightarrow> instant \<Rightarrow> bool \<Rightarrow> MemoryQuotaStore \<Rightarrow> MemoryQuotaStore" where
  "applyScopeHolds [] estimate now topUp s = s"
| "applyScopeHolds (sc # scs) estimate now topUp s =
     applyScopeHolds scs estimate now topUp (applyScopeHold sc estimate now topUp s)"

definition releaseScope ::
  "EstimatedUsage \<Rightarrow> int \<Rightarrow> instant \<Rightarrow> memoryScopeReservation \<Rightarrow> MemoryQuotaStore \<Rightarrow> MemoryQuotaStore" where
  "releaseScope held actualTPM now scope s =
     (let ks = ms_keys scope; heldTokens = EstimatedUsage_TotalTokens held;
          s = reconcileCounter (k_tpm ks) heldTokens actualTPM now s;
          s = decrValue (k_active ks) 1 s;
          s = decrValue (k_spendHeld ks) (eu_EstimatedSpendMicros held) s;
          s = decrValue (k_dayHeld ks) heldTokens s
      in decrValue (k_monthHeld ks) heldTokens s)"

definition releaseHold :: "memoryReservation \<Rightarrow> int \<Rightarrow> instant \<Rightarrow> MemoryQuotaStore \<Rightarrow> MemoryQuotaStore" where
  "releaseHold res actualTPM now s = fold (releaseScope (mr_held res) actualTPM now) (mr_scopes res) s"

section \<open>Settlements\<close>

text \<open>The loop of \<open>cleanupSettlements\<close>, over the order list from its front.\<close>

fun cleanupSettlementsLoop ::
  "instant \<Rightarrow> (nat \<times> string) list \<Rightarrow> (string, memorySettlement) gomap
     \<Rightarrow> (nat \<times> string) list \<times> (string, memorySettlement) gomap" where
  "cleanupSettlementsLoop now [] settlements = ([], settlements)"
| "cleanupSettlementsLoop now ((el, requestID) # order) settlements =
     (case map_of settlements requestID of
        Some settlement \<Rightarrow>
          if now < st_expires settlement then ((el, requestID) # order, settlements)
          else if st_element settlement = Some el
          then cleanupSettlementsLoop now order (AList.delete requestID settlements)
          else cleanupSettlementsLoop now order settlements
      | None \<Rightarrow> cleanupSettlementsLoop now order settlements)"

definition cleanupSettlements :: "instant \<Rightarrow> MemoryQuotaStore \<Rightarrow> MemoryQuotaStore" where
  "cleanupSettlements now s =
     (let (order, settlements) = cleanupSettlementsLoop now (q_settledOrder s) (q_settlements s)
      in s\<lparr>q_settledOrder := order, q_settlements := settlements\<rparr>)"

text \<open>\<open>for len(s.settlements) > maxMemorySettlements { s.removeOldestSettlement() }\<close>.\<close>

fun evictLoop ::
  "(nat \<times> string) list \<Rightarrow> (string, memorySettlement) gomap
     \<Rightarrow> (nat \<times> string) list \<times> (string, memorySettlement) gomap \<times> bool" where
  "evictLoop [] settlements = ([], settlements, length settlements > maxMemorySettlements)"
| "evictLoop ((el, requestID) # order) settlements =
     (if length settlements > maxMemorySettlements then
        (case map_of settlements requestID of
           Some settlement \<Rightarrow>
             evictLoop order
               (if st_element settlement = Some el then AList.delete requestID settlements else settlements)
         | None \<Rightarrow> evictLoop order settlements)
      else ((el, requestID) # order, settlements, False))"

definition recordSettlement :: "string \<Rightarrow> bool \<Rightarrow> instant \<Rightarrow> MemoryQuotaStore \<Rightarrow> MemoryQuotaStore" where
  "recordSettlement requestID expired now s =
     (if requestID = [] then s
      else
        let order =
              (case map_of (q_settlements s) requestID of
                 Some existing \<Rightarrow>
                   (case st_element existing of
                      Some el \<Rightarrow> filter (\<lambda>e. fst e \<noteq> el) (q_settledOrder s)
                    | None \<Rightarrow> q_settledOrder s)
               | None \<Rightarrow> q_settledOrder s);
            el = q_nextElement s;
            s = s\<lparr>q_settledOrder := order @ [(el, requestID)],
                  q_nextElement := Suc el,
                  q_settlements := AList.update requestID
                    \<lparr>st_expires = now + quotaSettlementReplayWindow, st_expired = expired, st_element = Some el\<rparr>
                    (q_settlements s)\<rparr>;
            s = cleanupSettlements now s;
            (order, settlements, stuck) = evictLoop (q_settledOrder s) (q_settlements s)
        in s\<lparr>q_settledOrder := order, q_settlements := settlements, q_diverged := q_diverged s \<or> stuck\<rparr>)"

section \<open>Expiry\<close>

definition expireReservation ::
  "instant \<Rightarrow> string \<times> memoryReservation \<Rightarrow> MemoryQuotaStore \<Rightarrow> MemoryQuotaStore" where
  "expireReservation now entry s =
     (case entry of (requestID, reservation) \<Rightarrow>
        if IsZero (mr_expires reservation) \<or> now < mr_expires reservation then s
        else
          let s = releaseHold reservation 0 now s;
              s = s\<lparr>q_reservations := AList.delete requestID (q_reservations s)\<rparr>
          in recordSettlement requestID True now s)"

definition cleanupExpired :: "instant \<Rightarrow> MemoryQuotaStore \<Rightarrow> MemoryQuotaStore" where
  "cleanupExpired now s =
     (let s = fold (expireReservation now) (q_reservations s) s;
          s = cleanupSettlements now s;
          s = s\<lparr>q_counters := (\<lambda>key. case q_counters s key of
                  None \<Rightarrow> None
                | Some c \<Rightarrow> if \<not> IsZero (ce_Expires c) \<and> \<not> now < ce_Expires c then None else Some c)\<rparr>;
          gone = (\<lambda>key. case q_valueExpires s key of None \<Rightarrow> False | Some x \<Rightarrow> \<not> IsZero x \<and> \<not> now < x)
      in s\<lparr>q_values := (\<lambda>key. if gone key then None else q_values s key),
           q_valueExpires := (\<lambda>key. if gone key then None else q_valueExpires s key)\<rparr>)"

section \<open>The quota store's methods\<close>

definition resolveScopeReservations :: "ScopedLimit list \<Rightarrow> instant \<Rightarrow> memoryScopeReservation list" where
  "resolveScopeReservations scopes now =
     map (\<lambda>scope. \<lparr>ms_ref = sl_Ref scope, ms_limit = sl_Limits scope,
            ms_keys = quotaKeysForScope (sl_Ref scope) (sl_Limits scope) now,
            ms_expires = quotaExpiriesForLimit (sl_Limits scope) now\<rparr>) scopes"

definition scopedRefs :: "memoryScopeReservation list \<Rightarrow> ScopeRef list" where
  "scopedRefs scopes = map ms_ref scopes"

text \<open>\<open>reflect.DeepEqual\<close> on two limits is equality of the records, nil slices told apart.\<close>

definition sameReservationScopes ::
  "memoryScopeReservation list \<Rightarrow> memoryScopeReservation list \<Rightarrow> bool" where
  "sameReservationScopes left right \<longleftrightarrow>
     length left = length right \<and>
     list_all2 (\<lambda>l r. ms_ref l = ms_ref r \<and> ms_limit l = ms_limit r) left right"

type_synonym ctx = "nat \<Rightarrow> goerr option"

definition Reserve ::
  "ctx \<Rightarrow> string \<Rightarrow> ScopedLimit list \<Rightarrow> EstimatedUsage \<Rightarrow> duration \<Rightarrow> MemoryQuotaStore
     \<Rightarrow> (goerr + QuotaTicket) \<times> MemoryQuotaStore" where
  "Reserve ctx requestID scopes estimate ttl s =
     (case ctx 0 of Some err \<Rightarrow> (Inl err, s) | None \<Rightarrow>
      if requestID = [] then (Inr zero_ticket, s)
      else case ctx 1 of Some err \<Rightarrow> (Inl err, s) | None \<Rightarrow>
        let (now, s) = time_Now s;
            s = cleanupExpired now s;
            estimate = normalizeEstimatedUsage estimate;
            ttl = normalizeReservationTTL ttl;
            resolved = resolveScopeReservations scopes now
        in case map_of (q_settlements s) requestID of
             Some _ \<Rightarrow> (Inl (Sentinel ErrQuotaReservationConflict), s)
           | None \<Rightarrow>
           case map_of (q_reservations s) requestID of
             Some existing \<Rightarrow>
               if mr_held existing \<noteq> estimate \<or> \<not> sameReservationScopes (mr_scopes existing) resolved
               then (Inl (Sentinel ErrQuotaReservationConflict), s)
               else (Inr (mr_ticket existing), s)
           | None \<Rightarrow>
           case checkScopes resolved estimate now False s of
             Some err \<Rightarrow> (Inl err, s)
           | None \<Rightarrow>
               let s = applyScopeHolds resolved estimate now False s;
                   ticket = \<lparr>qt_RequestID = requestID, qt_Scopes = scopedRefs resolved\<rparr>
               in (Inr ticket,
                   s\<lparr>q_reservations := AList.update requestID
                       \<lparr>mr_ticket = ticket, mr_held = estimate, mr_scopes = resolved, mr_expires = now + ttl\<rparr>
                       (q_reservations s)\<rparr>))"

text \<open>The three assignments to \<open>res.held\<close> in \<open>TopUp\<close>.\<close>

definition addHeld :: "EstimatedUsage \<Rightarrow> EstimatedUsage \<Rightarrow> EstimatedUsage" where
  "addHeld held delta = held\<lparr>
     eu_InputTokens := saturatingAddNonnegative (eu_InputTokens held) (eu_InputTokens delta),
     eu_ReservedOutputTokens :=
       saturatingAddNonnegative (eu_ReservedOutputTokens held) (eu_ReservedOutputTokens delta),
     eu_EstimatedSpendMicros :=
       saturatingAddNonnegative (eu_EstimatedSpendMicros held) (eu_EstimatedSpendMicros delta)\<rparr>"

definition TopUp ::
  "ctx \<Rightarrow> QuotaTicket \<Rightarrow> ScopedLimit list \<Rightarrow> EstimatedUsage \<Rightarrow> duration \<Rightarrow> MemoryQuotaStore
     \<Rightarrow> goerr option \<times> MemoryQuotaStore" where
  "TopUp ctx ticket scopes delta ttl s =
     (case ctx 0 of Some err \<Rightarrow> (Some err, s) | None \<Rightarrow>
      case ctx 1 of Some err \<Rightarrow> (Some err, s) | None \<Rightarrow>
        let delta = normalizeEstimatedUsage delta
        in if qt_RequestID ticket = [] then (None, s)
           else
             let (now, s) = time_Now s;
                 s = cleanupExpired now s
             in case map_of (q_reservations s) (qt_RequestID ticket) of
                  None \<Rightarrow> (Some (Sentinel ErrQuotaReservationNotFound), s)
                | Some res \<Rightarrow>
                    if EstimatedUsage_TotalTokens delta = 0 \<and> eu_EstimatedSpendMicros delta = 0
                    then (None, s\<lparr>q_reservations := AList.update (qt_RequestID ticket)
                                    (res\<lparr>mr_expires := now + normalizeReservationTTL ttl\<rparr>) (q_reservations s)\<rparr>)
                    else case checkScopes (mr_scopes res) delta now True s of
                      Some err \<Rightarrow> (Some err, s)
                    | None \<Rightarrow>
                        let s = applyScopeHolds (mr_scopes res) delta now True s;
                            held = addHeld (mr_held res) delta
                        in (None, s\<lparr>q_reservations := AList.update (qt_RequestID ticket)
                                     (res\<lparr>mr_held := held, mr_expires := now + normalizeReservationTTL ttl\<rparr>)
                                     (q_reservations s)\<rparr>))"

definition commitScope :: "ActualUsage \<Rightarrow> memoryScopeReservation \<Rightarrow> MemoryQuotaStore \<Rightarrow> MemoryQuotaStore" where
  "commitScope actual scope s =
     (let ks = ms_keys scope; xs = ms_expires scope;
          s = addValue (k_spendUsed ks) (au_SpendMicros actual) (x_spendUsed xs) s;
          s = addValue (k_dayUsed ks) (ActualUsage_TotalTokens actual) (x_dayUsed xs) s
      in addValue (k_monthUsed ks) (ActualUsage_TotalTokens actual) (x_monthUsed xs) s)"

text \<open>What \<open>Commit\<close> and \<open>Refund\<close> answer for an ID without a live reservation.\<close>

definition settledAnswer :: "string \<Rightarrow> MemoryQuotaStore \<Rightarrow> goerr option" where
  "settledAnswer requestID s =
     (case map_of (q_settlements s) requestID of
        Some settlement \<Rightarrow>
          if \<not> st_expired settlement then None else Some (Sentinel ErrQuotaReservationNotFound)
      | None \<Rightarrow> Some (Sentinel ErrQuotaReservationNotFound))"

definition Commit ::
  "ctx \<Rightarrow> QuotaTicket \<Rightarrow> ActualUsage \<Rightarrow> MemoryQuotaStore \<Rightarrow> goerr option \<times> MemoryQuotaStore" where
  "Commit ctx ticket actual s =
     (case ctx 0 of Some err \<Rightarrow> (Some err, s) | None \<Rightarrow>
      case ctx 1 of Some err \<Rightarrow> (Some err, s) | None \<Rightarrow>
      if qt_RequestID ticket = [] then (None, s)
      else
        let (now, s) = time_Now s;
            s = cleanupExpired now s
        in case map_of (q_reservations s) (qt_RequestID ticket) of
             None \<Rightarrow> (settledAnswer (qt_RequestID ticket) s, s)
           | Some res \<Rightarrow>
               let actual = normalizeActualUsage actual;
                   s = releaseHold res (ActualUsage_TotalTokens actual) now s;
                   s = fold (commitScope actual) (mr_scopes res) s;
                   s = s\<lparr>q_reservations := AList.delete (qt_RequestID ticket) (q_reservations s)\<rparr>
               in (None, recordSettlement (qt_RequestID ticket) False now s))"

definition Refund :: "ctx \<Rightarrow> QuotaTicket \<Rightarrow> MemoryQuotaStore \<Rightarrow> goerr option \<times> MemoryQuotaStore" where
  "Refund ctx ticket s =
     (case ctx 0 of Some err \<Rightarrow> (Some err, s) | None \<Rightarrow>
      case ctx 1 of Some err \<Rightarrow> (Some err, s) | None \<Rightarrow>
      if qt_RequestID ticket = [] then (None, s)
      else
        let (now, s) = time_Now s;
            s = cleanupExpired now s
        in case map_of (q_reservations s) (qt_RequestID ticket) of
             None \<Rightarrow> (settledAnswer (qt_RequestID ticket) s, s)
           | Some res \<Rightarrow>
               let s = releaseHold res 0 now s;
                   s = s\<lparr>q_reservations := AList.delete (qt_RequestID ticket) (q_reservations s)\<rparr>
               in (None, recordSettlement (qt_RequestID ticket) False now s))"

definition GetUsage :: "ctx \<Rightarrow> ScopedLimit \<Rightarrow> MemoryQuotaStore \<Rightarrow> (goerr + QuotaUsage) \<times> MemoryQuotaStore" where
  "GetUsage ctx scope s =
     (case ctx 0 of Some err \<Rightarrow> (Inl err, s) | None \<Rightarrow>
      case ctx 1 of Some err \<Rightarrow> (Inl err, s) | None \<Rightarrow>
        let (now, s) = time_Now s;
            s = cleanupExpired now s;
            ks = quotaKeysForScope (sl_Ref scope) (sl_Limits scope) now;
            v = mget (q_values s)
        in (Inr \<lparr>qu_ActiveRequests = v (k_active ks),
                 qu_RPMCurrent = counterValue (k_rpm ks) now s,
                 qu_TPMCurrent = counterValue (k_tpm ks) now s,
                 qu_SpendUsedMicros = v (k_spendUsed ks),
                 qu_SpendHeldMicros = v (k_spendHeld ks),
                 qu_DailyUsedTokens = v (k_dayUsed ks),
                 qu_DailyHeldTokens = v (k_dayHeld ks),
                 qu_MonthUsedTokens = v (k_monthUsed ks),
                 qu_MonthHeldTokens = v (k_monthHeld ks)\<rparr>, s))"

section \<open>The counter store\<close>

record MemoryCounterStore =
  c_entries :: "string \<rightharpoonup> counterEntry"
  c_operations :: nat

definition memoryCounterPruneEvery :: nat where
  "memoryCounterPruneEvery = 256"

definition NewMemoryCounterStore :: MemoryCounterStore where
  "NewMemoryCounterStore = \<lparr>c_entries = Map.empty, c_operations = 0\<rparr>"

definition pruneExpired :: "instant \<Rightarrow> MemoryCounterStore \<Rightarrow> MemoryCounterStore" where
  "pruneExpired now s =
     s\<lparr>c_entries := (\<lambda>key. case c_entries s key of
          None \<Rightarrow> None
        | Some entry \<Rightarrow>
            if \<not> IsZero (ce_Expires entry) \<and> \<not> now < ce_Expires entry then None else Some entry)\<rparr>"

text \<open>\<open>now\<close> is the reading of the clock under the lock; the operation count has 64 bits.\<close>

definition CounterStore_Add ::
  "ctx \<Rightarrow> string \<Rightarrow> int \<Rightarrow> duration \<Rightarrow> instant \<Rightarrow> MemoryCounterStore \<Rightarrow> (goerr + int) \<times> MemoryCounterStore" where
  "CounterStore_Add ctx key delta ttl now s =
     (case ctx 0 of Some err \<Rightarrow> (Inl err, s) | None \<Rightarrow>
      case ctx 1 of Some err \<Rightarrow> (Inl err, s) | None \<Rightarrow>
        let s = s\<lparr>c_operations := (c_operations s + 1) mod 2 ^ 64\<rparr>;
            s = (if c_operations s mod memoryCounterPruneEvery = 0 then pruneExpired now s else s);
            entry = get_entry (c_entries s) key;
            value = (if ce_Expires entry < now then 0 else ce_Value entry);
            value = saturatingAddNonnegative value delta
        in (Inr value, s\<lparr>c_entries := (c_entries s)(key \<mapsto> \<lparr>ce_Value = value, ce_Expires = now + ttl\<rparr>)\<rparr>))"

end
