(* ===== verification/Quota_Accounting.thy ===== *)
theory Quota_Accounting
  imports Memory_Quota_Store
begin

text \<open>
  The accounting invariant of the in-memory quota store (\<open>store/store.go\<close>): what every operation
  does to a counter in closed form, and that in every reachable state the held counters are exactly
  the sums over the live reservations, so that a hold is neither lost nor counted twice.
\<close>

section \<open>Ghost definitions: what a reservation holds at a key\<close>

definition hold_amount :: "bool \<Rightarrow> metric \<Rightarrow> EstimatedUsage \<Rightarrow> int" where
  "hold_amount topUp mt held =
     (case mt of
        Active \<Rightarrow> (if topUp then 0 else 1)
      | SpendHeld \<Rightarrow> eu_EstimatedSpendMicros held
      | DayHeld \<Rightarrow> EstimatedUsage_TotalTokens held
      | MonthHeld \<Rightarrow> EstimatedUsage_TotalTokens held
      | _ \<Rightarrow> 0)"

definition hold_at :: "string \<Rightarrow> bool \<Rightarrow> metric \<Rightarrow> EstimatedUsage \<Rightarrow> quotaKeys \<Rightarrow> int" where
  "hold_at k topUp mt held ks = (if k \<noteq> [] \<and> key_of mt ks = k then hold_amount topUp mt held else 0)"

definition scope_hold :: "string \<Rightarrow> bool \<Rightarrow> EstimatedUsage \<Rightarrow> memoryScopeReservation \<Rightarrow> int" where
  "scope_hold k topUp held sc =
     hold_at k topUp Active held (ms_keys sc) + hold_at k topUp SpendHeld held (ms_keys sc) +
     hold_at k topUp DayHeld held (ms_keys sc) + hold_at k topUp MonthHeld held (ms_keys sc)"

definition scopes_hold :: "string \<Rightarrow> bool \<Rightarrow> EstimatedUsage \<Rightarrow> memoryScopeReservation list \<Rightarrow> int" where
  "scopes_hold k topUp held scs = sum_list (map (scope_hold k topUp held) scs)"

definition res_hold :: "string \<Rightarrow> memoryReservation \<Rightarrow> int" where
  "res_hold k r = scopes_hold k False (mr_held r) (mr_scopes r)"

definition total_hold :: "string \<Rightarrow> (string, memoryReservation) gomap \<Rightarrow> int" where
  "total_hold k rs = sum_list (map (\<lambda>e. res_hold k (snd e)) rs)"

definition nonneg_usage :: "EstimatedUsage \<Rightarrow> bool" where
  "nonneg_usage u \<longleftrightarrow>
     0 \<le> eu_InputTokens u \<and> eu_InputTokens u \<le> MaxInt64 \<and>
     0 \<le> eu_ReservedOutputTokens u \<and> eu_ReservedOutputTokens u \<le> MaxInt64 \<and>
     0 \<le> eu_EstimatedSpendMicros u \<and> eu_EstimatedSpendMicros u \<le> MaxInt64"

definition est_in_range :: "EstimatedUsage \<Rightarrow> bool" where
  "est_in_range u \<longleftrightarrow>
     in_i64 (eu_InputTokens u) \<and> in_i64 (eu_ReservedOutputTokens u) \<and> in_i64 (eu_EstimatedSpendMicros u)"

definition act_in_range :: "ActualUsage \<Rightarrow> bool" where
  "act_in_range u \<longleftrightarrow>
     in_i64 (au_InputTokens u) \<and> in_i64 (au_OutputTokens u) \<and> in_i64 (au_SpendMicros u)"

section \<open>Arithmetic\<close>

lemma saturatingAdd_pos [i64_spec]:
  "in_i64 c \<Longrightarrow> 0 \<le> d \<Longrightarrow> d \<le> MaxInt64 \<Longrightarrow> saturatingAddNonnegative c d = sat_sum c d"
  by (auto simp: saturatingAddNonnegative_def sat_sum_def in_i64_def Let_def)

lemma saturatingAdd_neg [i64_spec]:
  "in_i64 c \<Longrightarrow> in_i64 d \<Longrightarrow> d < 0 \<Longrightarrow> saturatingAddNonnegative c d = max 0 (max 0 c + d)"
  by (cases "d = MinInt64") (auto simp: saturatingAddNonnegative_def in_i64_def Let_def)

lemma saturatingAdd_range: "0 \<le> saturatingAddNonnegative c d \<and> saturatingAddNonnegative c d \<le> MaxInt64"
  if "in_i64 c" "in_i64 d"
  using that saturatingAdd_pos [of c d] saturatingAdd_neg [of c d]
  by (cases "d < 0") (auto simp: in_i64_def)

lemma exceedsFrom_spec:
  "0 \<le> tot \<Longrightarrow> tot \<le> limit \<Longrightarrow> limit \<le> MaxInt64 \<Longrightarrow> list_all in_i64 vs \<Longrightarrow>
     exceedsFrom limit tot vs \<longleftrightarrow> limit < tot + sum_list (map (max 0) vs)"
proof (induction vs arbitrary: tot)
  case (Cons v vs)
  have nn: "0 \<le> sum_list (map (max 0) vs)" by (induction vs) auto
  let ?w = "if v < 0 then 0 else v"
  have w: "?w = max 0 v" "0 \<le> ?w" by auto
  show ?case
  proof (cases "?w > limit - tot")
    case True
    with Cons.prems nn w show ?thesis by auto
  next
    case False
    with Cons.prems w have "exceedsFrom limit tot (v # vs) = exceedsFrom limit (tot + ?w) vs"
      by (auto simp: Let_def)
    also have "\<dots> \<longleftrightarrow> limit < tot + ?w + sum_list (map (max 0) vs)"
      using Cons.prems False w by (intro Cons.IH) auto
    finally show ?thesis using w by auto
  qed
qed simp

lemma exceedsLimit_sum:
  "0 < limit \<Longrightarrow> limit \<le> MaxInt64 \<Longrightarrow> list_all in_i64 vs \<Longrightarrow>
     exceedsLimit limit vs \<longleftrightarrow> limit < sum_list (map (max 0) vs)"
  using exceedsFrom_spec [of 0 limit vs] by (simp add: exceedsLimit_def)

lemma normalizeEstimatedUsage_nonneg:
  "est_in_range u \<Longrightarrow> nonneg_usage (normalizeEstimatedUsage u)"
  by (auto simp: est_in_range_def in_i64_def nonneg_usage_def normalizeEstimatedUsage_def Let_def)

lemma TotalTokens_range [simp]:
  "nonneg_usage u \<Longrightarrow> 0 \<le> EstimatedUsage_TotalTokens u \<and> EstimatedUsage_TotalTokens u \<le> MaxInt64"
  by (simp add: EstimatedUsage_TotalTokens_def saturatingUsageAdd_spec nonneg_usage_def in_i64_def)

lemma TotalTokens_nonneg: "nonneg_usage u \<Longrightarrow> 0 \<le> EstimatedUsage_TotalTokens u"
  by simp

lemma TotalTokens_sat: "nonneg_usage u \<Longrightarrow>
   EstimatedUsage_TotalTokens u = sat_sum (eu_InputTokens u) (eu_ReservedOutputTokens u)"
  by (simp add: EstimatedUsage_TotalTokens_def saturatingUsageAdd_spec nonneg_usage_def in_i64_def)

lemma hold_amount_range: "nonneg_usage u \<Longrightarrow> 0 \<le> hold_amount t mt u \<and> hold_amount t mt u \<le> MaxInt64"
  by (cases mt) (simp_all add: hold_amount_def TotalTokens_range, simp_all add: nonneg_usage_def)

lemma hold_at_range: "nonneg_usage u \<Longrightarrow> 0 \<le> hold_at k t mt u ks \<and> hold_at k t mt u ks \<le> MaxInt64"
  using hold_amount_range [of u t mt] by (simp add: hold_at_def)

lemma scope_hold_nonneg: "nonneg_usage u \<Longrightarrow> 0 \<le> scope_hold k t u sc"
  unfolding scope_hold_def by (intro add_nonneg_nonneg) (simp_all add: hold_at_range)

lemma scopes_hold_nonneg: "nonneg_usage u \<Longrightarrow> 0 \<le> scopes_hold k t u scs"
  unfolding scopes_hold_def by (rule sum_list_nonneg) (auto simp: scope_hold_nonneg)

lemma scopes_hold_simps [simp]:
  "scopes_hold k t u [] = 0"
  "scopes_hold k t u (sc # scs) = scope_hold k t u sc + scopes_hold k t u scs"
  by (simp_all add: scopes_hold_def)

lemma sat_sum_add:
  "0 \<le> a \<Longrightarrow> 0 \<le> b \<Longrightarrow> sat_sum (sat_sum v a) b = sat_sum v (a + b)"
  by (auto simp: sat_sum_def)

lemma max_sub_add: "0 \<le> b \<Longrightarrow> max 0 (max 0 (v - a) - b) = max 0 (v - (a + b))" for v :: int
  by auto

section \<open>Closed forms of the counter operations\<close>

text \<open>Every stored value is a nonnegative 64-bit integer.\<close>

definition wf_values :: "MemoryQuotaStore \<Rightarrow> bool" where
  "wf_values s \<longleftrightarrow> (\<forall>k. 0 \<le> mget (q_values s) k \<and> mget (q_values s) k \<le> MaxInt64)"

lemma wf_valuesD: "wf_values s \<Longrightarrow> 0 \<le> mget (q_values s) k \<and> mget (q_values s) k \<le> MaxInt64"
  by (simp add: wf_values_def)

lemma wf_values_in_i64: "wf_values s \<Longrightarrow> in_i64 (mget (q_values s) k)"
  using wf_valuesD [of s k] by (simp add: in_i64_def)

lemma addValue_values:
  assumes "wf_values s" "0 \<le> d" "d \<le> MaxInt64"
  shows "mget (q_values (addValue key d e s)) k =
           sat_sum (mget (q_values s) k) (if k \<noteq> [] \<and> k = key then d else 0)"
  using assms wf_values_in_i64 [OF assms(1), of key] wf_valuesD [OF assms(1), of k]
  by (auto simp: addValue_def Let_def time_Now_def saturatingAdd_pos)

lemma decrValue_values:
  assumes "wf_values s" "0 \<le> d" "d \<le> MaxInt64"
  shows "mget (q_values (decrValue key d s)) k =
           max 0 (mget (q_values s) k - (if k \<noteq> [] \<and> k = key then d else 0))"
  using assms wf_valuesD [OF assms(1), of k]
  by (auto simp: decrValue_def Let_def)

lemma addValue_wf: "wf_values s \<Longrightarrow> 0 \<le> d \<Longrightarrow> d \<le> MaxInt64 \<Longrightarrow> wf_values (addValue key d e s)"
  unfolding wf_values_def [of "addValue key d e s"] by (simp add: addValue_values)

lemma decrValue_wf: "wf_values s \<Longrightarrow> 0 \<le> d \<Longrightarrow> d \<le> MaxInt64 \<Longrightarrow> wf_values (decrValue key d s)"
  unfolding wf_values_def [of "decrValue key d s"] using wf_valuesD [of s]
  by (auto simp: decrValue_values intro: order_trans [OF diff_left_mono])

lemma addCounter_frame [frame]:
  "q_values (addCounter k d t s) = q_values s"
  "q_valueExpires (addCounter k d t s) = q_valueExpires s"
  "q_reservations (addCounter k d t s) = q_reservations s"
  "q_settlements (addCounter k d t s) = q_settlements s"
  "q_settledOrder (addCounter k d t s) = q_settledOrder s"
  "q_nextElement (addCounter k d t s) = q_nextElement s"
  "q_diverged (addCounter k d t s) = q_diverged s"
  "q_clock (addCounter k d t s) = q_clock s"
  by (simp_all add: addCounter_def time_Now_def Let_def)

lemma reconcileCounter_frame [frame]:
  "q_values (reconcileCounter k h a n s) = q_values s"
  "q_valueExpires (reconcileCounter k h a n s) = q_valueExpires s"
  "q_reservations (reconcileCounter k h a n s) = q_reservations s"
  "q_settlements (reconcileCounter k h a n s) = q_settlements s"
  "q_settledOrder (reconcileCounter k h a n s) = q_settledOrder s"
  "q_nextElement (reconcileCounter k h a n s) = q_nextElement s"
  "q_diverged (reconcileCounter k h a n s) = q_diverged s"
  "q_clock (reconcileCounter k h a n s) = q_clock s"
  by (simp_all add: reconcileCounter_def Let_def split: option.splits)

lemma addValue_frame [frame]:
  "q_counters (addValue k d e s) = q_counters s"
  "q_reservations (addValue k d e s) = q_reservations s"
  "q_settlements (addValue k d e s) = q_settlements s"
  "q_settledOrder (addValue k d e s) = q_settledOrder s"
  "q_nextElement (addValue k d e s) = q_nextElement s"
  "q_diverged (addValue k d e s) = q_diverged s"
  "q_clock (addValue k d e s) = q_clock s"
  "e = 0 \<Longrightarrow> q_valueExpires (addValue k d e s) = q_valueExpires s"
  by (simp_all add: addValue_def time_Now_def Let_def)

lemma decrValue_frame [frame]:
  "q_counters (decrValue k d s) = q_counters s"
  "q_reservations (decrValue k d s) = q_reservations s"
  "q_settlements (decrValue k d s) = q_settlements s"
  "q_settledOrder (decrValue k d s) = q_settledOrder s"
  "q_nextElement (decrValue k d s) = q_nextElement s"
  "q_diverged (decrValue k d s) = q_diverged s"
  "q_clock (decrValue k d s) = q_clock s"
  by (simp_all add: decrValue_def Let_def)

lemma wf_values_cong: "q_values s' = q_values s \<Longrightarrow> wf_values s' = wf_values s"
  by (simp add: wf_values_def)

lemma wf_values_counters [simp]:
  "wf_values (addCounter k d t s) = wf_values s"
  "wf_values (reconcileCounter k h a n s) = wf_values s"
  by (simp_all add: wf_values_def frame)

text \<open>A scope's hold adds its amount at each of its keys, saturating; a release subtracts it.\<close>

lemma nonneg_spend: "nonneg_usage u \<Longrightarrow> 0 \<le> eu_EstimatedSpendMicros u \<and> eu_EstimatedSpendMicros u \<le> MaxInt64"
  by (simp add: nonneg_usage_def)

lemmas amounts = TotalTokens_range nonneg_spend

lemma applyScopeHold_values:
  assumes "wf_values s" "nonneg_usage u"
  shows "mget (q_values (applyScopeHold sc u now t s)) k = sat_sum (mget (q_values s) k) (scope_hold k t u sc)"
proof -
  have h: "0 \<le> hold_at k t mt u (ms_keys sc)" for mt using hold_at_range [OF assms(2)] by simp
  have eq: "mget (q_values (addValue (key_of mt (ms_keys sc)) (hold_amount t' mt u) e s')) k =
      sat_sum (mget (q_values s') k) (hold_at k t' mt u (ms_keys sc))"
    and wf: "wf_values (addValue (key_of mt (ms_keys sc)) (hold_amount t' mt u) e s')"
    if "wf_values s'" for s' mt e t'
    using that hold_amount_range [OF assms(2), of t' mt]
    by (auto simp: addValue_values addValue_wf hold_at_def)
  let ?a = "\<lambda>mt. addValue (key_of mt (ms_keys sc)) (hold_amount t mt u) 0"
  let ?s1 = "if \<not> t then addCounter (k_rpm (ms_keys sc)) 1 (timeUntilNextMinute now) (?a Active s) else s"
  have w1: "wf_values ?s1" using assms by (simp add: wf)
  have v1: "mget (q_values ?s1) k = sat_sum (mget (q_values s) k) (hold_at k t Active u (ms_keys sc))"
    using wf_valuesD [OF assms(1), of k] assms(1)
    by (cases t) (simp_all add: eq frame, simp add: hold_at_def hold_amount_def)
  have "applyScopeHold sc u now t s =
      ?a MonthHeld (?a DayHeld (?a SpendHeld
        (addCounter (k_tpm (ms_keys sc)) (EstimatedUsage_TotalTokens u) (timeUntilNextMinute now) ?s1)))"
    by (simp add: applyScopeHold_def Let_def key_of_def hold_amount_def)
  then show ?thesis
    using h [of Active] h [of SpendHeld] h [of DayHeld] h [of MonthHeld] w1 v1
    by (simp add: eq wf frame(1) sat_sum_add scope_hold_def del: if_split)
qed

lemma applyScopeHold_wf:
  "wf_values s \<Longrightarrow> nonneg_usage u \<Longrightarrow> wf_values (applyScopeHold sc u now t s)"
  by (simp add: wf_values_def [of "applyScopeHold sc u now t s"] applyScopeHold_values)

lemma applyScopeHolds_values:
  "wf_values s \<Longrightarrow> nonneg_usage u \<Longrightarrow>
     mget (q_values (applyScopeHolds scs u now t s)) k = sat_sum (mget (q_values s) k) (scopes_hold k t u scs)"
proof (induction scs arbitrary: s)
  case Nil
  then show ?case using wf_valuesD [of s k] by simp
next
  case (Cons sc scs)
  then show ?case
    using scope_hold_nonneg [of u k t sc] scopes_hold_nonneg [of u k t scs]
    by (simp add: applyScopeHold_wf applyScopeHold_values sat_sum_add)
qed

lemma applyScopeHolds_wf:
  "wf_values s \<Longrightarrow> nonneg_usage u \<Longrightarrow> wf_values (applyScopeHolds scs u now t s)"
  by (simp add: wf_values_def [of "applyScopeHolds scs u now t s"] applyScopeHolds_values)

lemma applyScopeHold_frame [frame]:
  "q_valueExpires (applyScopeHold sc u now t s) = q_valueExpires s"
  "q_reservations (applyScopeHold sc u now t s) = q_reservations s"
  "q_settlements (applyScopeHold sc u now t s) = q_settlements s"
  "q_settledOrder (applyScopeHold sc u now t s) = q_settledOrder s"
  "q_nextElement (applyScopeHold sc u now t s) = q_nextElement s"
  "q_diverged (applyScopeHold sc u now t s) = q_diverged s"
  "q_clock (applyScopeHold sc u now t s) = q_clock s"
  by (simp_all add: applyScopeHold_def Let_def frame)

lemma applyScopeHolds_frame [frame]:
  "q_valueExpires (applyScopeHolds scs u now t s) = q_valueExpires s"
  "q_reservations (applyScopeHolds scs u now t s) = q_reservations s"
  "q_settlements (applyScopeHolds scs u now t s) = q_settlements s"
  "q_settledOrder (applyScopeHolds scs u now t s) = q_settledOrder s"
  "q_nextElement (applyScopeHolds scs u now t s) = q_nextElement s"
  "q_diverged (applyScopeHolds scs u now t s) = q_diverged s"
  "q_clock (applyScopeHolds scs u now t s) = q_clock s"
  by (induction scs arbitrary: s) (simp_all add: frame)

lemma releaseScope_values:
  assumes "wf_values s" "nonneg_usage u"
  shows "mget (q_values (releaseScope u a now sc s)) k = max 0 (mget (q_values s) k - scope_hold k False u sc)"
proof -
  have h: "0 \<le> hold_at k False mt u (ms_keys sc)" for mt using hold_at_range [OF assms(2)] by simp
  have eq: "mget (q_values (decrValue (key_of mt (ms_keys sc)) (hold_amount False mt u) s')) k =
      max 0 (mget (q_values s') k - hold_at k False mt u (ms_keys sc))"
    and wf: "wf_values (decrValue (key_of mt (ms_keys sc)) (hold_amount False mt u) s')"
    if "wf_values s'" for s' mt
    using that hold_amount_range [OF assms(2), of False mt]
    by (auto simp: decrValue_values decrValue_wf hold_at_def)
  let ?d = "\<lambda>mt. decrValue (key_of mt (ms_keys sc)) (hold_amount False mt u)"
  have "releaseScope u a now sc s =
      ?d MonthHeld (?d DayHeld (?d SpendHeld (?d Active
        (reconcileCounter (k_tpm (ms_keys sc)) (EstimatedUsage_TotalTokens u) a now s))))"
    by (simp add: releaseScope_def Let_def key_of_def hold_amount_def)
  then show ?thesis
    using h [of Active] h [of SpendHeld] h [of DayHeld] h [of MonthHeld] assms(1)
    by (simp add: eq wf frame max_sub_add scope_hold_def)
qed

lemma releaseScope_wf:
  assumes "wf_values s" "nonneg_usage u"
  shows "wf_values (releaseScope u a now sc s)"
  using wf_valuesD [OF assms(1)] scope_hold_nonneg [OF assms(2)] unfolding wf_values_def [of "releaseScope u a now sc s"]
  by (simp add: releaseScope_values [OF assms]) (metis diff_left_mono diff_zero order_trans)

lemma releaseScope_frame [frame]:
  "q_reservations (releaseScope u a now sc s) = q_reservations s"
  "q_settlements (releaseScope u a now sc s) = q_settlements s"
  "q_settledOrder (releaseScope u a now sc s) = q_settledOrder s"
  "q_nextElement (releaseScope u a now sc s) = q_nextElement s"
  "q_diverged (releaseScope u a now sc s) = q_diverged s"
  "q_clock (releaseScope u a now sc s) = q_clock s"
  by (simp_all add: releaseScope_def Let_def frame)

lemma releaseScopes_values:
  "wf_values s \<Longrightarrow> nonneg_usage u \<Longrightarrow>
     wf_values (fold (releaseScope u a now) scs s) \<and>
     mget (q_values (fold (releaseScope u a now) scs s)) k = max 0 (mget (q_values s) k - scopes_hold k False u scs)"
proof (induction scs arbitrary: s)
  case Nil
  then show ?case using wf_valuesD [of s k] by simp
next
  case (Cons sc scs)
  then show ?case
    using scopes_hold_nonneg [of u k False scs]
    by (simp add: releaseScope_wf releaseScope_values max_sub_add)
qed

lemma releaseHold_values:
  assumes "wf_values s" "nonneg_usage (mr_held r)"
  shows "wf_values (releaseHold r a now s)"
    and "mget (q_values (releaseHold r a now s)) k = max 0 (mget (q_values s) k - res_hold k r)"
  using releaseScopes_values [OF assms] by (simp_all add: releaseHold_def res_hold_def)

lemma releaseScopes_frame:
  "q_reservations (fold (releaseScope u a now) scs s) = q_reservations s"
  "q_settlements (fold (releaseScope u a now) scs s) = q_settlements s"
  "q_settledOrder (fold (releaseScope u a now) scs s) = q_settledOrder s"
  "q_nextElement (fold (releaseScope u a now) scs s) = q_nextElement s"
  "q_diverged (fold (releaseScope u a now) scs s) = q_diverged s"
  "q_clock (fold (releaseScope u a now) scs s) = q_clock s"
  by (induction scs arbitrary: s) (simp_all add: frame)

lemma releaseHold_frame [frame]:
  "q_reservations (releaseHold r a now s) = q_reservations s"
  "q_settlements (releaseHold r a now s) = q_settlements s"
  "q_settledOrder (releaseHold r a now s) = q_settledOrder s"
  "q_nextElement (releaseHold r a now s) = q_nextElement s"
  "q_diverged (releaseHold r a now s) = q_diverged s"
  "q_clock (releaseHold r a now s) = q_clock s"
  by (simp_all add: releaseHold_def releaseScopes_frame)

section \<open>Scopes whose keys are their own\<close>

definition wf_limit :: "LimitSpec \<Rightarrow> bool" where
  "wf_limit l \<longleftrightarrow>
     ls_MaxParallel l \<le> MaxInt64 \<and> ls_RPM l \<le> MaxInt64 \<and> ls_TPM l \<le> MaxInt64 \<and>
     ls_MaxSpendMicros l \<le> MaxInt64 \<and> ls_DailyTokens l \<le> MaxInt64 \<and> ls_MonthlyTokens l \<le> MaxInt64"

text \<open>A limit whose soft spend threshold comes with a hard one, so that every spend hold is checked.\<close>

definition hard_limit :: "LimitSpec \<Rightarrow> bool" where
  "hard_limit l \<longleftrightarrow> (ls_SoftSpendMicros l > 0 \<longrightarrow> ls_MaxSpendMicros l > 0)"

definition wf_scope :: "bool \<Rightarrow> memoryScopeReservation \<Rightarrow> bool" where
  "wf_scope hard sc \<longleftrightarrow>
     sr_Kind (ms_ref sc) = ScopeKey \<and> wf_limit (ms_limit sc) \<and> (hard \<longrightarrow> hard_limit (ms_limit sc)) \<and>
     (\<exists>t. ms_keys sc = quotaKeysForScope (ms_ref sc) (ms_limit sc) t)"

definition wf_scopes :: "bool \<Rightarrow> memoryScopeReservation list \<Rightarrow> bool" where
  "wf_scopes hard scs \<longleftrightarrow> (\<forall>sc \<in> set scs. wf_scope hard sc) \<and> distinct (map ms_ref scs)"

lemma wf_scopes_simps [simp]:
  "wf_scopes hard []"
  "wf_scopes hard (sc # scs) \<longleftrightarrow> wf_scope hard sc \<and> wf_scopes hard scs \<and> ms_ref sc \<notin> ms_ref ` set scs"
  by (auto simp: wf_scopes_def)

definition held_metric :: "metric \<Rightarrow> bool" where
  "held_metric mt \<longleftrightarrow> mt \<in> {Active, SpendHeld, DayHeld, MonthHeld}"

definition exact_key :: "bool \<Rightarrow> string \<Rightarrow> bool" where
  "exact_key hard k \<longleftrightarrow> metric_of k \<in> Some ` {Active, DayHeld, MonthHeld} \<or> hard \<and> metric_of k = Some SpendHeld"

text \<open>Every key of a held counter: where spend is not checked it may saturate, but it never counts too much.\<close>

definition held_key :: "string \<Rightarrow> bool" where
  "held_key k \<longleftrightarrow> metric_of k \<in> Some ` {Active, SpendHeld, DayHeld, MonthHeld}"

lemma wf_scope_metric:
  "wf_scope hard sc \<Longrightarrow> key_of mt (ms_keys sc) \<noteq> [] \<Longrightarrow> metric_of (key_of mt (ms_keys sc)) = Some mt"
  by (auto simp: wf_scope_def metric_of_key)

lemma wf_scope_key_inj:
  "wf_scope hard sc \<Longrightarrow> wf_scope hard' sc' \<Longrightarrow> key_of mt (ms_keys sc) \<noteq> [] \<Longrightarrow>
     key_of mt (ms_keys sc) = key_of mt' (ms_keys sc') \<Longrightarrow> ms_ref sc = ms_ref sc'"
  unfolding wf_scope_def using quota_key_inj by metis

lemma hold_at_metric:
  assumes "wf_scope hard sc" "key_of mt (ms_keys sc) = k" "k \<noteq> []"
  shows "hold_at k t mt' u (ms_keys sc) = (if mt' = mt then hold_amount t mt u else 0)"
  using assms wf_scope_metric [OF assms(1), of mt] wf_scope_metric [OF assms(1), of mt']
  by (auto simp: hold_at_def)

lemma scope_hold_cases:
  assumes "wf_scope hard sc"
  shows "scope_hold k t u sc = 0 \<or>
     (\<exists>mt. held_metric mt \<and> k \<noteq> [] \<and> key_of mt (ms_keys sc) = k \<and> scope_hold k t u sc = hold_amount t mt u)"
proof (cases "\<exists>mt. held_metric mt \<and> k \<noteq> [] \<and> key_of mt (ms_keys sc) = k")
  case True
  then obtain mt where mt: "held_metric mt" "k \<noteq> []" "key_of mt (ms_keys sc) = k" by blast
  have "scope_hold k t u sc = hold_amount t mt u"
    using mt(1) by (auto simp: scope_hold_def hold_at_metric [OF assms mt(3,2)] held_metric_def)
  with mt show ?thesis by blast
next
  case False
  then show ?thesis by (auto simp: scope_hold_def hold_at_def held_metric_def)
qed

lemma scope_hold_other:
  assumes "wf_scope hard sc" "wf_scope hard' sc'" "ms_ref sc \<noteq> ms_ref sc'" "key_of mt (ms_keys sc) = k" "k \<noteq> []"
  shows "scope_hold k t u sc' = 0"
proof -
  have "key_of mt' (ms_keys sc') \<noteq> k" for mt'
    using assms wf_scope_key_inj [OF assms(1,2), of mt mt'] by auto
  then show ?thesis by (simp add: scope_hold_def hold_at_def)
qed

lemma scopes_hold_other:
  "wf_scopes hard' scs \<Longrightarrow> wf_scope hard sc \<Longrightarrow> ms_ref sc \<notin> ms_ref ` set scs \<Longrightarrow>
     key_of mt (ms_keys sc) = k \<Longrightarrow> k \<noteq> [] \<Longrightarrow> scopes_hold k t u scs = 0"
  by (induction scs) (auto dest: scope_hold_other)

text \<open>At most one scope of a reservation counts at a key.\<close>

lemma scopes_hold_cases:
  "wf_scopes hard scs \<Longrightarrow> scopes_hold k t u scs = 0 \<or>
     (\<exists>sc \<in> set scs. \<exists>mt. held_metric mt \<and> k \<noteq> [] \<and> key_of mt (ms_keys sc) = k \<and>
        scopes_hold k t u scs = hold_amount t mt u)"
proof (induction scs)
  case (Cons sc scs)
  then have wf: "wf_scope hard sc" "wf_scopes hard scs" "ms_ref sc \<notin> ms_ref ` set scs" by simp_all
  from scope_hold_cases [OF wf(1)] show ?case
  proof
    assume "scope_hold k t u sc = 0"
    with Cons.IH [OF wf(2)] show ?thesis by auto
  next
    assume "\<exists>mt. held_metric mt \<and> k \<noteq> [] \<and> key_of mt (ms_keys sc) = k \<and> scope_hold k t u sc = hold_amount t mt u"
    with scopes_hold_other [OF wf(2,1,3)] show ?thesis by auto
  qed
qed simp

section \<open>Admission\<close>

lemma checkScopes_None:
  "checkScopes scs u now t s = None \<longleftrightarrow> (\<forall>sc \<in> set scs. checkScope sc u now t s = None)"
  by (induction scs) (auto split: option.splits)

lemma checkScope_values:
  assumes "checkScope sc u now t s = None" "wf_limit (ms_limit sc)" "wf_values s" "nonneg_usage u"
  shows "\<not> t \<Longrightarrow> 0 < ls_MaxParallel (ms_limit sc) \<Longrightarrow>
           mget (q_values s) (k_active (ms_keys sc)) + 1 \<le> ls_MaxParallel (ms_limit sc)"
    and "0 < ls_MaxSpendMicros (ms_limit sc) \<Longrightarrow>
           mget (q_values s) (k_spendUsed (ms_keys sc)) + mget (q_values s) (k_spendHeld (ms_keys sc)) +
             eu_EstimatedSpendMicros u \<le> ls_MaxSpendMicros (ms_limit sc)"
    and "0 < ls_DailyTokens (ms_limit sc) \<Longrightarrow>
           mget (q_values s) (k_dayUsed (ms_keys sc)) + mget (q_values s) (k_dayHeld (ms_keys sc)) +
             EstimatedUsage_TotalTokens u \<le> ls_DailyTokens (ms_limit sc)"
    and "0 < ls_MonthlyTokens (ms_limit sc) \<Longrightarrow>
           mget (q_values s) (k_monthUsed (ms_keys sc)) + mget (q_values s) (k_monthHeld (ms_keys sc)) +
             EstimatedUsage_TotalTokens u \<le> ls_MonthlyTokens (ms_limit sc)"
proof -
  have v: "in_i64 (mget (q_values s) k)" "0 \<le> mget (q_values s) k" for k
    using wf_values_in_i64 [OF assms(3)] wf_valuesD [OF assms(3)] by auto
  have a: "in_i64 (eu_EstimatedSpendMicros u)" "0 \<le> eu_EstimatedSpendMicros u"
    "in_i64 (EstimatedUsage_TotalTokens u)" "0 \<le> EstimatedUsage_TotalTokens u" "in_i64 1"
    using amounts [OF assms(4)] by (auto simp: in_i64_def)
  note c = assms(1) [unfolded checkScope_def Let_def]
  note simps = exceedsLimit_sum v a max_absorb2 not_less
  show "\<not> t \<Longrightarrow> 0 < ls_MaxParallel (ms_limit sc) \<Longrightarrow>
      mget (q_values s) (k_active (ms_keys sc)) + 1 \<le> ls_MaxParallel (ms_limit sc)"
    using c assms(2) by (simp add: simps wf_limit_def split: if_splits)
  show "0 < ls_MaxSpendMicros (ms_limit sc) \<Longrightarrow>
      mget (q_values s) (k_spendUsed (ms_keys sc)) + mget (q_values s) (k_spendHeld (ms_keys sc)) +
        eu_EstimatedSpendMicros u \<le> ls_MaxSpendMicros (ms_limit sc)"
    using c assms(2) by (simp add: simps wf_limit_def add.assoc split: if_splits)
  show "0 < ls_DailyTokens (ms_limit sc) \<Longrightarrow>
      mget (q_values s) (k_dayUsed (ms_keys sc)) + mget (q_values s) (k_dayHeld (ms_keys sc)) +
        EstimatedUsage_TotalTokens u \<le> ls_DailyTokens (ms_limit sc)"
    using c assms(2) by (simp add: simps wf_limit_def add.assoc split: if_splits)
  show "0 < ls_MonthlyTokens (ms_limit sc) \<Longrightarrow>
      mget (q_values s) (k_monthUsed (ms_keys sc)) + mget (q_values s) (k_monthHeld (ms_keys sc)) +
        EstimatedUsage_TotalTokens u \<le> ls_MonthlyTokens (ms_limit sc)"
    using c assms(2) by (simp add: simps wf_limit_def add.assoc split: if_splits)
qed

text \<open>A nonempty key of a held metric comes with its limit.\<close>

lemma held_key_limit:
  assumes "wf_scope hard sc" "key_of mt (ms_keys sc) \<noteq> []"
  shows "mt = Active \<Longrightarrow> 0 < ls_MaxParallel (ms_limit sc)"
    and "mt = DayHeld \<Longrightarrow> 0 < ls_DailyTokens (ms_limit sc)"
    and "mt = MonthHeld \<Longrightarrow> 0 < ls_MonthlyTokens (ms_limit sc)"
    and "mt = SpendHeld \<Longrightarrow> hard \<Longrightarrow> 0 < ls_MaxSpendMicros (ms_limit sc)"
  using assms by (auto simp: wf_scope_def key_of_def quotaKeys_sel hard_limit_def split: if_splits)

text \<open>An admitted hold fits: no exact counter saturates.\<close>

lemma admitted_fits:
  assumes "checkScopes scs u now t s = None" "wf_scopes hard scs" "wf_values s" "nonneg_usage u" "exact_key hard k"
  shows "mget (q_values s) k + scopes_hold k t u scs \<le> MaxInt64"
proof -
  have vk: "0 \<le> mget (q_values s) k'" "mget (q_values s) k' \<le> MaxInt64" for k'
    using wf_valuesD [OF assms(3)] by auto
  from scopes_hold_cases [OF assms(2)] show ?thesis
  proof
    assume "scopes_hold k t u scs = 0"
    with vk show ?thesis by simp
  next
    assume "\<exists>sc \<in> set scs. \<exists>mt. held_metric mt \<and> k \<noteq> [] \<and> key_of mt (ms_keys sc) = k \<and>
        scopes_hold k t u scs = hold_amount t mt u"
    then obtain sc mt where sc: "sc \<in> set scs" and mt: "held_metric mt" "k \<noteq> []" "key_of mt (ms_keys sc) = k"
      and eq: "scopes_hold k t u scs = hold_amount t mt u" by blast
    from sc assms(2) have wf: "wf_scope hard sc" by (simp add: wf_scopes_def)
    then have lim: "wf_limit (ms_limit sc)" by (simp add: wf_scope_def)
    from sc assms(1) have chk: "checkScope sc u now t s = None" by (simp add: checkScopes_None)
    note b = checkScope_values [OF chk lim assms(3,4)]
    note hk = held_key_limit [OF wf, of mt, unfolded mt(3), OF mt(2)]
    have "metric_of k = Some mt" using wf_scope_metric [OF wf, of mt] mt by simp
    with assms(5) have ex: "mt = SpendHeld \<Longrightarrow> hard" by (auto simp: exact_key_def)
    note used = vk [of "k_spendUsed (ms_keys sc)"] vk [of "k_dayUsed (ms_keys sc)"] vk [of "k_monthUsed (ms_keys sc)"]
    from mt(1) show ?thesis unfolding eq using b hk ex used mt(3) lim vk [of k]
      by (auto simp: held_metric_def hold_amount_def key_of_def wf_limit_def)
  qed
qed

section \<open>The accounting invariant\<close>

definition wf_res :: "bool \<Rightarrow> string \<times> memoryReservation \<Rightarrow> bool" where
  "wf_res hard e \<longleftrightarrow>
     fst e \<noteq> [] \<and> nonneg_usage (mr_held (snd e)) \<and> wf_scopes hard (mr_scopes (snd e)) \<and>
     mr_ticket (snd e) = \<lparr>qt_RequestID = fst e, qt_Scopes = map ms_ref (mr_scopes (snd e))\<rparr>"

definition used_key :: "string \<Rightarrow> bool" where
  "used_key k \<longleftrightarrow> metric_of k \<in> Some ` {SpendUsed, DayUsed, MonthUsed}"

definition acc_inv :: "bool \<Rightarrow> MemoryQuotaStore \<Rightarrow> bool" where
  "acc_inv hard s \<longleftrightarrow>
     wf_values s \<and> wf_gomap (q_reservations s) \<and> (\<forall>e \<in> set (q_reservations s). wf_res hard e) \<and>
     (\<forall>k. q_valueExpires s k \<noteq> None \<longrightarrow> used_key k) \<and>
     (\<forall>k. exact_key hard k \<longrightarrow> mget (q_values s) k = total_hold k (q_reservations s)) \<and>
     (\<forall>k. held_key k \<longrightarrow> mget (q_values s) k \<le> total_hold k (q_reservations s))"

lemma acc_invD:
  assumes "acc_inv hard s"
  shows "wf_values s" "wf_gomap (q_reservations s)" "e \<in> set (q_reservations s) \<Longrightarrow> wf_res hard e"
    "q_valueExpires s k \<noteq> None \<Longrightarrow> used_key k"
    "exact_key hard k \<Longrightarrow> mget (q_values s) k = total_hold k (q_reservations s)"
    "held_key k \<Longrightarrow> mget (q_values s) k \<le> total_hold k (q_reservations s)"
  using assms by (simp_all add: acc_inv_def)

lemma acc_inv_res:
  "acc_inv hard s \<Longrightarrow> map_of (q_reservations s) rid = Some r \<Longrightarrow> wf_res hard (rid, r)"
  by (auto dest: acc_invD(3) map_of_SomeD)

lemma acc_inv_cong:
  "q_values s' = q_values s \<Longrightarrow> q_valueExpires s' = q_valueExpires s \<Longrightarrow> q_reservations s' = q_reservations s \<Longrightarrow>
     acc_inv hard s' = acc_inv hard s"
  by (simp add: acc_inv_def wf_values_def)

lemma acc_inv_New [simp]: "acc_inv hard (NewMemoryQuotaStore clk)"
  by (simp add: acc_inv_def NewMemoryQuotaStore_def wf_values_def total_hold_def)

lemma exact_not_used: "exact_key hard k \<Longrightarrow> \<not> used_key k" "held_key k \<Longrightarrow> \<not> used_key k"
  by (auto simp: exact_key_def held_key_def used_key_def)

lemma res_hold_nonneg: "wf_res hard e \<Longrightarrow> 0 \<le> res_hold k (snd e)"
  by (simp add: res_hold_def wf_res_def scopes_hold_nonneg)

lemma total_hold_simps [simp]:
  "total_hold k [] = 0"
  "total_hold k (e # rs) = res_hold k (snd e) + total_hold k rs"
  by (simp_all add: total_hold_def)

lemma total_hold_delete:
  "wf_gomap rs \<Longrightarrow> map_of rs rid = Some r \<Longrightarrow>
     total_hold k (AList.delete rid rs) = total_hold k rs - res_hold k r"
proof (induction rs)
  case (Cons e rs)
  then have wf: "wf_gomap rs" and fresh: "fst e \<notin> fst ` set rs" by (auto simp: wf_gomap_def)
  show ?case
  proof (cases "fst e = rid")
    case True
    with fresh have "AList.delete rid rs = rs" by (simp add: delete_notin_dom)
    with True Cons.prems show ?thesis by (cases e) auto
  next
    case False
    with Cons.prems Cons.IH [OF wf] show ?thesis by (cases e) auto
  qed
qed simp

lemma total_hold_update:
  "wf_gomap rs \<Longrightarrow> total_hold k (AList.update rid r rs) =
     total_hold k rs + res_hold k r - (case map_of rs rid of None \<Rightarrow> 0 | Some r' \<Rightarrow> res_hold k r')"
proof (induction rs)
  case (Cons e rs)
  then have wf: "wf_gomap rs" by (auto simp: wf_gomap_def)
  with Cons show ?case by (cases e) (auto split: option.splits)
qed simp

lemma total_hold_ge:
  "(\<And>e. e \<in> set rs \<Longrightarrow> wf_res hard e) \<Longrightarrow> map_of rs rid = Some r \<Longrightarrow> res_hold k r \<le> total_hold k rs"
proof (induction rs)
  case (Cons e rs)
  have nn: "0 \<le> total_hold k rs"
    unfolding total_hold_def by (rule sum_list_nonneg) (use Cons.prems(1) res_hold_nonneg in fastforce)
  have "0 \<le> res_hold k (snd e)" using Cons.prems(1) res_hold_nonneg by fastforce
  with nn Cons show ?case by (cases e) (fastforce split: if_splits)
qed simp

lemma decrValue_expires: "q_valueExpires (decrValue k d s) k' \<noteq> None \<Longrightarrow> q_valueExpires s k' \<noteq> None"
  by (auto simp: decrValue_def Let_def split: if_splits)

lemma releaseScope_expires:
  "q_valueExpires (releaseScope u a now sc s) k' \<noteq> None \<Longrightarrow> q_valueExpires s k' \<noteq> None"
  unfolding releaseScope_def Let_def by (drule decrValue_expires)+ (simp add: frame)

lemma releaseScopes_expires:
  "q_valueExpires (fold (releaseScope u a now) scs s) k' \<noteq> None \<Longrightarrow> q_valueExpires s k' \<noteq> None"
proof (induction scs arbitrary: s)
  case (Cons sc scs)
  from Cons.prems have "q_valueExpires (fold (releaseScope u a now) scs (releaseScope u a now sc s)) k' \<noteq> None"
    by simp
  then have "q_valueExpires (releaseScope u a now sc s) k' \<noteq> None" by (rule Cons.IH)
  then show ?case by (rule releaseScope_expires)
qed simp

lemma releaseHold_expires:
  "q_valueExpires (releaseHold r a now s) k' \<noteq> None \<Longrightarrow> q_valueExpires s k' \<noteq> None"
  unfolding releaseHold_def by (rule releaseScopes_expires)

text \<open>Releasing a live reservation and deleting it, as expiry, \<open>Commit\<close> and \<open>Refund\<close> do.\<close>

lemma release_acc [inv_intro]:
  assumes "acc_inv hard s" "map_of (q_reservations s) rid = Some r"
  shows "acc_inv hard (releaseHold r a now s\<lparr>q_reservations := AList.delete rid (q_reservations s)\<rparr>)"
proof -
  have wr: "wf_res hard (rid, r)" using assms by (rule acc_inv_res)
  then have nn: "nonneg_usage (mr_held r)" by (simp add: wf_res_def)
  note rv = releaseHold_values [OF acc_invD(1) [OF assms(1)] nn]
  have "mget (q_values (releaseHold r a now s)) k = total_hold k (AList.delete rid (q_reservations s))"
    if "exact_key hard k" for k
  proof -
    have "res_hold k r \<le> total_hold k (q_reservations s)"
      using acc_invD(3) [OF assms(1)] assms(2) by (rule total_hold_ge)
    then show ?thesis
      using total_hold_delete [OF acc_invD(2) [OF assms(1)] assms(2), of k] acc_invD(5) [OF assms(1) that]
      by (simp add: rv)
  qed
  moreover have "mget (q_values (releaseHold r a now s)) k \<le> total_hold k (AList.delete rid (q_reservations s))"
    if "held_key k" for k
    using total_hold_ge [OF acc_invD(3) [OF assms(1)] assms(2), of k]
      total_hold_delete [OF acc_invD(2) [OF assms(1)] assms(2), of k] acc_invD(6) [OF assms(1) that]
    by (simp add: rv)
  moreover have "wf_res hard e" if "e \<in> set (AList.delete rid (q_reservations s))" for e
    using that acc_invD(3) [OF assms(1)] by (simp add: set_gomap_delete)
  moreover have "used_key k" if "q_valueExpires (releaseHold r a now s) k \<noteq> None" for k
    using releaseHold_expires [OF that] acc_invD(4) [OF assms(1)] by blast
  moreover have "wf_gomap (AList.delete rid (q_reservations s))"
    using acc_invD(2) [OF assms(1)] by simp
  ultimately show ?thesis
    using rv(1) by (simp add: acc_inv_def wf_values_def)
qed

lemma cleanupSettlements_frame [frame]:
  "q_values (cleanupSettlements now s) = q_values s"
  "q_valueExpires (cleanupSettlements now s) = q_valueExpires s"
  "q_counters (cleanupSettlements now s) = q_counters s"
  "q_reservations (cleanupSettlements now s) = q_reservations s"
  "q_nextElement (cleanupSettlements now s) = q_nextElement s"
  "q_diverged (cleanupSettlements now s) = q_diverged s"
  "q_clock (cleanupSettlements now s) = q_clock s"
  "q_reads (cleanupSettlements now s) = q_reads s"
  by (simp_all add: cleanupSettlements_def split: prod.split)

lemma recordSettlement_frame [frame]:
  "q_values (recordSettlement rid x now s) = q_values s"
  "q_valueExpires (recordSettlement rid x now s) = q_valueExpires s"
  "q_counters (recordSettlement rid x now s) = q_counters s"
  "q_reservations (recordSettlement rid x now s) = q_reservations s"
  "q_clock (recordSettlement rid x now s) = q_clock s"
  "q_reads (recordSettlement rid x now s) = q_reads s"
  by (simp_all add: recordSettlement_def Let_def frame split: prod.split)

lemma settlement_acc [simp]:
  "acc_inv hard (cleanupSettlements now s) = acc_inv hard s"
  "acc_inv hard (recordSettlement rid x now s) = acc_inv hard s"
  by (rule acc_inv_cong, simp_all add: frame)+

section \<open>Expiry keeps the invariant\<close>

definition live :: "instant \<Rightarrow> string \<times> memoryReservation \<Rightarrow> bool" where
  "live now e \<longleftrightarrow> IsZero (mr_expires (snd e)) \<or> now < mr_expires (snd e)"

lemma expireReservation_reservations:
  "q_reservations (expireReservation now e s) =
     (if live now e then q_reservations s else filter (\<lambda>e'. fst e' \<noteq> fst e) (q_reservations s))"
  by (cases e) (auto simp: expireReservation_def live_def Let_def frame AList.delete_eq case_prod_beta intro!: filter_cong)

lemma expireReservations_reservations:
  "q_reservations (fold (expireReservation now) es s) =
     filter (\<lambda>e'. fst e' \<notin> fst ` {e \<in> set es. \<not> live now e}) (q_reservations s)"
  by (induction es arbitrary: s) (auto simp: expireReservation_reservations intro!: filter_cong)

lemma expireReservation_acc:
  assumes "acc_inv hard s" "map_of (q_reservations s) (fst e) = Some (snd e)"
  shows "acc_inv hard (expireReservation now e s)"
  using release_acc [OF assms, of 0 now] assms(1)
  by (cases e) (simp add: expireReservation_def Let_def frame)

lemma expireReservations_acc:
  "acc_inv hard s \<Longrightarrow> wf_gomap es \<Longrightarrow> (\<And>e. e \<in> set es \<Longrightarrow> map_of (q_reservations s) (fst e) = Some (snd e)) \<Longrightarrow>
     acc_inv hard (fold (expireReservation now) es s)"
proof (induction es arbitrary: s)
  case (Cons e es)
  from Cons.prems(2) have wf: "wf_gomap es" and fresh: "fst e \<notin> fst ` set es" by (auto simp: wf_gomap_def)
  have "map_of (q_reservations (expireReservation now e s)) (fst e') = Some (snd e')" if "e' \<in> set es" for e'
  proof -
    have "fst e' \<noteq> fst e" using that fresh by (metis image_eqI)
    with Cons.prems(3) [of e'] that show ?thesis
      by (simp add: expireReservation_reservations map_of_filter_wf [OF acc_invD(2) [OF Cons.prems(1)]])
  qed
  with Cons wf show ?case by (simp add: expireReservation_acc)
qed simp

definition expired_value :: "instant \<Rightarrow> MemoryQuotaStore \<Rightarrow> string \<Rightarrow> bool" where
  "expired_value now s k = (case q_valueExpires s k of None \<Rightarrow> False | Some x \<Rightarrow> \<not> IsZero x \<and> \<not> now < x)"

lemma cleanupExpired_acc [inv_intro]:
  assumes "acc_inv hard s"
  shows "acc_inv hard (cleanupExpired now s)"
proof -
  let ?s = "cleanupSettlements now (fold (expireReservation now) (q_reservations s) s)"
  have "acc_inv hard ?s"
    using assms acc_invD(2) [OF assms]
    by (auto intro!: expireReservations_acc simp: set_gomap_map_of [symmetric])
  moreover have "q_values (cleanupExpired now s) = (\<lambda>k. if expired_value now ?s k then None else q_values ?s k)"
    "q_valueExpires (cleanupExpired now s) = (\<lambda>k. if expired_value now ?s k then None else q_valueExpires ?s k)"
    "q_reservations (cleanupExpired now s) = q_reservations ?s"
    by (auto simp: cleanupExpired_def Let_def expired_value_def fun_eq_iff)
  moreover have "used_key k" if "acc_inv hard ?s" "expired_value now ?s k" for k
    using that acc_invD(4) [OF that(1), of k] by (auto simp: expired_value_def split: option.splits)
  ultimately show ?thesis
    using exact_not_used by (auto simp: acc_inv_def wf_values_def mget_def)
qed

lemma cleanupExpired_reservations:
  assumes "wf_gomap (q_reservations s)"
  shows "q_reservations (cleanupExpired now s) = filter (live now) (q_reservations s)"
proof -
  have "q_reservations (cleanupExpired now s) =
      filter (\<lambda>e'. fst e' \<notin> fst ` {e \<in> set (q_reservations s). \<not> live now e}) (q_reservations s)"
    by (simp add: cleanupExpired_def Let_def frame expireReservations_reservations)
  also have "\<dots> = filter (live now) (q_reservations s)"
  proof (rule filter_cong)
    fix e assume e: "e \<in> set (q_reservations s)"
    have "e' = e" if "e' \<in> set (q_reservations s)" "fst e' = fst e" for e'
      using e that assms set_gomap_map_of [OF assms, of "fst e" "snd e"] set_gomap_map_of [OF assms, of "fst e'" "snd e'"]
      by (metis option.inject prod.collapse)
    with e show "(fst e \<notin> fst ` {e \<in> set (q_reservations s). \<not> live now e}) = live now e" by auto
  qed simp
  finally show ?thesis .
qed

section \<open>Every operation keeps the invariant\<close>

definition wf_request :: "bool \<Rightarrow> ScopedLimit list \<Rightarrow> bool" where
  "wf_request hard scopes \<longleftrightarrow>
     (\<forall>sl \<in> set scopes. sr_Kind (sl_Ref sl) = ScopeKey \<and> wf_limit (sl_Limits sl) \<and>
        (hard \<longrightarrow> hard_limit (sl_Limits sl))) \<and> distinct (map sl_Ref scopes)"

lemma resolve_refs: "map ms_ref (resolveScopeReservations scopes now) = map sl_Ref scopes"
  by (simp add: resolveScopeReservations_def)

lemma wf_request_resolve: "wf_request hard scopes \<Longrightarrow> wf_scopes hard (resolveScopeReservations scopes now)"
  unfolding wf_scopes_def resolve_refs
  by (auto simp: wf_request_def resolveScopeReservations_def wf_scope_def)

lemma time_Now_frame [simp]:
  "q_values (snd (time_Now s)) = q_values s"
  "q_valueExpires (snd (time_Now s)) = q_valueExpires s"
  "q_counters (snd (time_Now s)) = q_counters s"
  "q_reservations (snd (time_Now s)) = q_reservations s"
  "q_settlements (snd (time_Now s)) = q_settlements s"
  "q_settledOrder (snd (time_Now s)) = q_settledOrder s"
  "q_nextElement (snd (time_Now s)) = q_nextElement s"
  "q_diverged (snd (time_Now s)) = q_diverged s"
  "q_clock (snd (time_Now s)) = q_clock s"
  by (simp_all add: time_Now_def)

lemma time_Now_acc [simp]: "acc_inv hard (snd (time_Now s)) = acc_inv hard s"
  by (rule acc_inv_cong) simp_all

text \<open>The state every method works on: the clock read, then what expired removed.\<close>

definition ticked :: "MemoryQuotaStore \<Rightarrow> MemoryQuotaStore" where
  "ticked s = cleanupExpired (fst (time_Now s)) (snd (time_Now s))"

lemma ticked_acc [inv_intro]: "acc_inv hard s \<Longrightarrow> acc_inv hard (ticked s)"
  by (simp add: ticked_def cleanupExpired_acc)

lemma hold_new_acc [inv_intro]:
  assumes "acc_inv hard s" "map_of (q_reservations s) rid = None" "rid \<noteq> []" "nonneg_usage u"
    "wf_scopes hard scs" "checkScopes scs u now False s = None"
  shows "acc_inv hard (applyScopeHolds scs u now False s\<lparr>q_reservations := AList.update rid
     \<lparr>mr_ticket = \<lparr>qt_RequestID = rid, qt_Scopes = scopedRefs scs\<rparr>, mr_held = u, mr_scopes = scs, mr_expires = e\<rparr>
     (q_reservations s)\<rparr>)" (is "acc_inv hard (_\<lparr>q_reservations := AList.update rid ?r _\<rparr>)")
proof -
  let ?rs = "AList.update rid ?r (q_reservations s)"
  have wfv: "wf_values s" and wfr: "wf_gomap (q_reservations s)" using assms(1) by (simp_all add: acc_invD)
  have "mget (q_values (applyScopeHolds scs u now False s)) k = total_hold k ?rs" if ex: "exact_key hard k" for k
  proof -
    have "mget (q_values s) k + scopes_hold k False u scs \<le> MaxInt64"
      using assms(6,5) wfv assms(4) ex by (rule admitted_fits)
    then show ?thesis
      using wf_valuesD [OF wfv, of k] scopes_hold_nonneg [OF assms(4), of k False scs]
        acc_invD(5) [OF assms(1) ex] assms(2)
      by (simp add: applyScopeHolds_values [OF wfv assms(4)] sat_sum_exact total_hold_update [OF wfr] res_hold_def)
  qed
  moreover have "mget (q_values (applyScopeHolds scs u now False s)) k \<le> total_hold k ?rs" if "held_key k" for k
    using acc_invD(6) [OF assms(1) that] assms(2) wf_valuesD [OF wfv, of k] scopes_hold_nonneg [OF assms(4), of k False scs]
    by (simp add: applyScopeHolds_values [OF wfv assms(4)] total_hold_update [OF wfr] res_hold_def sat_sum_def)
  moreover have "wf_res hard e" if "e \<in> set ?rs" for e
  proof -
    have "wf_res hard (rid, ?r)" using assms(3-5) by (simp add: wf_res_def scopedRefs_def)
    with set_gomap_update [OF that] acc_invD(3) [OF assms(1)] show ?thesis by blast
  qed
  ultimately show ?thesis
    using wfr applyScopeHolds_wf [OF wfv assms(4)] acc_invD(4) [OF assms(1)]
    by (simp add: acc_inv_def wf_values_def frame)
qed

text \<open>Changing the expiry of a reservation, as \<open>TopUp\<close> does, keeps what it holds.\<close>

lemma res_hold_expires [simp]: "res_hold k (r\<lparr>mr_expires := e\<rparr>) = res_hold k r"
  by (simp add: res_hold_def)

lemma update_res_acc:
  assumes "acc_inv hard s" "map_of (q_reservations s) rid = Some r"
    "wf_values s'" "q_valueExpires s' = q_valueExpires s" "wf_res hard (rid, r')"
    "\<And>k. exact_key hard k \<Longrightarrow> mget (q_values s') k = mget (q_values s) k + (res_hold k r' - res_hold k r)"
    "\<And>k. held_key k \<Longrightarrow> mget (q_values s') k \<le> max (mget (q_values s) k + (res_hold k r' - res_hold k r)) (res_hold k r')"
  shows "acc_inv hard (s'\<lparr>q_reservations := AList.update rid r' (q_reservations s)\<rparr>)"
proof -
  have wfr: "wf_gomap (q_reservations s)" using assms(1) by (rule acc_invD)
  have "mget (q_values s') k = total_hold k (AList.update rid r' (q_reservations s))" if "exact_key hard k" for k
    using assms(6) [OF that] acc_invD(5) [OF assms(1) that] assms(2) by (simp add: total_hold_update [OF wfr])
  moreover have "mget (q_values s') k \<le> total_hold k (AList.update rid r' (q_reservations s))" if "held_key k" for k
    using assms(7) [OF that] acc_invD(6) [OF assms(1) that] total_hold_ge [OF acc_invD(3) [OF assms(1)] assms(2), of k] assms(2)
    by (simp add: total_hold_update [OF wfr])
  moreover have "wf_res hard e" if "e \<in> set (AList.update rid r' (q_reservations s))" for e
    using set_gomap_update [OF that] assms(5) acc_invD(3) [OF assms(1)] by blast
  ultimately show ?thesis
    using wfr assms(3) acc_invD(4) [OF assms(1)] by (simp add: acc_inv_def wf_values_def assms(4))
qed

lemma touch_acc [inv_intro]:
  assumes "acc_inv hard s" "map_of (q_reservations s) rid = Some r"
  shows "acc_inv hard (s\<lparr>q_reservations := AList.update rid (r\<lparr>mr_expires := e\<rparr>) (q_reservations s)\<rparr>)"
  using assms acc_inv_res [OF assms]
  by (intro update_res_acc) (auto simp: acc_invD wf_res_def)

lemma addHeld_nonneg: "nonneg_usage u \<Longrightarrow> nonneg_usage d \<Longrightarrow> nonneg_usage (addHeld u d)"
  by (simp add: nonneg_usage_def addHeld_def saturatingAdd_pos in_i64_def)

lemma addHeld_tokens:
  assumes "nonneg_usage u" "nonneg_usage d"
  shows "EstimatedUsage_TotalTokens (addHeld u d) =
           sat_sum (EstimatedUsage_TotalTokens u) (EstimatedUsage_TotalTokens d)"
  using assms
  by (simp add: TotalTokens_sat [OF addHeld_nonneg] TotalTokens_sat)
    (simp add: addHeld_def saturatingAdd_pos in_i64_def nonneg_usage_def sat_sum_assoc sat_sum_left_commute)

lemma addHeld_amount_sat:
  assumes "nonneg_usage u" "nonneg_usage d"
  shows "hold_amount False mt (addHeld u d) = sat_sum (hold_amount False mt u) (hold_amount True mt d)"
proof -
  have "hold_amount False SpendHeld (addHeld u d) = sat_sum (hold_amount False SpendHeld u) (hold_amount True SpendHeld d)"
    using assms by (simp add: hold_amount_def addHeld_def saturatingAdd_pos in_i64_def nonneg_usage_def)
  then show ?thesis
    using addHeld_tokens [OF assms] by (cases mt) (simp_all add: hold_amount_def)
qed

lemma addHeld_amount:
  assumes "nonneg_usage u" "nonneg_usage d" "hold_amount False mt u + hold_amount True mt d \<le> MaxInt64"
  shows "hold_amount False mt (addHeld u d) = hold_amount False mt u + hold_amount True mt d"
  using assms(3) hold_amount_range [OF assms(1), of False mt] hold_amount_range [OF assms(2), of True mt]
  by (simp add: addHeld_amount_sat [OF assms(1,2)] sat_sum_exact)

lemma scopes_hold_one:
  "sc \<in> set scs \<Longrightarrow> wf_scopes hard scs \<Longrightarrow> held_metric mt \<Longrightarrow> k \<noteq> [] \<Longrightarrow> key_of mt (ms_keys sc) = k \<Longrightarrow>
     scopes_hold k t v scs = hold_amount t mt v"
proof (induction scs)
  case (Cons sc' scs)
  show ?case
  proof (cases "sc' = sc")
    case True
    with Cons.prems scopes_hold_other [of hard scs hard sc mt k t v] have "scopes_hold k t v scs = 0" by auto
    moreover from True Cons.prems have "scope_hold k t v sc' = hold_amount t mt v"
      by (auto simp: scope_hold_def hold_at_metric [of hard sc mt k] held_metric_def)
    ultimately show ?thesis by simp
  next
    case False
    with Cons.prems have sc: "sc \<in> set scs" by auto
    then have "ms_ref sc \<in> ms_ref ` set scs" by (rule imageI)
    with Cons.prems have "ms_ref sc \<noteq> ms_ref sc'" by auto
    with Cons.prems sc have "scope_hold k t v sc' = 0"
      by (intro scope_hold_other [of hard sc hard sc' mt]) (auto simp: wf_scopes_def)
    with Cons sc show ?thesis by simp
  qed
qed simp

text \<open>An admitted top-up adds its delta to every exact counter of the reservation.\<close>

lemma addHeld_scopes:
  assumes "wf_scopes hard scs" "nonneg_usage u" "nonneg_usage d"
    "scopes_hold k False u scs + scopes_hold k True d scs \<le> MaxInt64"
  shows "scopes_hold k False (addHeld u d) scs = scopes_hold k False u scs + scopes_hold k True d scs"
proof (cases "\<exists>sc \<in> set scs. \<exists>mt. held_metric mt \<and> k \<noteq> [] \<and> key_of mt (ms_keys sc) = k")
  case False
  then have "scopes_hold k t v scs = 0" for t v
    using scopes_hold_cases [OF assms(1), of k t v] by blast
  then show ?thesis by simp
next
  case True
  then obtain sc mt where sc: "sc \<in> set scs" and mt: "held_metric mt" "k \<noteq> []" "key_of mt (ms_keys sc) = k" by blast
  note one = scopes_hold_one [OF sc assms(1) mt]
  show ?thesis using assms(4) by (simp add: one addHeld_amount [OF assms(2,3)])
qed

text \<open>Where the sum does not fit, both the counter and what the reservation holds are saturated.\<close>

lemma addHeld_scopes_sat:
  assumes "wf_scopes hard scs" "nonneg_usage u" "nonneg_usage d"
  shows "sat_sum (scopes_hold k False u scs) (scopes_hold k True d scs) \<le> scopes_hold k False (addHeld u d) scs"
proof (cases "\<exists>sc \<in> set scs. \<exists>mt. held_metric mt \<and> k \<noteq> [] \<and> key_of mt (ms_keys sc) = k")
  case False
  then have "scopes_hold k t v scs = 0" for t v
    using scopes_hold_cases [OF assms(1), of k t v] by blast
  then show ?thesis by (simp add: sat_sum_def)
next
  case True
  then obtain sc mt where sc: "sc \<in> set scs" and mt: "held_metric mt" "k \<noteq> []" "key_of mt (ms_keys sc) = k" by blast
  note one = scopes_hold_one [OF sc assms(1) mt]
  show ?thesis by (simp add: one addHeld_amount_sat [OF assms(2,3)])
qed

lemma topUp_acc [inv_intro]:
  assumes "acc_inv hard s" "map_of (q_reservations s) rid = Some r" "nonneg_usage d"
    "checkScopes (mr_scopes r) d now True s = None"
  shows "acc_inv hard (applyScopeHolds (mr_scopes r) d now True s\<lparr>q_reservations :=
     AList.update rid (r\<lparr>mr_held := addHeld (mr_held r) d, mr_expires := e\<rparr>) (q_reservations s)\<rparr>)"
proof (rule update_res_acc [OF assms(1,2)])
  have wr: "wf_res hard (rid, r)" using assms(1,2) by (rule acc_inv_res)
  then have r: "nonneg_usage (mr_held r)" "wf_scopes hard (mr_scopes r)" by (simp_all add: wf_res_def)
  have wfv: "wf_values s" using assms(1) by (rule acc_invD)
  show "wf_values (applyScopeHolds (mr_scopes r) d now True s)" using wfv assms(3) by (rule applyScopeHolds_wf)
  show "q_valueExpires (applyScopeHolds (mr_scopes r) d now True s) = q_valueExpires s" by (simp add: frame)
  show "wf_res hard (rid, r\<lparr>mr_held := addHeld (mr_held r) d, mr_expires := e\<rparr>)"
    using wr assms(3) by (simp add: wf_res_def addHeld_nonneg)
  fix k assume ex: "exact_key hard k"
  have fits: "mget (q_values s) k + scopes_hold k True d (mr_scopes r) \<le> MaxInt64"
    using assms(4) r(2) wfv assms(3) ex by (rule admitted_fits)
  have "res_hold k r \<le> mget (q_values s) k"
    using total_hold_ge [OF acc_invD(3) [OF assms(1)] assms(2)] acc_invD(5) [OF assms(1) ex] by simp
  with fits have "scopes_hold k False (mr_held r) (mr_scopes r) + scopes_hold k True d (mr_scopes r) \<le> MaxInt64"
    by (simp add: res_hold_def)
  from addHeld_scopes [OF r(2,1) assms(3) this] show
    "mget (q_values (applyScopeHolds (mr_scopes r) d now True s)) k = mget (q_values s) k +
       (res_hold k (r\<lparr>mr_held := addHeld (mr_held r) d, mr_expires := e\<rparr>) - res_hold k r)"
    using fits wf_valuesD [OF wfv, of k] scopes_hold_nonneg [OF assms(3), of k True "mr_scopes r"]
    by (simp add: applyScopeHolds_values [OF wfv assms(3)] sat_sum_exact res_hold_def)
next
  have wr: "wf_res hard (rid, r)" using assms(1,2) by (rule acc_inv_res)
  then have r: "nonneg_usage (mr_held r)" "wf_scopes hard (mr_scopes r)" by (simp_all add: wf_res_def)
  have wfv: "wf_values s" using assms(1) by (rule acc_invD)
  fix k
  show "mget (q_values (applyScopeHolds (mr_scopes r) d now True s)) k \<le>
     max (mget (q_values s) k + (res_hold k (r\<lparr>mr_held := addHeld (mr_held r) d, mr_expires := e\<rparr>) - res_hold k r))
       (res_hold k (r\<lparr>mr_held := addHeld (mr_held r) d, mr_expires := e\<rparr>))"
    using addHeld_scopes_sat [OF r(2,1) assms(3), of k] wf_valuesD [OF wfv, of k]
      scopes_hold_nonneg [OF assms(3), of k True "mr_scopes r"] scopes_hold_nonneg [OF r(1), of k False "mr_scopes r"]
    by (auto simp: applyScopeHolds_values [OF wfv assms(3)] res_hold_def sat_sum_def)
qed

lemma addValue_used_acc:
  assumes "acc_inv hard s" "0 \<le> d" "d \<le> MaxInt64" "key \<noteq> [] \<Longrightarrow> used_key key"
  shows "acc_inv hard (addValue key d e s)"
proof -
  have wfv: "wf_values s" using assms(1) by (rule acc_invD)
  have "mget (q_values (addValue key d e s)) k = total_hold k (q_reservations s)" if ex: "exact_key hard k" for k
  proof -
    have "(if k \<noteq> [] \<and> k = key then d else 0) = 0" using ex exact_not_used(1) assms(4) by auto
    then show ?thesis
      using addValue_values [OF wfv assms(2,3), of key e k] wf_valuesD [OF wfv, of k] acc_invD(5) [OF assms(1) ex]
      by simp
  qed
  moreover have "mget (q_values (addValue key d e s)) k \<le> total_hold k (q_reservations s)" if h: "held_key k" for k
  proof -
    have "(if k \<noteq> [] \<and> k = key then d else 0) = 0" using h exact_not_used(2) assms(4) by auto
    then show ?thesis
      using addValue_values [OF wfv assms(2,3), of key e k] wf_valuesD [OF wfv, of k] acc_invD(6) [OF assms(1) h]
      by simp
  qed
  moreover have "used_key k" if "q_valueExpires (addValue key d e s) k \<noteq> None" for k
    using that assms(4) acc_invD(4) [OF assms(1), of k]
    by (auto simp: addValue_def Let_def time_Now_def split: if_splits)
  ultimately show ?thesis
    using addValue_wf [OF wfv assms(2,3)] acc_invD(2,3) [OF assms(1)]
    by (auto simp: acc_inv_def wf_values_def frame)
qed

lemma normalizeActualUsage_amounts:
  assumes "act_in_range u"
  shows "0 \<le> au_SpendMicros (normalizeActualUsage u)" "au_SpendMicros (normalizeActualUsage u) \<le> MaxInt64"
    "0 \<le> ActualUsage_TotalTokens (normalizeActualUsage u)" "ActualUsage_TotalTokens (normalizeActualUsage u) \<le> MaxInt64"
  using assms
  by (auto simp: act_in_range_def in_i64_def normalizeActualUsage_def Let_def ActualUsage_TotalTokens_def
      saturatingUsageAdd_def)

lemma used_keys:
  assumes "wf_scope hard sc"
  shows "k_spendUsed (ms_keys sc) \<noteq> [] \<Longrightarrow> used_key (k_spendUsed (ms_keys sc))"
    "k_dayUsed (ms_keys sc) \<noteq> [] \<Longrightarrow> used_key (k_dayUsed (ms_keys sc))"
    "k_monthUsed (ms_keys sc) \<noteq> [] \<Longrightarrow> used_key (k_monthUsed (ms_keys sc))"
  using wf_scope_metric [OF assms, of SpendUsed] wf_scope_metric [OF assms, of DayUsed]
    wf_scope_metric [OF assms, of MonthUsed]
  by (simp_all add: used_key_def key_of_def)

lemma commitScope_acc:
  "acc_inv hard s \<Longrightarrow> wf_scope hard sc \<Longrightarrow> act_in_range u \<Longrightarrow>
     acc_inv hard (commitScope (normalizeActualUsage u) sc s)"
  unfolding commitScope_def Let_def
  by (rule addValue_used_acc, rule addValue_used_acc, rule addValue_used_acc)
    (simp_all add: normalizeActualUsage_amounts used_keys)

lemma commitScopes_acc [inv_intro]:
  "acc_inv hard s \<Longrightarrow> wf_scopes hard scs \<Longrightarrow> act_in_range u \<Longrightarrow>
     acc_inv hard (fold (commitScope (normalizeActualUsage u)) scs s)"
  by (induction scs arbitrary: s) (simp_all add: commitScope_acc)

lemma commitScope_frame [frame]:
  "q_reservations (commitScope u sc s) = q_reservations s"
  "q_settlements (commitScope u sc s) = q_settlements s"
  "q_settledOrder (commitScope u sc s) = q_settledOrder s"
  "q_nextElement (commitScope u sc s) = q_nextElement s"
  "q_diverged (commitScope u sc s) = q_diverged s"
  "q_clock (commitScope u sc s) = q_clock s"
  by (simp_all add: commitScope_def Let_def frame)

lemma commitScopes_frame [frame]:
  "q_reservations (fold (commitScope u) scs s) = q_reservations s"
  "q_settlements (fold (commitScope u) scs s) = q_settlements s"
  "q_settledOrder (fold (commitScope u) scs s) = q_settledOrder s"
  "q_nextElement (fold (commitScope u) scs s) = q_nextElement s"
  "q_diverged (fold (commitScope u) scs s) = q_diverged s"
  "q_clock (fold (commitScope u) scs s) = q_clock s"
  by (induction scs arbitrary: s) (simp_all add: frame)

lemma addValue_upd:
  "addValue k d e (s\<lparr>q_reservations := rs\<rparr>) = addValue k d e s\<lparr>q_reservations := rs\<rparr>"
  by (simp add: addValue_def Let_def time_Now_def)

lemma commitScopes_upd:
  "fold (commitScope u) scs (s\<lparr>q_reservations := rs\<rparr>) = fold (commitScope u) scs s\<lparr>q_reservations := rs\<rparr>"
  by (induction scs arbitrary: s) (simp_all add: commitScope_def Let_def addValue_upd)

section \<open>The methods in closed form\<close>

text \<open>
  Each method, past its context and empty-ID guards, as one case distinction on the state
  \<open>ticked s\<close>; \<open>tick s\<close> is the instant the method works at.
\<close>

definition tick :: "MemoryQuotaStore \<Rightarrow> instant" where
  "tick s = q_clock s (q_reads s)"

definition ctx_ok :: "ctx \<Rightarrow> bool" where
  "ctx_ok ctx \<longleftrightarrow> ctx 0 = None \<and> ctx 1 = None"

lemma ticked_eq: "cleanupExpired (q_clock s (q_reads s)) (s\<lparr>q_reads := Suc (q_reads s)\<rparr>) = ticked s"
  by (simp add: ticked_def time_Now_def)

lemma Reserve_step:
  assumes "ctx_ok ctx" "rid \<noteq> []"
  shows "Reserve ctx rid scopes est ttl s =
    (let t = ticked s; u = normalizeEstimatedUsage est; scs = resolveScopeReservations scopes (tick s) in
     if map_of (q_settlements t) rid \<noteq> None then (Inl (Sentinel ErrQuotaReservationConflict), t)
     else case map_of (q_reservations t) rid of
       Some r \<Rightarrow> if mr_held r \<noteq> u \<or> \<not> sameReservationScopes (mr_scopes r) scs
                 then (Inl (Sentinel ErrQuotaReservationConflict), t) else (Inr (mr_ticket r), t)
     | None \<Rightarrow> case checkScopes scs u (tick s) False t of
         Some err \<Rightarrow> (Inl err, t)
       | None \<Rightarrow>
          (Inr \<lparr>qt_RequestID = rid, qt_Scopes = scopedRefs scs\<rparr>,
           applyScopeHolds scs u (tick s) False t\<lparr>q_reservations := AList.update rid
             \<lparr>mr_ticket = \<lparr>qt_RequestID = rid, qt_Scopes = scopedRefs scs\<rparr>, mr_held = u, mr_scopes = scs,
               mr_expires = tick s + normalizeReservationTTL ttl\<rparr> (q_reservations t)\<rparr>))"
  using assms unfolding Reserve_def ctx_ok_def
  by (simp add: Let_def time_Now_def tick_def ticked_eq frame split: option.splits)

lemma TopUp_step:
  assumes "ctx_ok ctx" "qt_RequestID tk \<noteq> []"
  shows "TopUp ctx tk scopes delta ttl s =
    (let t = ticked s; d = normalizeEstimatedUsage delta in
     case map_of (q_reservations t) (qt_RequestID tk) of
       None \<Rightarrow> (Some (Sentinel ErrQuotaReservationNotFound), t)
     | Some r \<Rightarrow>
         if EstimatedUsage_TotalTokens d = 0 \<and> eu_EstimatedSpendMicros d = 0
         then (None, t\<lparr>q_reservations := AList.update (qt_RequestID tk)
                (r\<lparr>mr_expires := tick s + normalizeReservationTTL ttl\<rparr>) (q_reservations t)\<rparr>)
         else case checkScopes (mr_scopes r) d (tick s) True t of
           Some err \<Rightarrow> (Some err, t)
         | None \<Rightarrow> (None, applyScopeHolds (mr_scopes r) d (tick s) True t\<lparr>q_reservations :=
             AList.update (qt_RequestID tk) (r\<lparr>mr_held := addHeld (mr_held r) d,
               mr_expires := tick s + normalizeReservationTTL ttl\<rparr>) (q_reservations t)\<rparr>))"
  using assms unfolding TopUp_def ctx_ok_def
  by (auto simp: Let_def time_Now_def tick_def ticked_eq frame split: option.splits)

text \<open>The state after the settlement of reservation \<open>r\<close>: its hold released, its ID moved to the settlements.\<close>

lemma Commit_step:
  assumes "ctx_ok ctx" "qt_RequestID tk \<noteq> []"
  shows "Commit ctx tk actual s =
    (let t = ticked s; u = normalizeActualUsage actual in
     case map_of (q_reservations t) (qt_RequestID tk) of
       None \<Rightarrow> (settledAnswer (qt_RequestID tk) t, t)
     | Some r \<Rightarrow> (None, recordSettlement (qt_RequestID tk) False (tick s)
         (fold (commitScope u) (mr_scopes r) (releaseHold r (ActualUsage_TotalTokens u) (tick s) t)
            \<lparr>q_reservations := AList.delete (qt_RequestID tk) (q_reservations t)\<rparr>)))"
  using assms unfolding Commit_def ctx_ok_def
  by (simp add: Let_def time_Now_def tick_def ticked_eq frame split: option.splits)

lemma Refund_step:
  assumes "ctx_ok ctx" "qt_RequestID tk \<noteq> []"
  shows "Refund ctx tk s =
    (let t = ticked s in
     case map_of (q_reservations t) (qt_RequestID tk) of
       None \<Rightarrow> (settledAnswer (qt_RequestID tk) t, t)
     | Some r \<Rightarrow> (None, recordSettlement (qt_RequestID tk) False (tick s)
         (releaseHold r 0 (tick s) t\<lparr>q_reservations := AList.delete (qt_RequestID tk) (q_reservations t)\<rparr>)))"
  using assms unfolding Refund_def ctx_ok_def
  by (simp add: Let_def time_Now_def tick_def ticked_eq frame split: option.splits)

section \<open>Preservation, operation by operation\<close>

text \<open>A method whose context is cancelled or whose request has no ID leaves the store alone.\<close>

lemma not_ctx_ok:
  assumes "\<not> ctx_ok ctx"
  shows "snd (Reserve ctx rid scopes est ttl s) = s" "snd (TopUp ctx tk scopes est ttl s) = s"
    "snd (Commit ctx tk act s) = s" "snd (Refund ctx tk s) = s" "snd (GetUsage ctx sl s) = s"
  using assms
  by (auto simp: ctx_ok_def Reserve_def TopUp_def Commit_def Refund_def GetUsage_def split: option.splits)

lemma no_request_id:
  "snd (Reserve ctx [] scopes est ttl s) = s"
  "qt_RequestID tk = [] \<Longrightarrow> snd (TopUp ctx tk scopes est ttl s) = s"
  "qt_RequestID tk = [] \<Longrightarrow> snd (Commit ctx tk act s) = s"
  "qt_RequestID tk = [] \<Longrightarrow> snd (Refund ctx tk s) = s"
  by (auto simp: Reserve_def TopUp_def Commit_def Refund_def Let_def split: option.splits)

lemma GetUsage_state: "ctx_ok ctx \<Longrightarrow> snd (GetUsage ctx sl s) = ticked s"
  by (simp add: GetUsage_def ctx_ok_def Let_def time_Now_def ticked_eq)

lemma Reserve_acc:
  assumes "acc_inv hard s" "wf_request hard scopes" "est_in_range est"
  shows "acc_inv hard (snd (Reserve ctx rid scopes est ttl s))"
proof (cases "ctx_ok ctx \<and> rid \<noteq> []")
  case False
  then show ?thesis using assms(1) by (cases "rid = []") (auto simp: not_ctx_ok no_request_id)
next
  case True
  have "acc_inv hard (ticked s)" using assms(1) by (rule ticked_acc)
  moreover note normalizeEstimatedUsage_nonneg [OF assms(3)] wf_request_resolve [OF assms(2), of "tick s"]
  ultimately show ?thesis using True
    by (auto simp: Reserve_step Let_def intro!: hold_new_acc split: option.split)
qed

lemma TopUp_acc:
  assumes "acc_inv hard s" "est_in_range delta"
  shows "acc_inv hard (snd (TopUp ctx tk scopes delta ttl s))"
proof (cases "ctx_ok ctx \<and> qt_RequestID tk \<noteq> []")
  case False
  then show ?thesis using assms(1) by (cases "qt_RequestID tk = []") (auto simp: not_ctx_ok no_request_id)
next
  case True
  have "acc_inv hard (ticked s)" using assms(1) by (rule ticked_acc)
  moreover note normalizeEstimatedUsage_nonneg [OF assms(2)]
  ultimately show ?thesis using True
    by (auto simp: TopUp_step Let_def intro!: topUp_acc touch_acc split: option.split)
qed

lemma Commit_acc:
  assumes "acc_inv hard s" "act_in_range actual"
  shows "acc_inv hard (snd (Commit ctx tk actual s))"
proof (cases "ctx_ok ctx \<and> qt_RequestID tk \<noteq> []")
  case False
  then show ?thesis using assms(1) by (cases "qt_RequestID tk = []") (auto simp: not_ctx_ok no_request_id)
next
  case True
  let ?t = "ticked s" and ?u = "normalizeActualUsage actual"
  have t: "acc_inv hard ?t" using assms(1) by (rule ticked_acc)
  show ?thesis
  proof (cases "map_of (q_reservations ?t) (qt_RequestID tk)")
    case None
    with True t show ?thesis by (simp add: Commit_step Let_def)
  next
    case (Some r)
    let ?d = "\<lambda>s. s\<lparr>q_reservations := AList.delete (qt_RequestID tk) (q_reservations ?t)\<rparr>"
    have "wf_scopes hard (mr_scopes r)" using acc_inv_res [OF t Some] by (simp add: wf_res_def)
    with release_acc [OF t Some] assms(2)
    have "acc_inv hard (fold (commitScope ?u) (mr_scopes r) (?d (releaseHold r (ActualUsage_TotalTokens ?u) (tick s) ?t)))"
      by (intro commitScopes_acc) auto
    then show ?thesis using True Some by (simp add: Commit_step Let_def commitScopes_upd)
  qed
qed

lemma Refund_acc:
  assumes "acc_inv hard s"
  shows "acc_inv hard (snd (Refund ctx tk s))"
proof (cases "ctx_ok ctx \<and> qt_RequestID tk \<noteq> []")
  case False
  then show ?thesis using assms(1) by (cases "qt_RequestID tk = []") (auto simp: not_ctx_ok no_request_id)
next
  case True
  have "acc_inv hard (ticked s)" using assms(1) by (rule ticked_acc)
  with True show ?thesis
    by (auto simp: Refund_step Let_def intro!: release_acc split: option.split)
qed

lemma GetUsage_acc: "acc_inv hard s \<Longrightarrow> acc_inv hard (snd (GetUsage ctx sl s))"
  by (cases "ctx_ok ctx") (simp_all add: GetUsage_state not_ctx_ok ticked_acc)

end
