(* ===== verification/Quota_Settlement.thy ===== *)
theory Quota_Settlement
  imports Quota_Accounting
begin

text \<open>
  The settlement table of the in-memory quota store (\<open>recordSettlement\<close>, \<open>cleanupSettlements\<close>,
  \<open>removeOldestSettlement\<close> of \<open>store/store.go\<close>): the order list and the map name the same
  settlements, the eviction loop ends with at most 65536 of them, a settlement lives for its replay
  window, and an ID is never both live and settled.
\<close>

section \<open>The order list and the map agree\<close>

definition order_ok :: "(nat \<times> string) list \<Rightarrow> (string, memorySettlement) gomap \<Rightarrow> bool" where
  "order_ok order sm \<longleftrightarrow>
     wf_gomap sm \<and> distinct (map fst order) \<and> distinct (map snd order) \<and>
     (\<forall>el rid. (el, rid) \<in> set order \<longleftrightarrow> (\<exists>st. map_of sm rid = Some st \<and> st_element st = Some el)) \<and>
     (\<forall>rid st. map_of sm rid = Some st \<longrightarrow> st_element st \<noteq> None)"

lemma order_ok_Nil: "order_ok [] sm \<Longrightarrow> sm = []"
  by (cases sm) (auto simp: order_ok_def split: if_splits)

lemma order_ok_Cons:
  assumes "order_ok ((el, rid) # order) sm"
  obtains st where "map_of sm rid = Some st" "st_element st = Some el" "order_ok order (AList.delete rid sm)"
proof -
  have "(el, rid) \<in> set ((el, rid) # order) \<longleftrightarrow> (\<exists>st. map_of sm rid = Some st \<and> st_element st = Some el)"
    using assms unfolding order_ok_def by blast
  then obtain st where st: "map_of sm rid = Some st" "st_element st = Some el" by auto
  have "order_ok order (AList.delete rid sm)"
    using assms unfolding order_ok_def by (auto simp: image_iff) (metis (no_types) prod.collapse)+
  with st that show ?thesis by blast
qed

lemma cleanupLoop_spec:
  "order_ok order sm \<Longrightarrow> cleanupSettlementsLoop now order sm = (order', sm') \<Longrightarrow>
     order_ok order' sm' \<and> length sm' \<le> length sm \<and>
     (\<forall>rid st. map_of sm' rid = Some st \<longrightarrow> map_of sm rid = Some st) \<and>
     (\<forall>rid st. map_of sm rid = Some st \<longrightarrow> now < st_expires st \<longrightarrow> map_of sm' rid = Some st)"
proof (induction order arbitrary: sm)
  case Nil
  then show ?case by simp
next
  case (Cons e order)
  obtain el rid where e: "e = (el, rid)" by (cases e)
  from order_ok_Cons [OF Cons.prems(1) [unfolded e]] obtain st where
    st: "map_of sm rid = Some st" "st_element st = Some el" "order_ok order (AList.delete rid sm)" .
  show ?case
  proof (cases "now < st_expires st")
    case True
    with Cons.prems(2) st(1) e have "order' = e # order" "sm' = sm" by simp_all
    with Cons.prems(1) show ?thesis by simp
  next
    case False
    have len: "length (AList.delete rid sm) \<le> length sm" by (rule length_delete_le)
    from False st Cons.prems(2) e have "cleanupSettlementsLoop now order (AList.delete rid sm) = (order', sm')" by simp
    note IH = Cons.IH [OF st(3) this]
    have "map_of sm rid' = Some st'" if "map_of sm' rid' = Some st'" for rid' st'
    proof -
      have "map_of (AList.delete rid sm) rid' = Some st'" using IH that by blast
      then show ?thesis by (simp split: if_splits)
    qed
    moreover have "map_of sm' rid' = Some st'" if "map_of sm rid' = Some st'" "now < st_expires st'" for rid' st'
    proof -
      have "rid' \<noteq> rid" using that st(1) False by auto
      with that have "map_of (AList.delete rid sm) rid' = Some st'" by simp
      with IH that(2) show ?thesis by blast
    qed
    moreover have "order_ok order' sm'" using IH by blast
    moreover have "length sm' \<le> length sm" using IH len by linarith
    ultimately show ?thesis by blast
  qed
qed

lemma evictLoop_spec:
  "order_ok order sm \<Longrightarrow> evictLoop order sm = (order', sm', stuck) \<Longrightarrow>
     order_ok order' sm' \<and> \<not> stuck \<and> length sm' \<le> maxMemorySettlements \<and>
     (\<forall>rid st. map_of sm' rid = Some st \<longrightarrow> map_of sm rid = Some st) \<and>
     (length sm \<le> maxMemorySettlements \<longrightarrow> sm' = sm)"
proof (induction order arbitrary: sm)
  case Nil
  then show ?case by (auto dest: order_ok_Nil)
next
  case (Cons e order)
  obtain el rid where e: "e = (el, rid)" by (cases e)
  from order_ok_Cons [OF Cons.prems(1) [unfolded e]] obtain st where
    st: "map_of sm rid = Some st" "st_element st = Some el" "order_ok order (AList.delete rid sm)" .
  show ?case
  proof (cases "length sm > maxMemorySettlements")
    case False
    with Cons.prems(2) e have "order' = e # order" "sm' = sm" "\<not> stuck" by simp_all
    with Cons.prems(1) False show ?thesis by simp
  next
    case True
    with st Cons.prems(2) e have "evictLoop order (AList.delete rid sm) = (order', sm', stuck)" by simp
    note IH = Cons.IH [OF st(3) this]
    have "map_of sm rid' = Some st'" if "map_of sm' rid' = Some st'" for rid' st'
    proof -
      have "map_of (AList.delete rid sm) rid' = Some st'" using IH that by blast
      then show ?thesis by (simp split: if_splits)
    qed
    with IH True show ?thesis by (meson not_less)
  qed
qed

section \<open>The invariant of the settlement table\<close>

definition set_inv :: "MemoryQuotaStore \<Rightarrow> bool" where
  "set_inv s \<longleftrightarrow>
     order_ok (q_settledOrder s) (q_settlements s) \<and> (\<forall>e \<in> set (q_settledOrder s). fst e < q_nextElement s) \<and>
     \<not> q_diverged s \<and> length (q_settlements s) \<le> maxMemorySettlements \<and>
     (\<forall>rid. map_of (q_reservations s) rid \<noteq> None \<longrightarrow> map_of (q_settlements s) rid = None)"

lemma set_invD:
  assumes "set_inv s"
  shows "order_ok (q_settledOrder s) (q_settlements s)" "\<not> q_diverged s"
    "length (q_settlements s) \<le> maxMemorySettlements"
    "map_of (q_reservations s) rid \<noteq> None \<Longrightarrow> map_of (q_settlements s) rid = None"
  using assms by (simp_all add: set_inv_def)

lemma set_inv_cong:
  assumes "q_settlements s' = q_settlements s" "q_settledOrder s' = q_settledOrder s"
    "q_nextElement s' = q_nextElement s" "q_diverged s' = q_diverged s"
    "\<And>rid. map_of (q_reservations s') rid \<noteq> None \<Longrightarrow> map_of (q_reservations s) rid \<noteq> None \<or> map_of (q_settlements s) rid = None"
  shows "set_inv s \<Longrightarrow> set_inv s'"
  using assms unfolding set_inv_def by metis

lemma set_inv_New [simp]: "set_inv (NewMemoryQuotaStore clk)"
  by (simp add: set_inv_def NewMemoryQuotaStore_def order_ok_def)

lemma order_ok_subset:
  assumes "order_ok order sm" "order_ok order' sm'" "\<And>rid st. map_of sm' rid = Some st \<Longrightarrow> map_of sm rid = Some st"
  shows "set order' \<subseteq> set order"
proof (rule subrelI)
  fix el rid assume "(el, rid) \<in> set order'"
  with assms(2) obtain st where "map_of sm' rid = Some st" "st_element st = Some el" by (auto simp: order_ok_def)
  with assms(3) have "map_of sm rid = Some st" by blast
  with assms(1) \<open>st_element st = Some el\<close> show "(el, rid) \<in> set order" by (auto simp: order_ok_def)
qed

lemma cleanupSettlements_spec:
  assumes "set_inv s"
  shows "set_inv (cleanupSettlements now s)"
    "map_of (q_settlements (cleanupSettlements now s)) rid = Some st \<Longrightarrow> map_of (q_settlements s) rid = Some st"
    "map_of (q_settlements s) rid = Some st \<Longrightarrow> now < st_expires st \<Longrightarrow>
       map_of (q_settlements (cleanupSettlements now s)) rid = Some st"
    "length (q_settlements (cleanupSettlements now s)) \<le> length (q_settlements s)"
proof -
  obtain order' sm' where eq: "cleanupSettlementsLoop now (q_settledOrder s) (q_settlements s) = (order', sm')"
    by fastforce
  then have s': "q_settlements (cleanupSettlements now s) = sm'" "q_settledOrder (cleanupSettlements now s) = order'"
    by (simp_all add: cleanupSettlements_def)
  note ok = set_invD(1) [OF assms]
  note spec = cleanupLoop_spec [OF ok eq]
  show 2: "map_of (q_settlements (cleanupSettlements now s)) rid = Some st \<Longrightarrow> map_of (q_settlements s) rid = Some st"
    for rid st using spec unfolding s' by blast
  show "map_of (q_settlements s) rid = Some st \<Longrightarrow> now < st_expires st \<Longrightarrow>
       map_of (q_settlements (cleanupSettlements now s)) rid = Some st" for rid st
    using spec unfolding s' by blast
  show len: "length (q_settlements (cleanupSettlements now s)) \<le> length (q_settlements s)"
    using spec unfolding s' by blast
  have ok': "order_ok order' sm'" using spec by blast
  have "set order' \<subseteq> set (q_settledOrder s)"
    using order_ok_subset [OF ok ok'] 2 unfolding s' by blast
  moreover have "map_of sm' rid = None" if "map_of (q_reservations s) rid \<noteq> None" for rid
    using set_invD(4) [OF assms that] 2 [of rid] unfolding s' by (cases "map_of sm' rid") auto
  ultimately show "set_inv (cleanupSettlements now s)"
    using assms ok' len unfolding set_inv_def frame s' by (meson order_trans subsetD)
qed

section \<open>Recording a settlement\<close>

lemma length_gomap_update: "length (AList.update k v m) \<le> Suc (length m)"
  by (induction m) auto

lemma order_ok_push:
  assumes "order_ok order sm" "\<And>e. e \<in> set order \<Longrightarrow> fst e < n" "st_element st = Some n"
  shows "order_ok (filter (\<lambda>e. snd e \<noteq> rid) order @ [(n, rid)]) (AList.update rid st sm)"
  unfolding order_ok_def
proof (intro conjI allI impI)
  note ok = assms(1) [unfolded order_ok_def]
  show "wf_gomap (AList.update rid st sm)" using ok by simp
  have "n \<notin> fst ` set order" using assms(2) by fastforce
  then show "distinct (map fst (filter (\<lambda>e. snd e \<noteq> rid) order @ [(n, rid)]))"
    using ok by (auto simp: distinct_map_filter)
  show "distinct (map snd (filter (\<lambda>e. snd e \<noteq> rid) order @ [(n, rid)]))"
    using ok by (auto simp: distinct_map_filter)
  show "(el, rid') \<in> set (filter (\<lambda>e. snd e \<noteq> rid) order @ [(n, rid)]) \<longleftrightarrow>
      (\<exists>st'. map_of (AList.update rid st sm) rid' = Some st' \<and> st_element st' = Some el)" for el rid'
    using ok assms(3) by auto
  show "st_element st' \<noteq> None" if "map_of (AList.update rid st sm) rid' = Some st'" for rid' st'
    using that ok assms(3) by (auto split: if_splits)
qed

lemma remove_element:
  assumes "order_ok order sm" "map_of sm rid = Some st" "st_element st = Some el"
  shows "filter (\<lambda>e. fst e \<noteq> el) order = filter (\<lambda>e. snd e \<noteq> rid) order"
proof (rule filter_cong)
  fix e assume e: "e \<in> set order"
  note ok = assms(1) [unfolded order_ok_def]
  have "(el, rid) \<in> set order" using ok assms(2,3) by blast
  moreover have "inj_on fst (set order)" "inj_on snd (set order)" using ok by (simp_all add: distinct_map)
  ultimately show "(fst e \<noteq> el) = (snd e \<noteq> rid)"
    using e by (metis (no_types, lifting) fst_conv inj_onD snd_conv)
qed simp

lemma no_element:
  assumes "order_ok order sm" "map_of sm rid = None"
  shows "filter (\<lambda>e. snd e \<noteq> rid) order = order"
  using assms by (auto simp: filter_id_conv order_ok_def)

lemma cleanupLoop_suffix: "\<exists>p. order = p @ fst (cleanupSettlementsLoop now order sm)"
proof (induction now order sm rule: cleanupSettlementsLoop.induct)
  case (2 now el rid order sm)
  then show ?case
    by (auto split: option.split) (metis append_Cons)+
qed simp

lemma evictLoop_keeps_last:
  "order_ok (order @ [(n, rid)]) sm \<Longrightarrow> evictLoop (order @ [(n, rid)]) sm = (order', sm', stuck) \<Longrightarrow>
     map_of sm' rid = map_of sm rid"
proof (induction order arbitrary: sm)
  case Nil
  then obtain st where "order_ok [] (AList.delete rid sm)" by (auto elim: order_ok_Cons)
  then have "AList.delete rid sm = []" by (rule order_ok_Nil)
  then have "\<forall>e \<in> set sm. fst e = rid" by (auto simp: AList.delete_eq filter_empty_conv)
  moreover have "distinct (map fst sm)" using Nil by (simp add: order_ok_def wf_gomap_def)
  ultimately have "length sm \<le> 1"
    by (cases sm rule: remdups_adj.cases) auto
  then show ?case using Nil by (simp add: maxMemorySettlements_def)
next
  case (Cons e order)
  obtain el rid' where e: "e = (el, rid')" by (cases e)
  with Cons.prems have "order_ok ((el, rid') # order @ [(n, rid)]) sm" by simp
  then obtain st where st: "map_of sm rid' = Some st" "st_element st = Some el"
    "order_ok (order @ [(n, rid)]) (AList.delete rid' sm)" by (rule order_ok_Cons)
  have "rid' \<noteq> rid" using Cons.prems(1) e by (auto simp: order_ok_def)
  then show ?case
    using Cons.IH [OF st(3)] Cons.prems(2) e st(1,2) by (auto split: if_splits)
qed

text \<open>The entry a settlement gets, and the table before the expired entries and the surplus go.\<close>

definition new_settlement :: "bool \<Rightarrow> instant \<Rightarrow> MemoryQuotaStore \<Rightarrow> memorySettlement" where
  "new_settlement x now s =
     \<lparr>st_expires = now + quotaSettlementReplayWindow, st_expired = x, st_element = Some (q_nextElement s)\<rparr>"

definition pushed_order :: "string \<Rightarrow> MemoryQuotaStore \<Rightarrow> (nat \<times> string) list" where
  "pushed_order rid s = filter (\<lambda>e. snd e \<noteq> rid) (q_settledOrder s) @ [(q_nextElement s, rid)]"

lemma removed_order:
  assumes "order_ok (q_settledOrder s) (q_settlements s)"
  shows "(case map_of (q_settlements s) rid of
            Some existing \<Rightarrow>
              (case st_element existing of
                 Some el \<Rightarrow> filter (\<lambda>e. fst e \<noteq> el) (q_settledOrder s)
               | None \<Rightarrow> q_settledOrder s)
          | None \<Rightarrow> q_settledOrder s) = filter (\<lambda>e. snd e \<noteq> rid) (q_settledOrder s)"
proof (cases "map_of (q_settlements s) rid")
  case None
  with no_element [OF assms] show ?thesis by simp
next
  case (Some st)
  with assms have "st_element st \<noteq> None" unfolding order_ok_def by blast
  then obtain el where "st_element st = Some el" by blast
  with Some remove_element [OF assms Some] show ?thesis by simp
qed

lemma recordSettlement_cases:
  assumes "set_inv s" "rid \<noteq> []"
  obtains order2 sm2 order3 sm3 where
    "order_ok (pushed_order rid s) (AList.update rid (new_settlement x now s) (q_settlements s))"
    "cleanupSettlementsLoop now (pushed_order rid s) (AList.update rid (new_settlement x now s) (q_settlements s)) =
       (order2, sm2)"
    "order_ok order2 sm2" "evictLoop order2 sm2 = (order3, sm3, False)"
    "recordSettlement rid x now s = s\<lparr>q_settledOrder := order3, q_settlements := sm3,
       q_nextElement := Suc (q_nextElement s)\<rparr>"
proof -
  let ?order = "pushed_order rid s" and ?sm = "AList.update rid (new_settlement x now s) (q_settlements s)"
  note ok = set_invD(1) [OF assms(1)]
  have ok1: "order_ok ?order ?sm"
    unfolding pushed_order_def
    by (rule order_ok_push [OF ok]) (use assms(1) in \<open>auto simp: set_inv_def new_settlement_def\<close>)
  obtain order2 sm2 where c: "cleanupSettlementsLoop now ?order ?sm = (order2, sm2)" by fastforce
  obtain order3 sm3 stuck where e: "evictLoop order2 sm2 = (order3, sm3, stuck)" by (metis prod_cases3)
  have ok2: "order_ok order2 sm2" using cleanupLoop_spec [OF ok1 c] by blast
  then have "\<not> stuck" using evictLoop_spec [OF ok2 e] by blast
  with assms set_invD(2) [OF assms(1)] c e
  have "recordSettlement rid x now s = s\<lparr>q_settledOrder := order3, q_settlements := sm3,
      q_nextElement := Suc (q_nextElement s)\<rparr>"
    by (simp add: recordSettlement_def removed_order [OF ok] cleanupSettlements_def Let_def
        pushed_order_def new_settlement_def)
  with that ok1 c ok2 e \<open>\<not> stuck\<close> show ?thesis by simp
qed

lemma recordSettlement_spec:
  assumes "set_inv s" "rid \<noteq> []"
  shows "map_of (q_settlements (recordSettlement rid x now s)) rid = Some (new_settlement x now s)"
    "rid' \<noteq> rid \<Longrightarrow> map_of (q_settlements (recordSettlement rid x now s)) rid' = Some st \<Longrightarrow>
       map_of (q_settlements s) rid' = Some st"
    "length (q_settlements s) < maxMemorySettlements \<Longrightarrow> rid' \<noteq> rid \<Longrightarrow>
       map_of (q_settlements s) rid' = Some st \<Longrightarrow> now < st_expires st \<Longrightarrow>
       map_of (q_settlements (recordSettlement rid x now s)) rid' = Some st"
    "length (q_settlements (recordSettlement rid x now s)) \<le> Suc (length (q_settlements s))"
    "length (q_settlements (recordSettlement rid x now s)) \<le> maxMemorySettlements"
proof -
  let ?new = "new_settlement x now s"
  let ?sm = "AList.update rid ?new (q_settlements s)"
  obtain order2 sm2 order3 sm3 where ok1: "order_ok (pushed_order rid s) ?sm"
    and c: "cleanupSettlementsLoop now (pushed_order rid s) ?sm = (order2, sm2)"
    and ok2: "order_ok order2 sm2" and e: "evictLoop order2 sm2 = (order3, sm3, False)"
    and s': "recordSettlement rid x now s = s\<lparr>q_settledOrder := order3, q_settlements := sm3,
       q_nextElement := Suc (q_nextElement s)\<rparr>"
    using recordSettlement_cases [OF assms] by metis
  note c1 = cleanupLoop_spec [OF ok1 c]
  note e1 = evictLoop_spec [OF ok2 e]
  have "map_of ?sm rid = Some ?new" by simp
  moreover have "now < st_expires ?new" by (simp add: new_settlement_def quotaSettlementReplayWindow_def)
  ultimately have new2: "map_of sm2 rid = Some ?new" using c1 by blast
  then have "(q_nextElement s, rid) \<in> set order2" using ok2 by (auto simp: order_ok_def new_settlement_def)
  moreover obtain p where "pushed_order rid s = p @ order2"
    using cleanupLoop_suffix [of "pushed_order rid s" now ?sm] c by auto
  ultimately obtain o2 where o2: "order2 = o2 @ [(q_nextElement s, rid)]"
    unfolding pushed_order_def
    by (metis append_butlast_last_id append_is_Nil_conv empty_iff last_appendR last_snoc list.set(1))
  show "map_of (q_settlements (recordSettlement rid x now s)) rid = Some ?new"
    using evictLoop_keeps_last [of o2 "q_nextElement s" rid sm2 order3 sm3 False] ok2 e new2
    by (simp add: o2 s')
  show "map_of (q_settlements s) rid' = Some st"
    if "rid' \<noteq> rid" "map_of (q_settlements (recordSettlement rid x now s)) rid' = Some st"
  proof -
    have "map_of sm3 rid' = Some st" using that(2) by (simp add: s')
    then have "map_of ?sm rid' = Some st" using c1 e1 by blast
    with that(1) show ?thesis by simp
  qed
  have len1: "length ?sm \<le> Suc (length (q_settlements s))" by (rule length_gomap_update)
  have len3: "length sm3 \<le> length sm2" using e1 by (metis nle_le order_trans)
  then have "length sm3 \<le> Suc (length (q_settlements s))" using c1 len1 by linarith
  then show "length (q_settlements (recordSettlement rid x now s)) \<le> Suc (length (q_settlements s))"
    by (simp add: s')
  show "length (q_settlements (recordSettlement rid x now s)) \<le> maxMemorySettlements"
    using e1 by (simp add: s')
  show "map_of (q_settlements (recordSettlement rid x now s)) rid' = Some st"
    if "length (q_settlements s) < maxMemorySettlements" "rid' \<noteq> rid"
      "map_of (q_settlements s) rid' = Some st" "now < st_expires st"
  proof -
    have "length sm2 \<le> maxMemorySettlements" using that(1) c1 len1 by linarith
    then have "sm3 = sm2" using e1 by blast
    moreover have "map_of ?sm rid' = Some st" using that by simp
    then have "map_of sm2 rid' = Some st" using c1 that(4) by blast
    ultimately show ?thesis by (simp add: s')
  qed
qed

lemma recordSettlement_set_inv [inv_intro]:
  assumes "set_inv s" "map_of (q_reservations s) rid = None"
  shows "set_inv (recordSettlement rid x now s)"
proof (cases "rid = []")
  case True
  with assms show ?thesis by (simp add: recordSettlement_def)
next
  case False
  obtain order2 sm2 order3 sm3 where ok1: "order_ok (pushed_order rid s)
      (AList.update rid (new_settlement x now s) (q_settlements s))"
    and c: "cleanupSettlementsLoop now (pushed_order rid s)
      (AList.update rid (new_settlement x now s) (q_settlements s)) = (order2, sm2)"
    and ok2: "order_ok order2 sm2" and e: "evictLoop order2 sm2 = (order3, sm3, False)"
    and s': "recordSettlement rid x now s = s\<lparr>q_settledOrder := order3, q_settlements := sm3,
       q_nextElement := Suc (q_nextElement s)\<rparr>"
    using recordSettlement_cases [OF assms(1) False] by metis
  note c1 = cleanupLoop_spec [OF ok1 c]
  note e1 = evictLoop_spec [OF ok2 e]
  have ok3: "order_ok order3 sm3" using e1 by blast
  have "set order3 \<subseteq> set (pushed_order rid s)"
    by (rule order_ok_subset [OF ok1 ok3]) (use c1 e1 in blast)
  then have "\<forall>el \<in> set order3. fst el < Suc (q_nextElement s)"
    using assms(1) by (fastforce simp: pushed_order_def set_inv_def)
  moreover have "map_of sm3 rid' = None" if "map_of (q_reservations s) rid' \<noteq> None" for rid'
  proof -
    have "rid' \<noteq> rid" using that assms(2) by auto
    with recordSettlement_spec(2) [OF assms(1) False, of rid' x now] set_invD(4) [OF assms(1) that]
    show ?thesis unfolding s' by (cases "map_of sm3 rid'") auto
  qed
  ultimately show ?thesis
    using ok3 e1 set_invD(2) [OF assms(1)] unfolding set_inv_def s' by simp
qed

section \<open>Every operation keeps the table\<close>

lemma release_delete_set_inv [inv_intro]:
  "set_inv s \<Longrightarrow> set_inv (releaseHold r a now s\<lparr>q_reservations := AList.delete rid (q_reservations s)\<rparr>)"
  by (rule set_inv_cong) (auto simp: frame split: if_splits)

lemma expireReservation_set_inv: "set_inv s \<Longrightarrow> set_inv (expireReservation now e s)"
  by (cases e) (auto simp: expireReservation_def Let_def frame intro!: recordSettlement_set_inv release_delete_set_inv)

lemma expireReservations_set_inv: "set_inv s \<Longrightarrow> set_inv (fold (expireReservation now) es s)"
  by (induction es arbitrary: s) (simp_all add: expireReservation_set_inv)

lemma cleanupExpired_table:
  "q_settlements (cleanupExpired now s) =
     q_settlements (cleanupSettlements now (fold (expireReservation now) (q_reservations s) s))"
  "q_settledOrder (cleanupExpired now s) =
     q_settledOrder (cleanupSettlements now (fold (expireReservation now) (q_reservations s) s))"
  "q_nextElement (cleanupExpired now s) = q_nextElement (fold (expireReservation now) (q_reservations s) s)"
  "q_diverged (cleanupExpired now s) = q_diverged (fold (expireReservation now) (q_reservations s) s)"
  "q_reservations (cleanupExpired now s) = q_reservations (fold (expireReservation now) (q_reservations s) s)"
  by (simp_all add: cleanupExpired_def Let_def frame)

lemma ticked_set_inv [inv_intro]:
  assumes "set_inv s"
  shows "set_inv (ticked s)"
proof -
  have "set_inv (snd (time_Now s))" using assms by (rule set_inv_cong [rotated -1]) simp_all
  then have "set_inv (cleanupSettlements t (fold (expireReservation t) es (snd (time_Now s))))" for t es
    by (intro cleanupSettlements_spec expireReservations_set_inv)
  then show ?thesis unfolding ticked_def
    by (rule set_inv_cong [rotated -1]) (simp_all add: cleanupExpired_table frame, blast)
qed

lemma Reserve_set_inv: "set_inv s \<Longrightarrow> set_inv (snd (Reserve ctx rid scopes est ttl s))"
proof (cases "ctx_ok ctx \<and> rid \<noteq> []")
  case True
  assume "set_inv s"
  then have t: "set_inv (ticked s)" by (rule ticked_set_inv)
  have "set_inv (applyScopeHolds scs u now False (ticked s)\<lparr>q_reservations :=
      AList.update rid r (q_reservations (ticked s))\<rparr>)"
    if "map_of (q_settlements (ticked s)) rid = None" for scs u now r
    using that by (intro set_inv_cong [OF _ _ _ _ _ t]) (auto simp: frame split: if_splits)
  with t True show ?thesis by (auto simp: Reserve_step Let_def split: option.split)
qed (auto simp: not_ctx_ok no_request_id)

lemma TopUp_set_inv: "set_inv s \<Longrightarrow> set_inv (snd (TopUp ctx tk scopes est ttl s))"
proof (cases "ctx_ok ctx \<and> qt_RequestID tk \<noteq> []")
  case True
  assume "set_inv s"
  then have t: "set_inv (ticked s)" by (rule ticked_set_inv)
  have "set_inv (ticked s\<lparr>q_reservations := AList.update (qt_RequestID tk) r' (q_reservations (ticked s))\<rparr>)"
    "set_inv (applyScopeHolds scs u now True (ticked s)\<lparr>q_reservations :=
      AList.update (qt_RequestID tk) r' (q_reservations (ticked s))\<rparr>)"
    if "map_of (q_reservations (ticked s)) (qt_RequestID tk) \<noteq> None" for r' scs u now
    using that by (intro set_inv_cong [OF _ _ _ _ _ t]; auto simp: frame split: if_splits)+
  with t True show ?thesis by (auto simp: TopUp_step Let_def split: option.split)
qed (auto simp: not_ctx_ok no_request_id)

lemma Commit_set_inv: "set_inv s \<Longrightarrow> set_inv (snd (Commit ctx tk act s))"
proof (cases "ctx_ok ctx \<and> qt_RequestID tk \<noteq> []")
  case True
  assume "set_inv s"
  then have t: "set_inv (ticked s)" by (rule ticked_set_inv)
  have "set_inv (fold (commitScope u) scs (releaseHold r a now (ticked s))
      \<lparr>q_reservations := AList.delete (qt_RequestID tk) (q_reservations (ticked s))\<rparr>)" for u scs r a now
    by (rule set_inv_cong [OF _ _ _ _ _ t]) (auto simp: frame split: if_splits)
  with t True show ?thesis
    by (auto simp: Commit_step Let_def intro!: recordSettlement_set_inv split: option.split)
qed (auto simp: not_ctx_ok no_request_id)

lemma Refund_set_inv: "set_inv s \<Longrightarrow> set_inv (snd (Refund ctx tk s))"
proof (cases "ctx_ok ctx \<and> qt_RequestID tk \<noteq> []")
  case True
  assume "set_inv s"
  then have "set_inv (ticked s)" by (rule ticked_set_inv)
  with True show ?thesis
    by (auto simp: Refund_step Let_def intro!: recordSettlement_set_inv release_delete_set_inv split: option.split)
qed (auto simp: not_ctx_ok no_request_id)

lemma GetUsage_set_inv: "set_inv s \<Longrightarrow> set_inv (snd (GetUsage ctx sl s))"
  by (cases "ctx_ok ctx") (simp_all add: GetUsage_state not_ctx_ok ticked_set_inv)

end
