(* ===== verification/Quota_Properties.thy ===== *)
theory Quota_Properties
  imports Quota_Settlement
begin

text \<open>
  The runs of the in-memory quota store: any sequence of its five methods, with any contexts,
  request IDs, clock readings and amounts. The properties of the store are stated over them.
\<close>

section \<open>Rate counters\<close>

definition cnt :: "MemoryQuotaStore \<Rightarrow> string \<Rightarrow> int" where
  "cnt s k = ce_Value (get_entry (q_counters s) k)"

definition cnt_inv :: "MemoryQuotaStore \<Rightarrow> bool" where
  "cnt_inv s \<longleftrightarrow>
     (\<forall>k e. q_counters s k = Some e \<longrightarrow> 0 \<le> ce_Value e \<and> ce_Value e \<le> MaxInt64 \<and> 0 < ce_Expires e) \<and>
     (\<forall>n. 0 < q_clock s n)"

lemma cnt_range: "cnt_inv s \<Longrightarrow> 0 \<le> cnt s k \<and> cnt s k \<le> MaxInt64"
  by (auto simp: cnt_inv_def cnt_def get_entry_def split: option.split)

lemma cnt_inv_cong: "q_counters s' = q_counters s \<Longrightarrow> q_clock s' = q_clock s \<Longrightarrow> cnt_inv s' = cnt_inv s"
  by (simp add: cnt_inv_def)

lemma cnt_inv_upd [simp]: "cnt_inv (s\<lparr>q_reservations := rs\<rparr>) = cnt_inv s"
  by (rule cnt_inv_cong) simp_all

lemma addCounter_cnt_inv:
  assumes "cnt_inv s" "0 \<le> d" "d \<le> MaxInt64" "0 < ttl"
  shows "cnt_inv (addCounter k d ttl s)"
proof -
  let ?e = "get_entry (q_counters s) k" and ?now = "q_clock s (q_reads s)"
  let ?v = "if ce_Expires ?e < ?now then 0 else ce_Value ?e"
  have "in_i64 ?v" using cnt_range [OF assms(1), of k] by (simp add: cnt_def in_i64_def)
  then have "saturatingAddNonnegative ?v d = sat_sum ?v d" using assms(2,3) by (rule saturatingAdd_pos)
  moreover have "0 < ?now" using assms(1) by (simp add: cnt_inv_def)
  with assms(4) have "0 < ?now + ttl" by simp
  ultimately show ?thesis
    using assms(1) by (auto simp: addCounter_def Let_def time_Now_def cnt_inv_def)
qed

lemma addCounter_cnt:
  assumes "cnt_inv s" "0 \<le> d" "d \<le> MaxInt64"
  shows "cnt (addCounter key d ttl s) k \<le> sat_sum (cnt s k) (if k \<noteq> [] \<and> k = key then d else 0)"
proof -
  let ?e = "get_entry (q_counters s) key" and ?now = "q_clock s (q_reads s)"
  let ?v = "if ce_Expires ?e < ?now then 0 else ce_Value ?e"
  have r: "0 \<le> cnt s k'" "cnt s k' \<le> MaxInt64" for k' using cnt_range [OF assms(1)] by auto
  have "in_i64 ?v" using r [of key] by (simp add: cnt_def in_i64_def)
  then have "saturatingAddNonnegative ?v d = sat_sum ?v d" using assms(2,3) by (rule saturatingAdd_pos)
  moreover have "sat_sum ?v d \<le> sat_sum (cnt s key) d" using r [of key] by (intro sat_sum_mono) (auto simp: cnt_def)
  ultimately show ?thesis
    using r [of k] by (auto simp: addCounter_def Let_def time_Now_def cnt_def get_entry_def)
qed

lemma reconcileCounter_cnt_inv:
  assumes "cnt_inv s" "0 \<le> h" "h \<le> MaxInt64" "0 \<le> a" "a \<le> MaxInt64"
  shows "cnt_inv (reconcileCounter k h a now s)"
proof -
  have del: "cnt_inv (s\<lparr>q_counters := (q_counters s)(k := None)\<rparr>)" using assms(1) by (auto simp: cnt_inv_def)
  show ?thesis
  proof (cases "q_counters s k")
    case None
    with del assms(1) show ?thesis by (simp add: reconcileCounter_def)
  next
    case (Some e)
    with assms(1) have e: "0 \<le> ce_Value e" "ce_Value e \<le> MaxInt64" "0 < ce_Expires e" by (auto simp: cnt_inv_def)
    have v: "0 \<le> saturatingAddNonnegative (ce_Value e) d \<and> saturatingAddNonnegative (ce_Value e) d \<le> MaxInt64"
      if "in_i64 d" for d
      using e that by (intro saturatingAdd_range) (auto simp: in_i64_def)
    have "in_i64 (a - h)" "in_i64 (h - a)" "in_i64 (- (h - a))" using assms(2-5) by (auto simp: in_i64_def)
    with v [of "a - h"] v [of "- (h - a)"]
    have upd: "cnt_inv (s\<lparr>q_counters := (q_counters s)(k \<mapsto> e\<lparr>ce_Value := saturatingAddNonnegative (ce_Value e) (a - h)\<rparr>)\<rparr>)"
      using assms(1) e(3) by (auto simp: cnt_inv_def)
    have "i64 (a - h) = a - h" "i64 (h - a) = h - a" "i64 (- (h - a)) = a - h" using assms(2-5) by simp_all
    with Some del upd assms show ?thesis by (simp add: reconcileCounter_def Let_def max_absorb1)
  qed
qed

lemma applyScopeHold_cnt_inv:
  "cnt_inv s \<Longrightarrow> nonneg_usage u \<Longrightarrow> cnt_inv (applyScopeHold sc u now t s)"
  using timeUntilNextMinute_range [of now] TotalTokens_range [of u]
  by (auto simp: applyScopeHold_def Let_def cnt_inv_cong [OF addValue_frame(1,7)] intro!: addCounter_cnt_inv)

lemma applyScopeHolds_cnt_inv:
  "cnt_inv s \<Longrightarrow> nonneg_usage u \<Longrightarrow> cnt_inv (applyScopeHolds scs u now t s)"
  by (induction scs arbitrary: s) (simp_all add: applyScopeHold_cnt_inv)

lemma releaseHold_cnt_inv:
  assumes "cnt_inv s" "nonneg_usage (mr_held r)" "0 \<le> a" "a \<le> MaxInt64"
  shows "cnt_inv (releaseHold r a now s)"
proof -
  have "cnt_inv (releaseScope (mr_held r) a now sc s)" if "cnt_inv s" for sc s
    using that assms TotalTokens_range [OF assms(2)]
    by (simp add: releaseScope_def Let_def cnt_inv_cong [OF decrValue_frame(1,7)] reconcileCounter_cnt_inv)
  then have "cnt_inv (fold (releaseScope (mr_held r) a now) scs s)" if "cnt_inv s" for scs s
    using that by (induction scs arbitrary: s) simp_all
  with assms(1) show ?thesis by (simp add: releaseHold_def)
qed

lemma commitScopes_counters [frame]: "q_counters (fold (commitScope u) scs s) = q_counters s"
  by (induction scs arbitrary: s) (simp_all add: commitScope_def Let_def frame)

lemma expireReservation_clock [frame]: "q_clock (expireReservation now e s) = q_clock s"
  by (cases e) (simp add: expireReservation_def Let_def frame)

lemma expireReservations_cnt_inv:
  "cnt_inv s \<Longrightarrow> (\<And>e. e \<in> set es \<Longrightarrow> nonneg_usage (mr_held (snd e))) \<Longrightarrow>
     cnt_inv (fold (expireReservation now) es s)"
proof (induction es arbitrary: s)
  case (Cons e es)
  have "cnt_inv (expireReservation now e s)"
    using Cons.prems(1) Cons.prems(2) [of e]
    by (cases e) (simp add: expireReservation_def Let_def cnt_inv_upd releaseHold_cnt_inv
        cnt_inv_cong [OF recordSettlement_frame(3,5)])
  with Cons show ?case by simp
qed simp

lemma cleanupExpired_cnt:
  assumes "cnt_inv s" "acc_inv hard s" "0 < now"
  shows "cnt_inv (cleanupExpired now s)" "counterValue k now (cleanupExpired now s) = cnt (cleanupExpired now s) k"
proof -
  let ?s = "cleanupSettlements now (fold (expireReservation now) (q_reservations s) s)"
  have "cnt_inv (fold (expireReservation now) (q_reservations s) s)"
    using assms(1) acc_invD(3) [OF assms(2)]
    by (intro expireReservations_cnt_inv) (auto simp: wf_res_def)
  then have "cnt_inv ?s" by (simp add: cnt_inv_cong [OF cleanupSettlements_frame(3,7)])
  moreover have "q_counters (cleanupExpired now s) =
      (\<lambda>k. case q_counters ?s k of None \<Rightarrow> None
        | Some c \<Rightarrow> if \<not> IsZero (ce_Expires c) \<and> \<not> now < ce_Expires c then None else Some c)"
    "q_clock (cleanupExpired now s) = q_clock ?s"
    by (simp_all add: cleanupExpired_def Let_def)
  ultimately show "cnt_inv (cleanupExpired now s)"
    "counterValue k now (cleanupExpired now s) = cnt (cleanupExpired now s) k"
    by (auto simp: cnt_inv_def cnt_def counterValue_def get_entry_def Let_def split: option.splits if_splits)
      (metis less_irrefl)
qed

lemma ticked_cnt:
  assumes "cnt_inv s" "acc_inv hard s"
  shows "cnt_inv (ticked s)" "counterValue k (tick s) (ticked s) = cnt (ticked s) k"
proof -
  have "cnt_inv (snd (time_Now s))" using assms(1) by (simp add: cnt_inv_def)
  moreover have "acc_inv hard (snd (time_Now s))" using assms(2) by simp
  moreover have "0 < tick s" using assms(1) by (simp add: cnt_inv_def tick_def)
  moreover have "ticked s = cleanupExpired (tick s) (snd (time_Now s))" by (simp add: ticked_def tick_def time_Now_def)
  ultimately show "cnt_inv (ticked s)" "counterValue k (tick s) (ticked s) = cnt (ticked s) k"
    by (simp_all add: cleanupExpired_cnt)
qed

lemma Reserve_cnt_inv:
  assumes "cnt_inv s" "acc_inv hard s" "est_in_range est"
  shows "cnt_inv (snd (Reserve ctx rid scopes est ttl s))"
proof (cases "ctx_ok ctx \<and> rid \<noteq> []")
  case True
  with ticked_cnt(1) [OF assms(1,2)] normalizeEstimatedUsage_nonneg [OF assms(3)] show ?thesis
    by (auto simp: Reserve_step Let_def applyScopeHolds_cnt_inv split: option.split)
qed (use assms(1) in \<open>auto simp: not_ctx_ok no_request_id\<close>)

lemma TopUp_cnt_inv:
  assumes "cnt_inv s" "acc_inv hard s" "est_in_range est"
  shows "cnt_inv (snd (TopUp ctx tk scopes est ttl s))"
proof (cases "ctx_ok ctx \<and> qt_RequestID tk \<noteq> []")
  case True
  with ticked_cnt(1) [OF assms(1,2)] normalizeEstimatedUsage_nonneg [OF assms(3)] show ?thesis
    by (auto simp: TopUp_step Let_def applyScopeHolds_cnt_inv split: option.split)
qed (use assms(1) in \<open>auto simp: not_ctx_ok no_request_id\<close>)

lemma Commit_cnt_inv:
  assumes "cnt_inv s" "acc_inv hard s" "act_in_range act"
  shows "cnt_inv (snd (Commit ctx tk act s))"
proof (cases "ctx_ok ctx \<and> qt_RequestID tk \<noteq> []")
  case True
  have "nonneg_usage (mr_held r)" if "map_of (q_reservations (ticked s)) rid = Some r" for rid r
    using acc_inv_res [OF ticked_acc [OF assms(2)] that] by (simp add: wf_res_def)
  with True ticked_cnt(1) [OF assms(1,2)] normalizeActualUsage_amounts(3,4) [OF assms(3)] show ?thesis
    by (auto simp: Commit_step Let_def releaseHold_cnt_inv cnt_inv_cong [OF recordSettlement_frame(3,5)]
        cnt_inv_cong [OF commitScopes_counters commitScopes_frame(6)] split: option.split)
qed (use assms(1) in \<open>auto simp: not_ctx_ok no_request_id\<close>)

lemma Refund_cnt_inv:
  assumes "cnt_inv s" "acc_inv hard s"
  shows "cnt_inv (snd (Refund ctx tk s))"
proof (cases "ctx_ok ctx \<and> qt_RequestID tk \<noteq> []")
  case True
  have "nonneg_usage (mr_held r)" if "map_of (q_reservations (ticked s)) rid = Some r" for rid r
    using acc_inv_res [OF ticked_acc [OF assms(2)] that] by (simp add: wf_res_def)
  with True ticked_cnt(1) [OF assms(1,2)] show ?thesis
    by (auto simp: Refund_step Let_def releaseHold_cnt_inv cnt_inv_cong [OF recordSettlement_frame(3,5)]
        split: option.split)
qed (use assms(1) in \<open>auto simp: not_ctx_ok no_request_id\<close>)

section \<open>Runs of the store\<close>

text \<open>
  \<open>reach P clk s\<close>: the store reaches state \<open>s\<close> under clock \<open>clk\<close> by calls whose scopes satisfy \<open>P\<close>.
  A call's scopes are distinct and of kind \<open>key\<close>, the only kind the gateway makes (\<open>policy/quota.go\<close>);
  its amounts are 64-bit integers.
\<close>

definition request_ok :: "(ScopedLimit \<Rightarrow> bool) \<Rightarrow> ScopedLimit list \<Rightarrow> bool" where
  "request_ok P scopes \<longleftrightarrow> wf_request False scopes \<and> (\<forall>sl \<in> set scopes. P sl)"

inductive reach :: "(ScopedLimit \<Rightarrow> bool) \<Rightarrow> clock \<Rightarrow> MemoryQuotaStore \<Rightarrow> bool" for P clk where
  reach_New: "reach P clk (NewMemoryQuotaStore clk)"
| reach_Reserve: "reach P clk s \<Longrightarrow> request_ok P scopes \<Longrightarrow> est_in_range est \<Longrightarrow>
    reach P clk (snd (Reserve ctx rid scopes est ttl s))"
| reach_TopUp: "reach P clk s \<Longrightarrow> est_in_range est \<Longrightarrow> reach P clk (snd (TopUp ctx tk scopes est ttl s))"
| reach_Commit: "reach P clk s \<Longrightarrow> act_in_range act \<Longrightarrow> reach P clk (snd (Commit ctx tk act s))"
| reach_Refund: "reach P clk s \<Longrightarrow> reach P clk (snd (Refund ctx tk s))"
| reach_GetUsage: "reach P clk s \<Longrightarrow> reach P clk (snd (GetUsage ctx sl s))"

lemma reach_set_inv: "reach P clk s \<Longrightarrow> set_inv s"
  by (induction rule: reach.induct)
    (simp_all add: Reserve_set_inv TopUp_set_inv Commit_set_inv Refund_set_inv GetUsage_set_inv)

lemma request_ok_wf:
  "request_ok P scopes \<Longrightarrow> (hard \<Longrightarrow> \<forall>sl. P sl \<longrightarrow> hard_limit (sl_Limits sl)) \<Longrightarrow> wf_request hard scopes"
  by (auto simp: request_ok_def wf_request_def)

lemma reach_acc_inv:
  "reach P clk s \<Longrightarrow> (hard \<Longrightarrow> \<forall>sl. P sl \<longrightarrow> hard_limit (sl_Limits sl)) \<Longrightarrow> acc_inv hard s"
  by (induction rule: reach.induct)
    (simp_all add: Reserve_acc TopUp_acc Commit_acc Refund_acc GetUsage_acc request_ok_wf)

lemma reach_cnt_inv: "reach P clk s \<Longrightarrow> (\<And>n. 0 < clk n) \<Longrightarrow> cnt_inv s"
proof (induction rule: reach.induct)
  case reach_New
  then show ?case by (simp add: cnt_inv_def NewMemoryQuotaStore_def)
next
  case (reach_GetUsage s ctx sl)
  then show ?case
    using reach_acc_inv [OF reach_GetUsage.hyps, of False]
    by (cases "ctx_ok ctx") (simp_all add: GetUsage_state not_ctx_ok ticked_cnt(1))
qed (blast intro: Reserve_cnt_inv TopUp_cnt_inv Commit_cnt_inv Refund_cnt_inv
      reach_acc_inv [where hard = False])+

section \<open>What a commit charges\<close>

definition charge_at :: "string \<Rightarrow> string \<Rightarrow> int \<Rightarrow> int" where
  "charge_at k key d = (if k \<noteq> [] \<and> k = key then d else 0)"

definition scope_charge :: "string \<Rightarrow> ActualUsage \<Rightarrow> memoryScopeReservation \<Rightarrow> int" where
  "scope_charge k u sc =
     charge_at k (k_spendUsed (ms_keys sc)) (au_SpendMicros u) +
     charge_at k (k_dayUsed (ms_keys sc)) (ActualUsage_TotalTokens u) +
     charge_at k (k_monthUsed (ms_keys sc)) (ActualUsage_TotalTokens u)"

definition charge :: "string \<Rightarrow> ActualUsage \<Rightarrow> memoryScopeReservation list \<Rightarrow> int" where
  "charge k u scs = sum_list (map (scope_charge k u) scs)"

lemma charge_simps [simp]:
  "charge k u [] = 0"
  "charge k u (sc # scs) = scope_charge k u sc + charge k u scs"
  by (simp_all add: charge_def)

definition nonneg_actual :: "ActualUsage \<Rightarrow> bool" where
  "nonneg_actual u \<longleftrightarrow> 0 \<le> au_SpendMicros u \<and> au_SpendMicros u \<le> MaxInt64 \<and>
     0 \<le> ActualUsage_TotalTokens u \<and> ActualUsage_TotalTokens u \<le> MaxInt64"

lemma charge_nonneg: "nonneg_actual u \<Longrightarrow> 0 \<le> charge k u scs"
  by (induction scs) (simp_all add: scope_charge_def charge_at_def nonneg_actual_def)

lemma commitScope_values:
  assumes "wf_values s" "nonneg_actual u"
  shows "wf_values (commitScope u sc s)"
    "mget (q_values (commitScope u sc s)) k = sat_sum (mget (q_values s) k) (scope_charge k u sc)"
  using assms
  by (simp_all add: commitScope_def Let_def nonneg_actual_def addValue_wf addValue_values sat_sum_add
      scope_charge_def charge_at_def)

lemma commitScopes_values:
  "wf_values s \<Longrightarrow> nonneg_actual u \<Longrightarrow>
     mget (q_values (fold (commitScope u) scs s)) k = sat_sum (mget (q_values s) k) (charge k u scs)"
proof (induction scs arbitrary: s)
  case Nil
  then show ?case using wf_valuesD [of s k] by simp
next
  case (Cons sc scs)
  have "0 \<le> scope_charge k u sc" using charge_nonneg [OF Cons.prems(2), of k "[sc]"] by simp
  with Cons charge_nonneg [OF Cons.prems(2), of k scs] show ?case
    by (simp add: commitScope_values sat_sum_add)
qed

lemma normalizeActualUsage_nonneg: "act_in_range u \<Longrightarrow> nonneg_actual (normalizeActualUsage u)"
  by (simp add: nonneg_actual_def normalizeActualUsage_amounts)

text \<open>A live reservation is always there in the state a method works on, in every run.\<close>

lemma live_reservation:
  assumes "reach P clk s" "map_of (q_reservations (ticked s)) rid = Some r"
  shows "rid \<noteq> []" "nonneg_usage (mr_held r)" "wf_scopes False (mr_scopes r)"
    "mr_ticket r = \<lparr>qt_RequestID = rid, qt_Scopes = map ms_ref (mr_scopes r)\<rparr>"
    "wf_values (ticked s)" "map_of (q_settlements (ticked s)) rid = None"
proof -
  have acc: "acc_inv False (ticked s)" using reach_acc_inv [OF assms(1), of False] by (intro ticked_acc) simp
  from acc_inv_res [OF acc assms(2)] show "rid \<noteq> []" "nonneg_usage (mr_held r)" "wf_scopes False (mr_scopes r)"
    "mr_ticket r = \<lparr>qt_RequestID = rid, qt_Scopes = map ms_ref (mr_scopes r)\<rparr>"
    by (simp_all add: wf_res_def)
  show "wf_values (ticked s)" using acc by (rule acc_invD)
  have "set_inv (ticked s)" using reach_set_inv [OF assms(1)] by (rule ticked_set_inv)
  then show "map_of (q_settlements (ticked s)) rid = None" using assms(2) by (simp add: set_invD(4))
qed

text \<open>A settlement stays for its replay window while the table has room for the expiring reservations.\<close>

lemma expireReservation_keeps:
  assumes "set_inv s" "length (q_settlements s) < maxMemorySettlements" "fst e \<noteq> rid"
    "map_of (q_settlements s) rid = Some st" "now < st_expires st"
  shows "map_of (q_settlements (expireReservation now e s)) rid = Some st"
    "length (q_settlements (expireReservation now e s)) \<le> Suc (length (q_settlements s))"
proof -
  obtain rid' r where e: "e = (rid', r)" by (cases e)
  let ?s = "releaseHold r 0 now s\<lparr>q_reservations := AList.delete rid' (q_reservations s)\<rparr>"
  have inv: "set_inv ?s" using assms(1) by (rule release_delete_set_inv)
  have "map_of (q_settlements (recordSettlement rid' True now ?s)) rid = Some st \<and>
      length (q_settlements (recordSettlement rid' True now ?s)) \<le> Suc (length (q_settlements s))"
  proof (cases "rid' = []")
    case True
    with assms(4) show ?thesis by (simp add: recordSettlement_def frame)
  next
    case False
    from recordSettlement_spec(3,4) [OF inv False] assms(2-5) e show ?thesis by (simp add: frame)
  qed
  with assms(4) e show "map_of (q_settlements (expireReservation now e s)) rid = Some st"
    "length (q_settlements (expireReservation now e s)) \<le> Suc (length (q_settlements s))"
    by (simp_all add: expireReservation_def Let_def frame)
qed

lemma expireReservations_keep:
  "set_inv s \<Longrightarrow> length (q_settlements s) + length es \<le> maxMemorySettlements \<Longrightarrow> rid \<notin> fst ` set es \<Longrightarrow>
     map_of (q_settlements s) rid = Some st \<Longrightarrow> now < st_expires st \<Longrightarrow>
     map_of (q_settlements (fold (expireReservation now) es s)) rid = Some st"
proof (induction es arbitrary: s)
  case (Cons e es)
  then have "length (q_settlements s) < maxMemorySettlements" "fst e \<noteq> rid" by auto
  note k = expireReservation_keeps [OF Cons.prems(1) this Cons.prems(4,5)]
  then show ?case using Cons by (simp add: expireReservation_set_inv)
qed simp

lemma ticked_keeps_settlement:
  assumes "set_inv s" "length (q_settlements s) + length (q_reservations s) \<le> maxMemorySettlements"
    "map_of (q_settlements s) rid = Some st" "tick s < st_expires st"
  shows "map_of (q_settlements (ticked s)) rid = Some st" "map_of (q_reservations (ticked s)) rid = None"
proof -
  let ?s = "snd (time_Now s)"
  let ?f = "fold (expireReservation (tick s)) (q_reservations s) ?s"
  have inv: "set_inv ?s" using assms(1) by (rule set_inv_cong [rotated -1]) simp_all
  have res: "map_of (q_reservations s) rid = None" using set_invD(4) [OF assms(1), of rid] assms(3) by fastforce
  then have "rid \<notin> fst ` set (q_reservations s)" by (simp add: map_of_eq_None_iff)
  with assms inv have "map_of (q_settlements ?f) rid = Some st" by (intro expireReservations_keep) simp_all
  then show "map_of (q_settlements (ticked s)) rid = Some st"
    using cleanupSettlements_spec(3) [OF expireReservations_set_inv [OF inv]] assms(4)
    by (simp add: ticked_def cleanupExpired_table tick_def time_Now_def)
  have "set_inv (ticked s)" using assms(1) by (rule ticked_set_inv)
  with \<open>map_of (q_settlements (ticked s)) rid = Some st\<close> show "map_of (q_reservations (ticked s)) rid = None"
    using set_invD(4) [of "ticked s" rid] by fastforce
qed

text \<open>Expiry only adds settlements that are marked as expired.\<close>

lemma expireReservation_settled:
  assumes "set_inv s" "map_of (q_settlements (expireReservation now e s)) rid = Some st"
  shows "st_expired st \<or> map_of (q_settlements s) rid = Some st"
proof -
  obtain rid' r where e: "e = (rid', r)" by (cases e)
  let ?s = "releaseHold r 0 now s\<lparr>q_reservations := AList.delete rid' (q_reservations s)\<rparr>"
  have inv: "set_inv ?s" using assms(1) by (rule release_delete_set_inv)
  have "map_of (q_settlements (recordSettlement rid' True now ?s)) rid = Some st \<Longrightarrow> ?thesis"
  proof (cases "rid' = [] \<or> rid \<noteq> rid'")
    case True
    then show "map_of (q_settlements (recordSettlement rid' True now ?s)) rid = Some st \<Longrightarrow> ?thesis"
      using recordSettlement_spec(2) [OF inv, of rid' rid True now st]
      by (cases "rid' = []") (simp_all add: recordSettlement_def frame)
  next
    case False
    then show "map_of (q_settlements (recordSettlement rid' True now ?s)) rid = Some st \<Longrightarrow> ?thesis"
      using recordSettlement_spec(1) [OF inv, of rid' True now] by (auto simp: new_settlement_def)
  qed
  with assms(2) show ?thesis by (auto simp: e expireReservation_def Let_def frame split: if_splits)
qed

lemma expireReservations_settled:
  "set_inv s \<Longrightarrow> map_of (q_settlements (fold (expireReservation now) es s)) rid = Some st \<Longrightarrow>
     st_expired st \<or> map_of (q_settlements s) rid = Some st"
  by (induction es arbitrary: s) (auto dest: expireReservation_settled expireReservation_set_inv)

lemma ticked_settled:
  assumes "set_inv s" "map_of (q_settlements (ticked s)) rid = Some st"
  shows "st_expired st \<or> map_of (q_settlements s) rid = Some st"
proof -
  have inv: "set_inv (snd (time_Now s))" using assms(1) by (rule set_inv_cong [rotated -1]) simp_all
  note c = cleanupSettlements_spec(2) [OF expireReservations_set_inv [OF inv]]
  show ?thesis
    using c expireReservations_settled [OF inv] assms(2)
    by (fastforce simp: ticked_def cleanupExpired_table)
qed

section \<open>Properties\<close>

text \<open>
  C1. Exact accounting. In every run, each held counter (requests in flight, tokens held for the day
  and for the month) is the sum of what the live reservations hold there. Held spend never counts more than
  that sum, and is the sum where every soft spend limit comes with a hard one; a spend that only a soft limit
  watches is admitted unchecked, and its counter saturates at the largest 64-bit integer.
\<close>

theorem quota_accounting_exact:
  assumes "reach P clk s" "held_key k"
  shows "mget (q_values s) k \<le> total_hold k (q_reservations s) \<and>
    ((metric_of k = Some SpendHeld \<longrightarrow> (\<forall>sl. P sl \<longrightarrow> hard_limit (sl_Limits sl))) \<longrightarrow>
       mget (q_values s) k = total_hold k (q_reservations s))"
proof (cases "metric_of k = Some SpendHeld")
  case True
  then have "exact_key True k" by (simp add: exact_key_def)
  with True acc_invD(5) [OF reach_acc_inv [OF assms(1), of True]] acc_invD(6) [OF reach_acc_inv [OF assms(1), of False] assms(2)]
  show ?thesis by blast
next
  case False
  with assms(2) have "exact_key False k" by (auto simp: exact_key_def held_key_def)
  with acc_invD(5) [OF reach_acc_inv [OF assms(1), of False]] show ?thesis by simp
qed

text \<open>
  C4. A commit of a live reservation succeeds, releases exactly what the reservation holds and charges
  the normalized actual usage at the used counters of its scopes; the ID becomes settled.
\<close>

theorem Commit_charges:
  assumes "reach P clk s" "ctx_ok ctx" "act_in_range actual"
    "map_of (q_reservations (ticked s)) (qt_RequestID tk) = Some r"
  shows "fst (Commit ctx tk actual s) = None \<and>
    (let s' = snd (Commit ctx tk actual s); u = normalizeActualUsage actual in
      (\<forall>k. mget (q_values s') k =
         sat_sum (max 0 (mget (q_values (ticked s)) k - res_hold k r)) (charge k u (mr_scopes r))) \<and>
      q_reservations s' = AList.delete (qt_RequestID tk) (q_reservations (ticked s)) \<and>
      map_of (q_settlements s') (qt_RequestID tk) = Some (new_settlement False (tick s) (ticked s)))"
proof -
  let ?rid = "qt_RequestID tk" and ?u = "normalizeActualUsage actual"
  let ?s1 = "releaseHold r (ActualUsage_TotalTokens ?u) (tick s) (ticked s)"
  let ?s2 = "fold (commitScope ?u) (mr_scopes r) ?s1\<lparr>q_reservations := AList.delete ?rid (q_reservations (ticked s))\<rparr>"
  note r = live_reservation [OF assms(1,4)]
  note v1 = releaseHold_values [OF r(5,2)]
  have "set_inv (ticked s)" using reach_set_inv [OF assms(1)] by (rule ticked_set_inv)
  then have "set_inv ?s2" by (rule set_inv_cong [rotated -1]) (auto simp: frame split: if_splits)
  from recordSettlement_spec(1) [OF this r(1)]
  have "map_of (q_settlements (recordSettlement ?rid False (tick s) ?s2)) ?rid =
      Some (new_settlement False (tick s) (ticked s))" by (simp add: new_settlement_def frame)
  then show ?thesis
    using commitScopes_values [OF v1(1) normalizeActualUsage_nonneg [OF assms(3)]]
    by (simp add: Commit_step [OF assms(2) r(1)] Let_def assms(4) frame v1(2))
qed

text \<open>
  A refund of a live reservation releases exactly what it holds and charges nothing.
\<close>

theorem Refund_releases:
  assumes "reach P clk s" "ctx_ok ctx" "map_of (q_reservations (ticked s)) (qt_RequestID tk) = Some r"
  shows "fst (Refund ctx tk s) = None \<and>
    (let s' = snd (Refund ctx tk s) in
      (\<forall>k. mget (q_values s') k = max 0 (mget (q_values (ticked s)) k - res_hold k r)) \<and>
      q_reservations s' = AList.delete (qt_RequestID tk) (q_reservations (ticked s)) \<and>
      map_of (q_settlements s') (qt_RequestID tk) = Some (new_settlement False (tick s) (ticked s)))"
proof -
  let ?rid = "qt_RequestID tk"
  let ?s2 = "releaseHold r 0 (tick s) (ticked s)\<lparr>q_reservations := AList.delete ?rid (q_reservations (ticked s))\<rparr>"
  note r = live_reservation [OF assms(1,3)]
  have "set_inv ?s2" using reach_set_inv [OF assms(1)] by (intro release_delete_set_inv ticked_set_inv)
  from recordSettlement_spec(1) [OF this r(1)]
  have "map_of (q_settlements (recordSettlement ?rid False (tick s) ?s2)) ?rid =
      Some (new_settlement False (tick s) (ticked s))" by (simp add: new_settlement_def frame)
  then show ?thesis
    using releaseHold_values(2) [OF r(5,2)]
    by (simp add: Refund_step [OF assms(2) r(1)] Let_def assms(3) frame)
qed

text \<open>
  C5. A request is charged once. After a commit of a live reservation, a second commit or a refund of
  the same ticket within the replay window returns without an error and changes nothing (beyond
  dropping what has expired), as long as the settlement table has room for the reservations that may
  expire meanwhile.
\<close>

theorem Commit_once:
  assumes "reach P clk s" "ctx_ok ctx" "act_in_range actual"
    "map_of (q_reservations (ticked s)) (qt_RequestID tk) = Some r"
    "s1 = snd (Commit ctx tk actual s)" "tick s1 < tick s + Minute"
    "length (q_settlements s1) + length (q_reservations s1) \<le> maxMemorySettlements" "ctx_ok ctx'"
  shows "Commit ctx' tk actual' s1 = (None, ticked s1) \<and> Refund ctx' tk s1 = (None, ticked s1)"
proof -
  let ?rid = "qt_RequestID tk"
  let ?u = "normalizeActualUsage actual"
  let ?s2 = "fold (commitScope ?u) (mr_scopes r) (releaseHold r (ActualUsage_TotalTokens ?u) (tick s) (ticked s))
    \<lparr>q_reservations := AList.delete ?rid (q_reservations (ticked s))\<rparr>"
  note r = live_reservation [OF assms(1,4)]
  have "reach P clk s1" using assms(1,3,5) by (simp add: reach_Commit)
  then have inv1: "set_inv s1" by (rule reach_set_inv)
  have s1: "s1 = recordSettlement ?rid False (tick s) ?s2"
    by (simp add: assms(5) Commit_step [OF assms(2) r(1)] Let_def assms(4))
  have "set_inv ?s2"
    by (rule set_inv_cong [OF _ _ _ _ _ ticked_set_inv [OF reach_set_inv [OF assms(1)]]])
      (auto simp: frame split: if_splits)
  from recordSettlement_spec(1) [OF this r(1)]
  have st: "map_of (q_settlements s1) ?rid = Some (new_settlement False (tick s) ?s2)" by (simp add: s1)
  have "tick s1 < st_expires (new_settlement False (tick s) ?s2)"
    using assms(6) by (simp add: new_settlement_def quotaSettlementReplayWindow_def)
  from ticked_keeps_settlement [OF inv1 assms(7) st this] show ?thesis
    by (simp add: Commit_step [OF assms(8) r(1)] Refund_step [OF assms(8) r(1)] Let_def settledAnswer_def
        new_settlement_def)
qed

text \<open>
  C6. The settlement table. In every run the eviction loop of \<open>recordSettlement\<close> has ended, at most
  65536 settlements are kept, and no ID is both reserved and settled.
\<close>

theorem settlement_table:
  assumes "reach P clk s"
  shows "\<not> q_diverged s \<and> length (q_settlements s) \<le> 65536 \<and>
    (map_of (q_reservations s) rid = None \<or> map_of (q_settlements s) rid = None)"
  using set_invD(2-) [OF reach_set_inv [OF assms]]
  by (cases "map_of (q_reservations s) rid") (simp_all add: maxMemorySettlements_def)

text \<open>
  A hold that has outlived its reservation cannot be committed or refunded: both methods answer
  that the reservation is not found, the ID is recorded as expired, and the reservation is gone.
\<close>

theorem expired_not_committed:
  assumes "reach P clk s" "ctx_ok ctx" "map_of (q_reservations s) (qt_RequestID tk) = Some r"
    "mr_expires r \<noteq> 0" "mr_expires r \<le> tick s"
  shows "Commit ctx tk actual s = (Some (Sentinel ErrQuotaReservationNotFound), ticked s) \<and>
    Refund ctx tk s = (Some (Sentinel ErrQuotaReservationNotFound), ticked s) \<and>
    map_of (q_reservations (ticked s)) (qt_RequestID tk) = None"
proof -
  have acc: "acc_inv False s" using reach_acc_inv [OF assms(1), of False] by simp
  have set: "set_inv s" using assms(1) by (rule reach_set_inv)
  have rid: "qt_RequestID tk \<noteq> []" using acc_inv_res [OF acc assms(3)] by (simp add: wf_res_def)
  have wf: "wf_gomap (q_reservations s)" using acc by (rule acc_invD)
  have "q_reservations (ticked s) = filter (live (tick s)) (q_reservations s)"
    using cleanupExpired_reservations [of "snd (time_Now s)" "tick s"] wf
    by (simp add: ticked_def tick_def time_Now_def)
  with wf assms(3-5) have res: "map_of (q_reservations (ticked s)) (qt_RequestID tk) = None"
    by (simp add: map_of_filter_wf live_def)
  have "settledAnswer (qt_RequestID tk) (ticked s) = Some (Sentinel ErrQuotaReservationNotFound)"
    using ticked_settled [OF set, of "qt_RequestID tk"] set_invD(4) [OF set, of "qt_RequestID tk"] assms(3)
    by (auto simp: settledAnswer_def split: option.split)
  with res show ?thesis
    by (simp add: Commit_step [OF assms(2) rid] Refund_step [OF assms(2) rid] Let_def)
qed

text \<open>
  All or nothing. A rejected reservation or top-up holds nothing: the store is as it was, apart
  from what expired by the time of the call.
\<close>

theorem rejected_holds_nothing:
  "(fst (Reserve ctx rid scopes est ttl s) = Inl err \<longrightarrow>
     snd (Reserve ctx rid scopes est ttl s) \<in> {s, ticked s}) \<and>
   (fst (TopUp ctx tk scopes' delta ttl s) = Some err' \<longrightarrow> snd (TopUp ctx tk scopes' delta ttl s) \<in> {s, ticked s})"
proof -
  have "snd (Reserve ctx rid scopes est ttl s) \<in> {s, ticked s}"
    if "fst (Reserve ctx rid scopes est ttl s) = Inl err"
    using that
    by (cases "ctx_ok ctx \<and> rid \<noteq> []")
      (auto simp: not_ctx_ok no_request_id Reserve_step Let_def split: option.splits if_splits)
  moreover have "snd (TopUp ctx tk scopes' delta ttl s) \<in> {s, ticked s}"
    if "fst (TopUp ctx tk scopes' delta ttl s) = Some err'"
    using that
    by (cases "ctx_ok ctx \<and> qt_RequestID tk \<noteq> []")
      (auto simp: not_ctx_ok no_request_id TopUp_step Let_def split: option.splits if_splits)
  ultimately show ?thesis by blast
qed

text \<open>
  A replayed reservation is answered with the ticket of the first one and holds nothing more; a
  request that reuses a live ID with another estimate or other scopes, or an ID already settled, is
  refused as a conflict.
\<close>

theorem Reserve_replay:
  assumes "reach P clk s" "ctx_ok ctx" "rid \<noteq> []"
  shows "case map_of (q_reservations (ticked s)) rid of
      Some r \<Rightarrow> Reserve ctx rid scopes est ttl s =
        (if mr_held r = normalizeEstimatedUsage est \<and>
            map (\<lambda>sc. (ms_ref sc, ms_limit sc)) (mr_scopes r) = map (\<lambda>sl. (sl_Ref sl, sl_Limits sl)) scopes
         then (Inr \<lparr>qt_RequestID = rid, qt_Scopes = map sl_Ref scopes\<rparr>, ticked s)
         else (Inl (Sentinel ErrQuotaReservationConflict), ticked s))
    | None \<Rightarrow> map_of (q_settlements (ticked s)) rid \<noteq> None \<longrightarrow>
        Reserve ctx rid scopes est ttl s = (Inl (Sentinel ErrQuotaReservationConflict), ticked s)"
proof (cases "map_of (q_reservations (ticked s)) rid")
  case None
  then show ?thesis using assms(2,3) by (auto simp: Reserve_step Let_def)
next
  case (Some r)
  note r = live_reservation [OF assms(1) Some]
  have same: "sameReservationScopes (mr_scopes r) (resolveScopeReservations scopes (tick s)) \<longleftrightarrow>
      map (\<lambda>sc. (ms_ref sc, ms_limit sc)) (mr_scopes r) = map (\<lambda>sl. (sl_Ref sl, sl_Limits sl)) scopes"
    by (auto simp: sameReservationScopes_def resolveScopeReservations_def list_all2_conv_all_nth list_eq_iff_nth_eq)
  have "map ms_ref (mr_scopes r) = map sl_Ref scopes"
    if "map (\<lambda>sc. (ms_ref sc, ms_limit sc)) (mr_scopes r) = map (\<lambda>sl. (sl_Ref sl, sl_Limits sl)) scopes"
    using arg_cong [OF that, of "map fst"] by (simp add: comp_def)
  with assms(2,3) Some r show ?thesis by (auto simp: Reserve_step Let_def same)
qed

section \<open>Admission\<close>

text \<open>The counters of a scope move only by its own hold.\<close>

lemma applyScopeHold_cnt_other:
  assumes "wf_scope hard sc" "wf_scope hard' sc'" "ms_ref sc \<noteq> ms_ref sc'" "key_of mt (ms_keys sc) = k" "k \<noteq> []"
  shows "cnt (applyScopeHold sc' u now t s) k = cnt s k"
proof -
  have "key_of mt' (ms_keys sc') \<noteq> k" for mt'
    using assms wf_scope_key_inj [OF assms(1,2), of mt mt'] by auto
  from this [of Rpm] this [of Tpm] show ?thesis
    by (simp add: applyScopeHold_def Let_def addCounter_def time_Now_def key_of_def cnt_def get_entry_def frame)
qed

lemma applyScopeHolds_cnt_other:
  "wf_scope hard sc \<Longrightarrow> wf_scopes hard' scs \<Longrightarrow> ms_ref sc \<notin> ms_ref ` set scs \<Longrightarrow> key_of mt (ms_keys sc) = k \<Longrightarrow>
     k \<noteq> [] \<Longrightarrow> cnt (applyScopeHolds scs u now t s) k = cnt s k"
  by (induction scs arbitrary: s) (auto simp: applyScopeHold_cnt_other)

lemma applyScopeHold_cnt:
  assumes "cnt_inv s" "wf_scope hard sc" "nonneg_usage u" "k \<noteq> []"
  shows "key_of Rpm (ms_keys sc) = k \<Longrightarrow> cnt (applyScopeHold sc u now t s) k \<le> sat_sum (cnt s k) 1"
    "key_of Tpm (ms_keys sc) = k \<Longrightarrow>
       cnt (applyScopeHold sc u now t s) k \<le> sat_sum (cnt s k) (EstimatedUsage_TotalTokens u)"
proof -
  let ?m = "timeUntilNextMinute now" and ?d = "EstimatedUsage_TotalTokens u"
  let ?s1 = "if \<not> t then addCounter (k_rpm (ms_keys sc)) 1 ?m (addValue (k_active (ms_keys sc)) 1 0 s) else s"
  have eq: "cnt (applyScopeHold sc u now t s) k = cnt (addCounter (k_tpm (ms_keys sc)) ?d ?m ?s1) k"
    by (simp add: applyScopeHold_def Let_def cnt_def frame)
  have a: "cnt_inv (addValue k' d e s)" "cnt (addValue k' d e s) k = cnt s k" for k' d e
    using assms(1) by (simp_all add: cnt_inv_cong [OF addValue_frame(1,7)] cnt_def frame)
  have inv: "cnt_inv ?s1" using assms(1) a(1) timeUntilNextMinute_range by (auto intro: addCounter_cnt_inv)
  have r: "0 \<le> cnt s k" "cnt s k \<le> MaxInt64" "0 \<le> cnt ?s1 k" "cnt ?s1 k \<le> MaxInt64" "0 \<le> ?d" "?d \<le> MaxInt64"
    using cnt_range [OF assms(1)] cnt_range [OF inv] TotalTokens_range [OF assms(3)] by auto
  have distinct: "key_of Rpm (ms_keys sc) = k \<Longrightarrow> key_of Tpm (ms_keys sc) \<noteq> k"
    using wf_scope_metric [OF assms(2), of Rpm] wf_scope_metric [OF assms(2), of Tpm] assms(4) by auto
  have tpm: "cnt (addCounter (k_tpm (ms_keys sc)) ?d ?m ?s1) k \<le>
      sat_sum (cnt ?s1 k) (if k \<noteq> [] \<and> k = k_tpm (ms_keys sc) then ?d else 0)"
    using inv r(5,6) by (rule addCounter_cnt)
  have rpm: "cnt ?s1 k \<le> sat_sum (cnt s k) (if k \<noteq> [] \<and> k = k_rpm (ms_keys sc) then 1 else 0)"
  proof (cases t)
    case True
    then show ?thesis using sat_sum_ge_left [OF r(2)] by simp
  next
    case False
    then show ?thesis
      using addCounter_cnt [OF a(1) [of "k_active (ms_keys sc)" 1 0], where d = 1 and key = "k_rpm (ms_keys sc)"
          and ttl = ?m and k = k] a(2) by simp
  qed
  show "cnt (applyScopeHold sc u now t s) k \<le> sat_sum (cnt s k) 1" if "key_of Rpm (ms_keys sc) = k"
  proof -
    have "k \<noteq> k_tpm (ms_keys sc)" "k = k_rpm (ms_keys sc)" using distinct [OF that] that by (auto simp: key_of_def)
    then show ?thesis using tpm rpm r(3,4) assms(4) unfolding eq by (simp del: if_split)
  qed
  show "cnt (applyScopeHold sc u now t s) k \<le> sat_sum (cnt s k) ?d" if "key_of Tpm (ms_keys sc) = k"
  proof -
    have k: "k \<noteq> k_rpm (ms_keys sc)" "k = k_tpm (ms_keys sc)" using distinct that by (auto simp: key_of_def)
    then have "cnt ?s1 k \<le> cnt s k" using rpm r(1,2) assms(4) by (simp del: if_split)
    then have "sat_sum (cnt ?s1 k) ?d \<le> sat_sum (cnt s k) ?d" by (rule sat_sum_mono) simp
    with tpm k assms(4) show ?thesis unfolding eq by (simp del: if_split)
  qed
qed

definition rate_amount :: "metric \<Rightarrow> EstimatedUsage \<Rightarrow> int" where
  "rate_amount mt u = (if mt = Rpm then 1 else EstimatedUsage_TotalTokens u)"

lemma scopes_cnt_bound:
  assumes "k \<noteq> []" "nonneg_usage u" "mt \<in> {Rpm, Tpm}" "key_of mt (ms_keys sc) = k"
  shows "sc \<in> set scs \<Longrightarrow> wf_scopes hard scs \<Longrightarrow> cnt_inv s \<Longrightarrow>
    cnt (applyScopeHolds scs u now t s) k \<le> sat_sum (cnt s k) (rate_amount mt u)"
proof (induction scs arbitrary: s)
  case (Cons sc' scs)
  have sc: "wf_scope hard sc" using Cons.prems(1,2) by (auto simp: wf_scopes_def)
  have inv: "cnt_inv (applyScopeHold sc' u now t s)" using Cons.prems(3) assms(2) by (rule applyScopeHold_cnt_inv)
  show ?case
  proof (cases "sc' = sc")
    case True
    then have "cnt (applyScopeHolds (sc' # scs) u now t s) k = cnt (applyScopeHold sc' u now t s) k"
      using Cons.prems(2) assms(1,4) applyScopeHolds_cnt_other [of hard sc hard scs mt k] by auto
    with True applyScopeHold_cnt [OF Cons.prems(3) sc assms(2,1), of now t] assms(3,4) show ?thesis
      by (auto simp: rate_amount_def)
  next
    case False
    then have "sc \<in> set scs" using Cons.prems(1) by auto
    then have "ms_ref sc \<noteq> ms_ref sc'" using Cons.prems(2) by (auto simp: image_iff)
    then have "cnt (applyScopeHold sc' u now t s) k = cnt s k"
      using assms(1,4) sc Cons.prems(2) by (intro applyScopeHold_cnt_other [of hard sc hard]) auto
    with Cons.IH [OF \<open>sc \<in> set scs\<close> _ inv] Cons.prems(2) show ?thesis by simp
  qed
qed simp

lemma checkScope_rates:
  assumes "checkScope sc u now t s = None" "wf_limit (ms_limit sc)" "nonneg_usage u" "cnt_inv s"
    "\<And>k. counterValue k now s = cnt s k"
  shows "\<not> t \<Longrightarrow> 0 < ls_RPM (ms_limit sc) \<Longrightarrow> cnt s (k_rpm (ms_keys sc)) + 1 \<le> ls_RPM (ms_limit sc)"
    "0 < ls_TPM (ms_limit sc) \<Longrightarrow>
       cnt s (k_tpm (ms_keys sc)) + EstimatedUsage_TotalTokens u \<le> ls_TPM (ms_limit sc)"
proof -
  have v: "in_i64 (cnt s k)" "0 \<le> cnt s k" for k using cnt_range [OF assms(4), of k] by (auto simp: in_i64_def)
  have a: "in_i64 (EstimatedUsage_TotalTokens u)" "0 \<le> EstimatedUsage_TotalTokens u" "in_i64 1"
    using TotalTokens_range [OF assms(3)] by (auto simp: in_i64_def)
  note c = assms(1) [unfolded checkScope_def Let_def assms(5)]
  show "\<not> t \<Longrightarrow> 0 < ls_RPM (ms_limit sc) \<Longrightarrow> cnt s (k_rpm (ms_keys sc)) + 1 \<le> ls_RPM (ms_limit sc)"
    using c assms(2) by (simp add: exceedsLimit_sum v a max_absorb2 not_less wf_limit_def split: if_splits)
  show "0 < ls_TPM (ms_limit sc) \<Longrightarrow>
      cnt s (k_tpm (ms_keys sc)) + EstimatedUsage_TotalTokens u \<le> ls_TPM (ms_limit sc)"
    using c assms(2) by (simp add: exceedsLimit_sum v a max_absorb2 not_less wf_limit_def split: if_splits)
qed

text \<open>A used counter is not moved by a hold.\<close>

lemma scopes_hold_used:
  assumes "wf_scopes hard scs" "used_key k"
  shows "scopes_hold k t u scs = 0"
proof -
  have "\<not> held_metric mt" if "sc \<in> set scs" "key_of mt (ms_keys sc) = k" "k \<noteq> []" for sc mt
  proof -
    have "wf_scope hard sc" using assms(1) that(1) by (simp add: wf_scopes_def)
    with wf_scope_metric [of hard sc mt] that have "metric_of k = Some mt" by auto
    with assms(2) show ?thesis by (auto simp: used_key_def held_metric_def)
  qed
  with scopes_hold_cases [OF assms(1), of k t u] show ?thesis by blast
qed

definition within_limits :: "MemoryQuotaStore \<Rightarrow> LimitSpec \<Rightarrow> quotaKeys \<Rightarrow> bool" where
  "within_limits s l ks \<longleftrightarrow>
     (0 < ls_MaxParallel l \<longrightarrow> mget (q_values s) (k_active ks) \<le> ls_MaxParallel l) \<and>
     (0 < ls_RPM l \<longrightarrow> cnt s (k_rpm ks) \<le> ls_RPM l) \<and>
     (0 < ls_TPM l \<longrightarrow> cnt s (k_tpm ks) \<le> ls_TPM l) \<and>
     (0 < ls_MaxSpendMicros l \<longrightarrow>
        mget (q_values s) (k_spendUsed ks) + mget (q_values s) (k_spendHeld ks) \<le> ls_MaxSpendMicros l) \<and>
     (0 < ls_DailyTokens l \<longrightarrow>
        mget (q_values s) (k_dayUsed ks) + mget (q_values s) (k_dayHeld ks) \<le> ls_DailyTokens l) \<and>
     (0 < ls_MonthlyTokens l \<longrightarrow>
        mget (q_values s) (k_monthUsed ks) + mget (q_values s) (k_monthHeld ks) \<le> ls_MonthlyTokens l)"

lemma key_of_sel:
  "k_active ks = key_of Active ks" "k_rpm ks = key_of Rpm ks" "k_tpm ks = key_of Tpm ks"
  "k_spendUsed ks = key_of SpendUsed ks" "k_spendHeld ks = key_of SpendHeld ks"
  "k_dayUsed ks = key_of DayUsed ks" "k_dayHeld ks = key_of DayHeld ks"
  "k_monthUsed ks = key_of MonthUsed ks" "k_monthHeld ks = key_of MonthHeld ks"
  by (simp_all add: key_of_def)

lemma held_after:
  assumes "sc \<in> set scs" "wf_scopes hard scs" "wf_values s" "nonneg_usage u" "key_of mt (ms_keys sc) \<noteq> []"
  shows "held_metric mt \<Longrightarrow> mget (q_values (applyScopeHolds scs u now t s)) (key_of mt (ms_keys sc)) =
      sat_sum (mget (q_values s) (key_of mt (ms_keys sc))) (hold_amount t mt u)"
    "mt \<in> {SpendUsed, DayUsed, MonthUsed} \<Longrightarrow>
      mget (q_values (applyScopeHolds scs u now t s)) (key_of mt (ms_keys sc)) =
      mget (q_values s) (key_of mt (ms_keys sc))"
proof -
  have "wf_scope hard sc" using assms(1,2) by (simp add: wf_scopes_def)
  then have m: "metric_of (key_of mt (ms_keys sc)) = Some mt" using assms(5) by (rule wf_scope_metric)
  note v = applyScopeHolds_values [OF assms(3,4), of scs now t]
  show "held_metric mt \<Longrightarrow> mget (q_values (applyScopeHolds scs u now t s)) (key_of mt (ms_keys sc)) =
      sat_sum (mget (q_values s) (key_of mt (ms_keys sc))) (hold_amount t mt u)"
    using scopes_hold_one [OF assms(1,2) _ assms(5) refl] by (simp add: v)
  show "mt \<in> {SpendUsed, DayUsed, MonthUsed} \<Longrightarrow>
      mget (q_values (applyScopeHolds scs u now t s)) (key_of mt (ms_keys sc)) =
      mget (q_values s) (key_of mt (ms_keys sc))"
    using scopes_hold_used [OF assms(2), of "key_of mt (ms_keys sc)" t u] wf_valuesD [OF assms(3)] m
    by (auto simp: v used_key_def)
qed

lemma sat_sum_le_add: "0 \<le> a \<Longrightarrow> 0 \<le> b \<Longrightarrow> a + b \<le> c \<Longrightarrow> sat_sum a b \<le> c"
  by (auto simp: sat_sum_def)

lemma limited_key:
  assumes "wf_scope hard sc"
  shows "0 < ls_MaxParallel (ms_limit sc) \<Longrightarrow> key_of Active (ms_keys sc) \<noteq> []"
    "0 < ls_RPM (ms_limit sc) \<Longrightarrow> key_of Rpm (ms_keys sc) \<noteq> []"
    "0 < ls_TPM (ms_limit sc) \<Longrightarrow> key_of Tpm (ms_keys sc) \<noteq> []"
    "0 < ls_MaxSpendMicros (ms_limit sc) \<Longrightarrow> key_of SpendUsed (ms_keys sc) \<noteq> [] \<and> key_of SpendHeld (ms_keys sc) \<noteq> []"
    "0 < ls_DailyTokens (ms_limit sc) \<Longrightarrow> key_of DayUsed (ms_keys sc) \<noteq> [] \<and> key_of DayHeld (ms_keys sc) \<noteq> []"
    "0 < ls_MonthlyTokens (ms_limit sc) \<Longrightarrow> key_of MonthUsed (ms_keys sc) \<noteq> [] \<and> key_of MonthHeld (ms_keys sc) \<noteq> []"
  using assms by (auto simp: wf_scope_def key_of_def quotaKeys_sel)

lemma admitted_within:
  assumes "checkScopes scs u now False s = None" "wf_scopes hard scs" "wf_values s" "nonneg_usage u"
    "cnt_inv s" "\<And>k. counterValue k now s = cnt s k" "sc \<in> set scs"
  shows "within_limits (applyScopeHolds scs u now False s) (ms_limit sc) (ms_keys sc)"
proof -
  let ?s = "applyScopeHolds scs u now False s" and ?l = "ms_limit sc"
  have wf: "wf_scope hard sc" using assms(2,7) by (simp add: wf_scopes_def)
  have lim: "wf_limit ?l" using wf by (simp add: wf_scope_def)
  have chk: "checkScope sc u now False s = None" using assms(1,7) by (simp add: checkScopes_None)
  note v = checkScope_values [OF chk lim assms(3,4), unfolded key_of_sel]
  note c = checkScope_rates [OF chk lim assms(4,5,6), unfolded key_of_sel]
  note k = limited_key [OF wf]
  note h = held_after(1) [OF assms(7,2,3,4), of _ now False]
  note u = held_after(2) [OF assms(7,2,3,4), of _ now False]
  have nn: "0 \<le> mget (q_values s) k'" "0 \<le> cnt s k'" "0 \<le> EstimatedUsage_TotalTokens u"
    "0 \<le> eu_EstimatedSpendMicros u" for k'
    using wf_valuesD [OF assms(3)] cnt_range [OF assms(5)] amounts [OF assms(4)] by auto
  have rate: "cnt ?s (key_of mt (ms_keys sc)) \<le> b"
    if "mt \<in> {Rpm, Tpm}" "key_of mt (ms_keys sc) \<noteq> []" "cnt s (key_of mt (ms_keys sc)) + rate_amount mt u \<le> b" for mt b
  proof -
    have "0 \<le> rate_amount mt u" using nn(3) by (simp add: rate_amount_def)
    from sat_sum_le_add [OF nn(2) this that(3)] show ?thesis
      using scopes_cnt_bound [OF that(2) assms(4) that(1) refl assms(7,2,5), of now False] by linarith
  qed
  have held: "x + mget (q_values ?s) (key_of mt (ms_keys sc)) \<le> b"
    if "held_metric mt" "key_of mt (ms_keys sc) \<noteq> []"
      "x + mget (q_values s) (key_of mt (ms_keys sc)) + hold_amount False mt u \<le> b" for mt b x
    using h [OF that(2,1)] sat_sum_le_add [OF nn(1), of "hold_amount False mt u" "key_of mt (ms_keys sc)" "b - x"]
      hold_amount_range [OF assms(4), of False mt] that(3) by simp
  show ?thesis
    unfolding within_limits_def key_of_sel
  proof (intro conjI impI)
    assume p: "0 < ls_MaxParallel ?l"
    show "mget (q_values ?s) (key_of Active (ms_keys sc)) \<le> ls_MaxParallel ?l"
      using held [of Active 0] k(1) [OF p] v(1) [OF _ p] by (simp add: held_metric_def hold_amount_def)
  next
    assume p: "0 < ls_RPM ?l"
    show "cnt ?s (key_of Rpm (ms_keys sc)) \<le> ls_RPM ?l"
      using rate [of Rpm] k(2) [OF p] c(1) [OF _ p] by (simp add: rate_amount_def)
  next
    assume p: "0 < ls_TPM ?l"
    show "cnt ?s (key_of Tpm (ms_keys sc)) \<le> ls_TPM ?l"
      using rate [of Tpm] k(3) [OF p] c(2) [OF p] by (simp add: rate_amount_def)
  next
    assume p: "0 < ls_MaxSpendMicros ?l"
    show "mget (q_values ?s) (key_of SpendUsed (ms_keys sc)) + mget (q_values ?s) (key_of SpendHeld (ms_keys sc))
        \<le> ls_MaxSpendMicros ?l"
      using held [of SpendHeld] k(4) [OF p] v(2) [OF p] u [of SpendUsed] by (simp add: held_metric_def hold_amount_def)
  next
    assume p: "0 < ls_DailyTokens ?l"
    show "mget (q_values ?s) (key_of DayUsed (ms_keys sc)) + mget (q_values ?s) (key_of DayHeld (ms_keys sc))
        \<le> ls_DailyTokens ?l"
      using held [of DayHeld] k(5) [OF p] v(3) [OF p] u [of DayUsed] by (simp add: held_metric_def hold_amount_def)
  next
    assume p: "0 < ls_MonthlyTokens ?l"
    show "mget (q_values ?s) (key_of MonthUsed (ms_keys sc)) + mget (q_values ?s) (key_of MonthHeld (ms_keys sc))
        \<le> ls_MonthlyTokens ?l"
      using held [of MonthHeld] k(6) [OF p] v(4) [OF p] u [of MonthUsed] by (simp add: held_metric_def hold_amount_def)
  qed
qed

text \<open>
  C3. Admission. When a fresh reservation is granted, every limit of every scope it names holds in the
  state it leaves: requests in flight, requests and tokens of the minute, and used plus held spend,
  daily tokens and monthly tokens, its own hold included.
\<close>

theorem Reserve_within_limits:
  assumes "reach P clk s" "\<forall>n. 0 < clk n" "request_ok P scopes" "est_in_range est"
    "Reserve ctx rid scopes est ttl s = (Inr tk, s')" "rid \<noteq> []"
    "map_of (q_reservations (ticked s)) rid = None" "sl \<in> set scopes"
  shows "within_limits s' (sl_Limits sl) (quotaKeysForScope (sl_Ref sl) (sl_Limits sl) (tick s))"
proof -
  let ?u = "normalizeEstimatedUsage est" and ?scs = "resolveScopeReservations scopes (tick s)"
  have acc: "acc_inv False s" using reach_acc_inv [OF assms(1), of False] by simp
  have cnt: "cnt_inv s" using reach_cnt_inv [OF assms(1)] assms(2) by simp
  have ctx: "ctx_ok ctx" using assms(5) by (auto simp: ctx_ok_def Reserve_def assms(6) split: option.splits)
  from assms(5,7) have s': "checkScopes ?scs ?u (tick s) False (ticked s) = None"
    "q_values s' = q_values (applyScopeHolds ?scs ?u (tick s) False (ticked s))"
    "q_counters s' = q_counters (applyScopeHolds ?scs ?u (tick s) False (ticked s))"
    by (auto simp: Reserve_step [OF ctx assms(6)] Let_def split: if_splits option.splits)
  define sc where "sc = \<lparr>ms_ref = sl_Ref sl, ms_limit = sl_Limits sl,
     ms_keys = quotaKeysForScope (sl_Ref sl) (sl_Limits sl) (tick s),
     ms_expires = quotaExpiriesForLimit (sl_Limits sl) (tick s)\<rparr>"
  have "sc \<in> set ?scs" using assms(8) by (auto simp: resolveScopeReservations_def sc_def)
  moreover have "wf_scopes False ?scs" using assms(3) by (simp add: wf_request_resolve request_ok_def)
  ultimately have "within_limits (applyScopeHolds ?scs ?u (tick s) False (ticked s)) (ms_limit sc) (ms_keys sc)"
    using s'(1) acc_invD(1) [OF ticked_acc [OF acc]] normalizeEstimatedUsage_nonneg [OF assms(4)]
      ticked_cnt [OF cnt acc] by (intro admitted_within) auto
  then show ?thesis using s'(2,3) by (simp add: within_limits_def cnt_def sc_def)
qed

section \<open>Requests in flight\<close>

text \<open>The number of live reservations that name a scope.\<close>

definition in_flight :: "ScopeRef \<Rightarrow> (string, memoryReservation) gomap \<Rightarrow> int" where
  "in_flight ref rs = int (length (filter (\<lambda>e. ref \<in> set (qt_Scopes (mr_ticket (snd e)))) rs))"

text \<open>
  A reservation counts as in flight for a scope when it was made under a positive \<open>MaxParallel\<close>: only
  then the store counts it. Limits may change during a run, so every reservation carries its own.
\<close>

definition counted :: "ScopeRef \<Rightarrow> memoryReservation \<Rightarrow> bool" where
  "counted ref r \<longleftrightarrow> (\<exists>sc \<in> set (mr_scopes r). ms_ref sc = ref \<and> 0 < ls_MaxParallel (ms_limit sc))"

definition in_parallel :: "ScopeRef \<Rightarrow> (string, memoryReservation) gomap \<Rightarrow> int" where
  "in_parallel ref rs = int (length (filter (\<lambda>e. counted ref (snd e)) rs))"

lemma active_key: "0 < ls_MaxParallel l \<Longrightarrow> k_active (quotaKeysForScope ref l t) = scope_prefix ref @ '':active''"
  by (simp add: quotaKeys_sel)

lemma res_hold_active:
  assumes "wf_res False e" "sr_Kind ref = ScopeKey"
  shows "res_hold (scope_prefix ref @ '':active'') (snd e) = (if counted ref (snd e) then 1 else 0)"
proof -
  let ?k = "scope_prefix ref @ '':active''" and ?scs = "mr_scopes (snd e)"
  have wf: "wf_scopes False ?scs" using assms(1) by (simp add: wf_res_def)
  show ?thesis
  proof (cases "counted ref (snd e)")
    case True
    then obtain sc where sc: "sc \<in> set ?scs" "ms_ref sc = ref" "0 < ls_MaxParallel (ms_limit sc)" by (auto simp: counted_def)
    with wf have "key_of Active (ms_keys sc) = ?k"
      by (auto simp: wf_scopes_def wf_scope_def key_of_def active_key)
    from scopes_hold_one [OF sc(1) wf _ _ this] True show ?thesis
      by (simp add: res_hold_def held_metric_def hold_amount_def)
  next
    case False
    have "scopes_hold ?k t u ?scs = 0" for t u
    proof (rule disjE [OF scopes_hold_cases [OF wf, of ?k t u]])
      assume "\<exists>sc \<in> set ?scs. \<exists>mt. held_metric mt \<and> ?k \<noteq> [] \<and> key_of mt (ms_keys sc) = ?k \<and>
        scopes_hold ?k t u ?scs = hold_amount t mt u"
      then obtain sc mt where sc: "sc \<in> set ?scs" and k: "key_of mt (ms_keys sc) = ?k" by blast
      from sc wf have ws: "wf_scope False sc" by (simp add: wf_scopes_def)
      have mt: "mt = Active" using wf_scope_metric [OF ws, of mt] k by (simp add: metric_of_def parse_tagged)
      define sc0 where "sc0 = sc\<lparr>ms_ref := ref, ms_limit := zero_limit\<lparr>ls_MaxParallel := 1\<rparr>,
        ms_keys := quotaKeysForScope ref (zero_limit\<lparr>ls_MaxParallel := 1\<rparr>) 0\<rparr>"
      have "wf_scope False sc0" using assms(2) by (auto simp: sc0_def wf_scope_def wf_limit_def)
      moreover have "key_of Active (ms_keys sc0) = ?k" by (simp add: sc0_def key_of_def active_key)
      ultimately have "ms_ref sc = ref"
        using wf_scope_key_inj [OF ws, of False sc0 mt Active] k by (simp add: sc0_def)
      moreover have "0 < ls_MaxParallel (ms_limit sc)" using held_key_limit(1) [OF ws, of mt] k mt by simp
      ultimately show ?thesis using False sc by (auto simp: counted_def)
    qed
    with False show ?thesis by (simp add: res_hold_def)
  qed
qed

lemma active_count:
  assumes "\<forall>e \<in> set rs. wf_res False e" "sr_Kind ref = ScopeKey"
  shows "total_hold (scope_prefix ref @ '':active'') rs = in_parallel ref rs"
  using assms(1) by (induction rs) (simp_all add: in_parallel_def res_hold_active [OF _ assms(2)])

abbreviation counts :: "ScopeRef \<Rightarrow> memoryReservation \<Rightarrow> int" where
  "counts ref r \<equiv> (if counted ref r then 1 else 0)"

lemma in_parallel_update:
  "wf_gomap rs \<Longrightarrow> in_parallel ref (AList.update rid r rs) =
     in_parallel ref rs + counts ref r - (case map_of rs rid of None \<Rightarrow> 0 | Some r' \<Rightarrow> counts ref r')"
proof (induction rs)
  case (Cons e rs)
  then have wf: "wf_gomap rs" by (auto simp: wf_gomap_def)
  with Cons show ?case by (cases e) (auto simp: in_parallel_def split: option.splits)
qed (simp add: in_parallel_def)

lemma in_parallel_filter: "in_parallel ref (filter Q rs) \<le> in_parallel ref rs"
  by (induction rs) (auto simp: in_parallel_def)

text \<open>Every stored limit was brought by a request, and no more reservations count than the largest allows.\<close>

definition brought :: "(ScopedLimit \<Rightarrow> bool) \<Rightarrow> memoryReservation \<Rightarrow> bool" where
  "brought P r \<longleftrightarrow> (\<forall>sc \<in> set (mr_scopes r). P \<lparr>sl_Ref = ms_ref sc, sl_Limits = ms_limit sc\<rparr>)"

lemma ScopedLimit_eta [simp]: "\<lparr>sl_Ref = sl_Ref sl, sl_Limits = sl_Limits sl\<rparr> = sl"
  by simp

definition fl_inv :: "(ScopedLimit \<Rightarrow> bool) \<Rightarrow> ScopeRef \<Rightarrow> int \<Rightarrow> (string, memoryReservation) gomap \<Rightarrow> bool" where
  "fl_inv P ref M rs \<longleftrightarrow> (\<forall>e \<in> set rs. brought P (snd e)) \<and> in_parallel ref rs \<le> M"

lemma fl_inv_filter: "fl_inv P ref M rs \<Longrightarrow> fl_inv P ref M (filter Q rs)"
  unfolding fl_inv_def by (auto intro: order_trans [OF in_parallel_filter])

lemma fl_inv_delete: "fl_inv P ref M rs \<Longrightarrow> fl_inv P ref M (AList.delete rid rs)"
  by (simp add: AList.delete_eq fl_inv_filter)

lemma fl_inv_same:
  assumes "fl_inv P ref M rs" "wf_gomap rs" "map_of rs rid = Some r" "mr_scopes r' = mr_scopes r"
  shows "fl_inv P ref M (AList.update rid r' rs)"
proof -
  have "(rid, r) \<in> set rs" using assms(3) by (rule map_of_SomeD)
  with assms(1,4) have "\<forall>e \<in> set (AList.update rid r' rs). brought P (snd e)"
    by (fastforce simp: fl_inv_def brought_def dest!: set_gomap_update)
  with assms show ?thesis by (simp add: fl_inv_def in_parallel_update counted_def)
qed

lemma ticked_reservations:
  "acc_inv hard s \<Longrightarrow> q_reservations (ticked s) = filter (live (tick s)) (q_reservations s)"
  using cleanupExpired_reservations [of "snd (time_Now s)" "tick s"] acc_invD(2) [of hard s]
  by (simp add: ticked_def tick_def time_Now_def)

lemma fl_inv_new:
  assumes acc: "acc_inv False s" and fl: "fl_inv P ref M (q_reservations s)" and ref: "sr_Kind ref = ScopeKey"
    and P: "\<And>sl. P sl \<Longrightarrow> sl_Ref sl = ref \<Longrightarrow> ls_MaxParallel (sl_Limits sl) \<le> M"
    and req: "wf_request False scopes" "\<forall>sl \<in> set scopes. P sl"
    and chk: "checkScopes (resolveScopeReservations scopes now) u now False s = None" and u: "nonneg_usage u"
    and new: "map_of (q_reservations s) rid = None"
    and r: "mr_scopes r = resolveScopeReservations scopes now"
  shows "fl_inv P ref M (AList.update rid r (q_reservations s))"
proof -
  have wf: "wf_gomap (q_reservations s)" and wfv: "wf_values s" using acc by (simp_all add: acc_invD)
  have "\<forall>e \<in> set (AList.update rid r (q_reservations s)). brought P (snd e)"
    using fl req(2) r
    by (fastforce simp: fl_inv_def brought_def resolveScopeReservations_def dest!: set_gomap_update)
  moreover have "in_parallel ref (AList.update rid r (q_reservations s)) \<le> M"
  proof (cases "counted ref r")
    case False
    with fl new show ?thesis by (simp add: in_parallel_update [OF wf] fl_inv_def)
  next
    case True
    then obtain sc where sc: "sc \<in> set (mr_scopes r)" "ms_ref sc = ref" "0 < ls_MaxParallel (ms_limit sc)" by (auto simp: counted_def)
    with chk r have c: "checkScope sc u now False s = None" by (simp add: checkScopes_None)
    have "wf_scope False sc" using wf_request_resolve [OF req(1)] sc(1) r by (simp add: wf_scopes_def)
    with sc(2,3) have lim: "wf_limit (ms_limit sc)" and key: "k_active (ms_keys sc) = scope_prefix ref @ '':active''"
      by (auto simp: wf_scope_def active_key)
    from sc(1,2) r req(2) P have le: "ls_MaxParallel (ms_limit sc) \<le> M"
      by (auto simp: resolveScopeReservations_def)
    have ex: "exact_key False (scope_prefix ref @ '':active'')"
      by (simp add: exact_key_def metric_of_def parse_tagged)
    have "mget (q_values s) (scope_prefix ref @ '':active'') = in_parallel ref (q_reservations s)"
      using acc_invD(5) [OF acc ex] active_count [of "q_reservations s" ref] ref acc_invD(3) [OF acc] by simp
    with checkScope_values(1) [OF c lim wfv u] key sc(3) le
    show ?thesis using True new by (simp add: in_parallel_update [OF wf])
  qed
  ultimately show ?thesis by (simp add: fl_inv_def)
qed

lemma reach_fl_inv:
  assumes "reach P clk s" and ref: "sr_Kind ref = ScopeKey" "0 \<le> M"
    and P: "\<And>sl. P sl \<Longrightarrow> sl_Ref sl = ref \<Longrightarrow> ls_MaxParallel (sl_Limits sl) \<le> M"
  shows "fl_inv P ref M (q_reservations s)"
  using assms(1)
proof (induction rule: reach.induct)
  case reach_New
  show ?case by (simp add: NewMemoryQuotaStore_def fl_inv_def in_parallel_def ref(2))
next
  case (reach_Reserve s scopes est ctx rid ttl)
  have acc: "acc_inv False s" "acc_inv False (ticked s)"
    using reach_acc_inv [OF reach_Reserve.hyps(1), of False] ticked_acc by simp_all
  have t: "fl_inv P ref M (q_reservations (ticked s))"
    using reach_Reserve.IH by (simp add: ticked_reservations [OF acc(1)] fl_inv_filter)
  have req: "wf_request False scopes" "\<forall>sl \<in> set scopes. P sl" using reach_Reserve.hyps(2) by (auto simp: request_ok_def)
  note new = fl_inv_new [OF acc(2) t ref(1) P req _ normalizeEstimatedUsage_nonneg [OF reach_Reserve.hyps(3)]]
  show ?case
  proof (cases "ctx_ok ctx \<and> rid \<noteq> []")
    case True
    with t new [of "tick s"] show ?thesis
      by (auto simp: Reserve_step Let_def frame split: option.split)
  qed (use reach_Reserve.IH in \<open>auto simp: not_ctx_ok no_request_id\<close>)
next
  case (reach_TopUp s est ctx tk scopes ttl)
  have acc: "acc_inv False s" "acc_inv False (ticked s)"
    using reach_acc_inv [OF reach_TopUp.hyps(1), of False] ticked_acc by simp_all
  have t: "fl_inv P ref M (q_reservations (ticked s))"
    using reach_TopUp.IH by (simp add: ticked_reservations [OF acc(1)] fl_inv_filter)
  note same = fl_inv_same [OF t acc_invD(2) [OF acc(2)]]
  show ?case
  proof (cases "ctx_ok ctx \<and> qt_RequestID tk \<noteq> []")
    case True
    with t same show ?thesis by (auto simp: TopUp_step Let_def frame split: option.split)
  qed (use reach_TopUp.IH in \<open>auto simp: not_ctx_ok no_request_id\<close>)
next
  case (reach_Commit s act ctx tk)
  have acc: "acc_inv False s" using reach_acc_inv [OF reach_Commit.hyps(1), of False] by simp
  with reach_Commit.IH show ?case
    by (cases "ctx_ok ctx \<and> qt_RequestID tk \<noteq> []")
      (auto simp: Commit_step Let_def frame ticked_reservations fl_inv_filter fl_inv_delete not_ctx_ok no_request_id
        split: option.split)
next
  case (reach_Refund s ctx tk)
  have acc: "acc_inv False s" using reach_acc_inv [OF reach_Refund.hyps(1), of False] by simp
  with reach_Refund.IH show ?case
    by (cases "ctx_ok ctx \<and> qt_RequestID tk \<noteq> []")
      (auto simp: Refund_step Let_def frame ticked_reservations fl_inv_filter fl_inv_delete not_ctx_ok no_request_id
        split: option.split)
next
  case (reach_GetUsage s ctx sl)
  have acc: "acc_inv False s" using reach_acc_inv [OF reach_GetUsage.hyps(1), of False] by simp
  with reach_GetUsage.IH show ?case
    by (cases "ctx_ok ctx") (auto simp: GetUsage_state not_ctx_ok ticked_reservations fl_inv_filter)
qed

lemma in_parallel_all:
  assumes "\<forall>e \<in> set rs. brought P (snd e) \<and> wf_res False e"
    and "\<And>sl. P sl \<Longrightarrow> sl_Ref sl = ref \<Longrightarrow> 0 < ls_MaxParallel (sl_Limits sl)"
  shows "in_flight ref rs = in_parallel ref rs"
proof -
  have "ref \<in> set (qt_Scopes (mr_ticket (snd e))) \<longleftrightarrow> counted ref (snd e)" if "e \<in> set rs" for e
    using that assms by (force simp: wf_res_def brought_def counted_def)
  then have "filter (\<lambda>e. ref \<in> set (qt_Scopes (mr_ticket (snd e)))) rs = filter (\<lambda>e. counted ref (snd e)) rs"
    by (rule filter_cong [OF refl])
  then show ?thesis by (simp add: in_flight_def in_parallel_def)
qed

text \<open>
  C2. Concurrency limit. Limits may change while requests run, and each reservation is made under the
  limits its request brought. In every run, the live reservations made for a scope under a parallel limit
  never outnumber the largest \<open>MaxParallel\<close> that requests brought for it; when every request of the run
  brought one, as with a constant configuration, these are all the live reservations that name the scope.
\<close>

theorem max_parallel_respected:
  assumes "reach P clk s" "sr_Kind ref = ScopeKey" "0 \<le> M"
    "\<forall>sl. P sl \<longrightarrow> sl_Ref sl = ref \<longrightarrow> ls_MaxParallel (sl_Limits sl) \<le> M"
  shows "in_parallel ref (q_reservations s) \<le> M \<and>
    ((\<forall>sl. P sl \<longrightarrow> sl_Ref sl = ref \<longrightarrow> 0 < ls_MaxParallel (sl_Limits sl)) \<longrightarrow> in_flight ref (q_reservations s) \<le> M)"
proof -
  have fl: "fl_inv P ref M (q_reservations s)" using reach_fl_inv [OF assms(1-3)] assms(4) by blast
  have "acc_inv False s" using reach_acc_inv [OF assms(1), of False] by simp
  with fl in_parallel_all [of "q_reservations s" P ref] show ?thesis by (auto simp: fl_inv_def acc_invD(3))
qed

section \<open>A concrete run\<close>

text \<open>A key with limits, a request on it, and the store after the request is reserved.\<close>

definition demo_limits :: LimitSpec where
  "demo_limits = zero_limit\<lparr>ls_MaxParallel := 2, ls_RPM := 10, ls_TPM := 500, ls_DailyTokens := 1000\<rparr>"

definition demo_scope :: ScopedLimit where
  "demo_scope = \<lparr>sl_Ref = \<lparr>sr_Kind = ScopeKey, sr_ID = ''k1''\<rparr>, sl_Limits = demo_limits\<rparr>"

definition demo_clock :: clock where
  "demo_clock n = 63871000000 * Second + int n * Second"

definition demo_estimate :: EstimatedUsage where
  "demo_estimate = \<lparr>eu_InputTokens = 10, eu_ReservedOutputTokens = 20, eu_EstimatedSpendMicros = 5\<rparr>"

definition demo_actual :: ActualUsage where
  "demo_actual = \<lparr>au_InputTokens = 10, au_OutputTokens = 7, au_SpendMicros = 3\<rparr>"

definition demo_ticket :: QuotaTicket where
  "demo_ticket = \<lparr>qt_RequestID = ''r1'', qt_Scopes = [sl_Ref demo_scope]\<rparr>"

definition background :: ctx where
  "background n = None"

definition demo_held :: MemoryQuotaStore where
  "demo_held = snd (Reserve background ''r1'' [demo_scope] demo_estimate (10 * Minute) (NewMemoryQuotaStore demo_clock))"

definition demo_committed :: MemoryQuotaStore where
  "demo_committed = snd (Commit background demo_ticket demo_actual demo_held)"

definition demo_config :: "ScopedLimit \<Rightarrow> bool" where
  "demo_config sl \<longleftrightarrow> sl_Limits sl = demo_limits"

lemma demo_ok:
  "request_ok demo_config [demo_scope]" "est_in_range demo_estimate" "act_in_range demo_actual"
  "ctx_ok background" "0 < demo_clock n" "qt_RequestID demo_ticket = ''r1''"
  by (simp_all add: request_ok_def wf_request_def demo_scope_def demo_limits_def wf_limit_def demo_config_def
      est_in_range_def act_in_range_def demo_estimate_def demo_actual_def in_i64_def ctx_ok_def background_def
      demo_clock_def demo_ticket_def)

lemma demo_reach: "reach demo_config demo_clock demo_held" "reach demo_config demo_clock demo_committed"
proof -
  show h: "reach demo_config demo_clock demo_held"
    unfolding demo_held_def by (intro reach_Reserve reach_New demo_ok)
  show "reach demo_config demo_clock demo_committed"
    unfolding demo_committed_def by (intro reach_Commit h demo_ok)
qed

lemma demo_live: "\<exists>r. map_of (q_reservations (ticked demo_held)) ''r1'' = Some r"
proof -
  have "map_of (q_reservations (ticked demo_held)) ''r1'' \<noteq> None" by code_simp
  then show ?thesis by blast
qed

text \<open>
  A clock that moves an hour at every reading, a reservation it leaves behind, and a request without
  scopes, reserved and committed.
\<close>

definition demo_slow_clock :: clock where
  "demo_slow_clock n = 63871000000 * Second + int n * Hour"

definition demo_stale :: MemoryQuotaStore where
  "demo_stale = snd (Reserve background ''r1'' [] demo_estimate (10 * Minute) (NewMemoryQuotaStore demo_slow_clock))"

definition demo_free :: MemoryQuotaStore where
  "demo_free = snd (Reserve background ''r1'' [] demo_estimate (10 * Minute) (NewMemoryQuotaStore demo_clock))"

definition demo_free_committed :: MemoryQuotaStore where
  "demo_free_committed = snd (Commit background demo_ticket demo_actual demo_free)"

lemma demo_stale_reach: "reach demo_config demo_slow_clock demo_stale" "reach demo_config demo_clock demo_free"
  unfolding demo_stale_def demo_free_def
  by (intro reach_Reserve reach_New demo_ok; simp add: request_ok_def wf_request_def)+

section \<open>Witnesses\<close>

theorem quota_accounting_exact_witness:
  "mget (q_values demo_held) ''quota:key:k1:held:day:20241228'' = 30 \<and>
   total_hold ''quota:key:k1:held:day:20241228'' (q_reservations demo_held) = 30"
proof -
  have "metric_of ''quota:key:k1:held:day:20241228'' = Some DayHeld" by code_simp
  then have k: "held_key ''quota:key:k1:held:day:20241228''" "metric_of ''quota:key:k1:held:day:20241228'' \<noteq> Some SpendHeld"
    by (simp_all add: held_key_def)
  have "mget (q_values demo_held) ''quota:key:k1:held:day:20241228'' = 30" by code_simp
  with quota_accounting_exact [OF demo_reach(1) k(1)] k(2) show ?thesis by simp
qed

theorem Commit_charges_witness:
  "\<exists>r. map_of (q_reservations (ticked demo_held)) ''r1'' = Some r \<and>
     fst (Commit background demo_ticket demo_actual demo_held) = None \<and>
     mget (q_values demo_committed) ''quota:key:k1:active'' =
       sat_sum (max 0 (mget (q_values (ticked demo_held)) ''quota:key:k1:active'' - res_hold ''quota:key:k1:active'' r))
         (charge ''quota:key:k1:active'' (normalizeActualUsage demo_actual) (mr_scopes r))"
proof -
  from demo_live obtain r where r: "map_of (q_reservations (ticked demo_held)) ''r1'' = Some r" by blast
  with Commit_charges [OF demo_reach(1) demo_ok(4,3), of demo_ticket r] show ?thesis
    by (intro exI [of _ r]) (simp add: demo_ok(6) Let_def demo_committed_def)
qed

theorem Refund_releases_witness:
  "\<exists>r. map_of (q_reservations (ticked demo_held)) ''r1'' = Some r \<and>
     fst (Refund background demo_ticket demo_held) = None \<and>
     mget (q_values (snd (Refund background demo_ticket demo_held))) ''quota:key:k1:active'' =
       max 0 (mget (q_values (ticked demo_held)) ''quota:key:k1:active'' - res_hold ''quota:key:k1:active'' r)"
proof -
  from demo_live obtain r where r: "map_of (q_reservations (ticked demo_held)) ''r1'' = Some r" by blast
  with Refund_releases [OF demo_reach(1) demo_ok(4), of demo_ticket r] show ?thesis
    by (intro exI [of _ r]) (simp add: demo_ok(6) Let_def)
qed

theorem Commit_once_witness:
  "tick demo_free_committed < tick demo_free + Minute \<and>
   Commit background demo_ticket demo_actual demo_free_committed = (None, ticked demo_free_committed) \<and>
   Refund background demo_ticket demo_free_committed = (None, ticked demo_free_committed)"
proof -
  have "map_of (q_reservations (ticked demo_free)) ''r1'' \<noteq> None" by code_simp
  then obtain r where r: "map_of (q_reservations (ticked demo_free)) (qt_RequestID demo_ticket) = Some r"
    by (auto simp: demo_ok(6))
  have t: "tick demo_free_committed < tick demo_free + Minute" by code_simp
  have n: "length (q_settlements demo_free_committed) + length (q_reservations demo_free_committed) \<le> maxMemorySettlements"
  proof -
    let ?u = "normalizeActualUsage demo_actual"
    let ?s2 = "fold (commitScope ?u) (mr_scopes r) (releaseHold r (ActualUsage_TotalTokens ?u) (tick demo_free) (ticked demo_free))
      \<lparr>q_reservations := AList.delete ''r1'' (q_reservations (ticked demo_free))\<rparr>"
    have "set_inv ?s2"
      by (rule set_inv_cong [OF _ _ _ _ _ ticked_set_inv [OF reach_set_inv [OF demo_stale_reach(2)]]])
        (auto simp: frame split: if_splits)
    from recordSettlement_spec(4) [OF this, of "''r1''" False "tick demo_free"]
    have "length (q_settlements demo_free_committed) \<le> Suc (length (q_settlements (ticked demo_free)))"
      using r by (simp add: demo_free_committed_def Commit_step demo_ok Let_def frame)
    moreover have "q_reservations demo_free_committed = AList.delete ''r1'' (q_reservations (ticked demo_free))"
      using r by (simp add: demo_free_committed_def Commit_step demo_ok Let_def frame)
    moreover have "length (q_settlements (ticked demo_free)) = 0" "AList.delete ''r1'' (q_reservations (ticked demo_free)) = []"
      by code_simp+
    ultimately show ?thesis by (simp add: maxMemorySettlements_def)
  qed
  show ?thesis
    using Commit_once [OF demo_stale_reach(2) demo_ok(4,3) r demo_free_committed_def t n demo_ok(4), of demo_actual] t
    by simp
qed

theorem settlement_table_witness:
  "\<not> q_diverged demo_committed \<and> length (q_settlements demo_committed) \<le> 65536 \<and>
   (map_of (q_reservations demo_committed) ''r1'' = None \<or> map_of (q_settlements demo_committed) ''r1'' = None)"
  using settlement_table [OF demo_reach(2), of "''r1''"] by simp

theorem expired_not_committed_witness:
  "Commit background demo_ticket demo_actual demo_stale = (Some (Sentinel ErrQuotaReservationNotFound), ticked demo_stale)"
proof -
  have "map_of (q_reservations demo_stale) ''r1'' \<noteq> None" by code_simp
  then obtain r where r: "map_of (q_reservations demo_stale) (qt_RequestID demo_ticket) = Some r"
    by (auto simp: demo_ok(6))
  have "mr_expires (the (map_of (q_reservations demo_stale) (qt_RequestID demo_ticket))) \<noteq> 0"
    "mr_expires (the (map_of (q_reservations demo_stale) (qt_RequestID demo_ticket))) \<le> tick demo_stale"
    by code_simp+
  then show ?thesis
    using expired_not_committed [OF demo_stale_reach(1) demo_ok(4) r, of demo_actual] r by simp
qed

theorem rejected_holds_nothing_witness:
  "let s = NewMemoryQuotaStore demo_clock in
   snd (Reserve background ''r2'' [demo_scope] (demo_estimate\<lparr>eu_InputTokens := 10000\<rparr>) 0 s) \<in> {s, ticked s} \<and>
   snd (TopUp background demo_ticket [] demo_estimate 0 s) \<in> {s, ticked s}"
proof -
  let ?s = "NewMemoryQuotaStore demo_clock"
  have "fst (Reserve background ''r2'' [demo_scope] (demo_estimate\<lparr>eu_InputTokens := 10000\<rparr>) 0 ?s) =
      Inl (api (RateLimited ''quota exceeded: tpm''))" by code_simp
  moreover have "fst (TopUp background demo_ticket [] demo_estimate 0 ?s) =
      Some (Sentinel ErrQuotaReservationNotFound)" by code_simp
  ultimately show ?thesis unfolding Let_def using rejected_holds_nothing by blast
qed

theorem Reserve_replay_witness:
  "\<exists>r. map_of (q_reservations (ticked demo_held)) ''r1'' = Some r \<and>
     Reserve background ''r1'' [] demo_estimate 0 demo_held =
       (if mr_held r = normalizeEstimatedUsage demo_estimate \<and> mr_scopes r = []
        then (Inr \<lparr>qt_RequestID = ''r1'', qt_Scopes = []\<rparr>, ticked demo_held)
        else (Inl (Sentinel ErrQuotaReservationConflict), ticked demo_held))"
proof -
  from demo_live obtain r where r: "map_of (q_reservations (ticked demo_held)) ''r1'' = Some r" by blast
  with Reserve_replay [OF demo_reach(1) demo_ok(4), of "''r1''" "[]" demo_estimate 0] show ?thesis
    by (intro exI [of _ r]) simp
qed

theorem Reserve_within_limits_witness:
  "within_limits demo_held demo_limits
     (quotaKeysForScope \<lparr>sr_Kind = ScopeKey, sr_ID = ''k1''\<rparr> demo_limits (tick (NewMemoryQuotaStore demo_clock)))"
proof -
  let ?s = "NewMemoryQuotaStore demo_clock"
  have "fst (Reserve background ''r1'' [demo_scope] demo_estimate (10 * Minute) ?s) = Inr demo_ticket" by code_simp
  then have e: "Reserve background ''r1'' [demo_scope] demo_estimate (10 * Minute) ?s = (Inr demo_ticket, demo_held)"
    by (simp add: demo_held_def prod_eq_iff)
  have n: "map_of (q_reservations (ticked ?s)) ''r1'' = None" by code_simp
  have pos: "\<forall>n. 0 < demo_clock n" by (simp add: demo_ok)
  show ?thesis
    using Reserve_within_limits [OF reach_New pos demo_ok(1,2) e _ n, of demo_scope] by (simp add: demo_scope_def)
qed

theorem max_parallel_respected_witness:
  "in_parallel \<lparr>sr_Kind = ScopeKey, sr_ID = ''k1''\<rparr> (q_reservations demo_held) = 1 \<and>
   in_flight \<lparr>sr_Kind = ScopeKey, sr_ID = ''k1''\<rparr> (q_reservations demo_held) \<le> 2"
proof
  show "in_parallel \<lparr>sr_Kind = ScopeKey, sr_ID = ''k1''\<rparr> (q_reservations demo_held) = 1" by code_simp
  show "in_flight \<lparr>sr_Kind = ScopeKey, sr_ID = ''k1''\<rparr> (q_reservations demo_held) \<le> 2"
    using max_parallel_respected [OF demo_reach(1), of "\<lparr>sr_Kind = ScopeKey, sr_ID = ''k1''\<rparr>" 2]
    by (simp add: demo_config_def demo_limits_def)
qed

end
