(* ===== verification/Usage_Accounting.thy ===== *)
theory Usage_Accounting
  imports Gateway_Types
begin

text \<open>
  \<open>gateway/usage.go\<close>: what a provider attempt is charged. Reported usage is normalized and
  reconciled with the pre-call estimate, priced in micros with \<open>float64\<close> arithmetic and rounded up,
  and kept by an accumulator with one entry for every provider invocation of a request.
\<close>

section \<open>Normalization\<close>

definition normalizeUsageDetails :: "UsageDetails option \<Rightarrow> UsageDetails option" where
  "normalizeUsageDetails details =
     (case details of
        None \<Rightarrow> None
      | Some d \<Rightarrow>
          let n = \<lparr>ud_TextTokens = max (ud_TextTokens d) 0, ud_AudioTokens = max (ud_AudioTokens d) 0,
                   ud_ReasoningTokens = max (ud_ReasoningTokens d) 0, ud_ToolTokens = max (ud_ToolTokens d) 0,
                   ud_CachedTokens = max (ud_CachedTokens d) 0,
                   ud_ByModality = filter (\<lambda>e. snd e > 0) (ud_ByModality d)\<rparr>
          in if ud_TextTokens n = 0 \<and> ud_AudioTokens n = 0 \<and> ud_ReasoningTokens n = 0 \<and>
                ud_ToolTokens n = 0 \<and> ud_CachedTokens n = 0 \<and> ud_ByModality n = []
             then None else Some n)"

text \<open>The statements of \<open>normalizeAttemptUsage\<close> in two halves: the counters, then the token totals.\<close>

definition normalizeCounters :: "Usage \<Rightarrow> Usage" where
  "normalizeCounters usage =
     (let usage = (if u_InputTokens usage < 0 then usage\<lparr>u_InputTokens := 0\<rparr> else usage);
          usage = (if u_OutputTokens usage < 0 then usage\<lparr>u_OutputTokens := 0\<rparr> else usage);
          usage = (if u_TotalTokens usage < 0 then usage\<lparr>u_TotalTokens := 0\<rparr> else usage);
          usage = (if u_CacheReadTokens usage < 0 then usage\<lparr>u_CacheReadTokens := 0\<rparr> else usage);
          usage = (if u_CacheWriteTokens usage < 0 then usage\<lparr>u_CacheWriteTokens := 0\<rparr> else usage);
          usage = usage\<lparr>u_InputDetails := normalizeUsageDetails (u_InputDetails usage),
                        u_OutputDetails := normalizeUsageDetails (u_OutputDetails usage)\<rparr>;
          usage = (case u_InputDetails usage of
                     Some d \<Rightarrow> if u_CacheReadTokens usage = 0
                               then usage\<lparr>u_CacheReadTokens := ud_CachedTokens d\<rparr> else usage
                   | None \<Rightarrow> usage)
      in usage\<lparr>u_ProviderDetails := filter (\<lambda>e. snd e > 0) (u_ProviderDetails usage)\<rparr>)"

definition normalizeTotals :: "Usage \<Rightarrow> Usage" where
  "normalizeTotals usage =
     (let usage = (if u_InputTokens usage = 0 \<and> u_TotalTokens usage > u_OutputTokens usage
                   then usage\<lparr>u_InputTokens := i64 (u_TotalTokens usage - u_OutputTokens usage)\<rparr> else usage);
          usage = (if u_OutputTokens usage = 0 \<and> u_TotalTokens usage > u_InputTokens usage
                   then usage\<lparr>u_OutputTokens := i64 (u_TotalTokens usage - u_InputTokens usage)\<rparr> else usage);
          sum = saturatingUsageAdd (u_InputTokens usage) (u_OutputTokens usage);
          usage = (if u_TotalTokens usage > sum
                   then usage\<lparr>u_OutputTokens :=
                          saturatingUsageAdd (u_OutputTokens usage) (i64 (u_TotalTokens usage - sum))\<rparr>
                   else usage);
          sum = saturatingUsageAdd (u_InputTokens usage) (u_OutputTokens usage)
      in if u_TotalTokens usage < sum then usage\<lparr>u_TotalTokens := sum\<rparr> else usage)"

definition normalizeAttemptUsage :: "Usage \<Rightarrow> Usage" where
  "normalizeAttemptUsage usage = normalizeTotals (normalizeCounters usage)"

section \<open>Reconciliation with the estimate\<close>

definition ensureCurrent :: "UsageDetails option \<Rightarrow> UsageDetails" where
  "ensureCurrent current = (case current of None \<Rightarrow> zero_details | Some d \<Rightarrow> d)"

text \<open>One of the five repairs of a negative counter: \<open>get\<close> reads it, \<open>put\<close> writes it.\<close>

definition restoreField ::
  "(UsageDetails \<Rightarrow> int) \<Rightarrow> (int \<Rightarrow> UsageDetails \<Rightarrow> UsageDetails) \<Rightarrow> UsageDetails \<Rightarrow> UsageDetails option
     \<Rightarrow> UsageDetails option \<Rightarrow> UsageDetails option" where
  "restoreField get put reported fallback current =
     (if get reported < 0
      then let c = ensureCurrent current
           in Some (case fallback of Some f \<Rightarrow> put (get f) c | None \<Rightarrow> c)
      else current)"

definition restoreModality ::
  "UsageDetails option \<Rightarrow> string \<times> int \<Rightarrow> UsageDetails option \<Rightarrow> UsageDetails option" where
  "restoreModality fallback e current =
     (if snd e \<ge> 0 then current
      else
        let c = ensureCurrent current;
            reserved = (case fallback of Some f \<Rightarrow> mget (map_of (ud_ByModality f)) (fst e) | None \<Rightarrow> 0)
        in Some (c\<lparr>ud_ByModality :=
             (if reserved > 0 then AList.update (fst e) reserved (ud_ByModality c)
              else AList.delete (fst e) (ud_ByModality c))\<rparr>))"

definition restoreMalformedUsageDetails ::
  "UsageDetails option \<Rightarrow> UsageDetails option \<Rightarrow> UsageDetails option \<Rightarrow> UsageDetails option" where
  "restoreMalformedUsageDetails current reported fallback =
     (case reported of
        None \<Rightarrow> current
      | Some r \<Rightarrow>
          let current = normalizeUsageDetails current;
              fallback = normalizeUsageDetails fallback;
              current = restoreField ud_TextTokens (\<lambda>v d. d\<lparr>ud_TextTokens := v\<rparr>) r fallback current;
              current = restoreField ud_AudioTokens (\<lambda>v d. d\<lparr>ud_AudioTokens := v\<rparr>) r fallback current;
              current = restoreField ud_ReasoningTokens (\<lambda>v d. d\<lparr>ud_ReasoningTokens := v\<rparr>) r fallback current;
              current = restoreField ud_ToolTokens (\<lambda>v d. d\<lparr>ud_ToolTokens := v\<rparr>) r fallback current;
              current = restoreField ud_CachedTokens (\<lambda>v d. d\<lparr>ud_CachedTokens := v\<rparr>) r fallback current;
              current = fold (restoreModality fallback) (ud_ByModality r) current
          in normalizeUsageDetails current)"

definition restoreProviderUnit :: "Usage \<Rightarrow> string \<times> int \<Rightarrow> (string, int) gomap \<Rightarrow> (string, int) gomap" where
  "restoreProviderUnit fallback e units =
     (if snd e \<ge> 0 then units
      else
        let reserved = mget (map_of (u_ProviderDetails fallback)) (fst e)
        in if reserved \<le> 0 then AList.delete (fst e) units else AList.update (fst e) reserved units)"

definition restoreMalformedAuxiliaryUsage :: "Usage \<Rightarrow> Usage \<Rightarrow> Usage \<Rightarrow> Usage" where
  "restoreMalformedAuxiliaryUsage usage reported fallback =
     (let usage = (if u_CacheReadTokens reported < 0
                   then usage\<lparr>u_CacheReadTokens := u_CacheReadTokens fallback\<rparr> else usage);
          usage = (if u_CacheWriteTokens reported < 0
                   then usage\<lparr>u_CacheWriteTokens := u_CacheWriteTokens fallback\<rparr> else usage);
          usage = usage\<lparr>
            u_InputDetails := restoreMalformedUsageDetails (u_InputDetails usage) (u_InputDetails reported)
              (u_InputDetails fallback),
            u_OutputDetails := restoreMalformedUsageDetails (u_OutputDetails usage) (u_OutputDetails reported)
              (u_OutputDetails fallback),
            u_ProviderDetails := fold (restoreProviderUnit fallback) (u_ProviderDetails reported) (u_ProviderDetails usage)\<rparr>
      in normalizeAttemptUsage usage)"

definition overlayUsageDetails :: "UsageDetails option \<Rightarrow> UsageDetails option \<Rightarrow> UsageDetails option" where
  "overlayUsageDetails base reported =
     (case reported of
        None \<Rightarrow> base
      | Some r \<Rightarrow>
          let b = ensureCurrent base;
              b = (if ud_TextTokens r > 0 then b\<lparr>ud_TextTokens := ud_TextTokens r\<rparr> else b);
              b = (if ud_AudioTokens r > 0 then b\<lparr>ud_AudioTokens := ud_AudioTokens r\<rparr> else b);
              b = (if ud_ReasoningTokens r > 0 then b\<lparr>ud_ReasoningTokens := ud_ReasoningTokens r\<rparr> else b);
              b = (if ud_ToolTokens r > 0 then b\<lparr>ud_ToolTokens := ud_ToolTokens r\<rparr> else b);
              b = (if ud_CachedTokens r > 0 then b\<lparr>ud_CachedTokens := ud_CachedTokens r\<rparr> else b)
          in Some (b\<lparr>ud_ByModality := fold (\<lambda>e. AList.update (fst e) (snd e)) (ud_ByModality r) (ud_ByModality b)\<rparr>))"

definition overlayPositiveUsageDetails :: "Usage \<Rightarrow> Usage \<Rightarrow> Usage" where
  "overlayPositiveUsageDetails base reported =
     (let base = (if u_CacheReadTokens reported > 0
                  then base\<lparr>u_CacheReadTokens := u_CacheReadTokens reported\<rparr> else base);
          base = (if u_CacheWriteTokens reported > 0
                  then base\<lparr>u_CacheWriteTokens := u_CacheWriteTokens reported\<rparr> else base)
      in base\<lparr>
           u_InputDetails := overlayUsageDetails (u_InputDetails base) (u_InputDetails reported),
           u_OutputDetails := overlayUsageDetails (u_OutputDetails base) (u_OutputDetails reported),
           u_ProviderDetails :=
             fold (\<lambda>e. AList.update (fst e) (snd e)) (u_ProviderDetails reported) (u_ProviderDetails base)\<rparr>)"

definition ReconcileReportedUsage :: "Usage \<Rightarrow> Usage \<Rightarrow> Usage" where
  "ReconcileReportedUsage reported fallback =
     (let invalidInput = u_InputTokens reported < 0;
          invalidOutput = u_OutputTokens reported < 0;
          invalidTotal = u_TotalTokens reported < 0;
          hasPositiveTokens = u_InputTokens reported > 0 \<or> u_OutputTokens reported > 0 \<or> u_TotalTokens reported > 0;
          normalizedReported = normalizeAttemptUsage reported;
          normalizedFallback = normalizeAttemptUsage fallback
      in if hasPositiveTokens \<and> \<not> invalidInput \<and> \<not> invalidOutput \<and> \<not> invalidTotal
         then restoreMalformedAuxiliaryUsage normalizedReported reported normalizedFallback
         else
           let reconciled = normalizedFallback;
               reconciled =
                 (if hasPositiveTokens then
                    let r = reconciled;
                        r = (if \<not> invalidInput then r\<lparr>u_InputTokens := u_InputTokens normalizedReported\<rparr> else r);
                        r = (if \<not> invalidOutput then r\<lparr>u_OutputTokens := u_OutputTokens normalizedReported\<rparr> else r)
                    in (if \<not> invalidTotal then r\<lparr>u_TotalTokens := u_TotalTokens normalizedReported\<rparr> else r)
                  else reconciled)
           in normalizeAttemptUsage (overlayPositiveUsageDetails reconciled normalizedReported))"

definition maxUsageDetails :: "UsageDetails option \<Rightarrow> UsageDetails option \<Rightarrow> UsageDetails option" where
  "maxUsageDetails actual estimate =
     (case normalizeUsageDetails estimate of
        None \<Rightarrow> normalizeUsageDetails actual
      | Some e \<Rightarrow>
          (case normalizeUsageDetails actual of
             None \<Rightarrow> Some e
           | Some a \<Rightarrow>
               Some \<lparr>ud_TextTokens = max (ud_TextTokens a) (ud_TextTokens e),
                     ud_AudioTokens = max (ud_AudioTokens a) (ud_AudioTokens e),
                     ud_ReasoningTokens = max (ud_ReasoningTokens a) (ud_ReasoningTokens e),
                     ud_ToolTokens = max (ud_ToolTokens a) (ud_ToolTokens e),
                     ud_CachedTokens = max (ud_CachedTokens a) (ud_CachedTokens e),
                     ud_ByModality =
                       fold (\<lambda>e m. AList.update (fst e) (max (mget (map_of m) (fst e)) (snd e)) m)
                         (ud_ByModality e) (ud_ByModality a)\<rparr>))"

definition retainEstimatedAuxiliaryUsage :: "Usage \<Rightarrow> Usage \<Rightarrow> Usage" where
  "retainEstimatedAuxiliaryUsage usage estimate =
     normalizeAttemptUsage (usage\<lparr>
       u_CacheReadTokens := max (u_CacheReadTokens usage) (u_CacheReadTokens estimate),
       u_CacheWriteTokens := max (u_CacheWriteTokens usage) (u_CacheWriteTokens estimate),
       u_InputDetails := maxUsageDetails (u_InputDetails usage) (u_InputDetails estimate),
       u_OutputDetails := maxUsageDetails (u_OutputDetails usage) (u_OutputDetails estimate),
       u_ProviderDetails :=
         fold (\<lambda>e m. AList.update (fst e) (max (mget (map_of m) (fst e)) (snd e)) m)
           (u_ProviderDetails estimate) (u_ProviderDetails usage)\<rparr>)"

section \<open>Prices\<close>

text \<open>The spend of a priced value: \<open>0\<close> below zero, rounded up, capped at the largest \<open>int64\<close>.\<close>

definition micros :: "f64 \<Rightarrow> int" where
  "micros value =
     (if f64_le value (Fin 0) then 0
      else if f64_le (f64_of_int MaxInt64) value then MaxInt64
      else f64_to_int64 (math_Ceil value))"

definition unitCost :: "Pricing \<Rightarrow> string \<times> int \<Rightarrow> f64 \<Rightarrow> f64" where
  "unitCost p e value =
     (if snd e \<le> 0 then value
      else case map_of (p_ProviderUnits p) (fst e) of
        Some unitPrice \<Rightarrow> f64_add value (f64_mul (f64_of_int (snd e)) (pu_MicrosPerUnit unitPrice))
      | None \<Rightarrow> value)"

definition usageValue :: "Pricing \<Rightarrow> Usage \<Rightarrow> f64" where
  "usageValue p usage =
     (let cacheRead = min (max (u_CacheReadTokens usage) 0) (u_InputTokens usage);
          remaining = i64 (u_InputTokens usage - cacheRead);
          cacheWrite = min (max (u_CacheWriteTokens usage) 0) remaining;
          uncachedInput = i64 (remaining - cacheWrite);
          cacheReadRate = (if f64_eq (p_CacheReadPer1M p) (Fin 0) then p_InputPer1M p else p_CacheReadPer1M p);
          cacheWriteRate = (if f64_eq (p_CacheWritePer1M p) (Fin 0) then p_InputPer1M p else p_CacheWritePer1M p);
          value =
            f64_add (f64_add (f64_add
              (f64_mul (f64_of_int uncachedInput) (p_InputPer1M p))
              (f64_mul (f64_of_int cacheRead) cacheReadRate))
              (f64_mul (f64_of_int cacheWrite) cacheWriteRate))
              (f64_mul (f64_of_int (u_OutputTokens usage)) (p_OutputPer1M p))
      in fold (unitCost p) (u_ProviderDetails usage) value)"

definition SpendMicrosForUsage :: "Pricing \<Rightarrow> Usage \<Rightarrow> int" where
  "SpendMicrosForUsage p usage = micros (usageValue p (normalizeAttemptUsage usage))"

definition SpendMicros :: "Pricing \<Rightarrow> int \<Rightarrow> int \<Rightarrow> int" where
  "SpendMicros p inputTokens outputTokens =
     (let inputTokens = (if inputTokens < 0 then 0 else inputTokens);
          outputTokens = (if outputTokens < 0 then 0 else outputTokens)
      in micros (f64_add (f64_mul (f64_of_int inputTokens) (p_InputPer1M p))
                         (f64_mul (f64_of_int outputTokens) (p_OutputPer1M p))))"

definition chargeForUsage :: "Pricing \<Rightarrow> Usage \<Rightarrow> ActualUsage" where
  "chargeForUsage pricing usage =
     (let usage = normalizeAttemptUsage usage
      in \<lparr>au_InputTokens = u_InputTokens usage, au_OutputTokens = u_OutputTokens usage,
          au_SpendMicros = SpendMicrosForUsage pricing usage\<rparr>)"

section \<open>The accumulator\<close>

record attemptUsageEntry =
  ue_estimate :: Usage
  ue_pricing :: Pricing
  ue_charge :: ActualUsage
  ue_final :: bool

text \<open>The map of entries; a nil accumulator has no operation to model.\<close>

type_synonym AttemptUsageAccumulator = "(string, attemptUsageEntry) gomap"

definition acc_begin :: "string \<Rightarrow> ResolvedRoute \<Rightarrow> AttemptUsageAccumulator \<Rightarrow> AttemptUsageAccumulator" where
  "acc_begin i route entries =
     (if i = [] then entries
      else
        let estimate = normalizeAttemptUsage (rr_Estimate route);
            pricing = (case rr_Route route of Some r \<Rightarrow> r_Pricing r | None \<Rightarrow> zero_pricing)
        in case map_of entries i of
             Some _ \<Rightarrow> entries
           | None \<Rightarrow>
               AList.update i \<lparr>ue_estimate = estimate, ue_pricing = pricing,
                 ue_charge = chargeForUsage pricing estimate, ue_final = False\<rparr> entries)"

definition acc_cancel :: "string \<Rightarrow> AttemptUsageAccumulator \<Rightarrow> AttemptUsageAccumulator" where
  "acc_cancel i entries =
     (if i = [] then entries
      else case map_of entries i of
        Some entry \<Rightarrow> if \<not> ue_final entry then AList.delete i entries else entries
      | None \<Rightarrow> entries)"

text \<open>The conservative repair of an aborted stream's usage.\<close>

definition fillPartial :: "Usage \<Rightarrow> Usage \<Rightarrow> Usage" where
  "fillPartial estimate normalized =
     (let normalized = (if u_InputTokens normalized = 0
                        then normalized\<lparr>u_InputTokens := u_InputTokens estimate\<rparr> else normalized);
          normalized = (if u_OutputTokens normalized = 0
                        then normalized\<lparr>u_OutputTokens := u_OutputTokens estimate\<rparr> else normalized);
          normalized = normalized\<lparr>u_TotalTokens :=
            saturatingUsageAdd (u_InputTokens normalized) (u_OutputTokens normalized)\<rparr>
      in retainEstimatedAuxiliaryUsage normalized estimate)"

definition acc_complete ::
  "string \<Rightarrow> Usage \<Rightarrow> bool \<Rightarrow> AttemptUsageAccumulator \<Rightarrow> AttemptUsageAccumulator" where
  "acc_complete i usage partial entries =
     (if i = [] then entries
      else case map_of entries i of
        None \<Rightarrow> entries
      | Some entry \<Rightarrow>
          if ue_final entry then entries
          else
            let normalized = ReconcileReportedUsage usage (ue_estimate entry);
                normalized = (if partial then fillPartial (ue_estimate entry) normalized else normalized)
            in AList.update i (entry\<lparr>ue_charge := chargeForUsage (ue_pricing entry) normalized, ue_final := True\<rparr>) entries)"

definition addCharge :: "ActualUsage \<Rightarrow> ActualUsage \<Rightarrow> ActualUsage" where
  "addCharge t c =
     \<lparr>au_InputTokens = saturatingUsageAdd (au_InputTokens t) (au_InputTokens c),
      au_OutputTokens = saturatingUsageAdd (au_OutputTokens t) (au_OutputTokens c),
      au_SpendMicros = saturatingUsageAdd (au_SpendMicros t) (au_SpendMicros c)\<rparr>"

definition acc_total :: "AttemptUsageAccumulator \<Rightarrow> ActualUsage" where
  "acc_total entries = fold (\<lambda>e t. addCharge t (ue_charge (snd e))) entries zero_actual"

definition acc_charge :: "string \<Rightarrow> AttemptUsageAccumulator \<Rightarrow> ActualUsage option" where
  "acc_charge i entries =
     (if i = [] then None
      else case map_of entries i of
        Some entry \<Rightarrow> if ue_final entry then Some (ue_charge entry) else None
      | None \<Rightarrow> None)"

section \<open>What normalization guarantees\<close>

definition usage_in_range :: "Usage \<Rightarrow> bool" where
  "usage_in_range u \<longleftrightarrow>
     in_i64 (u_InputTokens u) \<and> in_i64 (u_OutputTokens u) \<and> in_i64 (u_TotalTokens u)"

definition details_ok :: "UsageDetails option \<Rightarrow> bool" where
  "details_ok d \<longleftrightarrow> normalizeUsageDetails d = d"

definition normalized :: "Usage \<Rightarrow> bool" where
  "normalized u \<longleftrightarrow>
     0 \<le> u_InputTokens u \<and> u_InputTokens u \<le> MaxInt64 \<and> 0 \<le> u_OutputTokens u \<and> u_OutputTokens u \<le> MaxInt64 \<and>
     u_TotalTokens u = sat_sum (u_InputTokens u) (u_OutputTokens u) \<and>
     0 \<le> u_CacheReadTokens u \<and> 0 \<le> u_CacheWriteTokens u \<and>
     (\<forall>d. u_InputDetails u = Some d \<longrightarrow> u_CacheReadTokens u = 0 \<longrightarrow> ud_CachedTokens d = 0) \<and>
     details_ok (u_InputDetails u) \<and> details_ok (u_OutputDetails u) \<and>
     (\<forall>e \<in> set (u_ProviderDetails u). 0 < snd e)"

lemma details_idem [simp]: "normalizeUsageDetails (normalizeUsageDetails d) = normalizeUsageDetails d"
  by (cases d) (auto simp: normalizeUsageDetails_def Let_def filter_empty_conv)

lemma details_ok_normalize [simp]: "details_ok (normalizeUsageDetails d)"
  by (simp add: details_ok_def)

lemma details_cached_nonneg: "details_ok (Some d) \<Longrightarrow> 0 \<le> ud_CachedTokens d"
  by (cases d) (auto simp: details_ok_def normalizeUsageDetails_def Let_def split: if_splits)

text \<open>The counters after the first half.\<close>

lemma clamp_counters:
  "(if u_InputTokens u < 0 then u\<lparr>u_InputTokens := 0\<rparr> else u) = u\<lparr>u_InputTokens := max 0 (u_InputTokens u)\<rparr>"
  "(if u_OutputTokens u < 0 then u\<lparr>u_OutputTokens := 0\<rparr> else u) = u\<lparr>u_OutputTokens := max 0 (u_OutputTokens u)\<rparr>"
  "(if u_TotalTokens u < 0 then u\<lparr>u_TotalTokens := 0\<rparr> else u) = u\<lparr>u_TotalTokens := max 0 (u_TotalTokens u)\<rparr>"
  "(if u_CacheReadTokens u < 0 then u\<lparr>u_CacheReadTokens := 0\<rparr> else u) = u\<lparr>u_CacheReadTokens := max 0 (u_CacheReadTokens u)\<rparr>"
  "(if u_CacheWriteTokens u < 0 then u\<lparr>u_CacheWriteTokens := 0\<rparr> else u) = u\<lparr>u_CacheWriteTokens := max 0 (u_CacheWriteTokens u)\<rparr>"
  by (simp_all add: max_def)

lemma normalizeCounters_sel:
  "u_InputTokens (normalizeCounters u) = max 0 (u_InputTokens u)"
  "u_OutputTokens (normalizeCounters u) = max 0 (u_OutputTokens u)"
  "u_TotalTokens (normalizeCounters u) = max 0 (u_TotalTokens u)"
  "u_CacheWriteTokens (normalizeCounters u) = max 0 (u_CacheWriteTokens u)"
  "u_CacheReadTokens (normalizeCounters u) =
     (case normalizeUsageDetails (u_InputDetails u) of
        Some d \<Rightarrow> if u_CacheReadTokens u \<le> 0 then ud_CachedTokens d else u_CacheReadTokens u
      | None \<Rightarrow> max 0 (u_CacheReadTokens u))"
  "u_InputDetails (normalizeCounters u) = normalizeUsageDetails (u_InputDetails u)"
  "u_OutputDetails (normalizeCounters u) = normalizeUsageDetails (u_OutputDetails u)"
  "u_ProviderDetails (normalizeCounters u) = filter (\<lambda>e. snd e > 0) (u_ProviderDetails u)"
  unfolding normalizeCounters_def clamp_counters Let_def by (simp_all split: option.split)

lemma normalizeTotals_sel [simp]:
  "u_CacheReadTokens (normalizeTotals u) = u_CacheReadTokens u"
  "u_CacheWriteTokens (normalizeTotals u) = u_CacheWriteTokens u"
  "u_InputDetails (normalizeTotals u) = u_InputDetails u"
  "u_OutputDetails (normalizeTotals u) = u_OutputDetails u"
  "u_ProviderDetails (normalizeTotals u) = u_ProviderDetails u"
  by (simp_all add: normalizeTotals_def Let_def)

text \<open>The token counts after the second half: the reported total is never lost.\<close>

lemma satAdd_tokens:
  "0 \<le> a \<Longrightarrow> a \<le> MaxInt64 \<Longrightarrow> 0 \<le> b \<Longrightarrow> b \<le> MaxInt64 \<Longrightarrow> saturatingUsageAdd a b = sat_sum a b"
  by (simp add: saturatingUsageAdd_spec in_i64_def)

lemma normalizeTotals_tokens:
  assumes "0 \<le> u_InputTokens u" "u_InputTokens u \<le> MaxInt64" "0 \<le> u_OutputTokens u" "u_OutputTokens u \<le> MaxInt64"
    "0 \<le> u_TotalTokens u" "u_TotalTokens u \<le> MaxInt64"
  defines "i \<equiv> if u_InputTokens u = 0 then max 0 (u_TotalTokens u - u_OutputTokens u) else u_InputTokens u"
    and "o' \<equiv> if u_InputTokens u = 0 then u_OutputTokens u else max (u_OutputTokens u) (u_TotalTokens u - u_InputTokens u)"
  shows "normalizeTotals u = u\<lparr>u_InputTokens := i, u_OutputTokens := o', u_TotalTokens := sat_sum i o'\<rparr>"
proof -
  obtain a b t cr cw x y z where u: "u = \<lparr>u_InputTokens = a, u_OutputTokens = b, u_TotalTokens = t,
      u_CacheReadTokens = cr, u_CacheWriteTokens = cw, u_InputDetails = x, u_OutputDetails = y, u_ProviderDetails = z\<rparr>"
    by (cases u) blast
  note r = assms(1-6) [unfolded u, simplified]
  note simps = u normalizeTotals_def Let_def satAdd_tokens i_def o'_def
  consider (in0) "a = 0" "t > b" | (in0') "a = 0" "\<not> t > b" | (out0) "a \<noteq> 0" "b = 0" "t > a"
    | (rest) "a \<noteq> 0" "\<not> (b = 0 \<and> t > a)" "t > sat_sum a b" | (none) "a \<noteq> 0" "\<not> (b = 0 \<and> t > a)" "\<not> t > sat_sum a b"
    by blast
  then show ?thesis
  proof cases
    case in0
    with r have "sat_sum (t - b) b = t" by (simp add: sat_sum_def)
    with in0 r show ?thesis
      by (simp add: simps)
  next
    case in0'
    with r have "sat_sum 0 b = b" by (simp add: sat_sum_def)
    with in0' r show ?thesis
      by (auto simp: simps)
  next
    case out0
    with r have "sat_sum a (t - a) = t" by (simp add: sat_sum_def)
    with out0 r show ?thesis
      by (simp add: simps)
  next
    case rest
    with r have s: "sat_sum a b = a + b" by (auto simp: sat_sum_def)
    with rest r have "sat_sum b (t - (a + b)) = t - a" "sat_sum a (t - a) = t" by (auto simp: sat_sum_def)
    with rest r s show ?thesis
      by (simp add: simps)
  next
    case none
    with r have "\<not> b < t - a" by (auto simp: sat_sum_def)
    with none r show ?thesis
      by (auto simp: simps)
  qed
qed

lemma normalize_counters_range:
  assumes "usage_in_range u"
  shows "0 \<le> u_InputTokens (normalizeCounters u)" "u_InputTokens (normalizeCounters u) \<le> MaxInt64"
    "0 \<le> u_OutputTokens (normalizeCounters u)" "u_OutputTokens (normalizeCounters u) \<le> MaxInt64"
    "0 \<le> u_TotalTokens (normalizeCounters u)" "u_TotalTokens (normalizeCounters u) \<le> MaxInt64"
  using assms by (auto simp: normalizeCounters_sel usage_in_range_def in_i64_def)

lemma normalize_tokens:
  assumes "usage_in_range u"
  defines "c \<equiv> normalizeCounters u"
  shows "u_InputTokens (normalizeAttemptUsage u) =
      (if u_InputTokens c = 0 then max 0 (u_TotalTokens c - u_OutputTokens c) else u_InputTokens c)"
    "u_OutputTokens (normalizeAttemptUsage u) =
      (if u_InputTokens c = 0 then u_OutputTokens c else max (u_OutputTokens c) (u_TotalTokens c - u_InputTokens c))"
    "u_TotalTokens (normalizeAttemptUsage u) =
      sat_sum (u_InputTokens (normalizeAttemptUsage u)) (u_OutputTokens (normalizeAttemptUsage u))"
  by (simp_all add: normalizeAttemptUsage_def c_def normalizeTotals_tokens [OF normalize_counters_range [OF assms(1)]])

lemma normalize_normalized:
  assumes "usage_in_range u"
  shows "normalized (normalizeAttemptUsage u)"
proof -
  let ?c = "normalizeCounters u"
  note t = normalize_tokens [OF assms] and r = normalize_counters_range [OF assms]
  have cached: "0 \<le> ud_CachedTokens d" if "normalizeUsageDetails (u_InputDetails u) = Some d" for d
    using details_cached_nonneg [of d] details_ok_normalize [of "u_InputDetails u"] that by simp
  have "0 \<le> u_CacheReadTokens ?c"
    "\<forall>d. u_InputDetails ?c = Some d \<longrightarrow> u_CacheReadTokens ?c = 0 \<longrightarrow> ud_CachedTokens d = 0"
    using cached by (auto simp: normalizeCounters_sel split: option.split)
  moreover have "0 \<le> u_CacheWriteTokens ?c" "details_ok (u_InputDetails ?c)" "details_ok (u_OutputDetails ?c)"
    "\<forall>e \<in> set (u_ProviderDetails ?c). 0 < snd e"
    by (simp_all add: normalizeCounters_sel)
  moreover have "u_CacheReadTokens (normalizeAttemptUsage u) = u_CacheReadTokens ?c"
    "u_CacheWriteTokens (normalizeAttemptUsage u) = u_CacheWriteTokens ?c"
    "u_InputDetails (normalizeAttemptUsage u) = u_InputDetails ?c"
    "u_OutputDetails (normalizeAttemptUsage u) = u_OutputDetails ?c"
    "u_ProviderDetails (normalizeAttemptUsage u) = u_ProviderDetails ?c"
    by (simp_all add: normalizeAttemptUsage_def)
  moreover have "0 \<le> u_InputTokens (normalizeAttemptUsage u)" "u_InputTokens (normalizeAttemptUsage u) \<le> MaxInt64"
    "0 \<le> u_OutputTokens (normalizeAttemptUsage u)" "u_OutputTokens (normalizeAttemptUsage u) \<le> MaxInt64"
    using r by (auto simp: t)
  ultimately show ?thesis
    using t(3) unfolding normalized_def by presburger
qed

lemma normalizeCounters_id:
  assumes "normalized u"
  shows "normalizeCounters u = u"
proof (rule Usage.equality)
  have "0 \<le> u_TotalTokens u" using assms by (simp add: normalized_def)
  then show "u_TotalTokens (normalizeCounters u) = u_TotalTokens u" by (simp add: normalizeCounters_sel)
  have d: "normalizeUsageDetails (u_InputDetails u) = u_InputDetails u"
    "normalizeUsageDetails (u_OutputDetails u) = u_OutputDetails u"
    using assms by (simp_all add: normalized_def details_ok_def)
  then show "u_InputDetails (normalizeCounters u) = u_InputDetails u"
    "u_OutputDetails (normalizeCounters u) = u_OutputDetails u" by (simp_all add: normalizeCounters_sel)
  show "u_CacheReadTokens (normalizeCounters u) = u_CacheReadTokens u"
    using assms by (auto simp: normalizeCounters_sel d normalized_def split: option.split)
  show "u_ProviderDetails (normalizeCounters u) = u_ProviderDetails u"
    using assms by (simp add: normalizeCounters_sel normalized_def filter_id_conv)
qed (use assms in \<open>simp_all add: normalizeCounters_sel normalized_def\<close>)

lemma normalized_range: "normalized u \<Longrightarrow> usage_in_range u"
  by (auto simp: normalized_def usage_in_range_def in_i64_def intro: order_trans [OF _ sat_sum_nonneg])

lemma normalize_id:
  assumes "normalized u"
  shows "normalizeAttemptUsage u = u"
proof -
  have t: "u_TotalTokens u = sat_sum (u_InputTokens u) (u_OutputTokens u)"
    "0 \<le> u_InputTokens u" "u_InputTokens u \<le> MaxInt64" "0 \<le> u_OutputTokens u" "u_OutputTokens u \<le> MaxInt64"
    using assms by (simp_all add: normalized_def)
  then have "u_InputTokens u = 0 \<Longrightarrow> u_TotalTokens u = u_OutputTokens u"
    "u_TotalTokens u - u_InputTokens u \<le> u_OutputTokens u"
    by (auto simp: sat_sum_def)
  then have "normalizeTotals u = u\<lparr>u_InputTokens := u_InputTokens u, u_OutputTokens := u_OutputTokens u,
      u_TotalTokens := u_TotalTokens u\<rparr>"
    using normalizeTotals_tokens [of u] t by (auto simp: max_def)
  then show ?thesis by (simp add: normalizeAttemptUsage_def normalizeCounters_id [OF assms])
qed

lemma normalize_keeps:
  assumes "usage_in_range u"
  shows "u_InputTokens u \<le> u_InputTokens (normalizeAttemptUsage u)"
    "u_OutputTokens u \<le> u_OutputTokens (normalizeAttemptUsage u)"
    "u_TotalTokens u \<le> u_TotalTokens (normalizeAttemptUsage u)"
proof -
  let ?n = "normalizeAttemptUsage u"
  note t = normalize_tokens [OF assms, unfolded normalizeCounters_sel]
  have "u_TotalTokens u \<le> MaxInt64" using assms by (simp add: usage_in_range_def in_i64_def)
  moreover have "0 \<le> u_InputTokens ?n" "0 \<le> u_OutputTokens ?n" unfolding t by auto
  moreover have "u_TotalTokens u \<le> u_InputTokens ?n + u_OutputTokens ?n"
    unfolding t(1,2) by (cases "u_InputTokens u \<le> 0") auto
  ultimately show "u_TotalTokens u \<le> u_TotalTokens ?n" unfolding t(3) sat_sum_def by simp
  show "u_InputTokens u \<le> u_InputTokens ?n" unfolding t(1) by (cases "u_InputTokens u \<le> 0") auto
  show "u_OutputTokens u \<le> u_OutputTokens ?n" unfolding t(2) by auto
qed

section \<open>Prices are rounded up and fit\<close>

definition valid_pricing :: "Pricing \<Rightarrow> bool" where
  "valid_pricing p \<longleftrightarrow>
     f64_finite_nonneg (p_InputPer1M p) \<and> f64_finite_nonneg (p_OutputPer1M p) \<and>
     f64_finite_nonneg (p_CacheReadPer1M p) \<and> f64_finite_nonneg (p_CacheWritePer1M p) \<and>
     (\<forall>e \<in> set (p_ProviderUnits p). f64_finite_nonneg (pu_MicrosPerUnit (snd e)))"

definition ceil_micros :: "f64 \<Rightarrow> int" where
  "ceil_micros v = (case v of Fin x \<Rightarrow> min MaxInt64 \<lceil>x\<rceil> | _ \<Rightarrow> MaxInt64)"

lemma f64_of_int_MaxInt64: "f64_of_int MaxInt64 = Fin 9223372036854775808"
  by code_simp

lemma micros_ceil:
  assumes "f64_nonneg v" "f64_wf v"
  shows "micros v = ceil_micros v"
proof (cases v)
  case (Fin x)
  with assms(1) have x: "0 \<le> x" by simp
  consider "x = 0" | "0 < x" "9223372036854775808 \<le> x" | "0 < x" "x < 9223372036854775808" using x by linarith
  then show ?thesis
  proof cases
    case 1
    then show ?thesis using Fin by (simp add: micros_def ceil_micros_def)
  next
    case 2
    then have "(9223372036854775808::int) \<le> \<lceil>x\<rceil>" by (simp add: le_ceiling_iff)
    with 2 show ?thesis using Fin by (simp add: micros_def ceil_micros_def f64_of_int_MaxInt64)
  next
    case 3
    have "\<lceil>x\<rceil> \<le> MaxInt64" using assms(2) Fin 3(2) by (intro representable_ceiling_fits) auto
    with 3 x show ?thesis
      using Fin by (simp add: micros_def ceil_micros_def f64_of_int_MaxInt64 not_le)
  qed
qed (use assms in \<open>simp_all add: micros_def ceil_micros_def f64_of_int_MaxInt64\<close>)

lemma ceil_micros_range: "f64_nonneg v \<Longrightarrow> 0 \<le> ceil_micros v \<and> ceil_micros v \<le> MaxInt64"
  by (cases v) (simp_all add: ceil_micros_def)

lemma finite_nonneg_nonneg: "f64_finite_nonneg x \<Longrightarrow> f64_nonneg x"
  by (cases x) simp_all

lemma price_nonneg:
  assumes "0 \<le> n" "n \<le> MaxInt64" "f64_finite_nonneg rate"
  shows "f64_nonneg (f64_mul (f64_of_int n) rate)"
  using f64_of_int_finite [OF assms(1,2)] assms(3) by (auto intro!: f64_mul_nonneg)

definition units_in_range :: "Usage \<Rightarrow> bool" where
  "units_in_range u \<longleftrightarrow> (\<forall>e \<in> set (u_ProviderDetails u). snd e \<le> MaxInt64)"

lemma unitCosts_ok:
  assumes "valid_pricing p"
  shows "f64_nonneg v \<Longrightarrow> f64_wf v \<Longrightarrow> \<forall>e \<in> set es. snd e \<le> MaxInt64 \<Longrightarrow>
    f64_nonneg (fold (unitCost p) es v) \<and> f64_wf (fold (unitCost p) es v)"
proof (induction es arbitrary: v)
  case (Cons e es)
  have "f64_nonneg (unitCost p e v) \<and> f64_wf (unitCost p e v)"
  proof (cases "snd e \<le> 0 \<or> map_of (p_ProviderUnits p) (fst e) = None")
    case True
    with Cons.prems show ?thesis by (auto simp: unitCost_def)
  next
    case False
    then obtain pr where pr: "map_of (p_ProviderUnits p) (fst e) = Some pr" "0 < snd e" by auto
    have "(fst e, pr) \<in> set (p_ProviderUnits p)" using pr(1) by (rule map_of_SomeD)
    with assms have "f64_finite_nonneg (pu_MicrosPerUnit pr)" by (force simp: valid_pricing_def)
    with pr Cons.prems have "f64_nonneg (f64_mul (f64_of_int (snd e)) (pu_MicrosPerUnit pr))"
      by (intro price_nonneg) auto
    with pr Cons.prems show ?thesis by (simp add: unitCost_def f64_add_nonneg f64_add_wf)
  qed
  with Cons show ?case by simp
qed simp

lemma usageValue_ok:
  assumes "valid_pricing p" "normalized u" "units_in_range u"
  shows "f64_nonneg (usageValue p u)" "f64_wf (usageValue p u)"
proof -
  let ?cr = "min (max (u_CacheReadTokens u) 0) (u_InputTokens u)"
  let ?rem = "i64 (u_InputTokens u - ?cr)"
  let ?cw = "min (max (u_CacheWriteTokens u) 0) ?rem"
  let ?un = "i64 (?rem - ?cw)"
  let ?rr = "if f64_eq (p_CacheReadPer1M p) (Fin 0) then p_InputPer1M p else p_CacheReadPer1M p"
  let ?rw = "if f64_eq (p_CacheWritePer1M p) (Fin 0) then p_InputPer1M p else p_CacheWritePer1M p"
  have i: "0 \<le> u_InputTokens u" "u_InputTokens u \<le> MaxInt64" "0 \<le> u_OutputTokens u" "u_OutputTokens u \<le> MaxInt64"
    using assms(2) by (simp_all add: normalized_def)
  then have cr: "0 \<le> ?cr" "?cr \<le> MaxInt64" and rem: "?rem = u_InputTokens u - ?cr" by auto
  then have cw: "0 \<le> ?cw" "?cw \<le> MaxInt64" using i by auto
  have "?cw \<le> ?rem" by simp
  with i cr cw rem have "0 \<le> ?rem - ?cw" "?rem - ?cw \<le> MaxInt64" by linarith+
  then have "?un = ?rem - ?cw" by (intro i64_id) linarith+
  with \<open>0 \<le> ?rem - ?cw\<close> \<open>?rem - ?cw \<le> MaxInt64\<close> have un: "0 \<le> ?un" "?un \<le> MaxInt64" by linarith+
  let ?v = "f64_add (f64_add (f64_add (f64_mul (f64_of_int ?un) (p_InputPer1M p)) (f64_mul (f64_of_int ?cr) ?rr))
      (f64_mul (f64_of_int ?cw) ?rw)) (f64_mul (f64_of_int (u_OutputTokens u)) (p_OutputPer1M p))"
  have rates: "f64_finite_nonneg (p_InputPer1M p)" "f64_finite_nonneg ?rr" "f64_finite_nonneg ?rw"
    "f64_finite_nonneg (p_OutputPer1M p)" using assms(1) unfolding valid_pricing_def by presburger+
  note parts = price_nonneg [OF un rates(1)] price_nonneg [OF cr rates(2)] price_nonneg [OF cw rates(3)]
    price_nonneg [OF i(3,4) rates(4)]
  have "f64_nonneg ?v" by (intro f64_add_nonneg parts)
  moreover have "f64_wf ?v" by (intro f64_add_wf f64_mul_wf)
  ultimately show "f64_nonneg (usageValue p u)" "f64_wf (usageValue p u)"
    using unitCosts_ok [OF assms(1), of ?v "u_ProviderDetails u"] assms(3)
    unfolding usageValue_def Let_def units_in_range_def by blast+
qed

lemma spend_exact:
  assumes "valid_pricing p" "usage_in_range u" "units_in_range u"
  shows "SpendMicrosForUsage p u = ceil_micros (usageValue p (normalizeAttemptUsage u))"
    "0 \<le> SpendMicrosForUsage p u" "SpendMicrosForUsage p u \<le> MaxInt64"
proof -
  let ?u = "normalizeAttemptUsage u"
  have "units_in_range ?u" using assms(3)
    by (auto simp: units_in_range_def normalizeAttemptUsage_def normalizeCounters_sel)
  note v = usageValue_ok [OF assms(1) normalize_normalized [OF assms(2)] this]
  show eq: "SpendMicrosForUsage p u = ceil_micros (usageValue p ?u)"
    unfolding SpendMicrosForUsage_def using v by (rule micros_ceil)
  show "0 \<le> SpendMicrosForUsage p u" "SpendMicrosForUsage p u \<le> MaxInt64"
    unfolding eq using ceil_micros_range [OF v(1)] by auto
qed

section \<open>Reconciliation\<close>

lemma restore_normalized:
  "normalized u \<Longrightarrow> normalized (restoreMalformedAuxiliaryUsage u reported fallback)"
  unfolding restoreMalformedAuxiliaryUsage_def Let_def
  by (rule normalize_normalized) (auto simp: usage_in_range_def dest: normalized_range)

lemma overlay_tokens [simp]:
  "u_InputTokens (overlayPositiveUsageDetails b r) = u_InputTokens b"
  "u_OutputTokens (overlayPositiveUsageDetails b r) = u_OutputTokens b"
  "u_TotalTokens (overlayPositiveUsageDetails b r) = u_TotalTokens b"
  by (simp_all add: overlayPositiveUsageDetails_def Let_def)

lemma reconcile_normalized:
  assumes "usage_in_range r" "usage_in_range f"
  shows "normalized (ReconcileReportedUsage r f)"
proof -
  have n: "normalized (normalizeAttemptUsage r)" "normalized (normalizeAttemptUsage f)"
    using assms by (simp_all add: normalize_normalized)
  then have "usage_in_range (normalizeAttemptUsage r)" "usage_in_range (normalizeAttemptUsage f)"
    by (simp_all add: normalized_range)
  with n show ?thesis
    unfolding ReconcileReportedUsage_def Let_def
    by (auto intro!: restore_normalized normalize_normalized simp: usage_in_range_def)
qed

text \<open>Nothing reported: the estimate stands.\<close>

lemma overlay_zero: "overlayPositiveUsageDetails b zero_usage = b"
  by (simp add: overlayPositiveUsageDetails_def overlayUsageDetails_def)

lemma normalize_zero: "normalizeAttemptUsage zero_usage = zero_usage"
  by (rule normalize_id) (simp add: normalized_def details_ok_def normalizeUsageDetails_def sat_sum_def)

lemma reconcile_zero: "normalized e \<Longrightarrow> ReconcileReportedUsage zero_usage e = e"
  by (simp add: ReconcileReportedUsage_def normalize_zero overlay_zero normalize_id)

definition wf_usage :: "Usage \<Rightarrow> bool" where
  "wf_usage u \<longleftrightarrow> wf_gomap (u_ProviderDetails u) \<and>
     (\<forall>d. u_InputDetails u = Some d \<longrightarrow> wf_gomap (ud_ByModality d)) \<and>
     (\<forall>d. u_OutputDetails u = Some d \<longrightarrow> wf_gomap (ud_ByModality d))"

lemma fold_max_self:
  assumes "wf_gomap m"
  shows "set es \<subseteq> set m \<Longrightarrow> fold (\<lambda>e m. AList.update (fst e) (max (mget (map_of m) (fst e)) (snd e)) m) es m = m"
proof (induction es)
  case (Cons e es)
  then have "map_of m (fst e) = Some (snd e)"
    using set_gomap_map_of [OF assms, of "fst e" "snd e"] by simp
  then have "AList.update (fst e) (max (mget (map_of m) (fst e)) (snd e)) m = m" by (simp add: update_triv)
  with Cons show ?case by simp
qed simp

lemma maxUsageDetails_self:
  assumes "details_ok d" "\<And>x. d = Some x \<Longrightarrow> wf_gomap (ud_ByModality x)"
  shows "maxUsageDetails d d = d"
proof (cases d)
  case None
  then show ?thesis by (simp add: maxUsageDetails_def normalizeUsageDetails_def)
next
  case (Some x)
  with assms have "normalizeUsageDetails (Some x) = Some x" "wf_gomap (ud_ByModality x)" by (auto simp: details_ok_def)
  with Some show ?thesis by (simp add: maxUsageDetails_def fold_max_self)
qed

lemma retain_self: "normalized e \<Longrightarrow> wf_usage e \<Longrightarrow> retainEstimatedAuxiliaryUsage e e = e"
  unfolding retainEstimatedAuxiliaryUsage_def
  by (simp add: wf_usage_def maxUsageDetails_self fold_max_self normalized_def normalize_id)

lemma fillPartial_self:
  assumes "normalized e" "wf_usage e"
  shows "fillPartial e e = e"
proof -
  have "saturatingUsageAdd (u_InputTokens e) (u_OutputTokens e) = u_TotalTokens e"
    using assms(1) by (simp add: normalized_def satAdd_tokens)
  moreover have "e\<lparr>u_InputTokens := u_InputTokens e\<rparr> = e" "e\<lparr>u_OutputTokens := u_OutputTokens e\<rparr> = e"
    "e\<lparr>u_TotalTokens := u_TotalTokens e\<rparr> = e" by simp_all
  ultimately show ?thesis unfolding fillPartial_def Let_def
    by (simp only: if_cancel retain_self [OF assms])
qed

section \<open>One charge for each invocation\<close>

text \<open>The calls a request makes on its accumulator.\<close>

datatype accOp = Begin string ResolvedRoute | Cancel string | Complete string Usage bool

fun acc_step :: "accOp \<Rightarrow> AttemptUsageAccumulator \<Rightarrow> AttemptUsageAccumulator" where
  "acc_step (Begin i route) m = acc_begin i route m"
| "acc_step (Cancel i) m = acc_cancel i m"
| "acc_step (Complete i usage partial) m = acc_complete i usage partial m"

definition acc_run :: "accOp list \<Rightarrow> AttemptUsageAccumulator \<Rightarrow> AttemptUsageAccumulator" where
  "acc_run ops m = fold acc_step ops m"

fun op_ok :: "accOp \<Rightarrow> bool" where
  "op_ok (Begin i route) = (usage_in_range (rr_Estimate route) \<and> units_in_range (rr_Estimate route) \<and>
     (\<forall>r. rr_Route route = Some r \<longrightarrow> valid_pricing (r_Pricing r)))"
| "op_ok (Cancel i) = True"
| "op_ok (Complete i usage partial) = (usage_in_range usage \<and> units_in_range usage)"

lemma final_kept:
  "map_of m i = Some e \<Longrightarrow> ue_final e \<Longrightarrow> map_of (acc_step op m) i = Some e"
  by (cases op) (auto simp: acc_begin_def acc_cancel_def acc_complete_def Let_def split: option.split)

lemma final_kept_run: "map_of m i = Some e \<Longrightarrow> ue_final e \<Longrightarrow> map_of (acc_run ops m) i = Some e"
  unfolding acc_run_def by (induction ops arbitrary: m) (simp_all add: final_kept)

lemma acc_step_wf: "wf_gomap m \<Longrightarrow> wf_gomap (acc_step op m)"
  by (cases op) (auto simp: acc_begin_def acc_cancel_def acc_complete_def Let_def split: option.split)

lemma acc_run_wf: "wf_gomap m \<Longrightarrow> wf_gomap (acc_run ops m)"
  unfolding acc_run_def by (induction ops arbitrary: m) (simp_all add: acc_step_wf)

text \<open>Totals are saturated sums, whatever the order of the entries.\<close>

definition charge_in_range :: "ActualUsage \<Rightarrow> bool" where
  "charge_in_range c \<longleftrightarrow>
     0 \<le> au_InputTokens c \<and> au_InputTokens c \<le> MaxInt64 \<and> 0 \<le> au_OutputTokens c \<and> au_OutputTokens c \<le> MaxInt64 \<and>
     0 \<le> au_SpendMicros c \<and> au_SpendMicros c \<le> MaxInt64"

definition sat_total :: "(ActualUsage \<Rightarrow> int) \<Rightarrow> AttemptUsageAccumulator \<Rightarrow> int" where
  "sat_total f m = min MaxInt64 (sum_list (map (\<lambda>e. f (ue_charge (snd e))) m))"

lemma fold_sat:
  assumes "\<forall>x \<in> set xs. 0 \<le> x \<and> x \<le> MaxInt64"
  shows "0 \<le> a \<Longrightarrow> a \<le> MaxInt64 \<Longrightarrow>
    fold (\<lambda>x t. saturatingUsageAdd t x) xs a = min MaxInt64 (a + sum_list xs)"
  using assms
proof (induction xs arbitrary: a)
  case (Cons x xs)
  have nn: "0 \<le> sum_list xs" by (rule sum_list_nonneg) (use Cons.prems in auto)
  have "fold (\<lambda>x t. saturatingUsageAdd t x) xs (sat_sum a x) = min MaxInt64 (sat_sum a x + sum_list xs)"
    by (rule Cons.IH) (use Cons.prems in auto)
  moreover have "min MaxInt64 (sat_sum a x + sum_list xs) = min MaxInt64 (a + (x + sum_list xs))"
    using nn Cons.prems by (auto simp: sat_sum_def)
  ultimately show ?case using Cons.prems by (simp add: satAdd_tokens)
qed simp

lemma fold_addCharge:
  "au_InputTokens (fold (\<lambda>e t. addCharge t (ue_charge (snd e))) m t) =
     fold (\<lambda>x t. saturatingUsageAdd t x) (map (\<lambda>e. au_InputTokens (ue_charge (snd e))) m) (au_InputTokens t)"
  "au_OutputTokens (fold (\<lambda>e t. addCharge t (ue_charge (snd e))) m t) =
     fold (\<lambda>x t. saturatingUsageAdd t x) (map (\<lambda>e. au_OutputTokens (ue_charge (snd e))) m) (au_OutputTokens t)"
  "au_SpendMicros (fold (\<lambda>e t. addCharge t (ue_charge (snd e))) m t) =
     fold (\<lambda>x t. saturatingUsageAdd t x) (map (\<lambda>e. au_SpendMicros (ue_charge (snd e))) m) (au_SpendMicros t)"
  by (induction m arbitrary: t) (simp_all add: addCharge_def)

lemma acc_total_sum:
  assumes "\<forall>e \<in> set m. charge_in_range (ue_charge (snd e))"
  shows "acc_total m = \<lparr>au_InputTokens = sat_total au_InputTokens m, au_OutputTokens = sat_total au_OutputTokens m,
    au_SpendMicros = sat_total au_SpendMicros m\<rparr>"
  using assms
  by (intro ActualUsage.equality)
    (auto simp: acc_total_def fold_addCharge sat_total_def charge_in_range_def intro!: fold_sat [THEN trans])

text \<open>Provider unit counts stay 64-bit integers through reconciliation.\<close>

definition small :: "(string, int) gomap \<Rightarrow> bool" where
  "small m \<longleftrightarrow> (\<forall>e \<in> set m. snd e \<le> MaxInt64)"

lemma small_simps [simp]: "small []" "small (e # es) \<longleftrightarrow> snd e \<le> MaxInt64 \<and> small es"
  by (simp_all add: small_def)

lemma units_small: "units_in_range u = small (u_ProviderDetails u)"
  by (simp add: units_in_range_def small_def)

lemma small_update: "small m \<Longrightarrow> v \<le> MaxInt64 \<Longrightarrow> small (AList.update k v m)"
  unfolding small_def using set_gomap_update [of _ k v m] by fastforce

lemma small_delete: "small m \<Longrightarrow> small (AList.delete k m)"
  by (simp add: small_def set_gomap_delete)

lemma small_mget: "small m \<Longrightarrow> mget (map_of m) k \<le> MaxInt64"
  by (cases "map_of m k") (auto simp: small_def dest!: map_of_SomeD)

lemma small_overlay: "small es \<Longrightarrow> small m \<Longrightarrow> small (fold (\<lambda>e. AList.update (fst e) (snd e)) es m)"
  by (induction es arbitrary: m) (simp_all add: small_update)

lemma small_max:
  "small es \<Longrightarrow> small m \<Longrightarrow>
     small (fold (\<lambda>e m. AList.update (fst e) (max (mget (map_of m) (fst e)) (snd e)) m) es m)"
proof (induction es arbitrary: m)
  case (Cons e es)
  have "small (AList.update (fst e) (max (mget (map_of m) (fst e)) (snd e)) m)"
    using Cons.prems by (intro small_update) (auto simp: small_mget)
  with Cons show ?case by simp
qed simp

lemma small_restore:
  "units_in_range f \<Longrightarrow> small m \<Longrightarrow> small (fold (restoreProviderUnit f) es m)"
proof (induction es arbitrary: m)
  case (Cons e es)
  have "mget (map_of (u_ProviderDetails f)) (fst e) \<le> MaxInt64"
    using Cons.prems(1) by (simp add: units_small small_mget)
  then have "small (restoreProviderUnit f e m)"
    using Cons.prems(2) by (simp add: restoreProviderUnit_def Let_def small_delete small_update)
  with Cons show ?case by simp
qed simp

lemma units_normalize: "units_in_range u \<Longrightarrow> units_in_range (normalizeAttemptUsage u)"
  by (auto simp: units_in_range_def normalizeAttemptUsage_def normalizeCounters_sel)

lemma units_reconcile:
  assumes "units_in_range r" "units_in_range f"
  shows "units_in_range (ReconcileReportedUsage r f)"
proof -
  have n: "units_in_range (normalizeAttemptUsage r)" "units_in_range (normalizeAttemptUsage f)"
    using assms by (simp_all add: units_normalize)
  have "units_in_range (restoreMalformedAuxiliaryUsage (normalizeAttemptUsage r) r (normalizeAttemptUsage f))"
    unfolding restoreMalformedAuxiliaryUsage_def Let_def
    by (rule units_normalize)
      (use small_restore [OF n(2), of "u_ProviderDetails (normalizeAttemptUsage r)"] n(1) in \<open>simp add: units_small\<close>)
  moreover have "units_in_range (overlayPositiveUsageDetails b (normalizeAttemptUsage r))" if "units_in_range b" for b
    using that n(1) by (simp add: units_small overlayPositiveUsageDetails_def Let_def small_overlay)
  moreover have "units_in_range (b\<lparr>u_InputTokens := x\<rparr>) = units_in_range b"
    "units_in_range (b\<lparr>u_OutputTokens := x\<rparr>) = units_in_range b"
    "units_in_range (b\<lparr>u_TotalTokens := x\<rparr>) = units_in_range b" for b x
    by (simp_all add: units_in_range_def)
  ultimately show ?thesis
    using n unfolding ReconcileReportedUsage_def Let_def by (auto intro!: units_normalize)
qed

lemma fillPartial_ok:
  assumes "normalized e" "normalized u" "units_in_range e" "units_in_range u"
  shows "normalized (fillPartial e u)" "units_in_range (fillPartial e u)"
proof -
  have r: "in_i64 (u_InputTokens e)" "in_i64 (u_OutputTokens e)" "in_i64 (u_InputTokens u)" "in_i64 (u_OutputTokens u)"
    using assms(1,2) by (auto simp: normalized_def in_i64_def)
  then have "in_i64 (saturatingUsageAdd a b)" if "in_i64 a" "in_i64 b" for a b
    using that by (simp add: saturatingUsageAdd_spec)
  with r show "normalized (fillPartial e u)"
    unfolding fillPartial_def Let_def retainEstimatedAuxiliaryUsage_def
    by (intro normalize_normalized) (auto simp: usage_in_range_def)
  have "small (fold (\<lambda>e m. AList.update (fst e) (max (mget (map_of m) (fst e)) (snd e)) m) (u_ProviderDetails e) (u_ProviderDetails u))"
    using assms(3,4) by (intro small_max) (simp_all add: units_small)
  then show "units_in_range (fillPartial e u)"
    unfolding fillPartial_def Let_def retainEstimatedAuxiliaryUsage_def
    by (intro units_normalize) (simp add: units_small)
qed

lemma charge_ok:
  assumes "valid_pricing p" "usage_in_range u" "units_in_range u"
  shows "charge_in_range (chargeForUsage p u)"
proof -
  note n = normalize_normalized [OF assms(2)]
  from spend_exact(2,3) [OF assms(1) normalized_range [OF n] units_normalize [OF assms(3)]] n
  show ?thesis by (simp add: charge_in_range_def chargeForUsage_def Let_def normalized_def)
qed

definition entry_ok :: "attemptUsageEntry \<Rightarrow> bool" where
  "entry_ok e \<longleftrightarrow> normalized (ue_estimate e) \<and> units_in_range (ue_estimate e) \<and> valid_pricing (ue_pricing e) \<and>
     charge_in_range (ue_charge e)"

lemma valid_zero_pricing: "valid_pricing zero_pricing"
  by (simp add: valid_pricing_def)

lemma acc_step_ok:
  assumes "\<forall>e \<in> set m. entry_ok (snd e)" "op_ok op"
  shows "\<forall>e \<in> set (acc_step op m). entry_ok (snd e)"
proof (cases op)
  case (Begin i route)
  let ?p = "case rr_Route route of Some r \<Rightarrow> r_Pricing r | None \<Rightarrow> zero_pricing"
  let ?e = "normalizeAttemptUsage (rr_Estimate route)"
  have p: "valid_pricing ?p" using assms(2) Begin valid_zero_pricing by (auto split: option.split)
  have e: "normalized ?e" "units_in_range ?e" using assms(2) Begin by (simp_all add: normalize_normalized units_normalize)
  then have "charge_in_range (chargeForUsage ?p ?e)" using p by (intro charge_ok) (simp_all add: normalized_range)
  with assms p e Begin show ?thesis
    by (auto simp: acc_begin_def Let_def entry_ok_def split: option.split dest!: set_gomap_update)
next
  case (Cancel i)
  with assms show ?thesis by (auto simp: acc_cancel_def set_gomap_delete split: option.split)
next
  case (Complete i usage partial)
  show ?thesis
  proof (cases "map_of m i")
    case None
    with Complete assms(1) show ?thesis by (simp add: acc_complete_def)
  next
    case (Some e)
    then have e: "entry_ok e" using assms(1) map_of_SomeD by fastforce
    let ?r = "ReconcileReportedUsage usage (ue_estimate e)"
    let ?u = "if partial then fillPartial (ue_estimate e) ?r else ?r"
    have "normalized ?r" "units_in_range ?r"
      using e assms(2) Complete by (simp_all add: reconcile_normalized units_reconcile entry_ok_def normalized_range)
    then have "normalized ?u" "units_in_range ?u" using e by (simp_all add: fillPartial_ok entry_ok_def)
    then have "charge_in_range (chargeForUsage (ue_pricing e) ?u)"
      using e by (intro charge_ok) (simp_all add: normalized_range entry_ok_def)
    with Some Complete assms(1) e show ?thesis
      by (auto simp: acc_complete_def Let_def entry_ok_def dest!: set_gomap_update)
  qed
qed

lemma acc_run_ok:
  "\<forall>op \<in> set ops. op_ok op \<Longrightarrow> \<forall>e \<in> set m. entry_ok (snd e) \<Longrightarrow> \<forall>e \<in> set (acc_run ops m). entry_ok (snd e)"
  unfolding acc_run_def
proof (induction ops arbitrary: m)
  case (Cons op ops)
  then show ?case using acc_step_ok [of m op] by simp
qed simp

section \<open>Properties\<close>

text \<open>
  Normalization. Normalized usage has no negative count, its total is the saturated sum of input
  and output, no reported count is lowered (billed tokens that only the total shows are kept), and
  normalizing again changes nothing.
\<close>

theorem usage_normalization:
  assumes "usage_in_range u"
  shows "let n = normalizeAttemptUsage u in
    0 \<le> u_InputTokens n \<and> 0 \<le> u_OutputTokens n \<and> 0 \<le> u_CacheReadTokens n \<and> 0 \<le> u_CacheWriteTokens n \<and>
    u_TotalTokens n = sat_sum (u_InputTokens n) (u_OutputTokens n) \<and>
    u_InputTokens u \<le> u_InputTokens n \<and> u_OutputTokens u \<le> u_OutputTokens n \<and> u_TotalTokens u \<le> u_TotalTokens n \<and>
    normalizeAttemptUsage n = n"
  using normalize_normalized [OF assms] normalize_keeps [OF assms] normalize_id [OF normalize_normalized [OF assms]]
  by (simp add: normalized_def Let_def)

text \<open>
  C7. Prices. With finite nonnegative rates, the spend of an attempt is the exact \<open>float64\<close> price
  rounded up to a whole micro and capped at the largest 64-bit integer; the conversion back to an
  integer never overflows.
\<close>

theorem spend_rounds_up:
  assumes "valid_pricing p" "usage_in_range u" "units_in_range u"
  shows "SpendMicrosForUsage p u =
      (case usageValue p (normalizeAttemptUsage u) of Fin v \<Rightarrow> min MaxInt64 \<lceil>v\<rceil> | _ \<Rightarrow> MaxInt64) \<and>
    0 \<le> SpendMicrosForUsage p u \<and> SpendMicrosForUsage p u \<le> MaxInt64"
  using spend_exact [OF assms] by (simp add: ceil_micros_def)

text \<open>
  C8. One charge for each invocation. Once an attempt is completed, its charge is fixed: no later
  begin, cancel or completion of any attempt, the same one included, changes it.
\<close>

theorem attempt_charged_once:
  assumes "i \<noteq> []" "map_of m i = Some e" "\<not> ue_final e"
  shows "acc_charge i (acc_run ops (acc_complete i usage partial m)) =
    Some (chargeForUsage (ue_pricing e)
      (if partial then fillPartial (ue_estimate e) (ReconcileReportedUsage usage (ue_estimate e))
       else ReconcileReportedUsage usage (ue_estimate e)))"
proof -
  let ?u = "if partial then fillPartial (ue_estimate e) (ReconcileReportedUsage usage (ue_estimate e))
    else ReconcileReportedUsage usage (ue_estimate e)"
  let ?e = "e\<lparr>ue_charge := chargeForUsage (ue_pricing e) ?u, ue_final := True\<rparr>"
  have "map_of (acc_complete i usage partial m) i = Some ?e"
    using assms by (simp add: acc_complete_def Let_def)
  then have "map_of (acc_run ops (acc_complete i usage partial m)) i = Some ?e" by (rule final_kept_run) simp
  with assms(1) show ?thesis by (simp add: acc_charge_def)
qed

text \<open>
  An attempt whose provider reports nothing is charged its estimate, whether it ended normally or
  was cut off.
\<close>

theorem unreported_usage_charged_as_estimated:
  assumes "i \<noteq> []" "map_of m i = None" "usage_in_range (rr_Estimate route)" "wf_usage (normalizeAttemptUsage (rr_Estimate route))"
    "rr_Route route = Some r"
  shows "acc_charge i (acc_complete i zero_usage partial (acc_begin i route m)) =
    Some (chargeForUsage (r_Pricing r) (rr_Estimate route))"
proof -
  let ?e = "normalizeAttemptUsage (rr_Estimate route)"
  have n: "normalized ?e" using assms(3) by (rule normalize_normalized)
  have "chargeForUsage (r_Pricing r) ?e = chargeForUsage (r_Pricing r) (rr_Estimate route)"
    by (simp add: chargeForUsage_def normalize_id [OF n])
  then show ?thesis
    using assms reconcile_zero [OF n] fillPartial_self [OF n assms(4)]
    by (simp add: acc_begin_def acc_complete_def acc_charge_def Let_def)
qed

text \<open>
  The total of a request. After any sequence of calls the total is the saturated sum of the
  charges, in the range of 64-bit integers, whatever order the map is iterated in.
\<close>

theorem attempt_total_order_independent:
  assumes "\<forall>op \<in> set ops. op_ok op" "mset m = mset (acc_run ops [])"
  shows "acc_total m = acc_total (acc_run ops []) \<and>
    au_InputTokens (acc_total m) = sat_total au_InputTokens (acc_run ops []) \<and>
    au_OutputTokens (acc_total m) = sat_total au_OutputTokens (acc_run ops []) \<and>
    au_SpendMicros (acc_total m) = sat_total au_SpendMicros (acc_run ops []) \<and> charge_in_range (acc_total m)"
proof -
  let ?r = "acc_run ops []"
  have ok: "\<forall>e \<in> set ?r. charge_in_range (ue_charge (snd e))"
    using acc_run_ok [OF assms(1), of "[]"] by (simp add: entry_ok_def)
  then have ok': "\<forall>e \<in> set m. charge_in_range (ue_charge (snd e))" using mset_eq_setD [OF assms(2)] by simp
  have eq: "sat_total f m = sat_total f ?r" for f
    unfolding sat_total_def sum_mset_sum_list [symmetric] mset_map assms(2) by (rule refl)
  have range: "0 \<le> sat_total f m" "sat_total f m \<le> MaxInt64" if "\<forall>e \<in> set m. 0 \<le> f (ue_charge (snd e))" for f
    using that sum_list_nonneg [of "map (\<lambda>e. f (ue_charge (snd e))) m"] by (auto simp: sat_total_def)
  have "\<forall>e \<in> set m. 0 \<le> f (ue_charge (snd e))" if "f \<in> {au_InputTokens, au_OutputTokens, au_SpendMicros}" for f
    using ok' that by (auto simp: charge_in_range_def)
  then have "charge_in_range (acc_total m)"
    unfolding acc_total_sum [OF ok'] charge_in_range_def by (simp add: range)
  then show ?thesis unfolding acc_total_sum [OF ok] acc_total_sum [OF ok'] by (simp add: eq)
qed

section \<open>Witnesses\<close>

lemma demo_usage_ok: "usage_in_range demo_usage" "units_in_range demo_usage" "valid_pricing demo_pricing"
  by (simp_all add: demo_usage_def demo_pricing_def usage_in_range_def units_in_range_def in_i64_def valid_pricing_def)

theorem usage_normalization_witness:
  "u_TotalTokens (normalizeAttemptUsage demo_usage) =
     sat_sum (u_InputTokens (normalizeAttemptUsage demo_usage)) (u_OutputTokens (normalizeAttemptUsage demo_usage)) \<and>
   150 \<le> u_TotalTokens (normalizeAttemptUsage demo_usage)"
  using usage_normalization [OF demo_usage_ok(1)] by (simp add: Let_def) (simp add: demo_usage_def)

theorem spend_rounds_up_witness:
  "0 \<le> SpendMicrosForUsage demo_pricing demo_usage \<and> SpendMicrosForUsage demo_pricing demo_usage \<le> MaxInt64"
  using spend_rounds_up [OF demo_usage_ok(3,1,2)] by simp

theorem attempt_charged_once_witness:
  "\<exists>e. map_of (acc_begin ''a1'' demo_resolved []) ''a1'' = Some e \<and>
     acc_charge ''a1'' (acc_run [Complete ''a1'' demo_usage True, Cancel ''a1'']
       (acc_complete ''a1'' zero_usage False (acc_begin ''a1'' demo_resolved []))) =
     Some (chargeForUsage (ue_pricing e) (ReconcileReportedUsage zero_usage (ue_estimate e)))"
proof -
  obtain e where e: "map_of (acc_begin ''a1'' demo_resolved []) ''a1'' = Some e" "\<not> ue_final e"
    by (simp add: acc_begin_def Let_def)
  show ?thesis
    using attempt_charged_once [OF _ e, of "[Complete ''a1'' demo_usage True, Cancel ''a1'']" zero_usage False] e(1)
    by (intro exI [of _ e]) simp
qed

theorem unreported_usage_charged_as_estimated_witness:
  "acc_charge ''a1'' (acc_complete ''a1'' zero_usage True (acc_begin ''a1'' demo_resolved [])) =
     Some (chargeForUsage demo_pricing demo_usage)"
proof -
  have "wf_usage (normalizeAttemptUsage (rr_Estimate demo_resolved))"
    by (simp add: wf_usage_def normalizeAttemptUsage_def normalizeCounters_sel demo_resolved_def demo_usage_def
        normalizeUsageDetails_def)
  moreover have "usage_in_range (rr_Estimate demo_resolved)" by (simp add: demo_resolved_def demo_usage_ok)
  ultimately show ?thesis
    using unreported_usage_charged_as_estimated [of "''a1''" "[]" demo_resolved demo_route True]
    by (simp add: demo_resolved_def demo_route_def)
qed

theorem attempt_total_order_independent_witness:
  "let m = acc_run [Begin ''a1'' demo_resolved, Begin ''a2'' demo_resolved] [] in
   acc_total (rev m) = acc_total m \<and> charge_in_range (acc_total (rev m))"
proof -
  have "\<forall>op \<in> set [Begin ''a1'' demo_resolved, Begin ''a2'' demo_resolved]. op_ok op"
    by (simp add: demo_resolved_def demo_route_def demo_usage_ok)
  from attempt_total_order_independent [OF this mset_rev] show ?thesis unfolding Let_def by blast
qed

end
