(* ===== verification/Go_Hash.thy ===== *)
theory Go_Hash
  imports Go_Prelude "HOL-Library.Word"
begin

unbundle bit_operations_syntax

text \<open>
  The hash functions of the standard library the gateway calls: FNV-1a with 64 bits
  (\<open>hash/fnv\<close>, for weighted routing) and SHA-256 (\<open>crypto/sha256\<close>, for circuit keys), with the
  lower-case hexadecimal digits of \<open>encoding/hex\<close>.
\<close>

section \<open>FNV-1a\<close>

definition fnv64a_step :: "64 word \<Rightarrow> char \<Rightarrow> 64 word" where
  "fnv64a_step h c = (h XOR word_of_nat (byte c)) * 1099511628211"

definition fnv64a :: "string \<Rightarrow> 64 word" where
  "fnv64a s = fold (\<lambda>c h. fnv64a_step h c) s 14695981039346656037"

section \<open>SHA-256\<close>

type_synonym w32 = "32 word"

text \<open>
  The round constants are the first 32 fractional bits of the cube roots of the first 64 primes, and
  the initial state those of the square roots of the first 8; the roots are computed bit by bit.
\<close>

fun integer_root :: "nat \<Rightarrow> nat \<Rightarrow> nat \<Rightarrow> nat \<Rightarrow> nat" where
  "integer_root e n 0 acc = acc"
| "integer_root e n (Suc b) acc =
     (let c = acc + 2 ^ b in integer_root e n b (if c ^ e \<le> n then c else acc))"

definition primes_below :: "nat \<Rightarrow> nat list" where
  "primes_below n = filter (\<lambda>p. 2 \<le> p \<and> list_all (\<lambda>d. p mod d \<noteq> 0) [2..<p]) [0..<n]"

definition root_fraction :: "nat \<Rightarrow> nat \<Rightarrow> w32" where
  "root_fraction e p = word_of_nat (integer_root e (p * 2 ^ (32 * e)) 40 0)"

definition sha256_K :: "w32 list" where
  "sha256_K = map (root_fraction 3) (primes_below 312)"

definition sha256_H :: "w32 list" where
  "sha256_H = map (root_fraction 2) (primes_below 20)"

definition rotr :: "nat \<Rightarrow> w32 \<Rightarrow> w32" where
  "rotr n w = drop_bit n w OR push_bit (32 - n) w"

definition sha256_pad :: "string \<Rightarrow> nat list" where
  "sha256_pad s =
     (let n = length s; zeros = (119 - n mod 64) mod 64
      in map byte s @ [128] @ replicate zeros 0 @ map (\<lambda>i. (n * 8) div 256 ^ (7 - i) mod 256) [0..<8])"

fun be_words :: "nat list \<Rightarrow> w32 list" where
  "be_words (a # b # c # d # rest) = word_of_nat (((a * 256 + b) * 256 + c) * 256 + d) # be_words rest"
| "be_words _ = []"

text \<open>The message schedule, newest word first; each step looks 2, 7, 15 and 16 words back.\<close>

fun sha256_expand :: "nat \<Rightarrow> w32 list \<Rightarrow> w32 list" where
  "sha256_expand 0 ws = ws"
| "sha256_expand (Suc n) ws =
     (let w2 = ws ! 1; w7 = ws ! 6; w15 = ws ! 14; w16 = ws ! 15;
          s0 = rotr 7 w15 XOR rotr 18 w15 XOR drop_bit 3 w15;
          s1 = rotr 17 w2 XOR rotr 19 w2 XOR drop_bit 10 w2
      in sha256_expand n ((w16 + s0 + w7 + s1) # ws))"

fun sha256_round :: "w32 \<times> w32 \<Rightarrow> w32 list \<Rightarrow> w32 list" where
  "sha256_round (k, w) [a, b, c, d, e, f, g, h] =
     (let S1 = rotr 6 e XOR rotr 11 e XOR rotr 25 e;
          ch = (e AND f) XOR (NOT e AND g);
          t1 = h + S1 + ch + k + w;
          S0 = rotr 2 a XOR rotr 13 a XOR rotr 22 a;
          maj = (a AND b) XOR (a AND c) XOR (b AND c)
      in [t1 + S0 + maj, a, b, c, d + t1, e, f, g])"
| "sha256_round _ st = st"

definition sha256_block :: "w32 list \<Rightarrow> w32 list \<Rightarrow> w32 list" where
  "sha256_block block st =
     map2 (+) st (fold sha256_round (zip sha256_K (rev (sha256_expand 48 (rev block)))) st)"

fun sha256_blocks :: "nat \<Rightarrow> w32 list \<Rightarrow> w32 list \<Rightarrow> w32 list" where
  "sha256_blocks 0 ws st = st"
| "sha256_blocks (Suc n) ws st = sha256_blocks n (drop 16 ws) (sha256_block (take 16 ws) st)"

definition sha256 :: "string \<Rightarrow> w32 list" where
  "sha256 s = (let ws = be_words (sha256_pad s) in sha256_blocks (length ws div 16) ws sha256_H)"

definition hex_char :: "nat \<Rightarrow> char" where
  "hex_char d = (if d < 10 then char_of (48 + d) else char_of (87 + d))"

definition hex_word :: "w32 \<Rightarrow> string" where
  "hex_word w = map (\<lambda>i. hex_char (unat w div 16 ^ (7 - i) mod 16)) [0..<8]"

text \<open>\<open>hex.EncodeToString(sum[:8])\<close>: the first eight bytes are the first two words.\<close>

definition sha256_hex8 :: "string \<Rightarrow> string" where
  "sha256_hex8 s = concat (map hex_word (take 2 (sha256 s)))"

end
