(* ===== verification/Circuit_Breaker.thy ===== *)
theory Circuit_Breaker
  imports Gateway_Types Go_Hash
begin

text \<open>
  The process-local circuit breaker of \<open>policy/attempt.go\<close>: \<open>Breaker\<close> with its admission times,
  failure counter, cooldown and pruning, and the bounds a route puts on one attempt
  (\<open>routeAttemptCount\<close>, \<open>routeAttemptStateTTL\<close>). Every method takes the readings of its clock as
  arguments. The key of a circuit is the route's name with a hash of its upstream identity.
\<close>

section \<open>Bounds of an attempt\<close>

definition MaximumRouteRetries :: int where
  "MaximumRouteRetries = 10"

definition routeAttemptCount :: "Route option \<Rightarrow> int" where
  "routeAttemptCount route =
     (case route of
        None \<Rightarrow> 1
      | Some r \<Rightarrow> if r_Retries r \<le> 0 then 1 else min (r_Retries r) MaximumRouteRetries + 1)"

abbreviation releaseBuffer :: duration where
  "releaseBuffer \<equiv> 30 * Second"

definition routeAttemptStateTTL :: "Route option \<Rightarrow> duration" where
  "routeAttemptStateTTL route =
     (case route of
        None \<Rightarrow> 30 * Second
      | Some r \<Rightarrow>
          let timeout = (if r_Timeout r \<le> 0 then 30 * Second else r_Timeout r);
              tries = routeAttemptCount route
          in if timeout > go_div (MaxInt64 - releaseBuffer) tries then MaxInt64
             else i64 (i64 (timeout * tries) + releaseBuffer))"

section \<open>State\<close>

record breakerState =
  bs_Failures :: int
  bs_OpenUntil :: instant
  bs_RetainUntil :: instant
  bs_LastAdmission :: instant
  bs_LastFailure :: instant
  bs_LastSuccess :: instant

abbreviation zero_breakerState :: breakerState where
  "zero_breakerState \<equiv>
     \<lparr>bs_Failures = 0, bs_OpenUntil = 0, bs_RetainUntil = 0, bs_LastAdmission = 0, bs_LastFailure = 0,
      bs_LastSuccess = 0\<rparr>"

record Breaker =
  br_states :: "(string, breakerState) gomap"
  br_operations :: "64 word"

definition NewBreaker :: Breaker where
  "NewBreaker = \<lparr>br_states = [], br_operations = 0\<rparr>"

definition localPolicyStateIdleTTL :: duration where
  "localPolicyStateIdleTTL = 10 * Minute"

definition localPolicyPruneEvery :: "64 word" where
  "localPolicyPruneEvery = 256"

definition routeBreakerKey :: "Route option \<Rightarrow> string" where
  "routeBreakerKey route =
     (case route of
        None \<Rightarrow> ''unknown''
      | Some r \<Rightarrow>
          r_Name r @ '':'' @
          sha256_hex8 (JoinStrings [r_Provider r, r_Backend r, r_BaseURL r, r_UpstreamModel r, r_Model r,
            r_APIVersion r] [CHR 0x00]))"

text \<open>\<open>b.states[key]\<close>, the zero value when the key is missing, and \<open>b.states[key] = state\<close>.\<close>

definition br_get :: "Breaker \<Rightarrow> string \<Rightarrow> breakerState" where
  "br_get b key = (case map_of (br_states b) key of None \<Rightarrow> zero_breakerState | Some st \<Rightarrow> st)"

definition br_put :: "string \<Rightarrow> breakerState \<Rightarrow> Breaker \<Rightarrow> Breaker" where
  "br_put key st b = b\<lparr>br_states := AList.update key st (br_states b)\<rparr>"

section \<open>Operations\<close>

text \<open>The test of the pruning loop: the entry is kept.\<close>

definition retained :: "instant \<Rightarrow> breakerState \<Rightarrow> bool" where
  "retained now st \<longleftrightarrow>
     bs_OpenUntil st > now \<or> bs_RetainUntil st > now \<or>
     (let lastSeen = (if bs_LastSuccess st > bs_LastFailure st then bs_LastSuccess st else bs_LastFailure st)
      in \<not> (IsZero lastSeen \<or> \<not> lastSeen > now - localPolicyStateIdleTTL))"

definition pruneStatesLocked :: "instant \<Rightarrow> Breaker \<Rightarrow> Breaker" where
  "pruneStatesLocked now b =
     (let b = b\<lparr>br_operations := br_operations b + 1\<rparr>
      in if br_operations b mod localPolicyPruneEvery \<noteq> 0 then b
         else b\<lparr>br_states := filter (\<lambda>e. retained now (snd e)) (br_states b)\<rparr>)"

definition AllowAttempt :: "Route \<Rightarrow> instant \<Rightarrow> Breaker \<Rightarrow> (bool \<times> instant) \<times> Breaker" where
  "AllowAttempt route now b =
     (let key = routeBreakerKey (Some route);
          st = br_get b key
      in if bs_OpenUntil st > now then ((False, now), b)
         else
           let startedAt = (if \<not> IsZero (bs_LastAdmission st) \<and> \<not> now > bs_LastAdmission st
                            then bs_LastAdmission st + 1 else now);
               st = st\<lparr>bs_LastAdmission := startedAt\<rparr>;
               retainUntil = now + routeAttemptStateTTL (Some route);
               st = (if retainUntil > bs_RetainUntil st then st\<lparr>bs_RetainUntil := retainUntil\<rparr> else st)
           in ((True, startedAt), br_put key st b))"

definition br_Allow :: "Route \<Rightarrow> instant \<Rightarrow> Breaker \<Rightarrow> bool \<times> Breaker" where
  "br_Allow route now b = (let ((allowed, _), b) = AllowAttempt route now b in (allowed, b))"

definition FailAttempt :: "Route \<Rightarrow> instant \<Rightarrow> instant \<Rightarrow> Breaker \<Rightarrow> Breaker" where
  "FailAttempt route startedAt now b =
     (let b = pruneStatesLocked now b;
          startedAt = (if IsZero startedAt then now else startedAt);
          key = routeBreakerKey (Some route);
          st = br_get b key
      in if \<not> IsZero (bs_LastSuccess st) \<and> \<not> startedAt > bs_LastSuccess st then b
         else
           let st = (if startedAt > bs_LastFailure st then st\<lparr>bs_LastFailure := startedAt\<rparr> else st)
           in if bs_OpenUntil st > now then br_put key st b
              else
                let threshold = (if cc_Failures (r_Circuit route) \<le> 0 then 1 else cc_Failures (r_Circuit route));
                    cooldown = (if cc_Cooldown (r_Circuit route) \<le> 0 then Second else cc_Cooldown (r_Circuit route));
                    st = st\<lparr>bs_Failures := i64 (bs_Failures st + 1)\<rparr>;
                    st = (if bs_Failures st \<ge> threshold
                          then st\<lparr>bs_OpenUntil := now + cooldown, bs_Failures := 0\<rparr> else st)
                in br_put key st b)"

text \<open>The deprecated entry points read the clock once for the caller and once inside the method.\<close>

definition br_Fail :: "Route \<Rightarrow> instant \<Rightarrow> instant \<Rightarrow> Breaker \<Rightarrow> Breaker" where
  "br_Fail route now now' b = FailAttempt route now now' b"

definition SuccessAttempt :: "Route \<Rightarrow> instant \<Rightarrow> instant \<Rightarrow> Breaker \<Rightarrow> Breaker" where
  "SuccessAttempt route startedAt now b =
     (let b = pruneStatesLocked now b;
          startedAt = (if IsZero startedAt then now else startedAt);
          key = routeBreakerKey (Some route);
          st = br_get b key
      in if \<not> IsZero (bs_LastFailure st) \<and> \<not> startedAt > bs_LastFailure st then b
         else
           let st = st\<lparr>bs_Failures := 0, bs_OpenUntil := 0\<rparr>;
               st = (if startedAt > bs_LastSuccess st then st\<lparr>bs_LastSuccess := startedAt\<rparr> else st)
           in br_put key st b)"

definition br_Success :: "Route \<Rightarrow> instant \<Rightarrow> instant \<Rightarrow> Breaker \<Rightarrow> Breaker" where
  "br_Success route now now' b = SuccessAttempt route now now' b"


section \<open>Bounds\<close>

lemma routeAttemptCount_bounds: "1 \<le> routeAttemptCount route" "routeAttemptCount route \<le> 11"
  by (auto simp: routeAttemptCount_def MaximumRouteRetries_def split: option.splits)

text \<open>The lifetime of an attempt is its timeout for every try plus the buffer, saturated.\<close>

abbreviation effTimeout :: "Route \<Rightarrow> duration" where
  "effTimeout r \<equiv> if r_Timeout r \<le> 0 then 30 * Second else r_Timeout r"

lemma div_le_iff_mult: "0 < (n :: int) \<Longrightarrow> t \<le> m div n \<longleftrightarrow> t * n \<le> m"
proof
  assume n: "0 < n" and "t \<le> m div n"
  then have "t * n \<le> m div n * n" by simp
  then show "t * n \<le> m" using div_mult_mod_eq [of m n] pos_mod_sign [OF n, of m] by linarith
next
  assume n: "0 < n" and "t * n \<le> m"
  then show "t \<le> m div n" using zdiv_mono1 [of "t * n" m n] by simp
qed

lemma routeAttemptStateTTL_exact:
  "routeAttemptStateTTL (Some r) = min MaxInt64 (effTimeout r * routeAttemptCount (Some r) + releaseBuffer)"
proof -
  let ?t = "effTimeout r" and ?n = "routeAttemptCount (Some r)" and ?m = "MaxInt64 - releaseBuffer"
  have n: "0 < ?n" using routeAttemptCount_bounds(1) [of "Some r"] by linarith
  then have nonneg: "0 \<le> ?t * ?n" by simp
  have le: "?t \<le> go_div ?m ?n \<longleftrightarrow> ?t * ?n \<le> ?m" using n div_le_iff_mult [OF n, of ?t ?m] by simp
  have "i64 (i64 (?t * ?n) + releaseBuffer) = ?t * ?n + releaseBuffer" if "?t * ?n \<le> ?m" using that nonneg by simp
  then show ?thesis using le by (auto simp: routeAttemptStateTTL_def Let_def)
qed

lemma routeAttemptStateTTL_ge: "releaseBuffer \<le> routeAttemptStateTTL (Some r)"
proof -
  have "0 \<le> effTimeout r * routeAttemptCount (Some r)"
    using routeAttemptCount_bounds(1) [of "Some r"] by simp
  then show ?thesis by (simp add: routeAttemptStateTTL_exact)
qed

section \<open>One key at a time\<close>

definition br_wf :: "Breaker \<Rightarrow> bool" where
  "br_wf b \<longleftrightarrow> wf_gomap (br_states b)"

lemma br_get_put [simp]: "br_get (br_put k st b) k' = (if k' = k then st else br_get b k')"
  by (simp add: br_get_def br_put_def)

lemma br_wf_put [simp]: "br_wf b \<Longrightarrow> br_wf (br_put k st b)"
  by (simp add: br_wf_def br_put_def)

lemma br_get_new [simp]: "br_get NewBreaker k = zero_breakerState"
  by (simp add: br_get_def NewBreaker_def)

lemma br_wf_new [simp]: "br_wf NewBreaker"
  by (simp add: br_wf_def NewBreaker_def)

lemma br_wf_prune [simp]: "br_wf b \<Longrightarrow> br_wf (pruneStatesLocked now b)"
  by (simp add: br_wf_def pruneStatesLocked_def Let_def)

text \<open>Pruning keeps the entries that are open or whose evidence is still needed.\<close>

definition needed :: "instant \<Rightarrow> breakerState \<Rightarrow> bool" where
  "needed now st \<longleftrightarrow> now < bs_OpenUntil st \<or> now < bs_RetainUntil st"

lemma br_get_prune:
  assumes "br_wf b" "needed now (br_get b k)"
  shows "br_get (pruneStatesLocked now b) k = br_get b k"
  using assms
  by (auto simp: br_get_def pruneStatesLocked_def Let_def br_wf_def map_of_filter_wf needed_def retained_def
      split: option.splits)

datatype brOp = BAllow Route instant | BFail Route instant instant | BSuccess Route instant instant

fun br_step :: "brOp \<Rightarrow> Breaker \<Rightarrow> Breaker" where
  "br_step (BAllow r now) b = snd (AllowAttempt r now b)"
| "br_step (BFail r startedAt now) b = FailAttempt r startedAt now b"
| "br_step (BSuccess r startedAt now) b = SuccessAttempt r startedAt now b"

definition br_run :: "brOp list \<Rightarrow> Breaker \<Rightarrow> Breaker" where
  "br_run ops b = fold br_step ops b"

fun op_route :: "brOp \<Rightarrow> Route" where
  "op_route (BAllow r now) = r"
| "op_route (BFail r startedAt now) = r"
| "op_route (BSuccess r startedAt now) = r"

fun op_now :: "brOp \<Rightarrow> instant" where
  "op_now (BAllow r now) = now"
| "op_now (BFail r startedAt now) = now"
| "op_now (BSuccess r startedAt now) = now"

abbreviation op_key :: "brOp \<Rightarrow> string" where
  "op_key op \<equiv> routeBreakerKey (Some (op_route op))"

abbreviation effStart :: "instant \<Rightarrow> instant \<Rightarrow> instant" where
  "effStart startedAt now \<equiv> if IsZero startedAt then now else startedAt"

lemma br_run_simps [simp]:
  "br_run [] b = b" "br_run (op # ops) b = br_run ops (br_step op b)" "br_run (as @ bs) b = br_run bs (br_run as b)"
  by (simp_all add: br_run_def)

text \<open>What each operation does to the entry of its own key, as a function on entries.\<close>

definition fail_entry :: "Route \<Rightarrow> instant \<Rightarrow> instant \<Rightarrow> breakerState \<Rightarrow> breakerState" where
  "fail_entry route s now st =
     (if bs_LastSuccess st \<noteq> 0 \<and> s \<le> bs_LastSuccess st then st
      else
        let st = st\<lparr>bs_LastFailure := max s (bs_LastFailure st)\<rparr>
        in if now < bs_OpenUntil st then st
           else if i64 (bs_Failures st + 1) \<ge> max 1 (cc_Failures (r_Circuit route))
           then st\<lparr>bs_OpenUntil := now + (if cc_Cooldown (r_Circuit route) \<le> 0 then Second else cc_Cooldown (r_Circuit route)),
                   bs_Failures := 0\<rparr>
           else st\<lparr>bs_Failures := i64 (bs_Failures st + 1)\<rparr>)"

definition success_entry :: "instant \<Rightarrow> breakerState \<Rightarrow> breakerState" where
  "success_entry s st =
     (if bs_LastFailure st \<noteq> 0 \<and> s \<le> bs_LastFailure st then st
      else st\<lparr>bs_Failures := 0, bs_OpenUntil := 0, bs_LastSuccess := max s (bs_LastSuccess st)\<rparr>)"

definition allow_entry :: "Route \<Rightarrow> instant \<Rightarrow> breakerState \<Rightarrow> breakerState" where
  "allow_entry route now st =
     (if now < bs_OpenUntil st then st
      else st\<lparr>bs_LastAdmission := (if bs_LastAdmission st \<noteq> 0 \<and> now \<le> bs_LastAdmission st
                                     then bs_LastAdmission st + 1 else now),
              bs_RetainUntil := max (now + routeAttemptStateTTL (Some route)) (bs_RetainUntil st)\<rparr>)"

lemma FailAttempt_entry:
  "br_get (FailAttempt r s now b) k =
     (let b' = pruneStatesLocked now b
      in if k = routeBreakerKey (Some r) then fail_entry r (effStart s now) now (br_get b' k) else br_get b' k)"
  by (auto simp: FailAttempt_def fail_entry_def Let_def max_def)

lemma SuccessAttempt_entry:
  "br_get (SuccessAttempt r s now b) k =
     (let b' = pruneStatesLocked now b
      in if k = routeBreakerKey (Some r) then success_entry (effStart s now) (br_get b' k) else br_get b' k)"
  by (auto simp: SuccessAttempt_def success_entry_def Let_def max_def)

lemma AllowAttempt_entry:
  "br_get (snd (AllowAttempt r now b)) k =
     (if k = routeBreakerKey (Some r) then allow_entry r now (br_get b k) else br_get b k)"
  by (auto simp: AllowAttempt_def allow_entry_def Let_def max_def)

lemma AllowAttempt_answer:
  "fst (fst (AllowAttempt r now b)) \<longleftrightarrow> bs_OpenUntil (br_get b (routeBreakerKey (Some r))) \<le> now"
  by (auto simp: AllowAttempt_def Let_def)

lemma AllowAttempt_time:
  assumes "fst (fst (AllowAttempt r now b))"
  shows "snd (fst (AllowAttempt r now b)) =
    bs_LastAdmission (br_get (snd (AllowAttempt r now b)) (routeBreakerKey (Some r)))"
  using assms by (auto simp: AllowAttempt_def Let_def)

lemma br_wf_step [simp]: "br_wf b \<Longrightarrow> br_wf (br_step op b)"
  by (cases op) (auto simp: FailAttempt_def SuccessAttempt_def AllowAttempt_def Let_def)

lemma br_wf_run [simp]: "br_wf b \<Longrightarrow> br_wf (br_run ops b)"
  by (induction ops arbitrary: b) simp_all

text \<open>The effect of one operation on the entry of a key whose evidence is still needed.\<close>

fun step_entry :: "brOp \<Rightarrow> breakerState \<Rightarrow> breakerState" where
  "step_entry (BAllow r now) st = allow_entry r now st"
| "step_entry (BFail r s now) st = fail_entry r (effStart s now) now st"
| "step_entry (BSuccess r s now) st = success_entry (effStart s now) st"

lemma br_step_entry:
  assumes "br_wf b" "needed (op_now op) (br_get b k)"
  shows "br_get (br_step op b) k = (if k = op_key op then step_entry op (br_get b k) else br_get b k)"
  using assms br_get_prune [OF assms]
  by (cases op) (auto simp: FailAttempt_entry SuccessAttempt_entry AllowAttempt_entry Let_def)


section \<open>Runs on one key\<close>

lemmas entry_defs = fail_entry_def success_entry_def allow_entry_def

text \<open>No success of a call admitted after \<open>lf\<close> on the circuit \<open>k\<close>.\<close>

fun no_newer_success :: "string \<Rightarrow> instant \<Rightarrow> brOp \<Rightarrow> bool" where
  "no_newer_success k lf (BSuccess r s t) \<longleftrightarrow> routeBreakerKey (Some r) = k \<longrightarrow> effStart s t \<le> lf"
| "no_newer_success k lf _ \<longleftrightarrow> True"

lemma open_kept_step:
  assumes "bs_OpenUntil st = u" "0 < lf" "lf \<le> bs_LastFailure st" "op_now op < u"
    "no_newer_success (op_key op) lf op"
  shows "bs_OpenUntil (step_entry op st) = u \<and> lf \<le> bs_LastFailure (step_entry op st)"
  using assms by (cases op) (auto simp: entry_defs Let_def)

lemma open_kept:
  assumes "br_wf b" "bs_OpenUntil (br_get b k) = u" "0 < lf" "lf \<le> bs_LastFailure (br_get b k)"
    "\<forall>op \<in> set ops. op_now op < u \<and> no_newer_success k lf op"
  shows "bs_OpenUntil (br_get (br_run ops b) k) = u"
  using assms
proof (induction ops arbitrary: b)
  case (Cons op ops)
  have st: "br_get (br_step op b) k = (if k = op_key op then step_entry op (br_get b k) else br_get b k)"
    by (rule br_step_entry) (use Cons.prems in \<open>auto simp: needed_def\<close>)
  have "bs_OpenUntil (br_get (br_step op b) k) = u \<and> lf \<le> bs_LastFailure (br_get (br_step op b) k)"
    unfolding st using Cons.prems open_kept_step [of "br_get b k" u lf op] by (cases "k = op_key op") simp_all
  then show ?case using Cons.IH [of "br_step op b"] Cons.prems by simp
qed simp

abbreviation threshold :: "Route \<Rightarrow> int" where
  "threshold r \<equiv> max 1 (cc_Failures (r_Circuit r))"

abbreviation cooldown :: "Route \<Rightarrow> duration" where
  "cooldown r \<equiv> if cc_Cooldown (r_Circuit r) \<le> 0 then Second else cc_Cooldown (r_Circuit r)"

text \<open>The operations of a run of failures: on the circuit of \<open>r\<close> only admissions and failures of calls
  newer than the last success; anything on other circuits.\<close>

fun failing_op :: "Route \<Rightarrow> instant \<Rightarrow> brOp \<Rightarrow> bool" where
  "failing_op r ls (BAllow r' t) \<longleftrightarrow> r' = r \<or> routeBreakerKey (Some r') \<noteq> routeBreakerKey (Some r)"
| "failing_op r ls (BFail r' s t) \<longleftrightarrow> r' = r \<and> ls < effStart s t \<or> routeBreakerKey (Some r') \<noteq> routeBreakerKey (Some r)"
| "failing_op r ls (BSuccess r' s t) \<longleftrightarrow> routeBreakerKey (Some r') \<noteq> routeBreakerKey (Some r)"

fun fails_on :: "string \<Rightarrow> brOp \<Rightarrow> bool" where
  "fails_on k (BFail r s t) \<longleftrightarrow> routeBreakerKey (Some r) = k"
| "fails_on k _ \<longleftrightarrow> False"

definition fail_count :: "string \<Rightarrow> brOp list \<Rightarrow> int" where
  "fail_count k ops = int (length (filter (fails_on k) ops))"

lemma fail_count_simps [simp]:
  "fail_count k [] = 0" "fail_count k (op # ops) = (if fails_on k op then 1 else 0) + fail_count k ops"
  by (simp_all add: fail_count_def)

lemma fail_count_nonneg [simp]: "0 \<le> fail_count k ops"
  by (simp add: fail_count_def)

text \<open>A closed circuit with \<open>f\<close> failures, its evidence needed until \<open>T\<close>.\<close>

definition counting :: "instant \<Rightarrow> instant \<Rightarrow> instant \<Rightarrow> int \<Rightarrow> breakerState \<Rightarrow> bool" where
  "counting T0 T ls f st \<longleftrightarrow>
     bs_OpenUntil st \<le> T0 \<and> T \<le> bs_RetainUntil st \<and> bs_LastSuccess st = ls \<and> bs_Failures st = f"

lemma counting_step:
  assumes "counting T0 T ls f st" "failing_op r ls op" "op_key op = routeBreakerKey (Some r)" "0 \<le> f"
    "f + (if fails_on (op_key op) op then 1 else 0) < threshold r" "threshold r \<le> MaxInt64"
    "T0 \<le> op_now op"
  shows "counting T0 T ls (f + (if fails_on (op_key op) op then 1 else 0)) (step_entry op st)"
  using assms by (cases op) (auto simp: counting_def entry_defs Let_def)

lemma counting_run:
  assumes "br_wf b" "counting T0 T ls f (br_get b k)" "k = routeBreakerKey (Some r)" "0 \<le> f"
    "\<forall>op \<in> set ops. failing_op r ls op \<and> T0 \<le> op_now op \<and> op_now op < T"
    "f + fail_count k ops < threshold r" "threshold r \<le> MaxInt64"
  shows "counting T0 T ls (f + fail_count k ops) (br_get (br_run ops b) k)"
  using assms
proof (induction ops arbitrary: b f)
  case (Cons op ops)
  let ?d = "if fails_on k op then 1 else 0 :: int"
  have n: "needed (op_now op) (br_get b k)" using Cons.prems by (auto simp: needed_def counting_def)
  have "0 \<le> fail_count k ops" by simp
  then have less: "f + ?d < threshold r" using Cons.prems(6) unfolding fail_count_simps by linarith
  note st = br_step_entry [OF Cons.prems(1) n]
  have "counting T0 T ls (f + ?d) (br_get (br_step op b) k)"
  proof (cases "k = op_key op")
    case True
    then show ?thesis
      using st counting_step [OF Cons.prems(2), of r op] Cons.prems(3-5,7) less by simp
  next
    case False
    then have "\<not> fails_on k op" by (cases op) auto
    then show ?thesis using st False Cons.prems(2) by simp
  qed
  then show ?case using Cons.IH [of "br_step op b" "f + ?d"] Cons.prems by (simp add: add.assoc)
qed simp

text \<open>What a run keeps of the evidence of a circuit that is still needed.\<close>

definition newer :: "instant \<Rightarrow> breakerState \<Rightarrow> breakerState \<Rightarrow> bool" where
  "newer T st st' \<longleftrightarrow>
     bs_LastAdmission st \<le> bs_LastAdmission st' \<and> bs_LastFailure st \<le> bs_LastFailure st' \<and>
     bs_LastSuccess st \<le> bs_LastSuccess st' \<and> T \<le> bs_RetainUntil st'"

lemma newer_refl: "T \<le> bs_RetainUntil st \<Longrightarrow> newer T st st"
  by (simp add: newer_def)

lemma newer_step: "newer T st0 st \<Longrightarrow> 0 < bs_LastAdmission st0 \<Longrightarrow> newer T st0 (step_entry op st)"
  by (cases op) (auto simp: newer_def entry_defs Let_def)

lemma newer_run:
  assumes "br_wf b" "newer T st0 (br_get b k)" "0 < bs_LastAdmission st0" "\<forall>op \<in> set ops. op_now op < T"
  shows "newer T st0 (br_get (br_run ops b) k)"
  using assms
proof (induction ops arbitrary: b)
  case (Cons op ops)
  have "needed (op_now op) (br_get b k)" using Cons.prems by (auto simp: newer_def needed_def)
  then have "newer T st0 (br_get (br_step op b) k)"
    using br_step_entry [OF Cons.prems(1)] newer_step [OF Cons.prems(2,3)] Cons.prems(2)
    by (cases "k = op_key op") simp_all
  then show ?case using Cons.IH [of "br_step op b"] Cons.prems by simp
qed simp


text \<open>Two admissions on a circuit within the lifetime of the first.\<close>

lemma AllowAttempt_admitted:
  assumes "AllowAttempt r t b = ((True, a), b')"
  shows "br_get b' (routeBreakerKey (Some r)) = allow_entry r t (br_get b (routeBreakerKey (Some r)))"
    "bs_OpenUntil (br_get b (routeBreakerKey (Some r))) \<le> t"
    "a = bs_LastAdmission (br_get b' (routeBreakerKey (Some r)))" "br_wf b \<Longrightarrow> br_wf b'"
  using AllowAttempt_entry [of r t b "routeBreakerKey (Some r)"] AllowAttempt_answer [of r t b]
    AllowAttempt_time [of r t b] br_wf_step [of b "BAllow r t"] assms by simp_all

lemma admissions_ordered:
  assumes "br_wf b" "0 < t1" "0 \<le> bs_LastAdmission (br_get b (routeBreakerKey (Some r)))"
    "AllowAttempt r t1 b = ((True, a1), b1)" "AllowAttempt r t2 (br_run ops b1) = ((True, a2), b2)"
    "\<forall>op \<in> set ops. op_now op < t1 + routeAttemptStateTTL (Some r)"
  shows "0 < a1 \<and> a1 < a2 \<and> br_wf b2 \<and> a2 = bs_LastAdmission (br_get b2 (routeBreakerKey (Some r))) \<and>
    t1 + routeAttemptStateTTL (Some r) \<le> bs_RetainUntil (br_get b2 (routeBreakerKey (Some r)))"
proof -
  let ?k = "routeBreakerKey (Some r)" and ?T = "t1 + routeAttemptStateTTL (Some r)"
  note one = AllowAttempt_admitted [OF assms(4)] and two = AllowAttempt_admitted [OF assms(5)]
  have a1: "0 < a1" and ret: "?T \<le> bs_RetainUntil (br_get b1 ?k)"
    using one assms(2,3) by (auto simp: allow_entry_def)
  have wf1: "br_wf b1" using one(4) assms(1) .
  have "newer ?T (br_get b1 ?k) (br_get (br_run ops b1) ?k)"
    by (rule newer_run [OF wf1 newer_refl [OF ret]]) (use one a1 assms(6) in auto)
  then have "a1 \<le> bs_LastAdmission (br_get (br_run ops b1) ?k)" "?T \<le> bs_RetainUntil (br_get (br_run ops b1) ?k)"
    using one by (auto simp: newer_def)
  then have "a1 < a2" "?T \<le> bs_RetainUntil (br_get b2 ?k)" using two(1-3) a1 by (auto simp: allow_entry_def)
  then show ?thesis using a1 two(3) two(4) wf1 by simp
qed

lemma evidence_kept:
  assumes "br_wf b" "T \<le> bs_RetainUntil (br_get b k)" "0 < bs_LastAdmission (br_get b k)"
    "\<forall>op \<in> set ops. op_now op < T" "n < T"
  shows "newer T (br_get b k) (br_get (br_run ops b) k) \<and>
    br_get (pruneStatesLocked n (br_run ops b)) k = br_get (br_run ops b) k"
  using newer_run [OF assms(1) newer_refl [OF assms(2)] assms(3,4)] assms(1,5) br_get_prune [of "br_run ops b" n k]
  by (auto simp: newer_def needed_def)

section \<open>Properties\<close>

text \<open>
  C9. An open circuit denies. When the failure that reaches the threshold opens the circuit, every
  attempt of the route is denied until the cooldown is over, whatever happens on any circuit in
  between, unless a call admitted after that failing one succeeds; later failures do not extend it.
\<close>

theorem circuit_open_denies:
  assumes "br_wf b" "needed now (br_get b (routeBreakerKey (Some r)))"
    "bs_OpenUntil (br_get b (routeBreakerKey (Some r))) \<le> now"
    "bs_LastSuccess (br_get b (routeBreakerKey (Some r))) < s" "0 < s"
    "threshold r \<le> bs_Failures (br_get b (routeBreakerKey (Some r))) + 1"
    "bs_Failures (br_get b (routeBreakerKey (Some r))) < MaxInt64"
    "\<forall>op \<in> set ops. op_now op < now + cooldown r \<and> no_newer_success (routeBreakerKey (Some r)) s op"
  shows "fst (fst (AllowAttempt r t (br_run ops (FailAttempt r s now b)))) \<longleftrightarrow> now + cooldown r \<le> t"
proof -
  let ?k = "routeBreakerKey (Some r)" and ?b = "FailAttempt r s now b"
  have wf: "br_wf ?b" using br_wf_step [OF assms(1), of "BFail r s now"] by simp
  have "br_get ?b ?k = fail_entry r s now (br_get b ?k)"
    using assms(5) br_get_prune [OF assms(1,2)] by (simp add: FailAttempt_entry Let_def)
  then have "bs_OpenUntil (br_get ?b ?k) = now + cooldown r" "s \<le> bs_LastFailure (br_get ?b ?k)"
    using assms(3-7) by (auto simp: fail_entry_def Let_def)
  then have "bs_OpenUntil (br_get (br_run ops ?b) ?k) = now + cooldown r"
    using open_kept [OF wf _ assms(5) _ assms(8)] by blast
  then show ?thesis by (simp add: AllowAttempt_answer)
qed

text \<open>
  The threshold. From a closed circuit without failures, fewer failures than the threshold keep
  it closed and the failure that reaches the threshold opens it for exactly the cooldown, after which
  attempts are admitted again; operations on other circuits, admissions and pruning make no difference.
\<close>

theorem circuit_opens_at_threshold:
  assumes "br_wf b" "counting T0 T ls 0 (br_get b (routeBreakerKey (Some r)))" "threshold r \<le> MaxInt64"
    "\<forall>op \<in> set ops. failing_op r ls op \<and> T0 \<le> op_now op \<and> op_now op < T"
    "fail_count (routeBreakerKey (Some r)) ops = threshold r - 1"
    "ls < s" "0 < s" "T0 \<le> now" "now < T"
  shows "(T0 \<le> t \<longrightarrow> fst (fst (AllowAttempt r t (br_run ops b)))) \<and>
    (fst (fst (AllowAttempt r t (FailAttempt r s now (br_run ops b)))) \<longleftrightarrow> now + cooldown r \<le> t)"
proof -
  let ?k = "routeBreakerKey (Some r)" and ?b = "br_run ops b"
  have "counting T0 T ls (0 + fail_count ?k ops) (br_get ?b ?k)"
    by (rule counting_run [OF assms(1,2) refl _ assms(4) _ assms(3)]) (use assms(5) in simp_all)
  then have c: "counting T0 T ls (threshold r - 1) (br_get ?b ?k)" by (simp only: assms(5) add_0)
  have wf: "br_wf ?b" using assms(1) by simp
  have "needed now (br_get ?b ?k)" using c assms(9) by (simp add: counting_def needed_def)
  then have "br_get (FailAttempt r s now ?b) ?k = fail_entry r s now (br_get ?b ?k)"
    using assms(7) br_get_prune [OF wf] by (simp add: FailAttempt_entry Let_def)
  also have "bs_OpenUntil \<dots> = now + cooldown r"
    using c assms(3,6,8) by (auto simp: counting_def fail_entry_def Let_def)
  finally show ?thesis using c by (simp add: AllowAttempt_answer counting_def)
qed

text \<open>
  Outcomes arrive in any order. Of two calls admitted one after the other within the lifetime of
  the first, the second has the later admission time; once the second has failed, a success of the
  first changes nothing, and once the second has succeeded, a failure of the first changes nothing,
  whatever else happens meanwhile.
\<close>

theorem stale_outcome_ignored:
  assumes "br_wf b" "0 < t1" "AllowAttempt r t1 b = ((True, a1), b1)"
    "AllowAttempt r t2 (br_run ops b1) = ((True, a2), b2)"
    "0 \<le> bs_LastAdmission (br_get b (routeBreakerKey (Some r)))"
    "\<forall>op \<in> set ops \<union> set ops'. op_now op < t1 + routeAttemptStateTTL (Some r)"
    "n2 < t1 + routeAttemptStateTTL (Some r)" "n3 < t1 + routeAttemptStateTTL (Some r)"
    "bs_LastSuccess (br_get b2 (routeBreakerKey (Some r))) < a2"
    "bs_LastFailure (br_get b2 (routeBreakerKey (Some r))) < a2"
  shows "a1 < a2 \<and>
    br_get (SuccessAttempt r a1 n3 (br_run ops' (FailAttempt r a2 n2 b2))) (routeBreakerKey (Some r)) =
      br_get (br_run ops' (FailAttempt r a2 n2 b2)) (routeBreakerKey (Some r)) \<and>
    br_get (FailAttempt r a1 n3 (br_run ops' (SuccessAttempt r a2 n2 b2))) (routeBreakerKey (Some r)) =
      br_get (br_run ops' (SuccessAttempt r a2 n2 b2)) (routeBreakerKey (Some r))"
proof -
  let ?k = "routeBreakerKey (Some r)" and ?T = "t1 + routeAttemptStateTTL (Some r)"
  let ?f = "FailAttempt r a2 n2 b2" and ?s = "SuccessAttempt r a2 n2 b2"
  have t: "\<forall>op \<in> set ops. op_now op < ?T" "\<forall>op \<in> set ops'. op_now op < ?T" using assms(6) by auto
  note ord = admissions_ordered [OF assms(1,2,5,3,4) t(1)]
  have need: "needed n2 (br_get b2 ?k)" using ord assms(7) by (simp add: needed_def)
  have f: "br_get ?f ?k = fail_entry r a2 n2 (br_get b2 ?k)" and s: "br_get ?s ?k = success_entry a2 (br_get b2 ?k)"
    using br_get_prune [OF _ need] ord by (simp_all add: FailAttempt_entry SuccessAttempt_entry Let_def)
  have wf: "br_wf ?f" "br_wf ?s"
    using br_wf_step [of b2 "BFail r a2 n2"] br_wf_step [of b2 "BSuccess r a2 n2"] ord by simp_all
  have ev: "a2 \<le> bs_LastFailure (br_get ?f ?k)" "a2 \<le> bs_LastSuccess (br_get ?s ?k)"
    "?T \<le> bs_RetainUntil (br_get ?f ?k)" "?T \<le> bs_RetainUntil (br_get ?s ?k)"
    "0 < bs_LastAdmission (br_get ?f ?k)" "0 < bs_LastAdmission (br_get ?s ?k)"
    using f s assms(9,10) ord by (auto simp: fail_entry_def success_entry_def Let_def)
  note lf = evidence_kept [OF wf(1) ev(3,5) t(2) assms(8)]
  note ls = evidence_kept [OF wf(2) ev(4,6) t(2) assms(8)]
  show ?thesis using lf ls ord ev(1,2)
    by (auto simp: SuccessAttempt_entry FailAttempt_entry Let_def fail_entry_def success_entry_def newer_def)
qed


section \<open>Witnesses\<close>

text \<open>A circuit of the sample route with two failures of three.\<close>

definition demo_entry :: breakerState where
  "demo_entry = zero_breakerState\<lparr>bs_Failures := 2, bs_RetainUntil := 60 * Second, bs_LastAdmission := 5,
     bs_LastFailure := 5\<rparr>"

definition demo_breaker :: Breaker where
  "demo_breaker = \<lparr>br_states = [(routeBreakerKey (Some demo_route), demo_entry)], br_operations = 2\<rparr>"

lemma demo_breaker_entry [simp]: "br_get demo_breaker (routeBreakerKey (Some demo_route)) = demo_entry"
  by (simp add: br_get_def demo_breaker_def)

lemma demo_breaker_wf [simp]: "br_wf demo_breaker"
  by (simp add: br_wf_def demo_breaker_def wf_gomap_def)

lemma demo_circuit [simp]: "r_Circuit demo_route = \<lparr>cc_Failures = 3, cc_Cooldown = Second\<rparr>"
  by (simp add: demo_route_def)

theorem circuit_open_denies_witness:
  "\<not> fst (fst (AllowAttempt demo_route 200 (br_run [BFail demo_route 6 100, BAllow demo_route 150]
     (FailAttempt demo_route 7 10 demo_breaker)))) \<and>
   fst (fst (AllowAttempt demo_route (2 * Second) (br_run [BFail demo_route 6 100, BAllow demo_route 150]
     (FailAttempt demo_route 7 10 demo_breaker))))"
  using circuit_open_denies [of demo_breaker 10 demo_route 7 "[BFail demo_route 6 100, BAllow demo_route 150]" 200]
    circuit_open_denies [of demo_breaker 10 demo_route 7 "[BFail demo_route 6 100, BAllow demo_route 150]" "2 * Second"]
  by (simp add: demo_entry_def needed_def)

theorem circuit_opens_at_threshold_witness:
  "let b = snd (AllowAttempt demo_route 3 NewBreaker); ops = [BFail demo_route 3 10, BFail demo_route 3 20]
   in fst (fst (AllowAttempt demo_route 25 (br_run ops b))) \<and>
      \<not> fst (fst (AllowAttempt demo_route 40 (FailAttempt demo_route 3 30 (br_run ops b))))"
proof -
  let ?b = "snd (AllowAttempt demo_route 3 NewBreaker)" and ?ops = "[BFail demo_route 3 10, BFail demo_route 3 20]"
  have "counting 3 Second 0 0 (br_get ?b (routeBreakerKey (Some demo_route)))"
    using routeAttemptStateTTL_ge [of demo_route]
    by (simp add: AllowAttempt_entry allow_entry_def counting_def)
  moreover have "br_wf ?b" using br_wf_step [of NewBreaker "BAllow demo_route 3"] by simp
  ultimately show ?thesis
    using circuit_opens_at_threshold [of ?b 3 Second 0 demo_route ?ops 3 30 25]
      circuit_opens_at_threshold [of ?b 3 Second 0 demo_route ?ops 3 30 40]
    by (simp add: Let_def)
qed

theorem stale_outcome_ignored_witness:
  "let ((_, a1), b1) = AllowAttempt demo_route 3 NewBreaker;
       ((_, a2), b2) = AllowAttempt demo_route 3 b1
   in a1 = 3 \<and> a2 = 4 \<and>
      br_get (SuccessAttempt demo_route a1 9 (FailAttempt demo_route a2 8 b2)) (routeBreakerKey (Some demo_route)) =
      br_get (FailAttempt demo_route a2 8 b2) (routeBreakerKey (Some demo_route))"
proof -
  let ?b1 = "snd (AllowAttempt demo_route 3 NewBreaker)"
  let ?b2 = "snd (AllowAttempt demo_route 3 ?b1)"
  have ttl: "releaseBuffer \<le> routeAttemptStateTTL (Some demo_route)" by (rule routeAttemptStateTTL_ge)
  have one: "AllowAttempt demo_route 3 NewBreaker = ((True, 3), ?b1)"
    by (simp add: AllowAttempt_def Let_def br_get_def NewBreaker_def)
  have two: "AllowAttempt demo_route 3 ?b1 = ((True, 4), ?b2)"
    using ttl by (simp add: AllowAttempt_def Let_def br_get_def br_put_def NewBreaker_def)
  have ev: "bs_LastSuccess (br_get ?b2 (routeBreakerKey (Some demo_route))) = 0"
    "bs_LastFailure (br_get ?b2 (routeBreakerKey (Some demo_route))) = 0"
    "bs_LastAdmission (br_get NewBreaker (routeBreakerKey (Some demo_route))) = 0"
    by (simp_all add: AllowAttempt_entry allow_entry_def)
  have t: "snd (fst (AllowAttempt demo_route 3 NewBreaker)) = 3" "snd (fst (AllowAttempt demo_route 3 ?b1)) = 4"
    using arg_cong [OF one, of "\<lambda>p. snd (fst p)"] arg_cong [OF two, of "\<lambda>p. snd (fst p)"] by simp_all
  show ?thesis
    unfolding Let_def split_def t
    using stale_outcome_ignored [of NewBreaker 3 demo_route 3 ?b1 3 "[]" 4 ?b2 "[]" 8 9] one two ev ttl by simp
qed

end
