(* ===== verification/Concurrency_Limiter.thy ===== *)
theory Concurrency_Limiter
  imports Circuit_Breaker
begin

text \<open>
  The process-local concurrency limits of \<open>policy/attempt.go\<close>: the \<open>limiter\<close> objects, the
  \<open>sync.Map\<close> that hands them out by key and the pruning that retires idle ones. Limiters are shared
  by pointer, so they live in a heap: an object's address is its index. The second half runs any
  number of goroutines over the heap, one atomic action at a time.
\<close>

section \<open>Limiters\<close>

record limiter =
  lim_current :: int
  lim_limit :: int
  lim_lastSeen :: instant
  lim_retired :: bool

definition zero_limiter :: limiter where
  "zero_limiter = \<lparr>lim_current = 0, lim_limit = 0, lim_lastSeen = 0, lim_retired = False\<rparr>"

text \<open>\<open>acquire\<close> answers (acquired, retired).\<close>

definition lim_acquire :: "int \<Rightarrow> instant \<Rightarrow> limiter \<Rightarrow> (bool \<times> bool) \<times> limiter" where
  "lim_acquire limit now l =
     (if lim_retired l then ((False, True), l)
      else
        let l = l\<lparr>lim_limit := limit, lim_lastSeen := now\<rparr>
        in if lim_current l \<ge> lim_limit l then ((False, False), l)
           else ((True, False), l\<lparr>lim_current := i64 (lim_current l + 1)\<rparr>))"

definition lim_release :: "instant \<Rightarrow> limiter \<Rightarrow> limiter" where
  "lim_release now l =
     (let l = (if lim_current l > 0 then l\<lparr>lim_current := lim_current l - 1\<rparr> else l)
      in l\<lparr>lim_lastSeen := now\<rparr>)"

definition retireIfIdle :: "instant \<Rightarrow> limiter \<Rightarrow> bool \<times> limiter" where
  "retireIfIdle cutoff l =
     (if lim_current l \<noteq> 0 \<or> lim_lastSeen l > cutoff then (False, l) else (True, l\<lparr>lim_retired := True\<rparr>))"

section \<open>The map of limiters\<close>

record limiters =
  lm_objs :: "limiter list"
  lm_map :: "(string, nat) gomap"
  lm_operations :: "64 word"

definition no_limiters :: limiters where
  "no_limiters = \<lparr>lm_objs = [], lm_map = [], lm_operations = 0\<rparr>"

definition LoadOrStore :: "string \<Rightarrow> limiters \<Rightarrow> nat \<times> limiters" where
  "LoadOrStore key m =
     (case map_of (lm_map m) key of
        Some a \<Rightarrow> (a, m)
      | None \<Rightarrow>
          let a = length (lm_objs m)
          in (a, m\<lparr>lm_objs := lm_objs m @ [zero_limiter], lm_map := AList.update key a (lm_map m)\<rparr>))"

definition CompareAndDelete :: "string \<Rightarrow> nat \<Rightarrow> limiters \<Rightarrow> limiters" where
  "CompareAndDelete key a m =
     (if map_of (lm_map m) key = Some a then m\<lparr>lm_map := AList.delete key (lm_map m)\<rparr> else m)"

definition lim_put :: "nat \<Rightarrow> limiter \<Rightarrow> limiters \<Rightarrow> limiters" where
  "lim_put a l m = m\<lparr>lm_objs := (lm_objs m)[a := l]\<rparr>"

text \<open>One entry of the \<open>Range\<close> of \<open>pruneLimiters\<close>, and the loop.\<close>

definition pruneEntry :: "instant \<Rightarrow> string \<times> nat \<Rightarrow> limiters \<Rightarrow> limiters" where
  "pruneEntry cutoff e m =
     (let (key, a) = e;
          (idle, l) = retireIfIdle cutoff (lm_objs m ! a);
          m = lim_put a l m
      in if idle then CompareAndDelete key a m else m)"

definition pruneLimiters :: "instant \<Rightarrow> limiters \<Rightarrow> limiters" where
  "pruneLimiters now m = fold (pruneEntry (now - localPolicyStateIdleTTL)) (lm_map m) m"

text \<open>
  The loop of \<open>acquireLimiter\<close>: a retired limiter is dropped from the map and the loop tries again.
  The result is the address of the limiter that gave a slot, or nothing when the limit is reached.
\<close>

definition stale :: "string \<Rightarrow> limiters \<Rightarrow> bool" where
  "stale key m = (case map_of (lm_map m) key of None \<Rightarrow> False | Some a \<Rightarrow> lim_retired (lm_objs m ! a))"

function acquireLoop :: "string \<Rightarrow> int \<Rightarrow> instant \<Rightarrow> limiters \<Rightarrow> nat option \<times> limiters" where
  "acquireLoop key limit now m =
     (let (a, m) = LoadOrStore key m;
          answer = lim_acquire limit now (lm_objs m ! a);
          acquired = fst (fst answer);
          retired = snd (fst answer);
          m = lim_put a (snd answer) m
      in if retired then acquireLoop key limit now (CompareAndDelete key a m)
         else if \<not> acquired then (None, m)
         else (Some a, m))"
  by pat_completeness auto

lemma retired_entry_dropped:
  assumes "LoadOrStore key m = (a, m1)" "snd (fst (lim_acquire limit now (lm_objs m1 ! a)))"
  shows "stale key m \<and> \<not> stale key (CompareAndDelete key a (lim_put a (snd (lim_acquire limit now (lm_objs m1 ! a))) m1))"
proof (cases "map_of (lm_map m) key")
  case None
  then have "lm_objs m1 ! a = zero_limiter" using assms(1) by (auto simp: LoadOrStore_def Let_def)
  then show ?thesis using assms(2) by (simp add: lim_acquire_def zero_limiter_def Let_def split: if_splits)
next
  case (Some x)
  then have "a = x" "m1 = m" using assms(1) by (auto simp: LoadOrStore_def)
  moreover have "lim_retired (lm_objs m1 ! a)" using assms(2) by (auto simp: lim_acquire_def Let_def split: if_splits)
  ultimately show ?thesis using Some by (simp add: stale_def CompareAndDelete_def lim_put_def)
qed

termination acquireLoop
  by (relation "measure (\<lambda>(key, limit, now, m). if stale key m then 1 else 0)")
    (auto dest: retired_entry_dropped [OF sym])

declare acquireLoop.simps [simp del]

text \<open>
  \<open>acquireLimiter\<close> with its operation counter; a limit of zero or less takes no slot. The \<open>Some\<close>
  result is what the release function does: nothing, or \<open>release\<close> on a limiter.
\<close>

datatype slot = NoSlot | Slot nat

definition acquireLimiter :: "string \<Rightarrow> int \<Rightarrow> instant \<Rightarrow> limiters \<Rightarrow> slot option \<times> limiters" where
  "acquireLimiter key limit now m =
     (if limit \<le> 0 then (Some NoSlot, m)
      else
        let m = m\<lparr>lm_operations := lm_operations m + 1\<rparr>;
            m = (if lm_operations m mod localPolicyPruneEvery = 0 then pruneLimiters now m else m);
            (got, m) = acquireLoop key limit now m
        in (map_option Slot got, m))"

fun releaseSlot :: "instant \<Rightarrow> slot \<Rightarrow> limiters \<Rightarrow> limiters" where
  "releaseSlot now NoSlot m = m"
| "releaseSlot now (Slot a) m = lim_put a (lim_release now (lm_objs m ! a)) m"


section \<open>Goroutines\<close>

text \<open>
  A goroutine in \<open>acquireLimiter\<close> is about to load its limiter, about to acquire it, about to drop a
  retired one, or holds a slot until it releases it; a pruning goroutine has seen an entry of the map
  or is about to delete one it retired. Each step is one atomic action of the code.
\<close>

datatype task =
  TLoad string int instant | TAcquire string int instant nat | TDrop string int instant nat
  | THold string nat | TSeen string nat instant | TEvict string nat | TDone

record sys =
  sy_lim :: limiters
  sy_tasks :: "task list"

definition sys0 :: sys where
  "sys0 = \<lparr>sy_lim = no_limiters, sy_tasks = []\<rparr>"

definition set_task :: "nat \<Rightarrow> task \<Rightarrow> limiters \<Rightarrow> sys \<Rightarrow> sys" where
  "set_task i t m s = \<lparr>sy_lim = m, sy_tasks = (sy_tasks s)[i := t]\<rparr>"

inductive lim_step :: "(string \<Rightarrow> int) \<Rightarrow> sys \<Rightarrow> sys \<Rightarrow> bool" for bound where
  Call: "limit \<le> bound key \<Longrightarrow>
    lim_step bound s (s\<lparr>sy_tasks := sy_tasks s @ [TLoad key limit now]\<rparr>)"
| Load: "i < length (sy_tasks s) \<Longrightarrow> sy_tasks s ! i = TLoad key limit now \<Longrightarrow>
    LoadOrStore key (sy_lim s) = (a, m) \<Longrightarrow>
    lim_step bound s (set_task i (TAcquire key limit now a) m s)"
| Acquire: "i < length (sy_tasks s) \<Longrightarrow> sy_tasks s ! i = TAcquire key limit now a \<Longrightarrow>
    lim_acquire limit now (lm_objs (sy_lim s) ! a) = ((acquired, retired), l) \<Longrightarrow>
    lim_step bound s
      (set_task i (if retired then TDrop key limit now a else if acquired then THold key a else TDone)
        (lim_put a l (sy_lim s)) s)"
| Drop: "i < length (sy_tasks s) \<Longrightarrow> sy_tasks s ! i = TDrop key limit now a \<Longrightarrow>
    lim_step bound s (set_task i (TLoad key limit now) (CompareAndDelete key a (sy_lim s)) s)"
| Release: "i < length (sy_tasks s) \<Longrightarrow> sy_tasks s ! i = THold key a \<Longrightarrow>
    lim_step bound s (set_task i TDone (releaseSlot now (Slot a) (sy_lim s)) s)"
| Range: "map_of (lm_map (sy_lim s)) key = Some a \<Longrightarrow>
    lim_step bound s (s\<lparr>sy_tasks := sy_tasks s @ [TSeen key a cutoff]\<rparr>)"
| Retire: "i < length (sy_tasks s) \<Longrightarrow> sy_tasks s ! i = TSeen key a cutoff \<Longrightarrow>
    retireIfIdle cutoff (lm_objs (sy_lim s) ! a) = (idle, l) \<Longrightarrow>
    lim_step bound s (set_task i (if idle then TEvict key a else TDone) (lim_put a l (sy_lim s)) s)"
| Evict: "i < length (sy_tasks s) \<Longrightarrow> sy_tasks s ! i = TEvict key a \<Longrightarrow>
    lim_step bound s (set_task i TDone (CompareAndDelete key a (sy_lim s)) s)"

inductive lim_reach :: "(string \<Rightarrow> int) \<Rightarrow> sys \<Rightarrow> bool" for bound where
  Init: "lim_reach bound sys0"
| Step: "lim_reach bound s \<Longrightarrow> lim_step bound s s' \<Longrightarrow> lim_reach bound s'"

section \<open>The invariant of the heap\<close>

fun holds_at :: "nat \<Rightarrow> task \<Rightarrow> bool" where
  "holds_at a (THold k b) \<longleftrightarrow> b = a"
| "holds_at a _ \<longleftrightarrow> False"

fun holds_key :: "string \<Rightarrow> task \<Rightarrow> bool" where
  "holds_key k (THold k' b) \<longleftrightarrow> k' = k"
| "holds_key k _ \<longleftrightarrow> False"

definition holders :: "(task \<Rightarrow> bool) \<Rightarrow> sys \<Rightarrow> int" where
  "holders P s = int (length (filter P (sy_tasks s)))"

definition ref_ok :: "limiters \<Rightarrow> string \<Rightarrow> nat \<Rightarrow> bool" where
  "ref_ok m k a \<longleftrightarrow>
     a < length (lm_objs m) \<and> (map_of (lm_map m) k = Some a \<or> lim_retired (lm_objs m ! a))"

definition gone :: "limiters \<Rightarrow> nat \<Rightarrow> bool" where
  "gone m a \<longleftrightarrow> a < length (lm_objs m) \<and> lim_retired (lm_objs m ! a)"

fun task_ok :: "(string \<Rightarrow> int) \<Rightarrow> limiters \<Rightarrow> task \<Rightarrow> bool" where
  "task_ok bound m (TLoad k limit now) \<longleftrightarrow> limit \<le> bound k"
| "task_ok bound m (TAcquire k limit now a) \<longleftrightarrow> limit \<le> bound k \<and> ref_ok m k a"
| "task_ok bound m (TDrop k limit now a) \<longleftrightarrow> limit \<le> bound k \<and> gone m a"
| "task_ok bound m (THold k a) \<longleftrightarrow> ref_ok m k a"
| "task_ok bound m (TSeen k a cutoff) \<longleftrightarrow> ref_ok m k a"
| "task_ok bound m (TEvict k a) \<longleftrightarrow> gone m a"
| "task_ok bound m TDone \<longleftrightarrow> True"

definition cur :: "limiters \<Rightarrow> nat \<Rightarrow> int" where
  "cur m a = (if a < length (lm_objs m) then lim_current (lm_objs m ! a) else 0)"

definition count_holds :: "nat \<Rightarrow> task list \<Rightarrow> int" where
  "count_holds a ts = int (length (filter (holds_at a) ts))"

text \<open>What the map and the objects satisfy, and how they may change under a running goroutine.\<close>

definition map_ok :: "(string \<Rightarrow> int) \<Rightarrow> limiters \<Rightarrow> bool" where
  "map_ok bound m \<longleftrightarrow>
     (\<forall>k a. map_of (lm_map m) k = Some a \<longrightarrow>
        a < length (lm_objs m) \<and> cur m a \<le> max 0 (bound k) \<and>
        (\<forall>k'. map_of (lm_map m) k' = Some a \<longrightarrow> k' = k))"

definition lm_le :: "limiters \<Rightarrow> limiters \<Rightarrow> bool" where
  "lm_le m m' \<longleftrightarrow>
     length (lm_objs m) \<le> length (lm_objs m') \<and>
     (\<forall>a < length (lm_objs m). lim_retired (lm_objs m ! a) \<longrightarrow> lim_retired (lm_objs m' ! a)) \<and>
     (\<forall>k a. a < length (lm_objs m) \<longrightarrow> map_of (lm_map m) k = Some a \<longrightarrow>
        map_of (lm_map m') k = Some a \<or> lim_retired (lm_objs m' ! a))"

definition lim_inv :: "(string \<Rightarrow> int) \<Rightarrow> sys \<Rightarrow> bool" where
  "lim_inv bound s \<longleftrightarrow>
     map_ok bound (sy_lim s) \<and> (\<forall>t \<in> set (sy_tasks s). task_ok bound (sy_lim s) t) \<and>
     (\<forall>a. cur (sy_lim s) a = count_holds a (sy_tasks s)) \<and>
     (\<forall>a. gone (sy_lim s) a \<longrightarrow> cur (sy_lim s) a = 0)"

lemma gone_mono: "lm_le m m' \<Longrightarrow> gone m a \<Longrightarrow> gone m' a"
  by (auto simp: lm_le_def gone_def)

lemma ref_ok_mono: "lm_le m m' \<Longrightarrow> ref_ok m k a \<Longrightarrow> ref_ok m' k a"
  unfolding lm_le_def ref_ok_def by (metis order_less_le_trans)

lemma task_ok_mono: "lm_le m m' \<Longrightarrow> task_ok bound m t \<Longrightarrow> task_ok bound m' t"
  by (cases t) (auto intro: gone_mono ref_ok_mono)

text \<open>Replacing one element of a list in a count.\<close>

lemma count_update:
  assumes "i < length xs"
  shows "int (length (filter P (xs[i := x]))) =
    int (length (filter P xs)) - (if P (xs ! i) then 1 else 0) + (if P x then 1 else 0)"
  using assms
proof (induction xs arbitrary: i)
  case (Cons y ys)
  show ?case
  proof (cases i)
    case (Suc j)
    then show ?thesis using Cons.IH [of j] Cons.prems by (cases "P x"; cases "P (ys ! j)") simp_all
  qed simp
qed simp

abbreviation one_if :: "bool \<Rightarrow> int" where
  "one_if b \<equiv> if b then 1 else 0"

lemma count_holds_nonneg [simp]: "0 \<le> count_holds a ts"
  by (simp add: count_holds_def)

lemma count_holds_pos: "t \<in> set ts \<Longrightarrow> holds_at a t \<Longrightarrow> 0 < count_holds a ts"
  by (auto simp: count_holds_def filter_empty_conv)

text \<open>A goroutine's step keeps the invariant when the counters move with its hold.\<close>

lemma set_task_inv:
  assumes "lim_inv bound s" "i < length (sy_tasks s)" "lm_le (sy_lim s) m" "map_ok bound m" "task_ok bound m t"
    "\<And>a. cur m a = cur (sy_lim s) a - one_if (holds_at a (sy_tasks s ! i)) + one_if (holds_at a t)"
    "\<And>a. gone m a \<Longrightarrow> cur m a = 0"
  shows "lim_inv bound (set_task i t m s)"
proof -
  have "\<forall>x \<in> set ((sy_tasks s)[i := t]). task_ok bound m x"
    using assms(1,3,5) set_update_subset_insert [of "sy_tasks s" i t] task_ok_mono [OF assms(3)]
    by (auto simp: lim_inv_def)
  moreover have "cur m a = count_holds a ((sy_tasks s)[i := t])" for a
    using assms(1,6) count_update [OF assms(2), of "holds_at a" t] by (simp add: lim_inv_def count_holds_def)
  ultimately show ?thesis using assms(4,7) by (simp add: lim_inv_def set_task_def)
qed

lemma lm_le_refl [simp]: "lm_le m m"
  by (simp add: lm_le_def)

lemma lim_put_simps [simp]:
  "lm_map (lim_put a l m) = lm_map m" "length (lm_objs (lim_put a l m)) = length (lm_objs m)"
  "a < length (lm_objs m) \<Longrightarrow> lm_objs (lim_put a l m) ! b = (if b = a then l else lm_objs m ! b)"
  by (auto simp: lim_put_def nth_list_update)

lemma cur_put: "a < length (lm_objs m) \<Longrightarrow> cur (lim_put a l m) b = (if b = a then lim_current l else cur m b)"
  by (simp add: cur_def)

lemma gone_put: "a < length (lm_objs m) \<Longrightarrow> gone (lim_put a l m) b = (if b = a then lim_retired l else gone m b)"
  by (auto simp: gone_def)

lemma lm_le_put: "a < length (lm_objs m) \<Longrightarrow> (lim_retired (lm_objs m ! a) \<Longrightarrow> lim_retired l) \<Longrightarrow> lm_le m (lim_put a l m)"
  by (simp add: lm_le_def)

lemma ref_ok_put:
  "ref_ok m k a \<Longrightarrow> (lim_retired (lm_objs m ! a) \<Longrightarrow> lim_retired l) \<Longrightarrow> ref_ok (lim_put a l m) k b = ref_ok m k b \<or> b = a"
  by (auto simp: ref_ok_def)

lemma map_ok_put:
  assumes "map_ok bound m" "ref_ok m k a" "lim_current l \<le> max 0 (bound k) \<or> lim_current l \<le> cur m a"
    "lim_retired (lm_objs m ! a) \<Longrightarrow> lim_current l \<le> cur m a"
  shows "map_ok bound (lim_put a l m)"
  unfolding map_ok_def
proof (intro allI impI)
  fix k' b
  assume "map_of (lm_map (lim_put a l m)) k' = Some b"
  then have kb: "map_of (lm_map m) k' = Some b" by simp
  have a: "a < length (lm_objs m)" using assms(2) by (simp add: ref_ok_def)
  have old: "b < length (lm_objs m)" "cur m b \<le> max 0 (bound k')" "\<forall>k''. map_of (lm_map m) k'' = Some b \<longrightarrow> k'' = k'"
    using assms(1) kb by (auto simp: map_ok_def)
  have "lim_current l \<le> max 0 (bound k')" if "b = a"
    using assms(2-4) old that by (auto simp: ref_ok_def)
  then show "b < length (lm_objs (lim_put a l m)) \<and> cur (lim_put a l m) b \<le> max 0 (bound k') \<and>
      (\<forall>k''. map_of (lm_map (lim_put a l m)) k'' = Some b \<longrightarrow> k'' = k')"
    using old a by (simp add: cur_put)
qed

lemma CompareAndDelete_simps [simp]:
  "lm_objs (CompareAndDelete k a m) = lm_objs m" "cur (CompareAndDelete k a m) = cur m"
  "gone (CompareAndDelete k a m) = gone m"
  "map_of (lm_map (CompareAndDelete k a m)) k' =
     (if k' = k \<and> map_of (lm_map m) k = Some a then None else map_of (lm_map m) k')"
  by (simp_all add: CompareAndDelete_def cur_def gone_def fun_eq_iff)

lemma CompareAndDelete_gone:
  assumes "gone m a"
  shows "lm_le m (CompareAndDelete k a m)" "map_ok bound m \<Longrightarrow> map_ok bound (CompareAndDelete k a m)"
  using assms by (auto simp: lm_le_def gone_def map_ok_def)

lemma LoadOrStore_inv:
  assumes "LoadOrStore k m = (a, m')" "map_ok bound m"
  shows "lm_le m m' \<and> map_ok bound m' \<and> ref_ok m' k a \<and> cur m' = cur m \<and> gone m' = gone m"
proof (cases "map_of (lm_map m) k")
  case None
  then have m': "a = length (lm_objs m)" "m' = m\<lparr>lm_objs := lm_objs m @ [zero_limiter], lm_map := AList.update k a (lm_map m)\<rparr>"
    using assms(1) by (auto simp: LoadOrStore_def Let_def)
  have c: "cur m' = cur m" "gone m' = gone m" "cur m a = 0"
    by (auto simp: fun_eq_iff m' cur_def gone_def nth_append zero_limiter_def less_Suc_eq)
  have "lm_le m m'" "ref_ok m' k a" using None by (auto simp: m' lm_le_def ref_ok_def nth_append)
  moreover have "map_ok bound m'"
    using assms(2) c(1,3) by (auto simp: map_ok_def) (auto simp: m' intro: less_SucI split: if_splits)
  ultimately show ?thesis using c by simp
next
  case (Some x)
  then show ?thesis using assms by (auto simp: LoadOrStore_def map_ok_def ref_ok_def)
qed


section \<open>Every step keeps the invariant\<close>

lemma lim_inv_refs:
  assumes "lim_inv bound s" "i < length (sy_tasks s)" "sy_tasks s ! i = t"
  shows "task_ok bound (sy_lim s) t" "map_ok bound (sy_lim s)" "cur (sy_lim s) a = count_holds a (sy_tasks s)"
    "gone (sy_lim s) a \<Longrightarrow> cur (sy_lim s) a = 0" "0 \<le> cur (sy_lim s) a"
    "holds_at a t \<Longrightarrow> 0 < cur (sy_lim s) a"
  using assms nth_mem [OF assms(2)] count_holds_pos [of t "sy_tasks s" a] by (auto simp: lim_inv_def)

lemma append_task_inv:
  assumes "lim_inv bound s" "task_ok bound (sy_lim s) t" "\<And>a. \<not> holds_at a t"
  shows "lim_inv bound (s\<lparr>sy_tasks := sy_tasks s @ [t]\<rparr>)"
  using assms by (auto simp: lim_inv_def count_holds_def)

lemma cur_ref: "ref_ok m k a \<Longrightarrow> cur m a = lim_current (lm_objs m ! a)"
  by (simp add: cur_def ref_ok_def)

lemma Acquire_inv:
  assumes inv: "lim_inv bound s" and i: "i < length (sy_tasks s)" "sy_tasks s ! i = TAcquire key limit now a"
    and l: "lim_acquire limit now (lm_objs (sy_lim s) ! a) = ((acquired, retired), l)"
    and small: "bound key \<le> MaxInt64"
  shows "lim_inv bound (set_task i (if retired then TDrop key limit now a else if acquired then THold key a else TDone)
    (lim_put a l (sy_lim s)) s)"
proof -
  let ?m = "sy_lim s"
  note r = lim_inv_refs [OF inv i]
  have ref: "ref_ok ?m key a" and lim: "limit \<le> bound key" using r(1) by simp_all
  have a: "a < length (lm_objs ?m)" using ref by (simp add: ref_ok_def)
  have c: "cur ?m a = lim_current (lm_objs ?m ! a)" "0 \<le> cur ?m a" using cur_ref [OF ref] r(5) [of a] by simp_all
  have l': "retired = lim_retired (lm_objs ?m ! a)" "lim_retired l = lim_retired (lm_objs ?m ! a)"
    "lim_current l = cur ?m a + one_if (acquired \<and> \<not> retired)" "acquired \<and> \<not> retired \<Longrightarrow> cur ?m a < limit"
    using l c lim small by (auto simp: lim_acquire_def Let_def split: if_splits)
  show ?thesis
  proof (rule set_task_inv [OF inv i(1)])
    show "lm_le ?m (lim_put a l ?m)" by (rule lm_le_put [OF a]) (simp add: l')
    show "map_ok bound (lim_put a l ?m)"
      by (rule map_ok_put [OF r(2) ref]) (use l' lim in auto)
    show "task_ok bound (lim_put a l ?m) (if retired then TDrop key limit now a else if acquired then THold key a else TDone)"
      using ref lim l' a by (auto simp: gone_put ref_ok_def gone_def)
    show "cur (lim_put a l ?m) b = cur ?m b - one_if (holds_at b (sy_tasks s ! i)) +
        one_if (holds_at b (if retired then TDrop key limit now a else if acquired then THold key a else TDone))" for b
      using i(2) l'(3) by (auto simp: cur_put [OF a])
    show "gone (lim_put a l ?m) b \<Longrightarrow> cur (lim_put a l ?m) b = 0" for b
      using lim_inv_refs(4) [OF inv i, of b] l' a by (auto simp: cur_put gone_put gone_def split: if_splits)
  qed
qed

lemma Release_inv:
  assumes inv: "lim_inv bound s" and i: "i < length (sy_tasks s)" "sy_tasks s ! i = THold key a"
  shows "lim_inv bound (set_task i TDone (releaseSlot now (Slot a) (sy_lim s)) s)"
proof -
  let ?m = "sy_lim s" and ?l = "lim_release now (lm_objs (sy_lim s) ! a)"
  note r = lim_inv_refs [OF inv i]
  have ref: "ref_ok ?m key a" using r(1) by simp
  then have a: "a < length (lm_objs ?m)" by (simp add: ref_ok_def)
  have pos: "0 < cur ?m a" using r(6) by simp
  have l: "lim_current ?l = cur ?m a - 1" "lim_retired ?l = lim_retired (lm_objs ?m ! a)"
    using cur_ref [OF ref] pos by (simp_all add: lim_release_def Let_def)
  have live: "\<not> lim_retired (lm_objs ?m ! a)" using r(4) [of a] pos a by (auto simp: gone_def)
  show ?thesis unfolding releaseSlot.simps
  proof (rule set_task_inv [OF inv i(1)])
    show "lm_le ?m (lim_put a ?l ?m)" by (rule lm_le_put [OF a]) (simp add: l)
    show "map_ok bound (lim_put a ?l ?m)" by (rule map_ok_put [OF r(2) ref]) (use l in auto)
    show "cur (lim_put a ?l ?m) b = cur ?m b - one_if (holds_at b (sy_tasks s ! i)) + one_if (holds_at b TDone)" for b
      using i(2) l(1) by (auto simp: cur_put [OF a])
    show "gone (lim_put a ?l ?m) b \<Longrightarrow> cur (lim_put a ?l ?m) b = 0" for b
      using lim_inv_refs(4) [OF inv i, of b] l live by (auto simp: cur_put [OF a] gone_put [OF a] split: if_splits)
  qed simp
qed

lemma Retire_inv:
  assumes inv: "lim_inv bound s" and i: "i < length (sy_tasks s)" "sy_tasks s ! i = TSeen key a cutoff"
    and l: "retireIfIdle cutoff (lm_objs (sy_lim s) ! a) = (idle, l)"
  shows "lim_inv bound (set_task i (if idle then TEvict key a else TDone) (lim_put a l (sy_lim s)) s)"
proof -
  let ?m = "sy_lim s"
  note r = lim_inv_refs [OF inv i]
  have ref: "ref_ok ?m key a" using r(1) by simp
  then have a: "a < length (lm_objs ?m)" by (simp add: ref_ok_def)
  have l': "lim_current l = cur ?m a" "lim_retired l \<longleftrightarrow> idle \<or> lim_retired (lm_objs ?m ! a)" "idle \<Longrightarrow> cur ?m a = 0"
    using l cur_ref [OF ref] by (auto simp: retireIfIdle_def split: if_splits)
  show ?thesis
  proof (rule set_task_inv [OF inv i(1)])
    show "lm_le ?m (lim_put a l ?m)" by (rule lm_le_put [OF a]) (simp add: l')
    show "map_ok bound (lim_put a l ?m)" by (rule map_ok_put [OF r(2) ref]) (use l' in auto)
    show "task_ok bound (lim_put a l ?m) (if idle then TEvict key a else TDone)" using l' a by (simp add: gone_put)
    show "cur (lim_put a l ?m) b = cur ?m b - one_if (holds_at b (sy_tasks s ! i)) +
        one_if (holds_at b (if idle then TEvict key a else TDone))" for b
      using i(2) l'(1) by (auto simp: cur_put [OF a])
    show "gone (lim_put a l ?m) b \<Longrightarrow> cur (lim_put a l ?m) b = 0" for b
      using lim_inv_refs(4) [OF inv i, of b] l' a by (auto simp: cur_put gone_put gone_def split: if_splits)
  qed
qed

lemma lim_step_inv:
  assumes "lim_step bound s s'" "lim_inv bound s" "\<And>k. bound k \<le> MaxInt64"
  shows "lim_inv bound s'"
  using assms(1)
proof cases
  case (Call limit key now)
  then show ?thesis using assms(2) append_task_inv [of bound s] by simp
next
  case (Load i key limit now a m)
  have ok: "map_ok bound (sy_lim s)" and lim: "limit \<le> bound key" and z: "gone (sy_lim s) b \<Longrightarrow> cur (sy_lim s) b = 0" for b
    using lim_inv_refs [OF assms(2) Load(2,3)] by simp_all
  note ls = LoadOrStore_inv [OF Load(4) ok]
  show ?thesis unfolding Load(1)
    by (rule set_task_inv [OF assms(2) Load(2)]) (use ls lim z Load(3) in auto)
next
  case (Acquire i key limit now a acquired retired l)
  then show ?thesis using Acquire_inv [OF assms(2)] assms(3) by simp
next
  case (Drop i key limit now a)
  have ok: "map_ok bound (sy_lim s)" and g: "limit \<le> bound key" "gone (sy_lim s) a"
    and z: "gone (sy_lim s) b \<Longrightarrow> cur (sy_lim s) b = 0" for b
    using lim_inv_refs [OF assms(2) Drop(2,3)] by simp_all
  show ?thesis unfolding Drop(1)
    by (rule set_task_inv [OF assms(2) Drop(2)])
      (use CompareAndDelete_gone [OF g(2)] ok g z Drop(3) in auto)
next
  case (Release i key a now)
  then show ?thesis using Release_inv [OF assms(2)] by simp
next
  case (Range key a cutoff)
  have "ref_ok (sy_lim s) key a" using Range assms(2) by (auto simp: lim_inv_def map_ok_def ref_ok_def)
  then show ?thesis using Range assms(2) append_task_inv [of bound s] by simp
next
  case (Retire i key a cutoff idle l)
  then show ?thesis using Retire_inv [OF assms(2)] by simp
next
  case (Evict i key a)
  have ok: "map_ok bound (sy_lim s)" and g: "gone (sy_lim s) a" and z: "gone (sy_lim s) b \<Longrightarrow> cur (sy_lim s) b = 0" for b
    using lim_inv_refs [OF assms(2) Evict(2,3)] by simp_all
  show ?thesis unfolding Evict(1)
    by (rule set_task_inv [OF assms(2) Evict(2)]) (use CompareAndDelete_gone [OF g] ok z Evict(3) in auto)
qed

lemma lim_reach_inv: "lim_reach bound s \<Longrightarrow> (\<And>k. bound k \<le> MaxInt64) \<Longrightarrow> lim_inv bound s"
proof (induction rule: lim_reach.induct)
  case Init
  show ?case by (simp add: lim_inv_def sys0_def no_limiters_def map_ok_def cur_def count_holds_def gone_def)
next
  case (Step s s')
  then show ?case using lim_step_inv by blast
qed


text \<open>All holders of a key hold the limiter the map has for it.\<close>

lemma holder_mapped:
  assumes "lim_inv bound s" "THold k a \<in> set (sy_tasks s)"
  shows "map_of (lm_map (sy_lim s)) k = Some a"
proof -
  have "0 < cur (sy_lim s) a" using assms count_holds_pos [OF assms(2), of a] by (simp add: lim_inv_def)
  then have "\<not> gone (sy_lim s) a" using assms(1) by (auto simp: lim_inv_def)
  moreover have "task_ok bound (sy_lim s) (THold k a)" using assms by (simp only: lim_inv_def)
  ultimately show ?thesis by (auto simp: ref_ok_def gone_def)
qed

lemma holders_of_key:
  assumes "lim_inv bound s" "map_of (lm_map (sy_lim s)) k = Some a"
  shows "holders (holds_key k) s = cur (sy_lim s) a"
proof -
  have "holds_key k t \<longleftrightarrow> holds_at a t" if "t \<in> set (sy_tasks s)" for t
  proof (cases t)
    case (THold k' b)
    then have "map_of (lm_map (sy_lim s)) k' = Some b" using holder_mapped [OF assms(1)] that by simp
    moreover have "b = a \<Longrightarrow> map_of (lm_map (sy_lim s)) k' = Some b \<Longrightarrow> k' = k"
      using assms unfolding lim_inv_def map_ok_def by metis
    ultimately have "k' = k \<longleftrightarrow> b = a" using assms(2) by (metis option.inject)
    then show ?thesis using THold by simp
  qed simp_all
  then have "filter (holds_key k) (sy_tasks s) = filter (holds_at a) (sy_tasks s)" by (simp cong: filter_cong)
  then show ?thesis using assms(1) by (simp add: holders_def lim_inv_def count_holds_def)
qed

lemma no_holders:
  assumes "lim_inv bound s" "map_of (lm_map (sy_lim s)) k = None"
  shows "holders (holds_key k) s = 0"
proof -
  have "\<not> holds_key k t" if "t \<in> set (sy_tasks s)" for t
    using holder_mapped [OF assms(1)] assms(2) that by (cases t) auto
  then show ?thesis by (simp add: holders_def)
qed

section \<open>A call without interference\<close>

text \<open>Reachable counters: addresses of the map are valid and no counter is out of range.\<close>

definition lm_wf :: "limiters \<Rightarrow> bool" where
  "lm_wf m \<longleftrightarrow> (\<forall>k a. map_of (lm_map m) k = Some a \<longrightarrow> a < length (lm_objs m)) \<and> (\<forall>a. 0 \<le> cur m a) \<and>
     wf_gomap (lm_map m)"

lemma lm_wf_cur:
  "lm_wf m \<Longrightarrow> a < length (lm_objs m) \<Longrightarrow> cur m a = lim_current (lm_objs m ! a) \<and> 0 \<le> lim_current (lm_objs m ! a)"
  unfolding lm_wf_def cur_def by metis

lemma wf_map_delete [simp]: "wf_gomap (lm_map m) \<Longrightarrow> wf_gomap (lm_map (CompareAndDelete k a m))"
  by (simp add: CompareAndDelete_def)

lemma lm_wf_delete [simp]: "lm_wf m \<Longrightarrow> lm_wf (CompareAndDelete k a m)"
  by (simp add: lm_wf_def)

lemma lm_wf_none [simp]: "lm_wf no_limiters"
  by (simp add: lm_wf_def no_limiters_def cur_def)

lemma lm_wf_put: "lm_wf m \<Longrightarrow> a < length (lm_objs m) \<Longrightarrow> 0 \<le> lim_current l \<Longrightarrow> lm_wf (lim_put a l m)"
  by (simp add: lm_wf_def cur_put)

lemma LoadOrStore_wf:
  assumes "LoadOrStore k m = (a, m')" "lm_wf m"
  shows "lm_wf m' \<and> a < length (lm_objs m') \<and> cur m' = cur m"
proof (cases "map_of (lm_map m) k")
  case None
  then have m': "a = length (lm_objs m)" "m' = m\<lparr>lm_objs := lm_objs m @ [zero_limiter], lm_map := AList.update k a (lm_map m)\<rparr>"
    using assms(1) by (auto simp: LoadOrStore_def Let_def)
  have c: "cur m' = cur m" by (auto simp: fun_eq_iff m' cur_def nth_append zero_limiter_def less_Suc_eq)
  moreover have "lm_wf m'" using assms(2) c by (auto simp: lm_wf_def) (auto simp: m' intro: less_SucI split: if_splits)
  ultimately show ?thesis by (simp add: m')
next
  case (Some x)
  then show ?thesis using assms by (auto simp: LoadOrStore_def lm_wf_def)
qed

lemma pruneEntry_cur:
  assumes "lm_wf m" "snd e < length (lm_objs m)"
  shows "lm_wf (pruneEntry cutoff e m) \<and> cur (pruneEntry cutoff e m) = cur m \<and>
    length (lm_objs (pruneEntry cutoff e m)) = length (lm_objs m)"
proof -
  obtain k a where e: "e = (k, a)" by (cases e)
  have c: "lim_current (snd (retireIfIdle cutoff (lm_objs m ! a))) = cur m a"
    using assms(2) by (simp add: e cur_def retireIfIdle_def)
  have put: "cur (lim_put a (snd (retireIfIdle cutoff (lm_objs m ! a))) m) = cur m"
    using assms(2) c by (auto simp: fun_eq_iff cur_put e)
  have "lm_wf (lim_put a (snd (retireIfIdle cutoff (lm_objs m ! a))) m)"
    using assms c by (intro lm_wf_put) (auto simp: e lm_wf_def)
  then show ?thesis using put by (auto simp: pruneEntry_def e Let_def fun_eq_iff split: prod.splits)
qed

lemma prune_fold_cur:
  assumes "lm_wf m" "\<forall>e \<in> set es. snd e < length (lm_objs m)"
  shows "lm_wf (fold (pruneEntry cutoff) es m) \<and> cur (fold (pruneEntry cutoff) es m) = cur m"
  using assms
proof (induction es arbitrary: m)
  case (Cons e es)
  then show ?case using pruneEntry_cur [of m e cutoff] by simp
qed simp

lemma pruneLimiters_cur:
  assumes "lm_wf m"
  shows "lm_wf (pruneLimiters now m) \<and> cur (pruneLimiters now m) = cur m"
proof -
  have "\<forall>e \<in> set (lm_map m). snd e < length (lm_objs m)"
    using assms by (auto simp: lm_wf_def set_gomap_map_of)
  then show ?thesis unfolding pruneLimiters_def using prune_fold_cur [OF assms] by blast
qed


text \<open>
  One pass of \<open>acquireLimiter\<close> and the release it returns, with nobody in between: a granted slot
  raises exactly one counter by one, to at most the limit, a refusal raises none, and the release
  restores the counters.
\<close>

lemma acquireLoop_cur:
  assumes "lm_wf m" "limit \<le> MaxInt64" "acquireLoop key limit now m = (got, m')"
  shows "lm_wf m' \<and> (case got of
      None \<Rightarrow> cur m' = cur m
    | Some a \<Rightarrow> a < length (lm_objs m') \<and> cur m' = (cur m)(a := cur m a + 1) \<and> cur m' a \<le> limit)"
  using assms
proof (induction key limit now m rule: acquireLoop.induct)
  case (1 key limit now m)
  obtain a m1 where ls: "LoadOrStore key m = (a, m1)" by (cases "LoadOrStore key m")
  note w = LoadOrStore_wf [OF ls 1(2)]
  have co: "cur m1 a = lim_current (lm_objs m1 ! a)" "0 \<le> lim_current (lm_objs m1 ! a)"
    using w lm_wf_cur [of m1 a] by auto
  let ?ans = "lim_acquire limit now (lm_objs m1 ! a)"
  have l: "lim_current (snd ?ans) = cur m1 a + one_if (fst (fst ?ans))" "snd (fst ?ans) \<Longrightarrow> \<not> fst (fst ?ans)"
    "fst (fst ?ans) \<Longrightarrow> cur m1 a < limit"
    using co 1(3) by (auto simp: lim_acquire_def Let_def split: if_splits)
  let ?m2 = "lim_put a (snd ?ans) m1"
  have c: "cur ?m2 = (cur m)(a := cur m a + one_if (fst (fst ?ans)))"
    using w l(1) by (auto simp: fun_eq_iff cur_put)
  have "lm_wf ?m2" using w l(1) by (intro lm_wf_put) (auto simp: lm_wf_def)
  then show ?case
    using 1(1) [OF ls [symmetric] refl refl refl refl refl] 1(3,4) c l(2,3) w
    by (auto simp: acquireLoop.simps [of key limit now m] ls Let_def split: if_splits option.splits)
qed

lemma acquireLimiter_cur:
  assumes "lm_wf m" "limit \<le> MaxInt64" "acquireLimiter key limit now m = (got, m')"
  shows "lm_wf m' \<and> (case got of
      None \<Rightarrow> cur m' = cur m
    | Some NoSlot \<Rightarrow> m' = m
    | Some (Slot a) \<Rightarrow> a < length (lm_objs m') \<and> cur m' = (cur m)(a := cur m a + 1) \<and> cur m' a \<le> limit)"
proof (cases "limit \<le> 0")
  case True
  then show ?thesis using assms by (auto simp: acquireLimiter_def)
next
  case False
  let ?m = "m\<lparr>lm_operations := lm_operations m + 1\<rparr>"
  let ?p = "if lm_operations ?m mod localPolicyPruneEvery = 0 then pruneLimiters now ?m else ?m"
  have cm: "cur ?m = cur m" by (simp add: cur_def fun_eq_iff)
  then have m: "lm_wf ?m" "cur ?m = cur m" using assms(1) by (simp_all add: lm_wf_def)
  have p: "lm_wf ?p" "cur ?p = cur m" using pruneLimiters_cur [OF m(1), of now] m by simp_all
  obtain g where g: "acquireLoop key limit now ?p = (g, m')" "got = map_option Slot g"
    using False assms(3) by (auto simp: acquireLimiter_def Let_def split: prod.splits)
  show ?thesis using acquireLoop_cur [OF p(1) assms(2) g(1)] g(2) p(2) by (cases g) auto
qed

lemma releaseSlot_cur:
  assumes "lm_wf m" "0 < cur m a"
  shows "cur (releaseSlot now (Slot a) m) = (cur m)(a := cur m a - 1) \<and> lm_wf (releaseSlot now (Slot a) m)"
proof -
  have a: "a < length (lm_objs m)" using assms(2) by (simp add: cur_def split: if_splits)
  then have "lim_current (lim_release now (lm_objs m ! a)) = cur m a - 1"
    using assms by (simp add: lim_release_def cur_def Let_def)
  then show ?thesis using assms a by (auto simp: fun_eq_iff cur_put intro: lm_wf_put)
qed

section \<open>Properties\<close>

text \<open>
  C10. The concurrency limit holds. However the calls, releases and pruning of any number of
  goroutines interleave, the slots held for a key never exceed the largest limit asked for it, and
  the counter of the limiter in the map is exactly the number of slots held: none is lost or leaked
  when limiters are retired and replaced.
\<close>

theorem concurrency_limit_respected:
  assumes "lim_reach bound s" "\<forall>k. bound k \<le> MaxInt64"
  shows "holders (holds_key key) s \<le> max 0 (bound key) \<and>
    (case map_of (lm_map (sy_lim s)) key of
       None \<Rightarrow> holders (holds_key key) s = 0
     | Some a \<Rightarrow> lim_current (lm_objs (sy_lim s) ! a) = holders (holds_key key) s)"
proof -
  have inv: "lim_inv bound s" using lim_reach_inv assms by blast
  show ?thesis
  proof (cases "map_of (lm_map (sy_lim s)) key")
    case None
    then show ?thesis using no_holders [OF inv] by simp
  next
    case (Some a)
    have "a < length (lm_objs (sy_lim s))" "cur (sy_lim s) a \<le> max 0 (bound key)"
      using inv Some by (auto simp: lim_inv_def map_ok_def)
    then show ?thesis using Some holders_of_key [OF inv Some] by (simp add: cur_def)
  qed
qed

section \<open>Witnesses\<close>

definition demo_bound :: "string \<Rightarrow> int" where
  "demo_bound k = 1"

definition demo_limiter_held :: limiters where
  "demo_limiter_held = \<lparr>lm_objs = [\<lparr>lim_current = 1, lim_limit = 1, lim_lastSeen = 5, lim_retired = False\<rparr>],
     lm_map = [(''route:a'', 0)], lm_operations = 0\<rparr>"

text \<open>One goroutine loads and acquires, a second one is refused.\<close>

lemma demo_limiter_run:
  "lim_reach demo_bound \<lparr>sy_lim = demo_limiter_held, sy_tasks = [THold ''route:a'' 0]\<rparr>"
proof -
  have 1: "lim_reach demo_bound \<lparr>sy_lim = no_limiters, sy_tasks = [TLoad ''route:a'' 1 5]\<rparr>"
    using lim_reach.Step [OF lim_reach.Init lim_step.Call [of 1 demo_bound "''route:a''" sys0 5]]
    by (simp add: demo_bound_def sys0_def)
  have 2: "lim_reach demo_bound \<lparr>sy_lim = no_limiters\<lparr>lm_objs := [zero_limiter], lm_map := [(''route:a'', 0)]\<rparr>,
      sy_tasks = [TAcquire ''route:a'' 1 5 0]\<rparr>"
    using lim_reach.Step [OF 1 lim_step.Load [of 0 _ "''route:a''" 1 5 0]]
    by (simp add: set_task_def LoadOrStore_def no_limiters_def Let_def)
  show ?thesis
    using lim_reach.Step [OF 2 lim_step.Acquire [of 0 _ "''route:a''" 1 5 0 True False
      "\<lparr>lim_current = 1, lim_limit = 1, lim_lastSeen = 5, lim_retired = False\<rparr>"]]
    by (simp add: set_task_def lim_acquire_def zero_limiter_def lim_put_def demo_limiter_held_def no_limiters_def Let_def)
qed

theorem concurrency_limit_respected_witness:
  "holders (holds_key ''route:a'') \<lparr>sy_lim = demo_limiter_held, sy_tasks = [THold ''route:a'' 0]\<rparr> \<le> max 0 (demo_bound ''route:a'') \<and>
   holders (holds_key ''route:a'') \<lparr>sy_lim = demo_limiter_held, sy_tasks = [THold ''route:a'' 0]\<rparr> = 1"
  using concurrency_limit_respected [OF demo_limiter_run, of "''route:a''"]
  by (simp add: demo_bound_def holders_def)

end
