(* ===== verification/Attempt_Pipeline.thy ===== *)
theory Attempt_Pipeline
  imports Concurrency_Limiter
begin

text \<open>
  The attempt policies of \<open>policy/attempt.go\<close>: forwarded headers, and \<open>AttemptLimits\<close> with its
  circuit, concurrency and rate admission, its retries and the lifecycle of a streaming result.
  Calls that leave the package (the shared state store, the rate store, the reservation hooks, the
  next handler) are events: a call appends its event to the trace, and its answer is a function of
  the trace so far, so the environment may answer differently every time; the next handler may also panic.
  The background renewal of a distributed slot is not part of the trace.
\<close>

section \<open>Headers\<close>

text \<open>\<open>http.Header.Set\<close> on a key in canonical form.\<close>

definition SetHeader :: "string \<Rightarrow> string \<Rightarrow> ResolvedRoute \<Rightarrow> ResolvedRoute" where
  "SetHeader key value r = r\<lparr>rr_Headers := AList.update key [value] (rr_Headers r)\<rparr>"

definition maxForwardedIdentityBytes :: nat where
  "maxForwardedIdentityBytes = 512"

definition validateForwardedIdentity :: "string \<Rightarrow> string \<Rightarrow> goerr option" where
  "validateForwardedIdentity field value =
     (if length value > maxForwardedIdentityBytes then
        Some (api ((NewError 400 ''invalid_request_error'' ''invalid_metadata''
          (field @ '' exceeds the maximum length''))\<lparr>ae_Param := field\<rparr>))
      else if \<exists>c \<in> set value. byte c < 0x20 \<or> byte c = 0x7f then
        Some (api ((NewError 400 ''invalid_request_error'' ''invalid_metadata''
          (field @ '' contains invalid control characters''))\<lparr>ae_Param := field\<rparr>))
      else None)"

definition safeForwardedIdentity :: "string \<Rightarrow> bool" where
  "safeForwardedIdentity value \<longleftrightarrow> validateForwardedIdentity ''metadata'' value = None"

definition AttemptHeaders :: "Meta \<Rightarrow> Attempt \<Rightarrow> Attempt" where
  "AttemptHeaders meta attempt =
     (let r = at_Route attempt; route = the (rr_Route r);
          r = SetHeader ''X-Llmgw-Request-Id'' (m_RequestID meta) r;
          r = SetHeader ''X-Llmgw-Attempt'' (show_int (at_Number attempt)) r;
          r = SetHeader ''X-Llmgw-Retry'' (show_int (at_Retry attempt)) r;
          r = SetHeader ''X-Llmgw-Attempt-Id'' (at_ID attempt) r;
          r = SetHeader ''X-Llmgw-Provider'' (r_Provider route) r;
          r = SetHeader ''X-Llmgw-Route'' (r_Name route) r;
          r = SetHeader ''X-Llmgw-Model'' (r_Model route) r;
          r = (if m_User meta \<noteq> [] \<and> safeForwardedIdentity (m_User meta)
               then SetHeader ''X-Llmgw-User'' (m_User meta) r else r);
          r = (if m_Project meta \<noteq> [] \<and> safeForwardedIdentity (m_Project meta)
               then SetHeader ''X-Llmgw-Project'' (m_Project meta) r else r)
      in attempt\<lparr>at_Route := r\<rparr>)"

section \<open>The environment\<close>

record RateRequest =
  rt_Key :: string
  rt_Rate :: int
  rt_Burst :: int
  rt_Period :: duration
  rt_N :: int

datatype event =
  EvAcquireSlot string string int duration | EvReleaseSlot string string
  | EvBreakerAllow string instant | EvBreakerAllowAttempt string duration
  | EvBreakerSuccess string instant | EvBreakerSuccessAttempt string instant
  | EvBreakerFail string int duration instant | EvBreakerFailAttempt string instant int duration
  | EvUpdateError string goerr
  | EvReserve Attempt | EvRelease string
  | EvRateAllow RateRequest | EvRateBatch "RateRequest list"
  | EvNext Attempt

text \<open>Which store a deployment has: none, the original contract, or the ordered one.\<close>

datatype stateKind = NoState | PlainState | OrderedState

datatype rateStoreKind = NoRates | SingleRates | BatchRates

record attemptEnv =
  en_State :: stateKind
  en_Rates :: rateStoreKind
  en_OnBreakerUpdateError :: bool
  en_now :: clock
  en_ctxErr :: "event list \<Rightarrow> sentinel option"
  en_callCtxErr :: "event list \<Rightarrow> sentinel option"
  en_slot :: "event list \<Rightarrow> goerr option"
  en_allow :: "event list \<Rightarrow> goerr + bool"
  en_allowAttempt :: "event list \<Rightarrow> goerr + bool \<times> instant"
  en_update :: "event list \<Rightarrow> goerr option"
  en_reserve :: "event list \<Rightarrow> goerr option"
  en_rate :: "event list \<Rightarrow> goerr option"
  en_next :: "event list \<Rightarrow> (goerr + Result option) option"

text \<open>\<open>en_next\<close> is \<open>None\<close> when the next handler panics.\<close>

record world =
  w_trace :: "event list"
  w_tick :: nat
  w_breaker :: "Breaker option"
  w_limiters :: limiters

definition emit :: "event \<Rightarrow> world \<Rightarrow> world" where
  "emit e w = w\<lparr>w_trace := w_trace w @ [e]\<rparr>"

definition currentTime :: "attemptEnv \<Rightarrow> world \<Rightarrow> instant \<times> world" where
  "currentTime env w = (en_now env (w_tick w), w\<lparr>w_tick := Suc (w_tick w)\<rparr>)"

text \<open>\<open>ctx.Err() != nil && errors.Is(err, ctx.Err())\<close>\<close>

definition isCtxErr :: "attemptEnv \<Rightarrow> world \<Rightarrow> goerr \<Rightarrow> bool" where
  "isCtxErr env w err = (case en_ctxErr env (w_trace w) of None \<Rightarrow> False | Some s \<Rightarrow> err_is s err)"

definition unavailable :: "string \<Rightarrow> string \<Rightarrow> goerr \<Rightarrow> goerr" where
  "unavailable code message cause =
     ApiErr (WithDisposition False False False (NewError 503 ''server_error'' code message)) (Some cause)"

section \<open>Circuit admission\<close>

definition breakerAllow :: "attemptEnv \<Rightarrow> Route \<Rightarrow> world \<Rightarrow> (goerr + bool \<times> instant) \<times> world" where
  "breakerAllow env route w =
     (case en_State env of
        NoState \<Rightarrow>
          let (now, w) = currentTime env w
          in (case w_breaker w of
                Some b \<Rightarrow> let (answer, b) = AllowAttempt route now b in (Inr answer, w\<lparr>w_breaker := Some b\<rparr>)
              | None \<Rightarrow> (Inr (True, now), w))
      | kind \<Rightarrow>
          let key = routeBreakerKey (Some route);
              (startedAt, w) = currentTime env w;
              (answer, w) =
                (if kind = OrderedState
                 then let w = emit (EvBreakerAllowAttempt key (routeAttemptStateTTL (Some route))) w
                      in (en_allowAttempt env (w_trace w), w)
                 else let w = emit (EvBreakerAllow key startedAt) w
                      in (case en_allow env (w_trace w) of Inl e \<Rightarrow> Inl e | Inr a \<Rightarrow> Inr (a, startedAt), w))
          in (case answer of
                Inr a \<Rightarrow> (Inr a, w)
              | Inl err \<Rightarrow>
                  if isCtxErr env w err then (Inl err, w)
                  else (Inl (unavailable ''breaker_unavailable'' ''circuit breaker service is temporarily unavailable'' err), w)))"

definition updateErr :: "attemptEnv \<Rightarrow> string \<Rightarrow> world \<Rightarrow> world" where
  "updateErr env operation w =
     (case en_update env (w_trace w) of
        None \<Rightarrow> w
      | Some err \<Rightarrow> if en_OnBreakerUpdateError env then emit (EvUpdateError operation err) w else w)"

definition breakerSuccess :: "attemptEnv \<Rightarrow> Route \<Rightarrow> instant \<Rightarrow> world \<Rightarrow> world" where
  "breakerSuccess env route startedAt w =
     (case en_State env of
        NoState \<Rightarrow>
          (case w_breaker w of
             None \<Rightarrow> w
           | Some b \<Rightarrow> let (now, w) = currentTime env w in w\<lparr>w_breaker := Some (SuccessAttempt route startedAt now b)\<rparr>)
      | OrderedState \<Rightarrow>
          updateErr env ''success'' (emit (EvBreakerSuccessAttempt (routeBreakerKey (Some route)) startedAt) w)
      | PlainState \<Rightarrow>
          let (now, w) = currentTime env w
          in updateErr env ''success'' (emit (EvBreakerSuccess (routeBreakerKey (Some route)) now) w))"

definition breakerFail :: "attemptEnv \<Rightarrow> Route \<Rightarrow> instant \<Rightarrow> world \<Rightarrow> world" where
  "breakerFail env route startedAt w =
     (let c = r_Circuit route in
      case en_State env of
        NoState \<Rightarrow>
          (case w_breaker w of
             None \<Rightarrow> w
           | Some b \<Rightarrow> let (now, w) = currentTime env w in w\<lparr>w_breaker := Some (FailAttempt route startedAt now b)\<rparr>)
      | OrderedState \<Rightarrow>
          updateErr env ''failure''
            (emit (EvBreakerFailAttempt (routeBreakerKey (Some route)) startedAt (cc_Failures c) (cc_Cooldown c)) w)
      | PlainState \<Rightarrow>
          let (now, w) = currentTime env w
          in updateErr env ''failure''
               (emit (EvBreakerFail (routeBreakerKey (Some route)) (cc_Failures c) (cc_Cooldown c) now) w))"

section \<open>Concurrency admission\<close>

datatype heldSlot = FreeSlot | LocalSlot slot | DistSlot string string

fun releaseHeld :: "attemptEnv \<Rightarrow> heldSlot \<Rightarrow> world \<Rightarrow> world" where
  "releaseHeld env FreeSlot w = w"
| "releaseHeld env (LocalSlot NoSlot) w = w"
| "releaseHeld env (LocalSlot (Slot a)) w =
     (let (now, w) = currentTime env w in w\<lparr>w_limiters := releaseSlot now (Slot a) (w_limiters w)\<rparr>)"
| "releaseHeld env (DistSlot key token) w = emit (EvReleaseSlot key token) w"

definition acquireDistributedLimiter ::
  "attemptEnv \<Rightarrow> string \<Rightarrow> string \<Rightarrow> int \<Rightarrow> duration \<Rightarrow> string \<Rightarrow> world \<Rightarrow> (goerr + heldSlot) \<times> world" where
  "acquireDistributedLimiter env key token limit ttl message w =
     (if limit \<le> 0 then (Inr FreeSlot, w)
      else
        let w = emit (EvAcquireSlot key token limit ttl) w
        in (case en_slot env (w_trace w) of
              None \<Rightarrow> (Inr (DistSlot key token), w)
            | Some err \<Rightarrow>
                if isCtxErr env w err then (Inl err, w)
                else if ae_Status (AsAPIError err) = 429 then (Inl (api (RateLimited message)), w)
                else (Inl (unavailable ''distributed_limiter_unavailable''
                             ''concurrency limit service is temporarily unavailable'' err), w)))"

definition acquireLocal :: "attemptEnv \<Rightarrow> string \<Rightarrow> int \<Rightarrow> string \<Rightarrow> world \<Rightarrow> (goerr + heldSlot) \<times> world" where
  "acquireLocal env key limit message w =
     (if limit \<le> 0 then (Inr (LocalSlot NoSlot), w)
      else
        let (now, w) = currentTime env w;
            (got, m) = acquireLimiter key limit now (w_limiters w);
            w = w\<lparr>w_limiters := m\<rparr>
        in (case got of None \<Rightarrow> (Inl (api (RateLimited message)), w) | Some s \<Rightarrow> (Inr (LocalSlot s), w)))"

definition unixEpoch :: instant where
  "unixEpoch = 62135596800 * Second"

definition slotToken :: "attemptEnv \<Rightarrow> Meta \<Rightarrow> Attempt \<Rightarrow> Route \<Rightarrow> world \<Rightarrow> string \<times> world" where
  "slotToken env meta attempt route w =
     (let token = at_ID attempt;
          token = (if token = [] then
                     (let t = (if m_ExecutionID meta = [] then m_RequestID meta else m_ExecutionID meta)
                      in if t \<noteq> [] then t @ '':'' @ r_Name route else t)
                   else token)
      in if token = [] then
           let (now, w) = currentTime env w
           in (r_Name route @ '':'' @ show_int (i64 (now - unixEpoch)), w)
         else (token, w))"

text \<open>
  Both branches of \<open>acquire\<close> take the route's slot, then the provider's, and give the first back when
  the second is refused; the slots are listed in the order they are released.
\<close>

definition acquireWith ::
  "attemptEnv \<Rightarrow> (string \<Rightarrow> int \<Rightarrow> string \<Rightarrow> world \<Rightarrow> (goerr + heldSlot) \<times> world) \<Rightarrow> Route \<Rightarrow> world \<Rightarrow> (goerr + heldSlot list) \<times> world" where
  "acquireWith env tk route w =
     (let lc = r_Limits route;
          (first, w) = tk (''route:'' @ r_Name route) (lc_Concurrency lc) ''concurrency limit exceeded'' w
      in (case first of
            Inl err \<Rightarrow> (Inl err, w)
          | Inr routeSlot \<Rightarrow>
              let (second, w) = tk (''provider:'' @ r_Provider route) (lc_ProviderConcurrency lc)
                                  ''provider concurrency limit exceeded'' w
              in (case second of
                    Inl err \<Rightarrow> (Inl err, releaseHeld env routeSlot w)
                  | Inr providerSlot \<Rightarrow> (Inr [providerSlot, routeSlot], w))))"

definition acquire :: "attemptEnv \<Rightarrow> Meta \<Rightarrow> Attempt \<Rightarrow> Route \<Rightarrow> world \<Rightarrow> (goerr + heldSlot list) \<times> world" where
  "acquire env meta attempt route w =
     (if en_State env \<noteq> NoState then
        let (token, w) = slotToken env meta attempt route w;
            ttl = routeAttemptStateTTL (Some route)
        in acquireWith env (\<lambda>key limit message. acquireDistributedLimiter env key token limit ttl message) route w
      else acquireWith env (acquireLocal env) route w)"

definition releaseAll :: "attemptEnv \<Rightarrow> heldSlot list \<Rightarrow> world \<Rightarrow> world" where
  "releaseAll env held w = fold (releaseHeld env) held w"

section \<open>Rate admission\<close>

definition policy_saturatingAdd :: "int \<Rightarrow> int \<Rightarrow> int" where
  "policy_saturatingAdd first second =
     (let first = (if first < 0 then 0 else first); second = (if second < 0 then 0 else second)
      in if first > MaxInt64 - second then MaxInt64 else first + second)"

definition safeUsageTotal :: "Usage \<Rightarrow> int" where
  "safeUsageTotal usage =
     (let combined = policy_saturatingAdd (u_InputTokens usage) (u_OutputTokens usage)
      in if u_TotalTokens usage > combined then u_TotalTokens usage else combined)"

definition rateKind :: "string \<Rightarrow> string" where
  "rateKind key = (if HasPrefix key ''rpm:'' then ''rpm'' else if HasPrefix key ''tpm:'' then ''tpm'' else ''route'')"

definition rateAdmissionError :: "attemptEnv \<Rightarrow> world \<Rightarrow> goerr \<Rightarrow> string \<Rightarrow> goerr" where
  "rateAdmissionError env w err kind =
     (if isCtxErr env w err then err
      else if ae_Status (AsAPIError err) = 429 then api (RateLimited (kind @ '' limit exceeded''))
      else unavailable ''rate_store_unavailable'' ''rate limit service is temporarily unavailable'' err)"

text \<open>\<open>errors.As(err, &rejected)\<close> for \<open>*BatchRateLimitError\<close>.\<close>

fun as_batch :: "goerr \<Rightarrow> string option"
  and as_batch_list :: "goerr list \<Rightarrow> string option" where
  "as_batch (BatchRateLimitError k) = Some k"
| "as_batch (ApiErr a None) = None"
| "as_batch (ApiErr a (Some c)) = as_batch c"
| "as_batch (AttemptMeta e u b) = as_batch e"
| "as_batch (Wrapped m e) = as_batch e"
| "as_batch (Joined es) = as_batch_list es"
| "as_batch (Sentinel s) = None"
| "as_batch (Plain m) = None"
| "as_batch_list [] = None"
| "as_batch_list (e # es) = (case as_batch e of Some k \<Rightarrow> Some k | None \<Rightarrow> as_batch_list es)"

definition rateRequests :: "Usage \<Rightarrow> Attempt \<Rightarrow> Route \<Rightarrow> RateRequest list" where
  "rateRequests estimate attempt route =
     (let lc = r_Limits route;
          rpm = (if lc_RPM lc > 0
                 then [\<lparr>rt_Key = ''rpm:'' @ r_Name route, rt_Rate = lc_RPM lc, rt_Burst = lc_RPM lc, rt_Period = Minute, rt_N = 1\<rparr>]
                 else []);
          delta = safeUsageTotal (rr_Estimate (at_Route attempt));
          delta = (if delta \<le> 0 then safeUsageTotal estimate else delta);
          delta = (if delta \<le> 0 then 1 else delta);
          tpm = (if lc_TPM lc > 0
                 then [\<lparr>rt_Key = ''tpm:'' @ r_Name route, rt_Rate = lc_TPM lc, rt_Burst = lc_TPM lc, rt_Period = Minute, rt_N = delta\<rparr>]
                 else [])
      in rpm @ tpm)"

fun allowEach :: "attemptEnv \<Rightarrow> RateRequest list \<Rightarrow> world \<Rightarrow> goerr option \<times> world" where
  "allowEach env [] w = (None, w)"
| "allowEach env (r # rs) w =
     (let w = emit (EvRateAllow r) w
      in case en_rate env (w_trace w) of
           Some err \<Rightarrow> (Some (rateAdmissionError env w err (rateKind (rt_Key r))), w)
         | None \<Rightarrow> allowEach env rs w)"

definition checkRates :: "attemptEnv \<Rightarrow> Usage \<Rightarrow> Attempt \<Rightarrow> Route \<Rightarrow> world \<Rightarrow> goerr option \<times> world" where
  "checkRates env estimate attempt route w =
     (let requests = rateRequests estimate attempt route in
      case en_Rates env of
        NoRates \<Rightarrow> (None, w)
      | SingleRates \<Rightarrow> allowEach env requests w
      | BatchRates \<Rightarrow>
          if requests = [] then (None, w)
          else
            let w = emit (EvRateBatch requests) w
            in (case en_rate env (w_trace w) of
                  None \<Rightarrow> (None, w)
                | Some err \<Rightarrow>
                    let kind = (if length requests = 1 then rateKind (rt_Key (hd requests)) else ''route'');
                        kind = (case as_batch err of Some k \<Rightarrow> rateKind k | None \<Rightarrow> kind)
                    in (Some (rateAdmissionError env w err kind), w)))"


section \<open>Retries\<close>

definition retryable :: "goerr option \<Rightarrow> sentinel option \<Rightarrow> bool" where
  "retryable err callCtxErr =
     (case err of
        None \<Rightarrow> False
      | Some e \<Rightarrow>
          if callCtxErr = Some Canceled then False
          else if callCtxErr = Some DeadlineExceeded then True
          else (case as_api e of Some a \<Rightarrow> ae_Retryable a | None \<Rightarrow> True))"

definition circuitFailure :: "goerr option \<Rightarrow> sentinel option \<Rightarrow> bool" where
  "circuitFailure err callCtxErr =
     (case err of
        None \<Rightarrow> False
      | Some e \<Rightarrow>
          if callCtxErr = Some Canceled then False
          else if callCtxErr = Some DeadlineExceeded then True
          else (case as_api e of Some a \<Rightarrow> ae_CircuitFailure a | None \<Rightarrow> \<not> err_is Canceled e))"

definition circuitOpen :: goerr where
  "circuitOpen = api (NewError 503 ''server_error'' ''circuit_open'' ''route circuit is open'')"

text \<open>
  The stream a successful streaming call returns: it owns the slots of the attempt until its first
  completion.
\<close>

record attemptLifecycleStream =
  ls_route :: Route
  ls_startedAt :: instant
  ls_held :: "heldSlot list"
  ls_once :: bool
  ls_closeErr :: "goerr option option"
  ls_sawBytes :: bool

datatype attemptOutcome = APanicked | AFailed goerr | ADone "Result option" | AStream Result attemptLifecycleStream

definition callAttempt :: "Attempt \<Rightarrow> nat \<Rightarrow> instant \<Rightarrow> Attempt" where
  "callAttempt attempt i startedAt =
     attempt\<lparr>at_Retry := int i, at_ID := at_ID attempt @ '':retry:'' @ show_int (int i), at_StartedAt := startedAt\<rparr>"

definition newStream :: "Route \<Rightarrow> instant \<Rightarrow> heldSlot list \<Rightarrow> attemptLifecycleStream" where
  "newStream route startedAt held =
     \<lparr>ls_route = route, ls_startedAt = startedAt, ls_held = held, ls_once = False, ls_closeErr = None, ls_sawBytes = False\<rparr>"

text \<open>
  What the loop does with the answer of the provider call that the trace ends with. \<open>Inl\<close> ends the
  attempt, \<open>Inr err\<close> lets the loop try again.
\<close>

definition afterCall ::
  "attemptEnv \<Rightarrow> Route \<Rightarrow> heldSlot list \<Rightarrow> bool \<Rightarrow> Attempt \<Rightarrow> world \<Rightarrow> (attemptOutcome + goerr) \<times> world" where
  "afterCall env route held isLast call w =
     (let callCtxErr = en_callCtxErr env (w_trace w)
      in case en_next env (w_trace w) of
           None \<Rightarrow> (Inl APanicked, w)
         | Some (Inr result) \<Rightarrow>
             (case result of
                Some r \<Rightarrow>
                  if rs_RawStream r \<noteq> None
                  then (Inl (AStream r (newStream route (at_StartedAt call) held)), w)
                  else (Inl (ADone result), breakerSuccess env route (at_StartedAt call) w)
              | None \<Rightarrow> (Inl (ADone None), breakerSuccess env route (at_StartedAt call) w))
         | Some (Inl err) \<Rightarrow>
             let w = (if AttemptUnbillable err then emit (EvRelease (at_ID call)) w else w);
                 w = (if circuitFailure (Some err) callCtxErr
                      then breakerFail env route (at_StartedAt call) w else w)
             in if \<not> retryable (Some err) callCtxErr \<or> isLast then (Inl (AFailed err), w)
                else (Inr err, w))"

text \<open>One provider call of the loop: reserve, check the rates, call.\<close>

definition tryCall ::
  "attemptEnv \<Rightarrow> Usage \<Rightarrow> Route \<Rightarrow> heldSlot list \<Rightarrow> bool \<Rightarrow> Attempt \<Rightarrow> world \<Rightarrow> (attemptOutcome + goerr) \<times> world" where
  "tryCall env estimate route held isLast call w =
     (let w = emit (EvReserve call) w
      in case en_reserve env (w_trace w) of
           Some err \<Rightarrow> (Inl (AFailed err), w)
         | None \<Rightarrow>
             let (limited, w) = checkRates env estimate call route w
             in (case limited of
                   Some err \<Rightarrow> (Inl (AFailed err), emit (EvRelease (at_ID call)) w)
                 | None \<Rightarrow> afterCall env route held isLast call (emit (EvNext call) w)))"

text \<open>The loop, with the number of tries left; the circuit is asked again before every retry.\<close>

fun tryLoop ::
  "attemptEnv \<Rightarrow> Usage \<Rightarrow> Attempt \<Rightarrow> Route \<Rightarrow> heldSlot list \<Rightarrow> nat \<Rightarrow> nat \<Rightarrow> instant \<Rightarrow> goerr option \<Rightarrow> world \<Rightarrow>
   attemptOutcome \<times> world" where
  "tryLoop env estimate attempt route held 0 i startedAt lastErr w =
     ((case lastErr of None \<Rightarrow> ADone None | Some err \<Rightarrow> AFailed err), w)"
| "tryLoop env estimate attempt route held (Suc left) i startedAt lastErr w =
     (let (admission, w) = (if i > 0 then breakerAllow env route w else (Inr (True, startedAt), w))
      in case admission of
           Inl err \<Rightarrow> (AFailed err, w)
         | Inr (allowed, startedAt) \<Rightarrow>
             if \<not> allowed then (AFailed circuitOpen, w)
             else
               let (r, w) = tryCall env estimate route held (left = 0) (callAttempt attempt i startedAt) w
               in (case r of
                     Inl outcome \<Rightarrow> (outcome, w)
                   | Inr err \<Rightarrow> tryLoop env estimate attempt route held left (Suc i) startedAt (Some err) w))"

fun ownsSlots :: "attemptOutcome \<Rightarrow> bool" where
  "ownsSlots (AStream r s) = True"
| "ownsSlots _ = False"

definition WrapAttempt :: "attemptEnv \<Rightarrow> Meta \<Rightarrow> Usage \<Rightarrow> Attempt \<Rightarrow> world \<Rightarrow> attemptOutcome \<times> world" where
  "WrapAttempt env meta estimate attempt w =
     (case en_ctxErr env (w_trace w) of
        Some s \<Rightarrow> (AFailed (Sentinel s), w)
      | None \<Rightarrow>
          let route = the (rr_Route (at_Route attempt));
              (admission, w) = breakerAllow env route w
          in (case admission of
                Inl err \<Rightarrow> (AFailed err, w)
              | Inr (allowed, startedAt) \<Rightarrow>
                  if \<not> allowed then (AFailed circuitOpen, w)
                  else
                    let (slots, w) = acquire env meta attempt route w
                    in (case slots of
                          Inl err \<Rightarrow> (AFailed err, w)
                        | Inr held \<Rightarrow>
                            let tries = nat (routeAttemptCount (Some route));
                                (outcome, w) = tryLoop env estimate attempt route held tries 0 startedAt None w
                            in (outcome, if ownsSlots outcome then w else releaseAll env held w))))"

section \<open>Streams\<close>

datatype streamOutcome = streamStopped | streamSucceeded | streamFailed

text \<open>The \<open>finish\<close> function of the stream. The detached contexts of its updates do not show here.\<close>

definition finish :: "attemptEnv \<Rightarrow> attemptLifecycleStream \<Rightarrow> streamOutcome \<Rightarrow> goerr option \<Rightarrow> world \<Rightarrow> world" where
  "finish env s outcome streamErr w =
     (let w = releaseAll env (ls_held s) w
      in case outcome of
           streamSucceeded \<Rightarrow> breakerSuccess env (ls_route s) (ls_startedAt s) w
         | streamFailed \<Rightarrow>
             if circuitFailure streamErr None then breakerFail env (ls_route s) (ls_startedAt s) w else w
         | streamStopped \<Rightarrow> w)"

definition complete ::
  "attemptEnv \<Rightarrow> streamOutcome \<Rightarrow> goerr option \<Rightarrow> attemptLifecycleStream \<Rightarrow> world \<Rightarrow> attemptLifecycleStream \<times> world" where
  "complete env outcome err s w = (if ls_once s then (s, w) else (s\<lparr>ls_once := True\<rparr>, finish env s outcome err w))"

definition closeUnderlying :: "goerr option \<Rightarrow> attemptLifecycleStream \<Rightarrow> goerr option \<times> attemptLifecycleStream" where
  "closeUnderlying answer s =
     (case ls_closeErr s of Some err \<Rightarrow> (err, s) | None \<Rightarrow> (answer, s\<lparr>ls_closeErr := Some answer\<rparr>))"

fun firstStreamError :: "goerr option list \<Rightarrow> goerr" where
  "firstStreamError [] = Sentinel UnexpectedEOF"
| "firstStreamError (Some e # es) = e"
| "firstStreamError (None # es) = firstStreamError es"

text \<open>\<open>Read\<close> with what the underlying read returns and the error of the call's context then.\<close>

definition lsRead ::
  "attemptEnv \<Rightarrow> string \<Rightarrow> goerr option \<Rightarrow> sentinel option \<Rightarrow> attemptLifecycleStream \<Rightarrow> world \<Rightarrow> attemptLifecycleStream \<times> world" where
  "lsRead env bytes err ctxErr s w =
     (let s = (if bytes \<noteq> [] then s\<lparr>ls_sawBytes := True\<rparr> else s)
      in case err of
           None \<Rightarrow> (s, w)
         | Some e \<Rightarrow>
             if err_is EOF e then
               (if ls_sawBytes s then complete env streamSucceeded None s w
                else complete env streamFailed (Some (Sentinel UnexpectedEOF)) s w)
             else if ctxErr = Some Canceled then complete env streamStopped (Some e) s w
             else complete env streamFailed (Some e) s w)"

definition lsClose :: "attemptEnv \<Rightarrow> goerr option \<Rightarrow> attemptLifecycleStream \<Rightarrow> world \<Rightarrow> attemptLifecycleStream \<times> world" where
  "lsClose env answer s w = (let (err, s) = closeUnderlying answer s in complete env streamStopped err s w)"

text \<open>The goroutine of \<open>watchContext\<close> once the context is done with the given error.\<close>

definition watchContext ::
  "attemptEnv \<Rightarrow> sentinel \<Rightarrow> goerr option \<Rightarrow> attemptLifecycleStream \<Rightarrow> world \<Rightarrow> attemptLifecycleStream \<times> world" where
  "watchContext env ctxErr answer s w =
     (let (err, s) = closeUnderlying answer s
      in if ctxErr = DeadlineExceeded
         then complete env streamFailed (Some (firstStreamError [err, Some (Sentinel DeadlineExceeded)])) s w
         else complete env streamStopped err s w)"


section \<open>Traces\<close>

text \<open>Events that are neither a reservation, a release of one, nor a provider call.\<close>

fun quiet :: "event \<Rightarrow> bool" where
  "quiet (EvReserve a) = False"
| "quiet (EvRelease i) = False"
| "quiet (EvNext a) = False"
| "quiet _ = True"

definition qext :: "world \<Rightarrow> world \<Rightarrow> bool" where
  "qext w w' \<longleftrightarrow> (\<exists>es. w_trace w' = w_trace w @ es \<and> (\<forall>e \<in> set es. quiet e))"

lemma qext_refl [simp]: "qext w w"
  by (simp add: qext_def)

lemma qext_same: "w_trace w' = w_trace w \<Longrightarrow> qext w w'"
  by (simp add: qext_def)

lemma qext_trans: "qext a b \<Longrightarrow> qext b c \<Longrightarrow> qext a c"
  unfolding qext_def by (metis (no_types, lifting) Un_iff append.assoc set_append)

lemma qext_emit: "quiet e \<Longrightarrow> qext w (emit e w)"
  by (auto simp: qext_def emit_def)

lemma emit_simps [simp]:
  "w_trace (emit e w) = w_trace w @ [e]" "w_limiters (emit e w) = w_limiters w"
  by (simp_all add: emit_def)

lemma currentTime_simps [simp]:
  "w_trace (snd (currentTime env w)) = w_trace w" "w_limiters (snd (currentTime env w)) = w_limiters w"
  "w_breaker (snd (currentTime env w)) = w_breaker w"
  by (simp_all add: currentTime_def)

named_theorems quiet_steps \<open>operations that only add quiet events and leave the limiters alone\<close>

lemma updateErr_quiet [quiet_steps]: "qext w (updateErr env op w) \<and> w_limiters (updateErr env op w) = w_limiters w"
  by (auto simp: updateErr_def intro: qext_emit split: option.splits)

lemma update_emit_quiet:
  assumes "quiet e" "w_trace w' = w_trace w" "w_limiters w' = w_limiters w"
  shows "qext w (updateErr env op (emit e w')) \<and> w_limiters (updateErr env op (emit e w')) = w_limiters w"
  using assms updateErr_quiet [of "emit e w'" env op] qext_emit [of e w'] qext_same [of w' w]
  by (auto intro: qext_trans)

lemma breakerSuccess_quiet [quiet_steps]:
  "qext w (breakerSuccess env r t w) \<and> w_limiters (breakerSuccess env r t w) = w_limiters w"
  using update_emit_quiet [of _ _ w]
  by (auto simp: breakerSuccess_def currentTime_def Let_def qext_same split: stateKind.splits option.splits)

lemma breakerFail_quiet [quiet_steps]:
  "qext w (breakerFail env r t w) \<and> w_limiters (breakerFail env r t w) = w_limiters w"
  using update_emit_quiet [of _ _ w]
  by (auto simp: breakerFail_def currentTime_def Let_def qext_same split: stateKind.splits option.splits)

lemma breakerAllow_quiet [quiet_steps]:
  "qext w (snd (breakerAllow env r w)) \<and> w_limiters (snd (breakerAllow env r w)) = w_limiters w"
  by (auto simp: breakerAllow_def currentTime_def Let_def qext_def split: stateKind.splits option.splits sum.splits prod.splits)

lemma allowEach_quiet: "qext w (snd (allowEach env rs w)) \<and> w_limiters (snd (allowEach env rs w)) = w_limiters w"
proof (induction rs arbitrary: w)
  case (Cons r rs)
  have "qext w (emit (EvRateAllow r) w)" by (rule qext_emit) simp
  then show ?case
    using Cons.IH [of "emit (EvRateAllow r) w"] by (auto simp: Let_def intro: qext_trans split: option.splits)
qed simp

lemma checkRates_quiet [quiet_steps]:
  "qext w (snd (checkRates env est a r w)) \<and> w_limiters (snd (checkRates env est a r w)) = w_limiters w"
  using allowEach_quiet [of w env]
  by (auto simp: checkRates_def Let_def intro: qext_emit split: rateStoreKind.splits option.splits)

lemma releaseHeld_quiet: "qext w (releaseHeld env h w)"
  by (cases "(env, h, w)" rule: releaseHeld.cases) (auto simp: Let_def currentTime_def qext_def emit_def)

lemma releaseAll_quiet: "qext w (releaseAll env held w)"
  unfolding releaseAll_def
proof (induction held arbitrary: w)
  case (Cons h hs)
  show ?case using Cons.IH [of "releaseHeld env h w"] releaseHeld_quiet [of w env h] by (auto intro: qext_trans)
qed simp

lemma acquireDistributed_quiet: "qext w (snd (acquireDistributedLimiter env k t l ttl m w))"
  by (auto simp: acquireDistributedLimiter_def Let_def intro: qext_emit split: option.splits)

lemma acquireLocal_quiet: "qext w (snd (acquireLocal env k l m w))"
  by (auto simp: acquireLocal_def Let_def currentTime_def intro: qext_same split: option.splits prod.splits)

lemma slotToken_quiet: "qext w (snd (slotToken env meta a r w))"
  by (auto simp: slotToken_def Let_def currentTime_def intro: qext_same)

lemma acquireWith_quiet:
  assumes "\<And>k l m w. qext w (snd (tk k l m w))"
  shows "qext w (snd (acquireWith env tk r w))"
proof -
  have 1: "tk k l m w = (x, w') \<Longrightarrow> qext w w'" for k l m w x w' using assms [of w k l m] by simp
  show ?thesis
    by (auto simp: acquireWith_def Let_def split: prod.splits sum.splits
        dest!: 1 intro: qext_trans releaseHeld_quiet)
qed

lemma acquire_quiet: "qext w (snd (acquire env meta a r w))"
proof (cases "en_State env = NoState")
  case True
  then show ?thesis by (simp add: acquire_def acquireWith_quiet acquireLocal_quiet)
next
  case False
  then show ?thesis
    using slotToken_quiet [of w env meta a r]
    by (auto simp: acquire_def Let_def split: prod.splits
        intro: qext_trans [OF _ acquireWith_quiet] acquireDistributed_quiet)
qed


text \<open>
  A monitor of the reservations of an attempt. A provider call needs a reservation granted for the
  same call, uses it up, and owes its release when it ends with an unbillable error; a reservation
  that is not used is released.
\<close>

datatype rstate = RIdle | RHeld Attempt | ROwed string

fun mon :: "attemptEnv \<Rightarrow> event list \<Rightarrow> event \<Rightarrow> rstate \<Rightarrow> rstate option" where
  "mon env tr (EvReserve a) RIdle = Some (if en_reserve env tr = None then RHeld a else RIdle)"
| "mon env tr (EvNext a) (RHeld b) =
     (if a \<noteq> b then None
      else case en_next env tr of
             None \<Rightarrow> Some RIdle
           | Some (Inr r) \<Rightarrow> Some RIdle
           | Some (Inl e) \<Rightarrow> Some (if AttemptUnbillable e then ROwed (at_ID a) else RIdle))"
| "mon env tr (EvRelease i) (RHeld b) = (if at_ID b = i then Some RIdle else None)"
| "mon env tr (EvRelease i) (ROwed j) = (if j = i then Some RIdle else None)"
| "mon env tr e st = (if quiet e then Some st else None)"

fun mon_run :: "attemptEnv \<Rightarrow> event list \<Rightarrow> event list \<Rightarrow> rstate \<Rightarrow> rstate option" where
  "mon_run env pre [] st = Some st"
| "mon_run env pre (e # es) st =
     (case mon env (pre @ [e]) e st of None \<Rightarrow> None | Some st' \<Rightarrow> mon_run env (pre @ [e]) es st')"

lemma mon_quiet: "quiet e \<Longrightarrow> mon env tr e st = Some st"
  by (cases e; cases st) auto

lemma mon_run_quiet: "\<forall>e \<in> set es. quiet e \<Longrightarrow> mon_run env pre es st = Some st"
  by (induction es arbitrary: pre) (auto simp: mon_quiet)

lemma mon_run_append:
  "mon_run env pre (xs @ ys) st =
     (case mon_run env pre xs st of None \<Rightarrow> None | Some st' \<Rightarrow> mon_run env (pre @ xs) ys st')"
  by (induction xs arbitrary: pre st) (auto split: option.splits)

fun call_ids :: "event list \<Rightarrow> string list" where
  "call_ids [] = []"
| "call_ids (EvNext a # es) = at_ID a # call_ids es"
| "call_ids (_ # es) = call_ids es"

lemma call_ids_append [simp]: "call_ids (xs @ ys) = call_ids xs @ call_ids ys"
  by (induction xs rule: call_ids.induct) auto

lemma call_ids_quiet: "\<forall>e \<in> set es. quiet e \<Longrightarrow> call_ids es = []"
  by (induction es rule: call_ids.induct) auto

text \<open>From \<open>w\<close> to \<open>w'\<close> the monitor goes from \<open>st\<close> to \<open>st'\<close> and the calls are \<open>ids\<close>.\<close>

definition mext :: "attemptEnv \<Rightarrow> world \<Rightarrow> rstate \<Rightarrow> string list \<Rightarrow> world \<Rightarrow> rstate \<Rightarrow> bool" where
  "mext env w st ids w' st' \<longleftrightarrow>
     (\<exists>es. w_trace w' = w_trace w @ es \<and> mon_run env (w_trace w) es st = Some st' \<and> call_ids es = ids)"

lemma mext_quiet: "qext w w' \<Longrightarrow> mext env w st [] w' st"
  by (auto simp: qext_def mext_def mon_run_quiet call_ids_quiet)

lemma mext_trans: "mext env a s ids b t \<Longrightarrow> mext env b t ids' c u \<Longrightarrow> mext env a s (ids @ ids') c u"
  unfolding mext_def by (force simp: mon_run_append)

lemma mext_emit:
  "mon env (w_trace w @ [e]) e st = Some st' \<Longrightarrow> mext env w st (call_ids [e]) (emit e w) st'"
  unfolding mext_def by (rule exI [of _ "[e]"]) simp

lemma mext_then_quiet: "mext env a s ids b t \<Longrightarrow> qext b c \<Longrightarrow> mext env a s ids c t"
  using mext_trans [OF _ mext_quiet] by fastforce

lemma quiet_then_mext: "qext a b \<Longrightarrow> mext env b s ids c t \<Longrightarrow> mext env a s ids c t"
  using mext_trans [OF mext_quiet] by fastforce

section \<open>One call and the loop\<close>

lemma nextAnswer_cases:
  obtains (Panics) "a = None" | (Answers) result where "a = Some (Inr result)" | (Fails) err where "a = Some (Inl err)"
  by (metis option.exhaust sum.exhaust)

lemma afterCall_trace:
  assumes "afterCall env route held isLast call (emit (EvNext call) w) = (r, w')"
  shows "mext env w (RHeld call) [at_ID call] w' RIdle \<and> w_limiters w' = w_limiters w"
proof -
  let ?w = "emit (EvNext call) w"
  note m = mext_emit [of env w "EvNext call" "RHeld call"]
  show ?thesis
  proof (cases "en_next env (w_trace ?w)" rule: nextAnswer_cases)
    case Panics
    then show ?thesis using m assms by (auto simp: afterCall_def)
  next
    case (Answers result)
    then have m1: "mext env w (RHeld call) [at_ID call] ?w RIdle" using m by simp
    have "w' = ?w \<or> w' = breakerSuccess env route (at_StartedAt call) ?w"
      using assms Answers by (auto simp: afterCall_def Let_def split: option.splits if_splits)
    then show ?thesis
      using m1 breakerSuccess_quiet [of ?w env route "at_StartedAt call"] mext_then_quiet [OF m1] by auto
  next
    case (Fails err)
    let ?w2 = "if AttemptUnbillable err then emit (EvRelease (at_ID call)) ?w else ?w"
    have m1: "mext env w (RHeld call) [at_ID call] ?w (if AttemptUnbillable err then ROwed (at_ID call) else RIdle)"
      using m Fails by simp
    have m2: "mext env w (RHeld call) [at_ID call] ?w2 RIdle"
    proof (cases "AttemptUnbillable err")
      case True
      then show ?thesis using mext_trans [of env w "RHeld call" "[at_ID call]" ?w "ROwed (at_ID call)"
          "call_ids [EvRelease (at_ID call)]" "emit (EvRelease (at_ID call)) ?w" RIdle] m1
          mext_emit [of env ?w "EvRelease (at_ID call)" "ROwed (at_ID call)" RIdle] by simp
    next
      case False
      then show ?thesis using m1 by simp
    qed
    have "w' = ?w2 \<or> w' = breakerFail env route (at_StartedAt call) ?w2"
      using assms Fails by (auto simp: afterCall_def Let_def split: if_splits)
    then show ?thesis
      using m2 breakerFail_quiet [of ?w2 env route "at_StartedAt call"] mext_then_quiet [OF m2] by auto
  qed
qed

lemma tryCall_trace:
  assumes "tryCall env est route held isLast call w = (r, w')"
  shows "(\<exists>ids. mext env w RIdle ids w' RIdle \<and> (ids = [] \<or> ids = [at_ID call]) \<and> (\<not> isl r \<longrightarrow> ids = [at_ID call])) \<and>
    w_limiters w' = w_limiters w"
proof -
  let ?w1 = "emit (EvReserve call) w"
  obtain limited w2 where rates: "checkRates env est call route ?w1 = (limited, w2)"
    by (cases "checkRates env est call route ?w1")
  show ?thesis
  proof (cases "en_reserve env (w_trace ?w1)")
    case (Some err)
    then have "mext env w RIdle [] ?w1 RIdle" using mext_emit [of env w "EvReserve call" RIdle RIdle] by simp
    then show ?thesis using assms Some by (auto simp: tryCall_def)
  next
    case None
    then have m1: "mext env w RIdle [] ?w1 (RHeld call)"
      using mext_emit [of env w "EvReserve call" RIdle "RHeld call"] by simp
    have q: "qext ?w1 w2" "w_limiters w2 = w_limiters w" using checkRates_quiet [of ?w1 env est call route] rates by simp_all
    have m2: "mext env w RIdle [] w2 (RHeld call)" by (rule mext_then_quiet [OF m1 q(1)])
    show ?thesis
    proof (cases limited)
      case (Some err)
      have "mext env w2 (RHeld call) [] (emit (EvRelease (at_ID call)) w2) RIdle"
        using mext_emit [of env w2 "EvRelease (at_ID call)" "RHeld call" RIdle] by simp
      from mext_trans [OF m2 this] show ?thesis
        using assms None rates Some q(2) by (auto simp: tryCall_def Let_def)
    next
      case lim: None
      then have "afterCall env route held isLast call (emit (EvNext call) w2) = (r, w')"
        using assms None rates by (simp add: tryCall_def Let_def)
      from afterCall_trace [OF this] q(2) mext_trans [OF m2] show ?thesis by fastforce
    qed
  qed
qed


lemma show_nat_inj: "show_nat m = show_nat n \<Longrightarrow> m = n"
proof (induction m arbitrary: n rule: less_induct)
  case (less m)
  show ?case
  proof (cases "m < 10")
    case True
    then have m: "show_nat m = [digit_char m]" by (simp add: show_nat.simps [of m])
    have "n < 10"
    proof (rule ccontr)
      assume "\<not> n < 10"
      then have "show_nat (n div 10) @ [digit_char (n mod 10)] = [digit_char m]"
        using less.prems m by (simp add: show_nat.simps [of n])
      then show False by simp
    qed
    then show ?thesis using less.prems m True digit_char_inj by (simp add: show_nat.simps [of n])
  next
    case False
    then have m: "show_nat m = show_nat (m div 10) @ [digit_char (m mod 10)]" by (simp add: show_nat.simps [of m])
    have n10: "\<not> n < 10"
    proof
      assume "n < 10"
      then have "show_nat (m div 10) @ [digit_char (m mod 10)] = [digit_char n]"
        using less.prems m by (simp add: show_nat.simps [of n])
      then show False by simp
    qed
    then have "show_nat n = show_nat (n div 10) @ [digit_char (n mod 10)]" by (simp add: show_nat.simps [of n])
    then have "show_nat (m div 10) = show_nat (n div 10)" "m mod 10 = n mod 10"
      using less.prems m digit_char_inj [of "m mod 10" "n mod 10"] by simp_all
    then show ?thesis using less.IH [of "m div 10" "n div 10"] False by (metis div_less_dividend div_mult_mod_eq
        not_less numeral_1_eq_Suc_0 numeral_less_iff one_less_numeral_iff semiring_norm(76) zero_less_numeral le0 gr0I)
  qed
qed

definition retryID :: "Attempt \<Rightarrow> nat \<Rightarrow> string" where
  "retryID attempt i = at_ID attempt @ '':retry:'' @ show_int (int i)"

lemma callAttempt_ID [simp]: "at_ID (callAttempt attempt i t) = retryID attempt i"
  by (simp add: callAttempt_def retryID_def)

lemma inj_retryID: "inj (retryID attempt)"
  by (rule injI) (auto simp: retryID_def show_int_def dest: show_nat_inj)

lemma tryLoop_trace:
  assumes "tryLoop env est attempt route held left i t lastErr w = (out, w')"
  shows "(\<exists>k \<le> left. mext env w RIdle (map (retryID attempt) [i..<i + k]) w' RIdle) \<and> w_limiters w' = w_limiters w \<and>
    (\<forall>r s. out = AStream r s \<longrightarrow> ls_held s = held \<and> \<not> ls_once s)"
  using assms
proof (induction left arbitrary: i t lastErr w)
  case 0
  then show ?case using mext_quiet [of w w env RIdle] by (auto split: option.splits)
next
  case (Suc left)
  obtain adm w1 where adm: "(if i > 0 then breakerAllow env route w else (Inr (True, t), w)) = (adm, w1)"
    by (cases "if i > 0 then breakerAllow env route w else (Inr (True, t), w)")
  have q: "qext w w1" "w_limiters w1 = w_limiters w"
    using breakerAllow_quiet [of w env route] adm by (auto split: if_splits)
  show ?case
  proof (cases "\<exists>t'. adm = Inr (True, t')")
    case False
    then have "w' = w1" "\<exists>err. out = AFailed err"
      using Suc.prems adm by (auto split: sum.splits prod.splits if_splits)
    then show ?thesis using q mext_quiet [OF q(1), of env RIdle] by (intro conjI exI [of _ 0]) auto
  next
    case True
    then obtain t' where t': "adm = Inr (True, t')" by blast
    obtain r w2 where call: "tryCall env est route held (left = 0) (callAttempt attempt i t') w1 = (r, w2)"
      by (cases "tryCall env est route held (left = 0) (callAttempt attempt i t') w1")
    from tryCall_trace [OF call] obtain ids where m: "mext env w1 RIdle ids w2 RIdle" "w_limiters w2 = w_limiters w1"
      and ids: "ids = [] \<or> ids = [retryID attempt i]" "\<not> isl r \<longrightarrow> ids = [retryID attempt i]" by auto
    have m': "mext env w RIdle ids w2 RIdle" by (rule quiet_then_mext [OF q(1) m(1)])
    show ?thesis
    proof (cases r)
      case (Inl out')
      then have "out = out'" "w' = w2" using Suc.prems adm t' call by simp_all
      moreover have "ls_held s = held \<and> \<not> ls_once s" if "out' = AStream x s" for x s
        using call Inl that
        by (auto simp: tryCall_def afterCall_def newStream_def Let_def split: option.splits prod.splits sum.splits if_splits)
      moreover have "\<exists>k \<le> Suc left. ids = map (retryID attempt) [i..<i + k]"
        using ids(1) by (auto intro: exI [of _ 0] exI [of _ 1])
      ultimately show ?thesis using m' m(2) q(2) by auto
    next
      case (Inr err)
      then have "tryLoop env est attempt route held left (Suc i) t' (Some err) w2 = (out, w')"
        using Suc.prems adm t' call by simp
      from Suc.IH [OF this] obtain k where k: "k \<le> left"
        "mext env w2 RIdle (map (retryID attempt) [Suc i..<Suc i + k]) w' RIdle" and
        rest: "w_limiters w' = w_limiters w2" "\<forall>r s. out = AStream r s \<longrightarrow> ls_held s = held \<and> \<not> ls_once s" by blast
      have "ids @ map (retryID attempt) [Suc i..<Suc i + k] = map (retryID attempt) [i..<i + Suc k]"
        using ids(2) Inr by (simp add: upt_rec [of i])
      then have "mext env w RIdle (map (retryID attempt) [i..<i + Suc k]) w' RIdle" using mext_trans [OF m' k(2)] by simp
      then show ?thesis using k(1) rest m(2) q(2) by (metis Suc_le_mono)
    qed
  qed
qed


section \<open>Slots\<close>

text \<open>
  The distributed slots a trace leaves open: those the state store granted less those given back, for
  every key and token.
\<close>

fun slot_change :: "attemptEnv \<Rightarrow> event list \<Rightarrow> event \<Rightarrow> string \<times> string \<Rightarrow> int" where
  "slot_change env tr (EvAcquireSlot key token limit ttl) p = one_if (p = (key, token) \<and> en_slot env tr = None)"
| "slot_change env tr (EvReleaseSlot key token) p = - one_if (p = (key, token))"
| "slot_change env tr e p = 0"

fun open_from :: "attemptEnv \<Rightarrow> event list \<Rightarrow> event list \<Rightarrow> string \<times> string \<Rightarrow> int" where
  "open_from env pre [] p = 0"
| "open_from env pre (e # es) p = slot_change env (pre @ [e]) e p + open_from env (pre @ [e]) es p"

definition dist_open :: "attemptEnv \<Rightarrow> event list \<Rightarrow> string \<times> string \<Rightarrow> int" where
  "dist_open env tr = open_from env [] tr"

lemma open_from_snoc: "open_from env pre (es @ [e]) p = open_from env pre es p + slot_change env (pre @ es @ [e]) e p"
  by (induction es arbitrary: pre) simp_all

lemma dist_open_snoc [simp]: "dist_open env (tr @ [e]) p = dist_open env tr p + slot_change env (tr @ [e]) e p"
  by (simp add: dist_open_def open_from_snoc)

text \<open>All slots: the counters of the local limiters and the open distributed slots.\<close>

abbreviation w_cur :: "world \<Rightarrow> nat \<Rightarrow> int" where
  "w_cur w \<equiv> cur (w_limiters w)"

definition w_slots :: "attemptEnv \<Rightarrow> world \<Rightarrow> nat + string \<times> string \<Rightarrow> int" where
  "w_slots env w x = (case x of Inl a \<Rightarrow> w_cur w a | Inr p \<Rightarrow> dist_open env (w_trace w) p)"

text \<open>How much a held slot adds.\<close>

fun slot_delta :: "heldSlot \<Rightarrow> nat + string \<times> string \<Rightarrow> int" where
  "slot_delta (LocalSlot (Slot a)) (Inl b) = one_if (b = a)"
| "slot_delta (DistSlot key token) (Inr p) = one_if (p = (key, token))"
| "slot_delta _ x = 0"

definition held_delta :: "heldSlot list \<Rightarrow> nat + string \<times> string \<Rightarrow> int" where
  "held_delta held x = sum_list (map (\<lambda>h. slot_delta h x) held)"

lemma slot_delta_nonneg [simp]: "0 \<le> slot_delta h x"
  by (cases "(h, x)" rule: slot_delta.cases) auto

lemma held_delta_nonneg [simp]: "0 \<le> held_delta held x"
  unfolding held_delta_def by (rule sum_list_nonneg) auto

lemma held_delta_simps [simp]:
  "held_delta [] x = 0" "held_delta (h # hs) x = slot_delta h x + held_delta hs x"
  by (simp_all add: held_delta_def)

subsection \<open>What leaves the slots alone\<close>

lemma w_slots_cong: "w_trace w' = w_trace w \<Longrightarrow> w_limiters w' = w_limiters w \<Longrightarrow> w_slots env w' = w_slots env w"
  by (simp add: w_slots_def fun_eq_iff split: sum.split)

lemma w_slots_emit: "slot_change env (w_trace w @ [e]) e = (\<lambda>p. 0) \<Longrightarrow> w_slots env (emit e w) = w_slots env w"
  by (simp add: w_slots_def fun_eq_iff split: sum.split)

lemma currentTime_slots [simp]: "w_slots env (snd (currentTime env' w)) = w_slots env w"
  by (rule w_slots_cong) simp_all

lemma w_slots_fields [simp]:
  "w_slots env (w\<lparr>w_breaker := b\<rparr>) = w_slots env w" "w_slots env (w\<lparr>w_tick := n\<rparr>) = w_slots env w"
  by (rule w_slots_cong; simp)+

named_theorems slot_free \<open>operations that leave the slots alone\<close>

lemma updateErr_slots [slot_free]: "w_slots env (updateErr env op w) = w_slots env w"
  by (simp add: updateErr_def w_slots_emit fun_eq_iff split: option.split)

lemma breakerSuccess_slots [slot_free]: "w_slots env (breakerSuccess env r t w) = w_slots env w"
  by (simp add: breakerSuccess_def currentTime_def Let_def updateErr_slots w_slots_emit fun_eq_iff split: stateKind.split option.split)

lemma breakerFail_slots [slot_free]: "w_slots env (breakerFail env r t w) = w_slots env w"
  by (simp add: breakerFail_def currentTime_def Let_def updateErr_slots w_slots_emit fun_eq_iff split: stateKind.split option.split)

lemma breakerAllow_slots [slot_free]: "w_slots env (snd (breakerAllow env r w)) = w_slots env w"
  by (auto simp: breakerAllow_def currentTime_def Let_def w_slots_emit fun_eq_iff
      split: stateKind.split option.split sum.split prod.split)

lemma allowEach_slots: "w_slots env (snd (allowEach env rs w)) = w_slots env w"
proof (induction rs arbitrary: w)
  case (Cons r rs)
  have "w_slots env (emit (EvRateAllow r) w) = w_slots env w" by (simp add: w_slots_emit fun_eq_iff)
  with Cons show ?case by (simp add: Let_def split: option.split)
qed simp

lemma checkRates_slots [slot_free]: "w_slots env (snd (checkRates env est a r w)) = w_slots env w"
  by (simp add: checkRates_def Let_def allowEach_slots w_slots_emit fun_eq_iff split: rateStoreKind.split option.split)

lemma afterCall_slots: "w_slots env (snd (afterCall env route held isLast call w)) = w_slots env w"
  by (simp add: afterCall_def Let_def slot_free w_slots_emit fun_eq_iff split: option.split sum.split)

lemma tryCall_slots: "w_slots env (snd (tryCall env est route held isLast call w)) = w_slots env w"
proof -
  obtain limited w2 where rates: "checkRates env est call route (emit (EvReserve call) w) = (limited, w2)" by fastforce
  then have "w_slots env w2 = w_slots env (emit (EvReserve call) w)"
    using checkRates_slots [of env est call route "emit (EvReserve call) w"] by simp
  then have "w_slots env w2 = w_slots env w" by (simp add: w_slots_emit fun_eq_iff)
  with rates show ?thesis
    by (auto simp: tryCall_def Let_def afterCall_slots w_slots_emit fun_eq_iff split: option.split)
qed

lemma tryLoop_slots:
  "tryLoop env est attempt route held left i t lastErr w = (out, w') \<Longrightarrow> w_slots env w' = w_slots env w"
proof (induction left arbitrary: i t lastErr w)
  case (Suc left)
  obtain adm w1 where adm: "(if i > 0 then breakerAllow env route w else (Inr (True, t), w)) = (adm, w1)" by fastforce
  have s1: "w_slots env w1 = w_slots env w" using adm breakerAllow_slots [of env route w] by (auto split: if_splits)
  show ?case
  proof (cases "\<exists>t'. adm = Inr (True, t')")
    case False
    then show ?thesis using Suc.prems adm s1 by (auto split: sum.splits prod.splits if_splits)
  next
    case True
    then obtain t' where t': "adm = Inr (True, t')" by blast
    obtain r w2 where call: "tryCall env est route held (left = 0) (callAttempt attempt i t') w1 = (r, w2)" by fastforce
    then have "w_slots env w2 = w_slots env w"
      using tryCall_slots [of env est route held "left = 0" "callAttempt attempt i t'" w1] s1 by simp
    then show ?thesis using Suc.prems Suc.IH adm t' call by (cases r) auto
  qed
qed (auto split: option.splits)

subsection \<open>What takes and returns them\<close>

text \<open>Taking a slot adds exactly what is held; a refusal adds nothing.\<close>

definition took :: "attemptEnv \<Rightarrow> heldSlot list \<Rightarrow> world \<Rightarrow> world \<Rightarrow> bool" where
  "took env held w w' \<longleftrightarrow> lm_wf (w_limiters w') \<and> w_slots env w' = (\<lambda>x. w_slots env w x + held_delta held x)"

lemma took_one: "took env [h] w w' \<longleftrightarrow> lm_wf (w_limiters w') \<and> w_slots env w' = (\<lambda>x. w_slots env w x + slot_delta h x)"
  by (simp add: took_def)

lemma took_none: "took env [] w w' \<longleftrightarrow> lm_wf (w_limiters w') \<and> w_slots env w' = w_slots env w"
  by (simp add: took_def)

lemma acquireLocal_slots:
  assumes "lm_wf (w_limiters w)" "limit \<le> MaxInt64" "acquireLocal env key limit message w = (r, w')"
  shows "took env' (case r of Inl _ \<Rightarrow> [] | Inr h \<Rightarrow> [h]) w w'"
proof (cases "limit \<le> 0")
  case True
  then show ?thesis using assms by (auto simp: acquireLocal_def took_def fun_eq_iff)
next
  case False
  obtain got m where got: "acquireLimiter key limit (en_now env (w_tick w)) (w_limiters w) = (got, m)"
    by (cases "acquireLimiter key limit (en_now env (w_tick w)) (w_limiters w)")
  have w': "w_limiters w' = m" "w_trace w' = w_trace w"
    "r = (case got of None \<Rightarrow> Inl (api (RateLimited message)) | Some s \<Rightarrow> Inr (LocalSlot s))"
    using assms(3) False got by (auto simp: acquireLocal_def currentTime_def Let_def split: option.splits)
  have c: "lm_wf m" "got = None \<Longrightarrow> cur m = w_cur w" "got = Some NoSlot \<Longrightarrow> m = w_limiters w"
    "\<And>a. got = Some (Slot a) \<Longrightarrow> cur m = (w_cur w)(a := w_cur w a + 1)"
    using acquireLimiter_cur [OF assms(1,2) got] by (auto split: option.splits slot.splits)
  show ?thesis
  proof (cases got)
    case None
    then show ?thesis using c w' by (simp add: took_def w_slots_def fun_eq_iff split: sum.split)
  next
    case (Some s)
    then show ?thesis using c w' by (cases s) (auto simp: took_def w_slots_def fun_eq_iff split: sum.split)
  qed
qed

lemma acquireDistributed_slots:
  assumes "lm_wf (w_limiters w)" "acquireDistributedLimiter env key token limit ttl message w = (r, w')"
  shows "took env (case r of Inl _ \<Rightarrow> [] | Inr h \<Rightarrow> [h]) w w'"
proof (cases "limit \<le> 0")
  case True
  then show ?thesis using assms by (auto simp: acquireDistributedLimiter_def took_def fun_eq_iff)
next
  case False
  then show ?thesis
    using assms by (auto simp: acquireDistributedLimiter_def Let_def took_def w_slots_def fun_eq_iff split: option.splits if_splits sum.split)
qed

lemma releaseHeld_slots:
  assumes "lm_wf (w_limiters w)" "\<forall>b. slot_delta h (Inl b) \<le> w_cur w b"
  shows "lm_wf (w_limiters (releaseHeld env h w)) \<and> w_slots env (releaseHeld env h w) = (\<lambda>x. w_slots env w x - slot_delta h x)"
proof (cases "\<exists>a. h = LocalSlot (Slot a)")
  case True
  then obtain a where h: "h = LocalSlot (Slot a)" by blast
  have "1 \<le> w_cur w a" using assms(2) h spec [OF assms(2), of a] by simp
  then have "cur (releaseSlot (en_now env (w_tick w)) (Slot a) (w_limiters w)) = (w_cur w)(a := w_cur w a - 1)"
    "lm_wf (releaseSlot (en_now env (w_tick w)) (Slot a) (w_limiters w))"
    using releaseSlot_cur [OF assms(1), of a] by (simp_all del: releaseSlot.simps)
  then show ?thesis
    by (auto simp: h currentTime_def Let_def w_slots_def fun_eq_iff split: sum.split simp del: releaseSlot.simps)
next
  case False
  then show ?thesis using assms(1)
    by (cases "(env, h, w)" rule: releaseHeld.cases) (auto simp: w_slots_def fun_eq_iff split: sum.split)
qed

lemma releaseAll_slots:
  assumes "lm_wf (w_limiters w)" "\<forall>b. held_delta held (Inl b) \<le> w_cur w b"
  shows "lm_wf (w_limiters (releaseAll env held w)) \<and> w_slots env (releaseAll env held w) = (\<lambda>x. w_slots env w x - held_delta held x)"
  using assms
proof (induction held arbitrary: w)
  case Nil
  then show ?case by (simp add: releaseAll_def)
next
  case (Cons h hs)
  have le: "slot_delta h (Inl b) + held_delta hs (Inl b) \<le> w_cur w b" for b using Cons.prems(2) by simp
  have "\<forall>b. slot_delta h (Inl b) \<le> w_cur w b"
    using le held_delta_nonneg [of hs] by (metis add_increasing2 dual_order.trans le_add_same_cancel1)
  note r = releaseHeld_slots [OF Cons.prems(1) this, of env]
  have "w_cur (releaseHeld env h w) b = w_cur w b - slot_delta h (Inl b)" for b
    using fun_cong [OF conjunct2 [OF r], of "Inl b"] by (simp add: w_slots_def)
  then have "\<forall>b. held_delta hs (Inl b) \<le> w_cur (releaseHeld env h w) b" using le by (simp add: le_diff_eq add.commute)
  with Cons.IH [of "releaseHeld env h w"] r show ?case by (simp add: releaseAll_def fun_eq_iff)
qed

lemma took_covers: "took env held w w' \<Longrightarrow> lm_wf (w_limiters w) \<Longrightarrow> held_delta held (Inl b) \<le> w_cur w' b"
proof -
  assume t: "took env held w w'" and "lm_wf (w_limiters w)"
  then have "0 \<le> w_cur w b" by (simp add: lm_wf_def)
  moreover have "w_cur w' b = w_cur w b + held_delta held (Inl b)"
    using t by (auto simp: took_def w_slots_def dest: fun_cong [where x = "Inl b"])
  ultimately show ?thesis by simp
qed

lemma took_returned:
  assumes "took env held w w'" "lm_wf (w_limiters w)"
  shows "took env [] w (releaseAll env held w')"
  using releaseAll_slots [of w' held env] took_covers [OF assms] assms(1) by (simp add: took_def fun_eq_iff)

lemma acquireWith_slots:
  assumes "lm_wf (w_limiters w)" "lc_Concurrency (r_Limits route) \<le> MaxInt64" "lc_ProviderConcurrency (r_Limits route) \<le> MaxInt64"
    and tk: "\<And>key limit message w r w'. lm_wf (w_limiters w) \<Longrightarrow> limit \<le> MaxInt64 \<Longrightarrow> tk key limit message w = (r, w') \<Longrightarrow>
      took env (case r of Inl _ \<Rightarrow> [] | Inr h \<Rightarrow> [h]) w w'"
    and "acquireWith env tk route w = (r, w')"
  shows "took env (case r of Inl _ \<Rightarrow> [] | Inr held \<Rightarrow> held) w w'"
proof -
  let ?lc = "r_Limits route"
  obtain first w1 where 1: "tk (''route:'' @ r_Name route) (lc_Concurrency ?lc) ''concurrency limit exceeded'' w = (first, w1)" by fastforce
  note t1 = tk [OF assms(1,2) 1]
  show ?thesis
  proof (cases first)
    case (Inl err)
    then show ?thesis using assms(5) 1 t1 by (auto simp: acquireWith_def Let_def)
  next
    case (Inr routeSlot)
    obtain second w2 where 2: "tk (''provider:'' @ r_Provider route) (lc_ProviderConcurrency ?lc)
        ''provider concurrency limit exceeded'' w1 = (second, w2)" by fastforce
    have t2: "took env (case second of Inl _ \<Rightarrow> [] | Inr h \<Rightarrow> [h]) w1 w2"
      using tk [OF _ assms(3) 2] t1 by (simp add: took_def)
    show ?thesis
    proof (cases second)
      case (Inl err)
      have "took env [routeSlot] w w2" using t1 t2 Inr Inl by (simp add: took_def)
      from took_returned [OF this assms(1)] show ?thesis
        using assms(5) 1 2 Inr Inl by (auto simp: acquireWith_def Let_def releaseAll_def)
    next
      case two: (Inr providerSlot)
      then show ?thesis
        using t1 t2 assms(5) 1 2 Inr by (auto simp: acquireWith_def Let_def took_def fun_eq_iff)
    qed
  qed
qed

lemma acquire_slots:
  assumes "lm_wf (w_limiters w)" "lc_Concurrency (r_Limits route) \<le> MaxInt64"
    "lc_ProviderConcurrency (r_Limits route) \<le> MaxInt64" "acquire env meta attempt route w = (r, w')"
  shows "took env (case r of Inl _ \<Rightarrow> [] | Inr held \<Rightarrow> held) w w'"
proof (cases "en_State env = NoState")
  case True
  then show ?thesis
    using acquireWith_slots [OF assms(1-3) acquireLocal_slots] assms(4) by (simp add: acquire_def)
next
  case False
  obtain token w1 where tok: "slotToken env meta attempt route w = (token, w1)" by fastforce
  then have same: "w_slots env w1 = w_slots env w" "w_limiters w1 = w_limiters w"
    by (auto simp: slotToken_def Let_def currentTime_def split: if_splits)
  have "took env (case r of Inl _ \<Rightarrow> [] | Inr held \<Rightarrow> held) w1 w'"
    using assms(1,4) False tok same(2)
    by (intro acquireWith_slots [OF _ assms(2,3) acquireDistributed_slots]) (auto simp: acquire_def Let_def)
  then show ?thesis by (simp add: took_def same)
qed


section \<open>Properties\<close>

lemma WrapAttempt_cases:
  assumes "WrapAttempt env meta est attempt w = (out, w')" "rr_Route (at_Route attempt) = Some route"
  obtains (Denied) e where "out = AFailed e" "qext w w'" "w_limiters w' = w_limiters w" "w_slots env w' = w_slots env w"
    | (Full) e w1 where "out = AFailed e" "qext w w1" "w_limiters w1 = w_limiters w"
        "acquire env meta attempt route w1 = (Inl e, w')" "w_slots env w1 = w_slots env w"
    | (Loop) held t w1 w2 w3 where "qext w w1" "w_limiters w1 = w_limiters w"
        "acquire env meta attempt route w1 = (Inr held, w2)"
        "tryLoop env est attempt route held (nat (routeAttemptCount (Some route))) 0 t None w2 = (out, w3)"
        "w' = (if ownsSlots out then w3 else releaseAll env held w3)" "w_slots env w1 = w_slots env w"
proof (cases "en_ctxErr env (w_trace w)")
  case (Some e)
  then show thesis using assms(1) Denied by (auto simp: WrapAttempt_def)
next
  case None
  obtain adm w1 where adm: "breakerAllow env route w = (adm, w1)" by (cases "breakerAllow env route w")
  have q1: "qext w w1" "w_limiters w1 = w_limiters w" using breakerAllow_quiet [of w env route] adm by simp_all
  have s1: "w_slots env w1 = w_slots env w" using breakerAllow_slots [of env route w] adm by simp
  show thesis
  proof (cases "\<exists>t. adm = Inr (True, t)")
    case False
    then show thesis
      using assms None adm q1 s1 Denied by (auto simp: WrapAttempt_def split: sum.splits prod.splits if_splits)
  next
    case True
    then obtain t where t: "adm = Inr (True, t)" by blast
    obtain slots w2 where slots: "acquire env meta attempt route w1 = (slots, w2)" by (cases "acquire env meta attempt route w1")
    show thesis
    proof (cases slots)
      case (Inl err)
      then show thesis using Full [OF _ q1 _ s1] assms None adm t slots by (auto simp: WrapAttempt_def)
    next
      case (Inr held)
      obtain o3 w3 where loop: "tryLoop env est attempt route held (nat (routeAttemptCount (Some route))) 0 t None w2 = (o3, w3)"
        by (cases "tryLoop env est attempt route held (nat (routeAttemptCount (Some route))) 0 t None w2")
      then show thesis using Loop [OF q1, of held w2 t w3] s1 assms None adm t slots Inr by (auto simp: WrapAttempt_def)
    qed
  qed
qed

lemma WrapAttempt_steps:
  assumes "WrapAttempt env meta est attempt w = (out, w')" "rr_Route (at_Route attempt) = Some route"
  shows "\<exists>k \<le> nat (routeAttemptCount (Some route)). mext env w RIdle (map (retryID attempt) [0..<k]) w' RIdle"
proof -
  have stay: ?thesis if "qext w w'" using mext_quiet [OF that, of env RIdle] by (intro exI [of _ 0]) simp
  from assms show ?thesis
  proof (cases rule: WrapAttempt_cases)
    case (Denied e)
    then show ?thesis using stay by simp
  next
    case (Full e w1)
    then show ?thesis using stay acquire_quiet [of w1 env meta attempt route] by (auto intro: qext_trans)
  next
    case (Loop held t w1 w2 w3)
    have q: "qext w w2" "qext w3 w'"
      using Loop acquire_quiet [of w1 env meta attempt route] releaseAll_quiet [of w3 env held] by (auto intro: qext_trans)
    from tryLoop_trace [OF Loop(4)] obtain k where k: "k \<le> nat (routeAttemptCount (Some route))"
      "mext env w2 RIdle (map (retryID attempt) [0..<0 + k]) w3 RIdle" by blast
    then show ?thesis using mext_then_quiet [OF quiet_then_mext [OF q(1) k(2)] q(2)] by auto
  qed
qed

text \<open>
  C14. Provider calls of an attempt. Whatever the environment answers, an attempt makes at most its
  configured tries of calls, never more than eleven, with the IDs of the retries in order, no two alike.
\<close>

theorem attempt_calls_bounded:
  assumes "WrapAttempt env meta est attempt w = (out, w')" "rr_Route (at_Route attempt) = Some route"
  shows "\<exists>es k. w_trace w' = w_trace w @ es \<and> call_ids es = map (retryID attempt) [0..<k] \<and> distinct (call_ids es) \<and>
    k \<le> nat (routeAttemptCount (Some route)) \<and> k \<le> 11"
proof -
  obtain k where k: "k \<le> nat (routeAttemptCount (Some route))" "mext env w RIdle (map (retryID attempt) [0..<k]) w' RIdle"
    using WrapAttempt_steps [OF assms] by blast
  then obtain es where "w_trace w' = w_trace w @ es" "call_ids es = map (retryID attempt) [0..<k]" by (auto simp: mext_def)
  moreover have "distinct (map (retryID attempt) [0..<k])" using inj_on_subset [OF inj_retryID, of "{0..<k}" attempt] by (simp add: distinct_map)
  moreover have "k \<le> 11" using k(1) routeAttemptCount_bounds [of "Some route"] by linarith
  ultimately show ?thesis using k(1) by metis
qed

text \<open>
  C15. Reservations of an attempt. Every provider call is made under a reservation granted for that
  very call; a reservation whose call the rate limits refuse, and the reservation of a call that ends
  with an unbillable error, is released, once; the reservation of any other call is kept for settlement.
\<close>

theorem attempt_reservations:
  assumes "WrapAttempt env meta est attempt w = (out, w')" "rr_Route (at_Route attempt) = Some route"
  shows "\<exists>es. w_trace w' = w_trace w @ es \<and> mon_run env (w_trace w) es RIdle = Some RIdle"
  using WrapAttempt_steps [OF assms] by (auto simp: mext_def)

lemma complete_slots:
  assumes "took env (ls_held s) w w'" "lm_wf (w_limiters w)" "\<not> ls_once s"
  shows "w_slots env (snd (complete env outcome err s w')) = w_slots env w" "ls_once (fst (complete env outcome err s w'))"
  using took_returned [OF assms(1,2)] assms(3)
  by (auto simp: complete_def finish_def Let_def slot_free took_none split: streamOutcome.splits)

text \<open>
  C16. Slots of an attempt. Whether the deployment has local limiters or distributed slots, an attempt that does
  not return a stream leaves every counter and every slot as it found it: it succeeds, fails, is refused at
  any point, or the provider call panics. A stream holds its slots until its first completion, which
  returns them, and any further completion changes nothing.
\<close>

theorem attempt_slots_returned:
  assumes "WrapAttempt env meta est attempt w = (out, w')" "rr_Route (at_Route attempt) = Some route"
    "lm_wf (w_limiters w)" "lc_Concurrency (r_Limits route) \<le> MaxInt64" "lc_ProviderConcurrency (r_Limits route) \<le> MaxInt64"
  shows "case out of
      AStream r s \<Rightarrow>
        w_slots env (snd (complete env outcome err s w')) = w_slots env w \<and>
        (\<forall>o2 e2 w2. complete env o2 e2 (fst (complete env outcome err s w')) w2 = (fst (complete env outcome err s w'), w2))
    | _ \<Rightarrow> w_slots env w' = w_slots env w"
  using assms(1,2)
proof (cases rule: WrapAttempt_cases)
  case (Denied e)
  then show ?thesis by simp
next
  case (Full e w1)
  then show ?thesis using acquire_slots [OF _ assms(4,5) Full(4)] assms(3) by (simp add: took_none)
next
  case (Loop held t w1 w2 w3)
  have l3: "w_limiters w3 = w_limiters w2" and s: "\<And>r s. out = AStream r s \<Longrightarrow> ls_held s = held \<and> \<not> ls_once s"
    using tryLoop_trace [OF Loop(4)] by blast+
  have t3: "took env held w w3"
    using acquire_slots [OF _ assms(4,5) Loop(3)] assms(3) Loop(2,6) l3 tryLoop_slots [OF Loop(4)] by (simp add: took_def)
  show ?thesis
  proof (cases out)
    case (AStream r st)
    then show ?thesis
      using Loop(5) s [OF AStream] complete_slots [of env st w w3 outcome err] t3 assms(3) by (simp add: complete_def)
  qed (use Loop(5) took_returned [OF t3 assms(3)] in \<open>simp_all add: took_none\<close>)
qed


section \<open>Witnesses\<close>

text \<open>A route with one slot and one retry; the first call fails, the second returns a stream.\<close>

definition demo_limited_route :: Route where
  "demo_limited_route = demo_route\<lparr>r_Retries := 1,
     r_Limits := (r_Limits demo_route)\<lparr>lc_Concurrency := 1\<rparr>\<rparr>"

definition demo_attempt :: Attempt where
  "demo_attempt = \<lparr>at_Number = 1, at_Retry = 0, at_ID = ''x1:1'',
     at_Route = demo_resolved\<lparr>rr_Route := Some demo_limited_route\<rparr>, at_StartedAt = 5\<rparr>"

definition demo_stream :: Result where
  "demo_stream = \<lparr>rs_Provider = [], rs_Route = [], rs_Model = [], rs_AttemptID = [], rs_Headers = [], rs_ContentType = [],
     rs_RawBody = [], rs_RawStream = Some [(''data'', None)], rs_Usage = zero_usage, rs_UsageSnapshot = None, rs_StatusCode = 200\<rparr>"

definition demo_env :: attemptEnv where
  "demo_env = \<lparr>en_State = NoState, en_Rates = NoRates, en_OnBreakerUpdateError = False, en_now = int,
     en_ctxErr = (\<lambda>_. None), en_callCtxErr = (\<lambda>_. None), en_slot = (\<lambda>_. None), en_allow = (\<lambda>_. Inr True),
     en_allowAttempt = (\<lambda>_. Inr (True, 0)), en_update = (\<lambda>_. None), en_reserve = (\<lambda>_. None), en_rate = (\<lambda>_. None),
     en_next = (\<lambda>tr. if length (call_ids tr) = 1 then Some (Inl (WithoutAttemptCharge (Plain ''refused''))) else Some (Inr (Some demo_stream)))\<rparr>"

definition demo_world :: world where
  "demo_world = \<lparr>w_trace = [], w_tick = 7, w_breaker = None, w_limiters = no_limiters\<rparr>"

definition demo_run :: "attemptOutcome \<times> world" where
  "demo_run = WrapAttempt demo_env (rq_Meta demo_request) zero_usage demo_attempt demo_world"

lemma demo_run_pair: "WrapAttempt demo_env (rq_Meta demo_request) zero_usage demo_attempt demo_world = (fst demo_run, snd demo_run)"
  by (simp add: demo_run_def)

lemma demo_attempt_route: "rr_Route (at_Route demo_attempt) = Some demo_limited_route"
  by (simp add: demo_attempt_def)

lemma demo_run_trace:
  "call_ids (w_trace (snd demo_run)) = [''x1:1:retry:0'', ''x1:1:retry:1''] \<and> ownsSlots (fst demo_run)"
  by code_simp

theorem attempt_calls_bounded_witness:
  "\<exists>k. call_ids (w_trace (snd demo_run)) = map (retryID demo_attempt) [0..<k] \<and> k \<le> 11 \<and>
     call_ids (w_trace (snd demo_run)) = [''x1:1:retry:0'', ''x1:1:retry:1'']"
proof -
  have "w_trace demo_world = []" by (simp add: demo_world_def)
  then obtain k where "call_ids (w_trace (snd demo_run)) = map (retryID demo_attempt) [0..<k]" "k \<le> 11"
    using attempt_calls_bounded [OF demo_run_pair demo_attempt_route] by (metis append_Nil)
  then show ?thesis using demo_run_trace by blast
qed

theorem attempt_reservations_witness:
  "mon_run demo_env [] (w_trace (snd demo_run)) RIdle = Some RIdle"
proof -
  have "w_trace demo_world = []" by (simp add: demo_world_def)
  then show ?thesis using attempt_reservations [OF demo_run_pair demo_attempt_route] by auto
qed

text \<open>The same route where the slots are those of an ordered state store and the first call returns the stream.\<close>

definition demo_dist_env :: attemptEnv where
  "demo_dist_env = demo_env\<lparr>en_State := OrderedState, en_next := (\<lambda>_. Some (Inr (Some demo_stream)))\<rparr>"

definition demo_dist_run :: "attemptOutcome \<times> world" where
  "demo_dist_run = WrapAttempt demo_dist_env (rq_Meta demo_request) zero_usage demo_attempt demo_world"

lemma demo_dist_slot:
  "ownsSlots (fst demo_dist_run)"
  "dist_open demo_dist_env (w_trace (snd demo_dist_run)) (''route:'' @ r_Name demo_limited_route, ''x1:1'') = 1"
proof -
  have n: "nat (routeAttemptCount (Some demo_limited_route)) = Suc 1" by code_simp
  have l: "r_Limits demo_limited_route = (r_Limits demo_route)\<lparr>lc_Concurrency := 1\<rparr>" "lc_ProviderConcurrency (r_Limits demo_route) = 0"
    "at_ID demo_attempt = ''x1:1''" "rs_RawStream demo_stream \<noteq> None"
    by (simp_all add: demo_limited_route_def demo_route_def demo_attempt_def demo_stream_def)
  note defs = demo_dist_run_def WrapAttempt_def demo_dist_env_def demo_env_def demo_world_def demo_attempt_route breakerAllow_def
    currentTime_def acquire_def slotToken_def acquireWith_def acquireDistributedLimiter_def tryCall_def checkRates_def afterCall_def
  show "ownsSlots (fst demo_dist_run)" by (simp add: defs n l Let_def)
  show "dist_open demo_dist_env (w_trace (snd demo_dist_run)) (''route:'' @ r_Name demo_limited_route, ''x1:1'') = 1"
    by (simp add: defs n l Let_def dist_open_def)
qed

theorem attempt_slots_returned_witness:
  "\<exists>r s. fst demo_dist_run = AStream r s \<and>
     dist_open demo_dist_env (w_trace (snd demo_dist_run)) (''route:'' @ r_Name demo_limited_route, ''x1:1'') = 1 \<and>
     w_slots demo_dist_env (snd (complete demo_dist_env streamSucceeded None s (snd demo_dist_run))) = w_slots demo_dist_env demo_world"
proof -
  obtain r s where s: "fst demo_dist_run = AStream r s" using demo_dist_slot(1) by (cases "fst demo_dist_run") auto
  have run: "WrapAttempt demo_dist_env (rq_Meta demo_request) zero_usage demo_attempt demo_world = (fst demo_dist_run, snd demo_dist_run)"
    by (simp add: demo_dist_run_def)
  have "lm_wf (w_limiters demo_world)" by (simp add: demo_world_def)
  moreover have "lc_Concurrency (r_Limits demo_limited_route) \<le> MaxInt64" "lc_ProviderConcurrency (r_Limits demo_limited_route) \<le> MaxInt64"
    by (simp_all add: demo_limited_route_def demo_route_def)
  ultimately show ?thesis
    using attempt_slots_returned [OF run demo_attempt_route, of streamSucceeded None] s demo_dist_slot(2) by auto
qed

end
