(* ===== verification/Router.thy ===== *)
theory Router
  imports Gateway_Types Go_Hash "HOL-Library.List_Lexorder" "HOL-Library.Char_ord" "HOL-Library.Product_Lexorder"
begin

text \<open>
  Routing, from \<open>gateway/gateway.go\<close> (\<open>Router\<close>), with the route catalog of \<open>gateway/config.go\<close>: which
  configured routes can serve a request, in the order of priority, with a weighted choice within a
  priority. Strings are compared byte by byte. A provider is an argument: its name, the operations it
  supports, its bridge planner and its preflight check if it has them. Deep copies (\<open>cloneRoute\<close>,
  \<open>Request.Clone\<close>) are the identity on values.
\<close>

section \<open>Providers and snapshots\<close>

record Provider =
  pv_Name :: string
  pv_Supports :: "Operation \<Rightarrow> bool"
  pv_PlanBridge :: "(Route \<Rightarrow> Request \<Rightarrow> Operation \<times> string \<times> bool) option"
  pv_Preflight :: "(ResolvedRoute \<Rightarrow> Request \<Rightarrow> goerr option) option"

text \<open>A nil provider is \<open>None\<close>; the last of several with one name stays registered.\<close>

definition providerRegistry :: "Provider option list \<Rightarrow> string \<rightharpoonup> Provider" where
  "providerRegistry providers =
     fold (\<lambda>p reg. case p of None \<Rightarrow> reg
             | Some provider \<Rightarrow> if pv_Name provider = [] then reg else reg(pv_Name provider \<mapsto> provider))
       providers Map.empty"

record Snapshot =
  sn_Routes :: "(string, Route option) gomap"
  sn_models :: "string list"
  sn_modelSet :: "string list option"
  sn_routesByModel :: "(string, Route list) gomap option"

definition addByModel :: "Route \<Rightarrow> (string, Route list) gomap \<Rightarrow> (string, Route list) gomap" where
  "addByModel route m =
     AList.update (r_Model route) ((case map_of m (r_Model route) of None \<Rightarrow> [] | Some rs \<Rightarrow> rs) @ [route]) m"

definition rebuildRouteCatalog :: "Snapshot \<Rightarrow> Snapshot" where
  "rebuildRouteCatalog s =
     (let routes = List.map_filter snd (sn_Routes s);
          routesByModel = fold addByModel routes [];
          modelSet = map fst routesByModel
      in s\<lparr>sn_models := sort modelSet, sn_modelSet := Some modelSet,
           sn_routesByModel := Some (map (\<lambda>(m, rs). (m, sort_key r_Name rs)) routesByModel)\<rparr>)"

definition HasModel :: "Snapshot \<Rightarrow> string \<Rightarrow> bool" where
  "HasModel s model =
     (case sn_modelSet s of
        Some ms \<Rightarrow> model \<in> set ms
      | None \<Rightarrow> model \<in> set (sn_models s))"

section \<open>Preparing a route\<close>

definition isKnownOperation :: "Operation \<Rightarrow> bool" where
  "isKnownOperation op \<longleftrightarrow> op \<in> {OpChatCompletions, OpResponses, OpCompletions, OpEmbeddings}"

definition RequestedMaxOutputTokens :: "Request \<Rightarrow> int" where
  "RequestedMaxOutputTokens env = h_MaxOutputTokens (rq_Hints env)"

text \<open>The bridge plan of a route that lacks the operation: a reason, or the target operation.\<close>

definition planBridge :: "(string \<rightharpoonup> Provider) \<Rightarrow> Route \<Rightarrow> Request \<Rightarrow> string + Operation" where
  "planBridge providers route env =
     (case providers (r_Provider route) of
        None \<Rightarrow> Inl ''route does not support requested operation''
      | Some provider \<Rightarrow>
          (case pv_PlanBridge provider of
             None \<Rightarrow> Inl ''route does not support requested operation''
           | Some plan \<Rightarrow>
               let (target, reason, ok) = plan route env
               in if \<not> ok then Inl (if reason = [] then ''route does not support requested operation'' else reason)
                  else if \<not> isKnownOperation target \<or> \<not> Capability_Supports (r_Capabilities route) target \<or>
                          \<not> pv_Supports provider target
                  then Inl ''provider returned an invalid compatibility bridge plan''
                  else Inr target))"

text \<open>The checks after the operation: the first missing capability, if any.\<close>

definition missingCapability :: "Route \<Rightarrow> Request \<Rightarrow> string option" where
  "missingCapability route env =
     (let c = r_Capabilities route; h = rq_Hints env; maxOut = RequestedMaxOutputTokens env
      in if rq_Stream env \<and> \<not> cap_Streaming c then Some ''route does not support streaming''
         else if h_RequiresTools h \<and> \<not> cap_ToolCalling c then Some ''route does not support tool calling''
         else if h_RequiresStructuredOutput h \<and> \<not> cap_StructuredOutput c then Some ''route does not support structured output''
         else if h_RequiresVision h \<and> \<not> cap_VisionInput c then Some ''route does not support vision input''
         else if h_RequiresAudio h \<and> \<not> cap_Audio c then Some ''route does not support audio''
         else if h_RequiresReasoning h \<and> \<not> cap_Reasoning c then Some ''route does not support reasoning parameters''
         else if maxOut > 0 \<and> cap_MaxOutputTokens c > 0 \<and> maxOut > cap_MaxOutputTokens c
         then Some ''requested output tokens exceed route maximum''
         else None)"

definition prepareRoute :: "(string \<rightharpoonup> Provider) \<Rightarrow> Route \<Rightarrow> Request \<Rightarrow> string + ResolvedRoute" where
  "prepareRoute providers route env =
     (if rq_Provider env \<noteq> [] \<and> r_Provider route \<noteq> rq_Provider env
      then Inl ''route provider does not match request provider''
      else
        let prepared = env\<lparr>rq_Model := (if r_UpstreamModel route = [] then r_Model route else r_UpstreamModel route)\<rparr>;
            resolved = \<lparr>rr_Route = Some route, rr_Request = prepared, rr_BridgeFrom = [], rr_Headers = [],
                        rr_Effective = None, rr_Estimate = zero_usage\<rparr>;
            bridged = (if Capability_Supports (r_Capabilities route) (rq_Operation env) then Inr resolved
                       else case planBridge providers route env of
                              Inl reason \<Rightarrow> Inl reason
                            | Inr target \<Rightarrow> Inr (resolved\<lparr>rr_BridgeFrom := rq_Operation env,
                                              rr_Request := prepared\<lparr>rq_Operation := target\<rparr>\<rparr>))
        in case bridged of
             Inl reason \<Rightarrow> Inl reason
           | Inr resolved \<Rightarrow>
               (case missingCapability route env of Some reason \<Rightarrow> Inl reason | None \<Rightarrow> Inr resolved))"

section \<open>Weighted choice\<close>

abbreviation maxUint64 :: "64 word" where
  "maxUint64 \<equiv> - 1"

abbreviation cand_Route :: "ResolvedRoute \<Rightarrow> Route" where
  "cand_Route c \<equiv> the (rr_Route c)"

abbreviation cand_Weight :: "ResolvedRoute \<Rightarrow> int" where
  "cand_Weight c \<equiv> r_Weight (cand_Route c)"

fun totalWeight :: "ResolvedRoute list \<Rightarrow> 64 word \<Rightarrow> 64 word" where
  "totalWeight [] acc = acc"
| "totalWeight (c # cs) acc =
     (if cand_Weight c \<le> 0 then totalWeight cs acc
      else
        let weight = word_of_int (cand_Weight c)
        in if acc > maxUint64 - weight then maxUint64 else totalWeight cs (acc + weight))"

fun pickLoop :: "ResolvedRoute list \<Rightarrow> nat \<Rightarrow> 64 word \<Rightarrow> 64 word \<Rightarrow> nat" where
  "pickLoop [] i offset target = 0"
| "pickLoop (c # cs) i offset target =
     (if cand_Weight c \<le> 0 then pickLoop cs (Suc i) offset target
      else
        let weight = word_of_int (cand_Weight c);
            offset = (if offset > maxUint64 - weight then maxUint64 else offset + weight)
        in if target < offset then i else pickLoop cs (Suc i) offset target)"

definition rotateWeighted :: "string \<Rightarrow> ResolvedRoute list \<Rightarrow> string \<Rightarrow> ResolvedRoute list" where
  "rotateWeighted alias routes requestID =
     (if length routes \<le> 1 then routes
      else
        let weights = totalWeight routes 0
        in if weights = 0 then routes
           else
             let target = fnv64a (alias @ '':'' @ requestID) mod weights;
                 pick = pickLoop routes 0 0 target
             in drop pick routes @ take pick routes)"

definition routeGroupKey :: "Request \<Rightarrow> string" where
  "routeGroupKey env = (if rq_Provider env = [] then rq_Model env else rq_Provider env @ '':'' @ rq_Model env)"

section \<open>Resolving a request\<close>

fun prepareAll :: "(string \<rightharpoonup> Provider) \<Rightarrow> Request \<Rightarrow> Route list \<Rightarrow> ResolvedRoute list \<times> string list" where
  "prepareAll providers env [] = ([], [])"
| "prepareAll providers env (route # routes) =
     (let (candidates, unsupported) = prepareAll providers env routes
      in case prepareRoute providers route env of
           Inr prepared \<Rightarrow> (prepared # candidates, unsupported)
         | Inl reason \<Rightarrow>
             (candidates, if reason \<noteq> [] then (r_Name route @ '': '' @ reason) # unsupported else unsupported))"

function orderGroups :: "string \<Rightarrow> string \<Rightarrow> ResolvedRoute list \<Rightarrow> ResolvedRoute list" where
  "orderGroups alias seed [] = []"
| "orderGroups alias seed (c # cs) =
     (let same = (\<lambda>d. r_Priority (cand_Route d) = r_Priority (cand_Route c))
      in rotateWeighted alias (c # takeWhile same cs) seed @ orderGroups alias seed (dropWhile same cs))"
  by pat_completeness auto
termination
  by (relation "measure (\<lambda>(alias, seed, cs). length cs)") (auto simp: less_Suc_eq_le length_dropWhile_le)

definition routesFor :: "Snapshot \<Rightarrow> string \<Rightarrow> Route list" where
  "routesFor s model =
     (case sn_routesByModel s of
        Some m \<Rightarrow> (case map_of m model of None \<Rightarrow> [] | Some rs \<Rightarrow> rs)
      | None \<Rightarrow> sort_key r_Name (filter (\<lambda>r. r_Model r = model) (List.map_filter snd (sn_Routes s))))"

definition Resolve :: "(string \<rightharpoonup> Provider) \<Rightarrow> Snapshot \<Rightarrow> Request \<Rightarrow> goerr + ResolvedRoute list" where
  "Resolve providers s env =
     (let (candidates, unsupported) = prepareAll providers env (routesFor s (rq_Model env))
      in if candidates = [] \<and> unsupported = [] then Inl (api (ModelNotFound (rq_Model env)))
         else if candidates = [] then Inl (api (UnsupportedOperation (JoinStrings unsupported ''; '')))
         else
           let candidates = sort_key (\<lambda>c. (- r_Priority (cand_Route c), r_Name (cand_Route c))) candidates;
               seed = (if m_ExecutionID (rq_Meta env) = [] then m_RequestID (rq_Meta env) else m_ExecutionID (rq_Meta env))
           in Inr (orderGroups (routeGroupKey env) seed candidates))"


section \<open>The catalog\<close>

lemma addByModel_lookup:
  "map_of (addByModel r m) k =
     (if k = r_Model r then Some ((case map_of m k of None \<Rightarrow> [] | Some rs \<Rightarrow> rs) @ [r]) else map_of m k)"
  by (simp add: addByModel_def)

lemma catalog_lookup:
  "map_of (fold addByModel rs m) k =
     (let new = filter (\<lambda>r. r_Model r = k) rs
      in if new = [] then map_of m k else Some ((case map_of m k of None \<Rightarrow> [] | Some old \<Rightarrow> old) @ new))"
  by (induction rs arbitrary: m) (auto simp: addByModel_lookup Let_def)

lemma routesFor_catalog:
  "routesFor (rebuildRouteCatalog s) model =
     sort_key r_Name (filter (\<lambda>r. r_Model r = model) (List.map_filter snd (sn_Routes s)))"
proof -
  have "map_of (map (\<lambda>(m, rs). (m, sort_key r_Name rs)) xs) k = map_option (sort_key r_Name) (map_of xs k)"
    for xs :: "(string, Route list) gomap" and k
    by (induction xs) auto
  then show ?thesis by (simp add: routesFor_def rebuildRouteCatalog_def Let_def catalog_lookup)
qed

section \<open>Candidates\<close>

lemma planBridge_reason: "planBridge providers route env = Inl reason \<Longrightarrow> reason \<noteq> []"
  by (auto simp: planBridge_def Let_def split: option.splits prod.splits if_splits)

lemma missingCapability_reason: "missingCapability route env = Some reason \<Longrightarrow> reason \<noteq> []"
  by (auto simp: missingCapability_def Let_def split: if_splits)

lemma prepareRoute_reason: "prepareRoute providers route env = Inl reason \<Longrightarrow> reason \<noteq> []"
  by (auto simp: prepareRoute_def Let_def dest: planBridge_reason missingCapability_reason
      split: if_splits sum.splits option.splits)

text \<open>What a candidate promises: the route can serve the request it carries.\<close>

definition canServe :: "(string \<rightharpoonup> Provider) \<Rightarrow> Route \<Rightarrow> Request \<Rightarrow> ResolvedRoute \<Rightarrow> bool" where
  "canServe providers route env c \<longleftrightarrow>
     rr_Route c = Some route \<and>
     (rq_Provider env = [] \<or> r_Provider route = rq_Provider env) \<and>
     rq_Operation (rr_Request c) \<in> set (cap_Operations (r_Capabilities route)) \<and>
     (rq_Operation (rr_Request c) = rq_Operation env \<or>
        rr_BridgeFrom c = rq_Operation env \<and> isKnownOperation (rq_Operation (rr_Request c)) \<and>
        (\<exists>provider. providers (r_Provider route) = Some provider \<and> pv_Supports provider (rq_Operation (rr_Request c)))) \<and>
     rq_Model (rr_Request c) = firstNonEmpty [r_UpstreamModel route, r_Model route] \<and>
     (rq_Stream env \<longrightarrow> cap_Streaming (r_Capabilities route)) \<and>
     (h_RequiresTools (rq_Hints env) \<longrightarrow> cap_ToolCalling (r_Capabilities route)) \<and>
     (h_RequiresStructuredOutput (rq_Hints env) \<longrightarrow> cap_StructuredOutput (r_Capabilities route)) \<and>
     (h_RequiresVision (rq_Hints env) \<longrightarrow> cap_VisionInput (r_Capabilities route)) \<and>
     (h_RequiresAudio (rq_Hints env) \<longrightarrow> cap_Audio (r_Capabilities route)) \<and>
     (h_RequiresReasoning (rq_Hints env) \<longrightarrow> cap_Reasoning (r_Capabilities route)) \<and>
     (cap_MaxOutputTokens (r_Capabilities route) > 0 \<longrightarrow>
        h_MaxOutputTokens (rq_Hints env) \<le> cap_MaxOutputTokens (r_Capabilities route))"

lemma planBridge_target:
  assumes "planBridge providers route env = Inr target"
  shows "isKnownOperation target" "target \<in> set (cap_Operations (r_Capabilities route))"
    "\<exists>provider. providers (r_Provider route) = Some provider \<and> pv_Supports provider target"
  using assms by (auto simp: planBridge_def Let_def Capability_Supports_def split: option.splits prod.splits if_splits)

lemma missingCapability_None:
  assumes "missingCapability route env = None"
  shows "rq_Stream env \<longrightarrow> cap_Streaming (r_Capabilities route)"
    "h_RequiresTools (rq_Hints env) \<longrightarrow> cap_ToolCalling (r_Capabilities route)"
    "h_RequiresStructuredOutput (rq_Hints env) \<longrightarrow> cap_StructuredOutput (r_Capabilities route)"
    "h_RequiresVision (rq_Hints env) \<longrightarrow> cap_VisionInput (r_Capabilities route)"
    "h_RequiresAudio (rq_Hints env) \<longrightarrow> cap_Audio (r_Capabilities route)"
    "h_RequiresReasoning (rq_Hints env) \<longrightarrow> cap_Reasoning (r_Capabilities route)"
    "cap_MaxOutputTokens (r_Capabilities route) > 0 \<longrightarrow>
        h_MaxOutputTokens (rq_Hints env) \<le> cap_MaxOutputTokens (r_Capabilities route)"
  using assms by (simp_all add: missingCapability_def Let_def RequestedMaxOutputTokens_def split: if_splits) linarith

text \<open>The request a candidate carries, with the operation it is sent as.\<close>

definition preparedFor :: "Route \<Rightarrow> Request \<Rightarrow> Operation \<Rightarrow> Request" where
  "preparedFor route env op =
     env\<lparr>rq_Model := (if r_UpstreamModel route = [] then r_Model route else r_UpstreamModel route), rq_Operation := op\<rparr>"

lemma prepareRoute_Inr:
  assumes "prepareRoute providers route env = Inr c"
  obtains op where "rr_Route c = Some route" "rr_Request c = preparedFor route env op"
    "rq_Provider env = [] \<or> r_Provider route = rq_Provider env" "missingCapability route env = None"
    "Capability_Supports (r_Capabilities route) (rq_Operation env) \<and> op = rq_Operation env \<or>
     planBridge providers route env = Inr op \<and> rr_BridgeFrom c = rq_Operation env"
proof -
  have m: "missingCapability route env = None" and p: "rq_Provider env = [] \<or> r_Provider route = rq_Provider env"
    using assms by (auto simp: prepareRoute_def Let_def split: if_splits sum.splits option.splits)
  show ?thesis
  proof (cases "Capability_Supports (r_Capabilities route) (rq_Operation env)")
    case True
    then show ?thesis using assms that [of "rq_Operation env"] m p
      by (auto simp: prepareRoute_def Let_def preparedFor_def split: if_splits)
  next
    case False
    then obtain target where t: "planBridge providers route env = Inr target"
      using assms by (auto simp: prepareRoute_def Let_def split: if_splits sum.splits)
    then show ?thesis using False assms that [of target] m p
      by (auto simp: prepareRoute_def Let_def preparedFor_def split: if_splits)
  qed
qed

lemma prepareRoute_canServe:
  assumes "prepareRoute providers route env = Inr c"
  shows "canServe providers route env c"
proof -
  obtain op where c: "rr_Route c = Some route" "rr_Request c = preparedFor route env op"
    "rq_Provider env = [] \<or> r_Provider route = rq_Provider env" "missingCapability route env = None"
    "Capability_Supports (r_Capabilities route) (rq_Operation env) \<and> op = rq_Operation env \<or>
     planBridge providers route env = Inr op \<and> rr_BridgeFrom c = rq_Operation env"
    by (rule prepareRoute_Inr [OF assms])
  have op: "op \<in> set (cap_Operations (r_Capabilities route))"
    using c(5) planBridge_target(2) by (auto simp: Capability_Supports_def)
  have bridge: "op = rq_Operation env \<or> rr_BridgeFrom c = rq_Operation env \<and> isKnownOperation op \<and>
      (\<exists>provider. providers (r_Provider route) = Some provider \<and> pv_Supports provider op)"
    using c(5) planBridge_target(1,3) by blast
  show ?thesis
    unfolding canServe_def using c(1-3) op bridge missingCapability_None [OF c(4)] by (simp add: preparedFor_def)
qed

lemma prepareAll_candidates:
  "fst (prepareAll providers env routes) =
     List.map_filter (\<lambda>r. case prepareRoute providers r env of Inr c \<Rightarrow> Some c | Inl _ \<Rightarrow> None) routes"
  by (induction routes) (auto simp: map_filter_simps split: sum.splits prod.splits)

lemma prepareAll_unsupported:
  "snd (prepareAll providers env routes) =
     List.map_filter (\<lambda>r. case prepareRoute providers r env of Inr c \<Rightarrow> None | Inl reason \<Rightarrow> Some (r_Name r @ '': '' @ reason)) routes"
  by (induction routes) (auto simp: map_filter_simps dest: prepareRoute_reason split: sum.splits prod.splits)

section \<open>Order\<close>

lemma mset_rotate: "mset (drop n xs @ take n xs) = mset xs"
  by (metis append_take_drop_id mset_append union_commute)

lemma rotateWeighted_mset [simp]: "mset (rotateWeighted key g seed) = mset g"
  by (auto simp: rotateWeighted_def Let_def mset_rotate simp del: mset_append)

lemma orderGroups_mset [simp]: "mset (orderGroups key seed cs) = mset cs"
proof (induction key seed cs rule: orderGroups.induct)
  case (2 key seed c cs)
  let ?same = "\<lambda>d. r_Priority (cand_Route d) = r_Priority (cand_Route c)"
  have "mset (takeWhile ?same cs) + mset (dropWhile ?same cs) = mset cs"
    by (metis mset_append takeWhile_dropWhile_id)
  then show ?case using 2 [OF refl] by (simp add: Let_def)
qed simp

abbreviation prio :: "ResolvedRoute \<Rightarrow> int" where
  "prio c \<equiv> r_Priority (cand_Route c)"

lemma sorted_same: "\<forall>x \<in> set xs. prio x = p \<Longrightarrow> sorted_wrt (\<lambda>a b. prio b \<le> prio a) xs"
  by (induction xs) auto

lemma dropWhile_sorted: "sorted_wrt P xs \<Longrightarrow> sorted_wrt P (dropWhile Q xs)"
  by (induction xs) auto

lemma orderGroups_sorted:
  "sorted_wrt (\<lambda>a b. prio b \<le> prio a) cs \<Longrightarrow> sorted_wrt (\<lambda>a b. prio b \<le> prio a) (orderGroups key seed cs)"
proof (induction key seed cs rule: orderGroups.induct)
  case (2 key seed c cs)
  let ?same = "\<lambda>d. prio d = prio c"
  let ?g = "rotateWeighted key (c # takeWhile ?same cs) seed" and ?rest = "orderGroups key seed (dropWhile ?same cs)"
  have g: "set ?g = set (c # takeWhile ?same cs)" by (metis rotateWeighted_mset set_mset_mset)
  have rest: "set ?rest = set (dropWhile ?same cs)" by (metis orderGroups_mset set_mset_mset)
  have same: "prio x = prio c" if "x \<in> set ?g" for x using that unfolding g by (auto dest: set_takeWhileD)
  have below: "prio y \<le> prio c" if "y \<in> set ?rest" for y using that 2(2) unfolding rest by (auto dest: set_dropWhileD)
  have "prio y \<le> prio x" if "x \<in> set ?g" "y \<in> set ?rest" for x y
    using same [OF that(1)] below [OF that(2)] by linarith
  moreover have "sorted_wrt (\<lambda>a b. prio b \<le> prio a) ?rest" using 2(1) [OF refl] 2(2) by (simp add: dropWhile_sorted)
  moreover have "sorted_wrt (\<lambda>a b. prio b \<le> prio a) ?g" by (rule sorted_same) (blast intro: same)
  ultimately show ?case unfolding orderGroups.simps Let_def sorted_wrt_append by blast
qed simp

lemma sort_key_prio:
  "sorted_wrt (\<lambda>a b. prio b \<le> prio a) (sort_key (\<lambda>c. (- prio c, r_Name (cand_Route c))) cs)"
proof -
  let ?k = "\<lambda>c. (- prio c, r_Name (cand_Route c))"
  have "sorted_wrt (\<lambda>a b. ?k a \<le> ?k b) (sort_key ?k cs)"
    using sorted_sort_key [of ?k cs] by (simp add: sorted_map)
  then show ?thesis
  proof (rule sorted_wrt_mono_rel [rotated])
    fix a b
    assume "?k a \<le> ?k b"
    then show "prio b \<le> prio a" unfolding less_eq_prod_def by auto
  qed
qed


section \<open>Shares\<close>

abbreviation wt :: "ResolvedRoute \<Rightarrow> nat" where
  "wt c \<equiv> nat (cand_Weight c)"

abbreviation weight_sum :: "ResolvedRoute list \<Rightarrow> nat" where
  "weight_sum cs \<equiv> sum_list (map wt cs)"

lemma weight_word:
  assumes "0 < cand_Weight c" "unat acc + wt c < 2 ^ 64"
  shows "unat (word_of_int (cand_Weight c) :: 64 word) = wt c"
    "\<not> acc > maxUint64 - word_of_int (cand_Weight c)"
    "unat (acc + word_of_int (cand_Weight c) :: 64 word) = unat acc + wt c"
proof -
  let ?w = "word_of_int (cand_Weight c) :: 64 word"
  have "uint ?w = cand_Weight c"
    using assms by (simp add: uint_word_of_int)
  then show w: "unat ?w = wt c" by (simp add: unat_eq_nat_uint)
  then show s: "unat (acc + ?w) = unat acc + wt c"
    using assms(2) by (subst unat_add_lem [THEN iffD1]) simp_all
  have "unat (maxUint64 - ?w) = 2 ^ 64 - 1 - wt c"
    using w unat_sub [of ?w maxUint64] by (simp add: unsigned_minus_1_eq_mask mask_eq_exp_minus_1)
  then show "\<not> acc > maxUint64 - ?w" using assms(2) by (simp add: word_less_nat_alt not_less)
qed

lemma totalWeight_exact:
  "unat acc + weight_sum cs < 2 ^ 64 \<Longrightarrow> unat (totalWeight cs acc) = unat acc + weight_sum cs"
proof (induction cs arbitrary: acc)
  case (Cons c cs)
  show ?case
  proof (cases "cand_Weight c \<le> 0")
    case True
    then show ?thesis using Cons by simp
  next
    case False
    then have "0 < cand_Weight c" "unat acc + wt c < 2 ^ 64" using Cons.prems by simp_all
    note w = weight_word [OF this]
    show ?thesis using False Cons.IH [of "acc + word_of_int (cand_Weight c)"] Cons.prems w by (simp add: Let_def)
  qed
qed simp

text \<open>The pick is the candidate whose interval of weights contains the target.\<close>

lemma pickLoop_interval:
  assumes "unat off + weight_sum cs < 2 ^ 64" "unat off \<le> unat target" "unat target < unat off + weight_sum cs"
  shows "\<exists>j < length cs. pickLoop cs i off target = i + j \<and>
    unat off + weight_sum (take j cs) \<le> unat target \<and> unat target < unat off + weight_sum (take j cs) + wt (cs ! j)"
  using assms
proof (induction cs arbitrary: i off)
  case (Cons c cs)
  show ?case
  proof (cases "cand_Weight c \<le> 0")
    case True
    then obtain j where "j < length cs" "pickLoop cs (Suc i) off target = Suc i + j"
      "unat off + weight_sum (take j cs) \<le> unat target" "unat target < unat off + weight_sum (take j cs) + wt (cs ! j)"
      using Cons.IH [of off "Suc i"] Cons.prems by auto
    then show ?thesis using True by (intro exI [of _ "Suc j"]) simp
  next
    case False
    then have "0 < cand_Weight c" "unat off + wt c < 2 ^ 64" using Cons.prems by simp_all
    note w = weight_word [OF this]
    let ?off = "off + word_of_int (cand_Weight c)"
    show ?thesis
    proof (cases "target < ?off")
      case True
      then show ?thesis using False w Cons.prems(2)
        by (intro exI [of _ 0]) (simp add: Let_def word_less_nat_alt)
    next
      case ge: False
      then have "unat ?off \<le> unat target" by (simp add: word_less_nat_alt)
      then obtain j where "j < length cs" "pickLoop cs (Suc i) ?off target = Suc i + j"
        "unat ?off + weight_sum (take j cs) \<le> unat target" "unat target < unat ?off + weight_sum (take j cs) + wt (cs ! j)"
        using Cons.IH [of ?off "Suc i"] Cons.prems w(3) by auto
      then show ?thesis using False ge w by (intro exI [of _ "Suc j"]) (simp add: Let_def)
    qed
  qed
qed simp

lemma weight_sum_take_mono: "i \<le> j \<Longrightarrow> weight_sum (take i cs) \<le> weight_sum (take j cs)"
  by (metis le_add1 le_iff_add map_append sum_list_append take_add)

lemma interval_unique:
  assumes "weight_sum (take i cs) \<le> t" "t < weight_sum (take i cs) + wt (cs ! i)" "i < length cs"
    "weight_sum (take j cs) \<le> t" "t < weight_sum (take j cs) + wt (cs ! j)" "j < length cs"
  shows "i = j"
proof -
  have s: "weight_sum (take (Suc k) cs) = weight_sum (take k cs) + wt (cs ! k)" if "k < length cs" for k
    using that by (simp add: take_Suc_conv_app_nth)
  have "\<not> i < j"
  proof
    assume "i < j"
    then have "weight_sum (take (Suc i) cs) \<le> weight_sum (take j cs)" by (intro weight_sum_take_mono) simp
    then show False using s [OF assms(3)] assms(2,4) by linarith
  qed
  moreover have "\<not> j < i"
  proof
    assume "j < i"
    then have "weight_sum (take (Suc j) cs) \<le> weight_sum (take i cs)" by (intro weight_sum_take_mono) simp
    then show False using s [OF assms(6)] assms(1,5) by linarith
  qed
  ultimately show ?thesis by simp
qed

lemma card_unat_interval:
  assumes "a + n \<le> 2 ^ 64"
  shows "card {t :: 64 word. a \<le> unat t \<and> unat t < a + n} = n"
proof -
  have "unat ` {t :: 64 word. a \<le> unat t \<and> unat t < a + n} = {a ..< a + n}"
  proof
    show "{a ..< a + n} \<subseteq> unat ` {t :: 64 word. a \<le> unat t \<and> unat t < a + n}"
    proof
      fix x
      assume x: "x \<in> {a ..< a + n}"
      then have "unat (word_of_nat x :: 64 word) = x" using assms unfolding unat_of_nat by simp
      then show "x \<in> unat ` {t :: 64 word. a \<le> unat t \<and> unat t < a + n}"
        using x by (intro image_eqI [of _ _ "word_of_nat x"]) simp_all
    qed
  qed auto
  moreover have "inj_on unat {t :: 64 word. a \<le> unat t \<and> unat t < a + n}" by (simp add: inj_on_def word_unat_eq_iff)
  ultimately have "card {t :: 64 word. a \<le> unat t \<and> unat t < a + n} = card {a ..< a + n}"
    using card_image [of unat "{t :: 64 word. a \<le> unat t \<and> unat t < a + n}"] by simp
  then show ?thesis by simp
qed


section \<open>Properties\<close>

lemma Resolve_Inr:
  assumes "Resolve providers s env = Inr rs"
  shows "mset rs = mset (fst (prepareAll providers env (routesFor s (rq_Model env))))"
    "sorted_wrt (\<lambda>a b. prio b \<le> prio a) rs" "rs \<noteq> []"
proof -
  let ?cs = "fst (prepareAll providers env (routesFor s (rq_Model env)))"
  let ?sorted = "sort_key (\<lambda>c. (- prio c, r_Name (cand_Route c))) ?cs"
  obtain seed where rs: "rs = orderGroups (routeGroupKey env) seed ?sorted" and ne: "?cs \<noteq> []"
    using assms by (auto simp: Resolve_def Let_def split: prod.splits if_splits)
  show m: "mset rs = mset ?cs" by (simp add: rs)
  show "sorted_wrt (\<lambda>a b. prio b \<le> prio a) rs" unfolding rs by (rule orderGroups_sorted [OF sort_key_prio])
  show "rs \<noteq> []" using m ne by auto
qed

text \<open>
  C11. The candidates of a request are exactly the routes of its model that can serve it (the
  provider, the operation or a bridge of it, streaming and every capability the request needs), each
  as often as it is configured, in descending order of priority.
\<close>

theorem Resolve_candidates:
  assumes "Resolve providers s env = Inr rs"
  shows "mset (map rr_Route rs) =
      mset (map Some (filter (\<lambda>r. \<exists>c. prepareRoute providers r env = Inr c) (routesFor s (rq_Model env)))) \<and>
    (\<forall>c \<in> set rs. \<exists>r \<in> set (routesFor s (rq_Model env)). canServe providers r env c) \<and>
    sorted_wrt (\<lambda>a b. prio b \<le> prio a) rs \<and> rs \<noteq> []"
proof -
  let ?routes = "routesFor s (rq_Model env)"
  let ?f = "\<lambda>r. case prepareRoute providers r env of Inr c \<Rightarrow> Some c | Inl _ \<Rightarrow> None"
  have route: "prepareRoute providers r env = Inr c \<Longrightarrow> rr_Route c = Some r" for r c
    using prepareRoute_canServe [of providers r env c] by (simp add: canServe_def)
  have "map rr_Route (List.map_filter ?f xs) = map Some (filter (\<lambda>r. \<exists>c. prepareRoute providers r env = Inr c) xs)" for xs
    by (induction xs) (auto simp: map_filter_simps route split: sum.splits)
  then have "mset (map rr_Route rs) = mset (map Some (filter (\<lambda>r. \<exists>c. prepareRoute providers r env = Inr c) ?routes))"
    using Resolve_Inr(1) [OF assms] by (metis mset_map prepareAll_candidates)
  moreover have "\<exists>r \<in> set ?routes. canServe providers r env c" if "c \<in> set rs" for c
  proof -
    have "c \<in> set (List.map_filter ?f ?routes)"
      using that mset_eq_setD [OF Resolve_Inr(1) [OF assms]] by (simp add: prepareAll_candidates)
    then show ?thesis
      by (auto simp: List.map_filter_def dest!: prepareRoute_canServe split: sum.splits option.splits)
  qed
  ultimately show ?thesis using Resolve_Inr(2,3) [OF assms] by blast
qed

text \<open>
  C12. A request without candidates is an error that says why: a model that no route has is not
  found, and otherwise every route of the model is listed with a reason; an error occurs in no other
  case.
\<close>

theorem Resolve_error:
  "(isl (Resolve providers s env) \<longleftrightarrow> (\<forall>r \<in> set (routesFor s (rq_Model env)). isl (prepareRoute providers r env))) \<and>
   (isl (Resolve providers s env) \<longrightarrow> Resolve providers s env = Inl (api
     (if routesFor s (rq_Model env) = [] then ModelNotFound (rq_Model env)
      else UnsupportedOperation (JoinStrings
        (map (\<lambda>r. r_Name r @ '': '' @ projl (prepareRoute providers r env)) (routesFor s (rq_Model env))) ''; ''))))"
proof -
  let ?routes = "routesFor s (rq_Model env)"
  let ?cs = "fst (prepareAll providers env ?routes)" and ?us = "snd (prepareAll providers env ?routes)"
  have cs: "?cs = [] \<longleftrightarrow> (\<forall>r \<in> set ?routes. isl (prepareRoute providers r env))"
    unfolding prepareAll_candidates by (auto simp: List.map_filter_def filter_empty_conv isl_def split: sum.splits)
      (metis sum.exhaust)
  have none: "isl (Resolve providers s env) \<longleftrightarrow> ?cs = []"
    by (auto simp: Resolve_def Let_def split: prod.splits)
  have us: "?us = map (\<lambda>r. r_Name r @ '': '' @ projl (prepareRoute providers r env)) ?routes" if "?cs = []"
  proof -
    have "snd (prepareAll providers env xs) = map (\<lambda>r. r_Name r @ '': '' @ projl (prepareRoute providers r env)) xs"
      if "\<forall>r \<in> set xs. isl (prepareRoute providers r env)" for xs
      using that unfolding prepareAll_unsupported by (induction xs) (auto simp: map_filter_simps isl_def)
    then show ?thesis using that cs by blast
  qed
  have "Resolve providers s env = Inl (api (if ?us = [] then ModelNotFound (rq_Model env)
      else UnsupportedOperation (JoinStrings ?us ''; '')))" if "?cs = []"
    using that by (auto simp: Resolve_def Let_def split: prod.splits)
  then show ?thesis using none cs us by simp
qed

text \<open>
  C13. Shares. Within a priority, when the weights do not overflow, the number of hash targets that
  pick a route is exactly its weight; the picked route comes first, the others follow in rotation, and
  no route of weight zero or less is picked while another has a positive weight.
\<close>

theorem weighted_share:
  assumes "weight_sum cs < 2 ^ 64" "0 < weight_sum cs" "j < length cs" "1 < length cs"
  shows "card {t. t < totalWeight cs 0 \<and> pickLoop cs 0 0 t = j} = wt (cs ! j) \<and>
    (let pick = pickLoop cs 0 0 (fnv64a (key @ '':'' @ seed) mod totalWeight cs 0)
     in rotateWeighted key cs seed = drop pick cs @ take pick cs \<and> pick < length cs \<and> 0 < cand_Weight (cs ! pick))"
proof -
  have tot: "unat (totalWeight cs 0) = weight_sum cs" using totalWeight_exact [of 0 cs] assms(1) by simp
  have pick: "\<exists>i < length cs. pickLoop cs 0 0 t = i \<and> weight_sum (take i cs) \<le> unat t \<and>
      unat t < weight_sum (take i cs) + wt (cs ! i)" if "t < totalWeight cs 0" for t
    using pickLoop_interval [of 0 cs t 0] assms(1) that tot by (simp add: word_less_nat_alt)
  have le: "weight_sum (take j cs) + wt (cs ! j) \<le> weight_sum cs"
    using weight_sum_take_mono [of "Suc j" "length cs" cs] assms(3) by (simp add: take_Suc_conv_app_nth)
  have "t < totalWeight cs 0 \<and> pickLoop cs 0 0 t = j \<longleftrightarrow>
      weight_sum (take j cs) \<le> unat t \<and> unat t < weight_sum (take j cs) + wt (cs ! j)" (is "?l \<longleftrightarrow> ?r") for t
  proof
    assume ?l
    then show ?r using pick by blast
  next
    assume r: ?r
    then have t: "t < totalWeight cs 0" using le tot by (simp add: word_less_nat_alt)
    then show ?l using pick [OF t] interval_unique [of _ cs "unat t" j] r assms(3) by blast
  qed
  then have "card {t. t < totalWeight cs 0 \<and> pickLoop cs 0 0 t = j} = wt (cs ! j)"
    using card_unat_interval [of "weight_sum (take j cs)" "wt (cs ! j)"] le assms(1) by simp
  moreover have ne: "totalWeight cs 0 \<noteq> 0" using tot assms(2) by (metis less_irrefl unat_0)
  moreover have "fnv64a (key @ '':'' @ seed) mod totalWeight cs 0 < totalWeight cs 0"
    using ne by (simp add: word_less_nat_alt unat_mod_distrib unat_gt_0)
  then obtain i where "i < length cs" "pickLoop cs 0 0 (fnv64a (key @ '':'' @ seed) mod totalWeight cs 0) = i"
    "unat (fnv64a (key @ '':'' @ seed) mod totalWeight cs 0) < weight_sum (take i cs) + wt (cs ! i)"
    "weight_sum (take i cs) \<le> unat (fnv64a (key @ '':'' @ seed) mod totalWeight cs 0)"
    using pick by blast
  ultimately show ?thesis using assms(4) by (simp add: rotateWeighted_def Let_def)
qed

text \<open>
  The published catalog. Looking up a model in the catalog of a published snapshot gives the same
  routes, so the same resolution, as scanning all routes of the snapshot.
\<close>

theorem catalog_resolution:
  "Resolve providers (rebuildRouteCatalog s) env = Resolve providers (s\<lparr>sn_routesByModel := None\<rparr>) env \<and>
   (HasModel (rebuildRouteCatalog s) model \<longleftrightarrow> routesFor (rebuildRouteCatalog s) model \<noteq> [])"
proof -
  have r: "routesFor (rebuildRouteCatalog s) m = routesFor (s\<lparr>sn_routesByModel := None\<rparr>) m" for m
    unfolding routesFor_catalog by (simp add: routesFor_def)
  have "model \<in> set (map fst (fold addByModel rs [])) \<longleftrightarrow> filter (\<lambda>r. r_Model r = model) rs \<noteq> []" for rs
  proof -
    have "model \<in> set (map fst (fold addByModel rs [])) \<longleftrightarrow> map_of (fold addByModel rs []) model \<noteq> None"
      by (simp add: map_of_eq_None_iff)
    then show ?thesis unfolding catalog_lookup by (simp add: Let_def)
  qed
  then have "HasModel (rebuildRouteCatalog s) model \<longleftrightarrow>
      filter (\<lambda>r. r_Model r = model) (List.map_filter snd (sn_Routes s)) \<noteq> []"
    by (simp add: HasModel_def rebuildRouteCatalog_def Let_def)
  moreover have "sort_key r_Name xs = [] \<longleftrightarrow> xs = []" for xs :: "Route list" by (metis length_0_conv length_sort)
  ultimately show ?thesis unfolding Resolve_def r by (simp add: routesFor_catalog flip: r)
qed


section \<open>Witnesses\<close>

definition demo_route2 :: Route where
  "demo_route2 = demo_route\<lparr>r_Name := ''b'', r_Priority := 5, r_Weight := 3\<rparr>"

definition demo_snapshot :: Snapshot where
  "demo_snapshot = \<lparr>sn_Routes = [(''a'', Some demo_route), (''b'', Some demo_route2)], sn_models = [], sn_modelSet = None,
     sn_routesByModel = None\<rparr>"

definition demo_candidate :: "Route \<Rightarrow> ResolvedRoute" where
  "demo_candidate r = \<lparr>rr_Route = Some r, rr_Request = demo_request, rr_BridgeFrom = [], rr_Headers = [],
     rr_Effective = None, rr_Estimate = zero_usage\<rparr>"

lemma demo_prepare:
  "prepareRoute Map.empty demo_route demo_request = Inr (demo_candidate demo_route)"
  "prepareRoute Map.empty demo_route2 demo_request = Inr (demo_candidate demo_route2)"
  by (simp_all add: prepareRoute_def demo_route_def demo_route2_def demo_request_def demo_candidate_def
      Capability_Supports_def missingCapability_def Let_def RequestedMaxOutputTokens_def)

lemma demo_routes: "routesFor demo_snapshot (rq_Model demo_request) = [demo_route, demo_route2]"
  by (simp add: routesFor_def demo_snapshot_def map_filter_simps demo_route_def demo_route2_def demo_request_def less_eq_char_def)

theorem Resolve_candidates_witness:
  "\<exists>rs. Resolve Map.empty demo_snapshot demo_request = Inr rs \<and>
     mset (map rr_Route rs) = {# Some demo_route, Some demo_route2 #} \<and> sorted_wrt (\<lambda>a b. prio b \<le> prio a) rs"
proof -
  have "\<not> isl (Resolve Map.empty demo_snapshot demo_request)"
    by (simp add: Resolve_def demo_routes demo_prepare Let_def)
  then obtain rs where "Resolve Map.empty demo_snapshot demo_request = Inr rs" by (metis isl_def sum.exhaust)
  then show ?thesis using Resolve_candidates [of Map.empty demo_snapshot demo_request rs] by (simp add: demo_routes demo_prepare)
qed

theorem Resolve_error_witness:
  "Resolve Map.empty demo_snapshot (demo_request\<lparr>rq_Model := ''none''\<rparr>) = Inl (api (ModelNotFound ''none''))"
proof -
  have "routesFor demo_snapshot ''none'' = []"
    by (simp add: routesFor_def demo_snapshot_def map_filter_simps demo_route_def demo_route2_def)
  then show ?thesis using Resolve_error [of Map.empty demo_snapshot "demo_request\<lparr>rq_Model := ''none''\<rparr>"] by simp
qed

theorem weighted_share_witness:
  "card {t. t < totalWeight [demo_candidate demo_route, demo_candidate demo_route2] 0 \<and>
     pickLoop [demo_candidate demo_route, demo_candidate demo_route2] 0 0 t = 1} = 3"
  using weighted_share [of "[demo_candidate demo_route, demo_candidate demo_route2]" 1 "[]" "[]"]
  by (simp add: demo_candidate_def demo_route2_def demo_route_def)

end
