(* ===== verification/Quota_Budgets.thy ===== *)
theory Quota_Budgets
  imports Quota_Properties
begin

text \<open>
  The token budgets of a day and of a month across the two store calls of a settlement: a granted top-up
  leaves every budget of the reservation within its limit, and so does the commit after it, because the
  commit charges no more than the reservation holds.
\<close>

definition tokenBudgets :: "LimitSpec \<Rightarrow> (metric \<times> metric \<times> int) list" where
  "tokenBudgets l = [(DayUsed, DayHeld, ls_DailyTokens l), (MonthUsed, MonthHeld, ls_MonthlyTokens l)]"

definition within_budgets :: "MemoryQuotaStore \<Rightarrow> memoryScopeReservation \<Rightarrow> bool" where
  "within_budgets s sc \<longleftrightarrow>
     (\<forall>(used, held, limit) \<in> set (tokenBudgets (ms_limit sc)). 0 < limit \<longrightarrow>
        mget (q_values s) (key_of used (ms_keys sc)) + mget (q_values s) (key_of held (ms_keys sc)) \<le> limit)"

lemma tokenBudget_cases:
  assumes "(used, held, limit) \<in> set (tokenBudgets (ms_limit sc))" "0 < limit" "wf_scope hard sc"
  shows "used \<in> {DayUsed, MonthUsed}" "held \<in> {DayHeld, MonthHeld}" "held_metric held"
    "key_of used (ms_keys sc) \<noteq> []" "key_of held (ms_keys sc) \<noteq> []"
    "hold_amount t held u = EstimatedUsage_TotalTokens u"
  using assms limited_key(5,6) [OF assms(3)] by (auto simp: tokenBudgets_def held_metric_def hold_amount_def)

section \<open>A granted top-up\<close>

lemma admitted_budgets:
  assumes "checkScopes scs u now True s = None" "wf_scopes hard scs" "wf_values s" "nonneg_usage u" "sc \<in> set scs"
  shows "within_budgets (applyScopeHolds scs u now True s) sc"
  unfolding within_budgets_def
proof (clarify)
  fix used held limit
  assume b: "(used, held, limit) \<in> set (tokenBudgets (ms_limit sc))" "0 < limit"
  have wf: "wf_scope hard sc" using assms(2,5) by (simp add: wf_scopes_def)
  then have lim: "wf_limit (ms_limit sc)" by (simp add: wf_scope_def)
  have chk: "checkScope sc u now True s = None" using assms(1,5) by (simp add: checkScopes_None)
  note v = checkScope_values(3,4) [OF chk lim assms(3,4), unfolded key_of_sel]
  note c = tokenBudget_cases [OF b wf]
  have "mget (q_values s) (key_of used (ms_keys sc)) + mget (q_values s) (key_of held (ms_keys sc)) +
      EstimatedUsage_TotalTokens u \<le> limit"
    using b v by (auto simp: tokenBudgets_def)
  then have "sat_sum (mget (q_values s) (key_of held (ms_keys sc))) (EstimatedUsage_TotalTokens u) \<le>
      limit - mget (q_values s) (key_of used (ms_keys sc))"
    using wf_valuesD [OF assms(3)] amounts [OF assms(4)] by (intro sat_sum_le_add) auto
  moreover have "used \<in> {SpendUsed, DayUsed, MonthUsed}" using c(1) by auto
  ultimately show "mget (q_values (applyScopeHolds scs u now True s)) (key_of used (ms_keys sc)) +
      mget (q_values (applyScopeHolds scs u now True s)) (key_of held (ms_keys sc)) \<le> limit"
    using held_after(1) [OF assms(5,2,3,4) c(5,3), of now True] held_after(2) [OF assms(5,2,3,4) c(4), of now True]
    by (simp add: c(6))
qed

lemma within_budgets_values: "q_values s' = q_values s \<Longrightarrow> within_budgets s' sc = within_budgets s sc"
  by (simp add: within_budgets_def)

lemma topUp_budgets:
  assumes "acc_inv False s" "ctx_ok ctx" "qt_RequestID tk \<noteq> []" "nonneg_usage d"
    "0 < EstimatedUsage_TotalTokens d \<or> 0 < eu_EstimatedSpendMicros d" "TopUp ctx tk scopes d ttl s = (None, t)"
  shows "\<exists>r r'. map_of (q_reservations (ticked s)) (qt_RequestID tk) = Some r \<and> map_of (q_reservations t) (qt_RequestID tk) = Some r' \<and>
    mr_scopes r' = mr_scopes r \<and> (\<forall>sc \<in> set (mr_scopes r). within_budgets t sc)"
proof -
  let ?t = "ticked s" and ?d = "normalizeEstimatedUsage d"
  have acc: "acc_inv False ?t" using assms(1) by (rule ticked_acc)
  have "est_in_range d" using assms(4) by (simp add: nonneg_usage_def est_in_range_def in_i64_def)
  then have n: "nonneg_usage ?d" by (rule normalizeEstimatedUsage_nonneg)
  have "\<not> (EstimatedUsage_TotalTokens ?d = 0 \<and> eu_EstimatedSpendMicros ?d = 0)"
    using assms(4,5)
    by (auto simp: normalizeEstimatedUsage_def EstimatedUsage_TotalTokens_def saturatingUsageAdd_def nonneg_usage_def Let_def split: if_splits)
  then obtain r where r: "map_of (q_reservations ?t) (qt_RequestID tk) = Some r"
      "checkScopes (mr_scopes r) ?d (tick s) True ?t = None"
      "t = applyScopeHolds (mr_scopes r) ?d (tick s) True ?t\<lparr>q_reservations :=
         AList.update (qt_RequestID tk) (r\<lparr>mr_held := addHeld (mr_held r) ?d, mr_expires := tick s + normalizeReservationTTL ttl\<rparr>)
           (q_reservations ?t)\<rparr>"
    using assms(6) by (auto simp: TopUp_step [OF assms(2,3)] Let_def split: option.splits if_splits)
  have "wf_scopes False (mr_scopes r)" using acc_inv_res [OF acc r(1)] by (simp add: wf_res_def)
  then have "within_budgets t sc" if "sc \<in> set (mr_scopes r)" for sc
    using admitted_budgets [OF r(2) _ acc_invD(1) [OF acc] n that]
    by (subst within_budgets_values [of t "applyScopeHolds (mr_scopes r) ?d (tick s) True ?t"]) (auto simp: r(3))
  then show ?thesis using r(1,3) by (auto simp: update_Some_unfold)
qed

section \<open>The commit after it\<close>

text \<open>Time passing only lowers what is used and held.\<close>

lemma expireReservation_le:
  assumes "acc_inv False s" "map_of (q_reservations s) (fst e) = Some (snd e)"
  shows "mget (q_values (expireReservation now e s)) k \<le> mget (q_values s) k"
proof -
  obtain rid r where e: "e = (rid, r)" by (cases e)
  have "wf_res False (rid, r)" using acc_inv_res [OF assms(1)] assms(2) e by simp
  then have "nonneg_usage (mr_held r)" by (simp add: wf_res_def)
  note v = releaseHold_values(2) [OF acc_invD(1) [OF assms(1)] this]
  have "0 \<le> res_hold k r" "0 \<le> mget (q_values s) k"
    using res_hold_nonneg [OF \<open>wf_res False (rid, r)\<close>, of k] wf_valuesD [OF acc_invD(1) [OF assms(1)]] by simp_all
  then show ?thesis by (simp add: e expireReservation_def Let_def frame v)
qed

lemma expireReservations_le:
  "acc_inv False s \<Longrightarrow> wf_gomap es \<Longrightarrow> (\<And>e. e \<in> set es \<Longrightarrow> map_of (q_reservations s) (fst e) = Some (snd e)) \<Longrightarrow>
     mget (q_values (fold (expireReservation now) es s)) k \<le> mget (q_values s) k"
proof (induction es arbitrary: s)
  case (Cons e es)
  from Cons.prems(2) have wf: "wf_gomap es" and fresh: "fst e \<notin> fst ` set es" by (auto simp: wf_gomap_def)
  have "map_of (q_reservations (expireReservation now e s)) (fst e') = Some (snd e')" if "e' \<in> set es" for e'
  proof -
    have "fst e' \<noteq> fst e" using that fresh by (metis image_eqI)
    with Cons.prems(3) [of e'] that show ?thesis
      by (simp add: expireReservation_reservations map_of_filter_wf [OF acc_invD(2) [OF Cons.prems(1)]])
  qed
  moreover have e: "map_of (q_reservations s) (fst e) = Some (snd e)" using Cons.prems(3) by simp
  ultimately have "mget (q_values (fold (expireReservation now) es (expireReservation now e s))) k \<le> mget (q_values (expireReservation now e s)) k"
    using Cons.IH [OF expireReservation_acc [OF Cons.prems(1) e] wf] by blast
  then show ?case using expireReservation_le [OF Cons.prems(1) e, of now k] by simp
qed simp

lemma ticked_le:
  assumes "acc_inv False s"
  shows "mget (q_values (ticked s)) k \<le> mget (q_values s) k"
proof -
  let ?s = "snd (time_Now s)" and ?now = "fst (time_Now s)"
  let ?e = "fold (expireReservation ?now) (q_reservations ?s) ?s"
  have acc: "acc_inv False ?s" using assms by simp
  have es: "\<And>e. e \<in> set (q_reservations ?s) \<Longrightarrow> map_of (q_reservations ?s) (fst e) = Some (snd e)"
    using acc_invD(2) [OF acc] by (simp add: set_gomap_map_of [symmetric])
  have "mget (q_values ?e) k \<le> mget (q_values s) k"
    using expireReservations_le [OF acc acc_invD(2) [OF acc] es, of ?now k] by simp
  moreover have "acc_inv False ?e" using expireReservations_acc [OF acc acc_invD(2) [OF acc] es] by simp
  then have "0 \<le> mget (q_values ?e) k" using wf_valuesD [OF acc_invD(1)] by blast
  moreover have "mget (q_values (ticked s)) k = mget (q_values ?e) k \<or> mget (q_values (ticked s)) k = 0"
    by (auto simp: ticked_def cleanupExpired_def Let_def frame mget_def split: option.splits)
  ultimately show ?thesis by auto
qed

lemma ticked_budgets: "acc_inv False s \<Longrightarrow> within_budgets s sc \<Longrightarrow> within_budgets (ticked s) sc"
proof -
  assume acc: "acc_inv False s" and within: "within_budgets s sc"
  have "mget (q_values (ticked s)) a + mget (q_values (ticked s)) b \<le> limit"
    if "mget (q_values s) a + mget (q_values s) b \<le> limit" for a b limit
    using that ticked_le [OF acc, of a] ticked_le [OF acc, of b] by simp
  with within show ?thesis by (auto simp: within_budgets_def)
qed

text \<open>At most one scope is charged at a budget's key, and nothing at a held key.\<close>

lemma charge_other:
  "wf_scopes hard scs \<Longrightarrow> wf_scope hard' sc \<Longrightarrow> ms_ref sc \<notin> ms_ref ` set scs \<Longrightarrow>
     key_of mt (ms_keys sc) \<noteq> [] \<Longrightarrow> charge (key_of mt (ms_keys sc)) u scs = 0"
proof (induction scs)
  case (Cons sc' scs)
  then have ne: "key_of mt (ms_keys sc) \<noteq> key_of mt' (ms_keys sc')" for mt'
    using wf_scope_key_inj [of hard' sc hard sc' mt mt'] by auto
  have "scope_charge (key_of mt (ms_keys sc)) u sc' = 0"
    using ne [of SpendUsed] ne [of DayUsed] ne [of MonthUsed] by (simp add: scope_charge_def charge_at_def key_of_sel)
  with Cons show ?case by simp
qed simp

lemma scope_charge_metric:
  assumes "wf_scope hard sc" "key_of mt (ms_keys sc) \<noteq> []"
  shows "scope_charge (key_of mt (ms_keys sc)) u sc =
    (if mt = SpendUsed then au_SpendMicros u else if mt \<in> {DayUsed, MonthUsed} then ActualUsage_TotalTokens u else 0)"
proof -
  have "key_of mt (ms_keys sc) = key_of mt' (ms_keys sc) \<longleftrightarrow> mt = mt'" for mt'
    using wf_scope_metric [OF assms(1), of mt] wf_scope_metric [OF assms(1), of mt'] assms(2) by auto
  then show ?thesis using assms(2) by (simp add: scope_charge_def charge_at_def key_of_sel)
qed

lemma charge_one:
  assumes "sc \<in> set scs" "wf_scopes hard scs" "key_of mt (ms_keys sc) \<noteq> []"
  shows "charge (key_of mt (ms_keys sc)) u scs = scope_charge (key_of mt (ms_keys sc)) u sc"
  using assms
proof (induction scs)
  case (Cons sc' scs)
  show ?case
  proof (cases "sc' = sc")
    case True
    with Cons.prems charge_other [of hard scs hard sc mt u] show ?thesis by simp
  next
    case False
    with Cons.prems have sc: "sc \<in> set scs" by auto
    then have "ms_ref sc \<in> ms_ref ` set scs" by (rule imageI)
    with Cons.prems(2) have "ms_ref sc \<noteq> ms_ref sc'" by auto
    moreover from sc Cons.prems(2) have "wf_scope hard sc" by (simp add: wf_scopes_def)
    ultimately have "charge (key_of mt (ms_keys sc)) u [sc'] = 0"
      using charge_other [of hard "[sc']" hard sc mt u] Cons.prems by simp
    with Cons sc show ?thesis by simp
  qed
qed simp

lemma commit_budgets:
  assumes "acc_inv False t" "ctx_ok ctx" "qt_RequestID tk \<noteq> []" "act_in_range actual" "0 \<le> au_SpendMicros actual"
    "map_of (q_reservations t) (qt_RequestID tk) = Some r"
    "ActualUsage_TotalTokens actual \<le> EstimatedUsage_TotalTokens (mr_held r)"
    "sc \<in> set (mr_scopes r)" "within_budgets t sc"
  shows "within_budgets (snd (Commit ctx tk actual t)) sc"
proof (cases "map_of (q_reservations (ticked t)) (qt_RequestID tk)")
  case None
  then show ?thesis
    using ticked_budgets [OF assms(1,9)] by (simp add: Commit_step [OF assms(2,3)] Let_def)
next
  case (Some r')
  let ?u = "normalizeActualUsage actual" and ?t = "ticked t"
  let ?s = "snd (Commit ctx tk actual t)"
  have r: "r' = r"
    using Some assms(6) acc_invD(2) [OF assms(1)]
    by (auto simp: ticked_reservations [OF assms(1)] map_of_filter_wf split: if_splits)
  have acc: "acc_inv False ?t" using assms(1) by (rule ticked_acc)
  have wr: "wf_res False (qt_RequestID tk, r)" using acc_inv_res [OF acc] Some r by simp
  then have n: "nonneg_usage (mr_held r)" and wf: "wf_scopes False (mr_scopes r)" by (simp_all add: wf_res_def)
  have wfs: "wf_scope False sc" using wf assms(8) by (simp add: wf_scopes_def)
  note v1 = releaseHold_values [OF acc_invD(1) [OF acc] n]
  have val: "mget (q_values ?s) k = sat_sum (max 0 (mget (q_values ?t) k - res_hold k r)) (charge k ?u (mr_scopes r))" for k
    using commitScopes_values [OF v1(1) normalizeActualUsage_nonneg [OF assms(4)]] Some r
    by (simp add: Commit_step [OF assms(2,3)] Let_def frame v1(2))
  have tokens: "ActualUsage_TotalTokens ?u = ActualUsage_TotalTokens actual"
    using assms(4) by (auto simp: normalizeActualUsage_def ActualUsage_TotalTokens_def saturatingUsageAdd_def act_in_range_def in_i64_def Let_def)
  have within: "within_budgets ?t sc" using assms(1,9) by (rule ticked_budgets)
  show ?thesis
    unfolding within_budgets_def
  proof (clarify)
    fix used held limit
    assume b: "(used, held, limit) \<in> set (tokenBudgets (ms_limit sc))" "0 < limit"
    note c = tokenBudget_cases [OF b wfs]
    let ?ku = "key_of used (ms_keys sc)" and ?kh = "key_of held (ms_keys sc)"
    have "metric_of ?ku = Some used" "metric_of ?kh = Some held" using wf_scope_metric [OF wfs] c(4,5) by simp_all
    then have keys: "used_key ?ku" "exact_key False ?kh" using c(1,2) by (auto simp: used_key_def exact_key_def)
    have hold: "res_hold ?ku r = 0" "res_hold ?kh r = EstimatedUsage_TotalTokens (mr_held r)"
      using scopes_hold_used [OF wf keys(1)] scopes_hold_one [OF assms(8) wf c(3,5) refl] by (simp_all add: res_hold_def c(6))
    have chg: "charge ?ku ?u (mr_scopes r) = ActualUsage_TotalTokens actual" "charge ?kh ?u (mr_scopes r) = 0"
      using charge_one [OF assms(8) wf c(4)] charge_one [OF assms(8) wf c(5)] scope_charge_metric [OF wfs c(4)]
        scope_charge_metric [OF wfs c(5)] c(1,2) tokens by auto
    have "res_hold ?kh r \<le> mget (q_values ?t) ?kh"
      using total_hold_ge [OF acc_invD(3) [OF acc], of "q_reservations ?t" "qt_RequestID tk" r ?kh] Some r acc_invD(5) [OF acc keys(2)] by simp
    moreover have "mget (q_values ?t) ?ku + mget (q_values ?t) ?kh \<le> limit" using within b by (auto simp: within_budgets_def)
    moreover have "0 \<le> mget (q_values ?t) ?ku" "0 \<le> mget (q_values ?t) ?kh" "0 \<le> ActualUsage_TotalTokens actual"
      using wf_valuesD [OF acc_invD(1) [OF acc]] normalizeActualUsage_amounts(3) [OF assms(4)] tokens by simp_all
    ultimately show "mget (q_values ?s) ?ku + mget (q_values ?s) ?kh \<le> limit"
      using assms(7) hold chg by (simp add: val sat_sum_def)
  qed
qed

end
