(* ===== verification/Quota_Interceptor.thy ===== *)
theory Quota_Interceptor
  imports Usage_Accounting Quota_Budgets Circuit_Breaker
begin

text \<open>
  \<open>policy/quota.go\<close>: the request interceptor that reserves quota before the provider is called, tops
  the reservation up for every attempt, and settles it once. The store is any implementation of
  \<open>store.QuotaStore\<close>, a record of functions on a state \<open>'s\<close>. The handler it wraps runs the three hooks
  the interceptor installs, in any order and number; metrics and logs are left out, the store reads
  they make are not.
\<close>

section \<open>The store\<close>

record 's quotaOps =
  qo_Reserve :: "ctx \<Rightarrow> string \<Rightarrow> ScopedLimit list \<Rightarrow> EstimatedUsage \<Rightarrow> duration \<Rightarrow> 's \<Rightarrow> (goerr + QuotaTicket) \<times> 's"
  qo_TopUp :: "ctx \<Rightarrow> QuotaTicket \<Rightarrow> ScopedLimit list \<Rightarrow> EstimatedUsage \<Rightarrow> duration \<Rightarrow> 's \<Rightarrow> goerr option \<times> 's"
  qo_Commit :: "ctx \<Rightarrow> QuotaTicket \<Rightarrow> ActualUsage \<Rightarrow> 's \<Rightarrow> goerr option \<times> 's"
  qo_Refund :: "ctx \<Rightarrow> QuotaTicket \<Rightarrow> 's \<Rightarrow> goerr option \<times> 's"
  qo_GetUsage :: "(ctx \<Rightarrow> ScopedLimit \<Rightarrow> 's \<Rightarrow> (goerr + QuotaUsage) \<times> 's) option"

definition memoryOps :: "MemoryQuotaStore quotaOps" where
  "memoryOps = \<lparr>qo_Reserve = Reserve, qo_TopUp = TopUp, qo_Commit = Commit, qo_Refund = Refund, qo_GetUsage = Some GetUsage\<rparr>"

section \<open>Arithmetic\<close>

definition positiveTokenTotal :: "int \<Rightarrow> int \<Rightarrow> int" where
  "positiveTokenTotal first second =
     (let first = (if first < 0 then 0 else first); second = (if second < 0 then 0 else second)
      in if first > i64 (MaxInt64 - second) then MaxInt64 else i64 (first + second))"

definition estTokens :: "EstimatedUsage \<Rightarrow> int" where
  "estTokens e = positiveTokenTotal (eu_InputTokens e) (eu_ReservedOutputTokens e)"

definition actTokens :: "ActualUsage \<Rightarrow> int" where
  "actTokens a = positiveTokenTotal (au_InputTokens a) (au_OutputTokens a)"

definition hasQuotaAccounting :: "ScopedLimit list \<Rightarrow> bool" where
  "hasQuotaAccounting scopes \<longleftrightarrow>
     (\<exists>scope \<in> set scopes. let limit = sl_Limits scope in
        ls_RPM limit > 0 \<or> ls_TPM limit > 0 \<or> ls_MaxParallel limit > 0 \<or> ls_MaxSpendMicros limit > 0 \<or>
        ls_SoftSpendMicros limit > 0 \<or> ls_DailyTokens limit > 0 \<or> ls_MonthlyTokens limit > 0)"

definition hasActualUsage :: "ActualUsage \<Rightarrow> bool" where
  "hasActualUsage usage \<longleftrightarrow> au_InputTokens usage > 0 \<or> au_OutputTokens usage > 0 \<or> au_SpendMicros usage > 0"

definition estimatedUsageForRoute :: "Route option \<Rightarrow> Usage \<Rightarrow> EstimatedUsage" where
  "estimatedUsageForRoute route estimate =
     \<lparr>eu_InputTokens = u_InputTokens estimate, eu_ReservedOutputTokens = u_OutputTokens estimate,
      eu_EstimatedSpendMicros = (case route of None \<Rightarrow> 0 | Some r \<Rightarrow> SpendMicrosForUsage (r_Pricing r) estimate)\<rparr>"

definition attemptReserveEstimate :: "ResolvedRoute \<Rightarrow> EstimatedUsage" where
  "attemptReserveEstimate route = estimatedUsageForRoute (rr_Route route) (rr_Estimate route)"

definition quotaTopUpDelta :: "EstimatedUsage \<Rightarrow> ActualUsage \<Rightarrow> EstimatedUsage" where
  "quotaTopUpDelta reserved actual =
     (let reservedTokens = estTokens reserved; actualTokens = actTokens actual
      in \<lparr>eu_InputTokens = (if actualTokens > reservedTokens then i64 (actualTokens - reservedTokens) else 0),
          eu_ReservedOutputTokens = 0,
          eu_EstimatedSpendMicros =
            (if au_SpendMicros actual > eu_EstimatedSpendMicros reserved
             then i64 (au_SpendMicros actual - eu_EstimatedSpendMicros reserved) else 0)\<rparr>)"

definition consumeReservationCredit :: "EstimatedUsage \<Rightarrow> EstimatedUsage \<Rightarrow> EstimatedUsage \<times> EstimatedUsage" where
  "consumeReservationCredit want available =
     (let wantTokens = estTokens want;
          availableTokens = estTokens available;
          usedTokens = min wantTokens availableTokens;
          appliedTokens = i64 (wantTokens - usedTokens);
          remainingTokens = i64 (availableTokens - usedTokens);
          appliedInput = min (eu_InputTokens want) appliedTokens;
          usedSpend = min (max (eu_EstimatedSpendMicros want) 0) (max (eu_EstimatedSpendMicros available) 0)
      in (\<lparr>eu_InputTokens = appliedInput, eu_ReservedOutputTokens = i64 (appliedTokens - appliedInput),
           eu_EstimatedSpendMicros = max (i64 (eu_EstimatedSpendMicros want - usedSpend)) 0\<rparr>,
          \<lparr>eu_InputTokens = remainingTokens, eu_ReservedOutputTokens = 0,
           eu_EstimatedSpendMicros = max (i64 (eu_EstimatedSpendMicros available - usedSpend)) 0\<rparr>))"

text \<open>The loop of \<open>quotaReservationTTL\<close>; it stops at the first candidate that overflows.\<close>

abbreviation settlementBuffer :: duration where
  "settlementBuffer \<equiv> 10 * Second"

fun requiredTTL :: "ResolvedRoute list \<Rightarrow> duration \<Rightarrow> duration" where
  "requiredTTL [] required = required"
| "requiredTTL (c # cs) required =
     (case rr_Route c of
        None \<Rightarrow> requiredTTL cs required
      | Some r \<Rightarrow>
          let timeout = (if r_Timeout r \<le> 0 then 30 * Second else r_Timeout r);
              tries = routeAttemptCount (Some r)
          in if timeout > go_div (i64 (MaxInt64 - required)) tries then MaxInt64
             else requiredTTL cs (i64 (required + i64 (timeout * tries))))"

definition quotaReservationTTL :: "ResolvedRoute list \<Rightarrow> duration \<Rightarrow> duration" where
  "quotaReservationTTL candidates conf =
     (let required = requiredTTL candidates settlementBuffer
      in if conf < required then required else conf)"

definition quotaAdmissionError :: "sentinel option \<Rightarrow> goerr \<Rightarrow> goerr" where
  "quotaAdmissionError ctxErr err =
     (if (case ctxErr of None \<Rightarrow> False | Some s \<Rightarrow> err_is s err) then err
      else if as_api err \<noteq> None then err
      else ApiErr (WithDisposition False False False (NewError 503 ''server_error'' ''quota_store_unavailable''
             ''quota admission is temporarily unavailable'')) (Some err))"

section \<open>The hooks\<close>

text \<open>What does not change during a request, and the variables the hooks share under their mutex.\<close>

record quotaRequest =
  qr_scopes :: "ScopedLimit list"
  qr_estimate :: Usage
  qr_ttl :: duration
  qr_ticket :: QuotaTicket

record quotaHooks =
  qh_reserve :: EstimatedUsage
  qh_attempts :: "(string, EstimatedUsage) gomap"
  qh_credit :: EstimatedUsage

definition hooks0 :: quotaHooks where
  "hooks0 = \<lparr>qh_reserve = zero_estimate, qh_attempts = [], qh_credit = zero_estimate\<rparr>"

definition addEstimate :: "EstimatedUsage \<Rightarrow> EstimatedUsage \<Rightarrow> EstimatedUsage" where
  "addEstimate a b =
     \<lparr>eu_InputTokens = positiveTokenTotal (eu_InputTokens a) (eu_InputTokens b),
      eu_ReservedOutputTokens = positiveTokenTotal (eu_ReservedOutputTokens a) (eu_ReservedOutputTokens b),
      eu_EstimatedSpendMicros = positiveTokenTotal (eu_EstimatedSpendMicros a) (eu_EstimatedSpendMicros b)\<rparr>"

definition nonzeroEstimate :: "EstimatedUsage \<Rightarrow> bool" where
  "nonzeroEstimate d \<longleftrightarrow> EstimatedUsage_TotalTokens d > 0 \<or> eu_EstimatedSpendMicros d > 0"

text \<open>The usage lookups for the soft limits: they may expire entries of the store.\<close>

definition observeSoftSpendThreshold :: "'s quotaOps \<Rightarrow> ctx \<Rightarrow> ScopedLimit list \<Rightarrow> 's \<Rightarrow> 's" where
  "observeSoftSpendThreshold ops ctx scopes s =
     (case qo_GetUsage ops of
        None \<Rightarrow> s
      | Some getUsage \<Rightarrow>
          fold (\<lambda>scope s. if ls_SoftSpendMicros (sl_Limits scope) \<le> 0 then s else snd (getUsage ctx scope s)) scopes s)"

definition attemptDelta :: "quotaRequest \<Rightarrow> Attempt \<Rightarrow> EstimatedUsage" where
  "attemptDelta req attempt =
     (let delta = attemptReserveEstimate (at_Route attempt)
      in if EstimatedUsage_TotalTokens delta = 0 \<and> eu_EstimatedSpendMicros delta = 0 \<and> \<not> Usage_IsZero (qr_estimate req)
         then estimatedUsageForRoute (rr_Route (at_Route attempt)) (qr_estimate req) else delta)"

definition reserveAttempt ::
  "'s quotaOps \<Rightarrow> ctx \<Rightarrow> sentinel option \<Rightarrow> quotaRequest \<Rightarrow> Attempt \<Rightarrow> quotaHooks \<times> 's \<Rightarrow> goerr option \<times> quotaHooks \<times> 's" where
  "reserveAttempt ops ctx ctxErr req attempt hs =
     (let (h, s) = hs
      in if map_of (qh_attempts h) (at_ID attempt) \<noteq> None then (None, h, s)
         else
           let delta = attemptDelta req attempt;
               (applied, remainingCredit) = consumeReservationCredit delta (qh_credit h);
               s = observeSoftSpendThreshold ops ctx (qr_scopes req) s;
               (err, s) = (if nonzeroEstimate applied
                           then qo_TopUp ops ctx (qr_ticket req) (qr_scopes req) applied (qr_ttl req) s else (None, s))
           in (case err of
                 Some e \<Rightarrow> (Some (quotaAdmissionError ctxErr e), h, s)
               | None \<Rightarrow>
                   (None, \<lparr>qh_reserve = addEstimate (qh_reserve h) applied,
                           qh_attempts = AList.update (at_ID attempt) delta (qh_attempts h),
                           qh_credit = remainingCredit\<rparr>, s)))"

definition releaseAttempt :: "string \<Rightarrow> quotaHooks \<Rightarrow> quotaHooks" where
  "releaseAttempt attemptID h =
     (case map_of (qh_attempts h) attemptID of
        None \<Rightarrow> h
      | Some delta \<Rightarrow> h\<lparr>qh_attempts := AList.delete attemptID (qh_attempts h), qh_credit := addEstimate (qh_credit h) delta\<rparr>)"

definition reconcileAttempt ::
  "'s quotaOps \<Rightarrow> ctx \<Rightarrow> sentinel option \<Rightarrow> quotaRequest \<Rightarrow> string \<Rightarrow> ActualUsage \<Rightarrow> quotaHooks \<times> 's \<Rightarrow> goerr option \<times> quotaHooks \<times> 's" where
  "reconcileAttempt ops ctx ctxErr req attemptID actual hs =
     (let (h, s) = hs
      in case map_of (qh_attempts h) attemptID of
           None \<Rightarrow> (None, h, s)
         | Some estimate \<Rightarrow>
             let estimatedTokens = estTokens estimate;
                 actualTokens = actTokens actual;
                 overage = \<lparr>eu_InputTokens = (if actualTokens > estimatedTokens then i64 (actualTokens - estimatedTokens) else 0),
                            eu_ReservedOutputTokens = 0,
                            eu_EstimatedSpendMicros =
                              (if au_SpendMicros actual > eu_EstimatedSpendMicros estimate
                               then i64 (au_SpendMicros actual - eu_EstimatedSpendMicros estimate) else 0)\<rparr>;
                 (err, h, s) =
                   (if nonzeroEstimate overage then
                      let (err, s) = qo_TopUp ops ctx (qr_ticket req) (qr_scopes req) overage (qr_ttl req) s
                      in (case err of
                            Some e \<Rightarrow> (Some (DisallowFallback (quotaAdmissionError ctxErr e)), h, s)
                          | None \<Rightarrow> (None, h\<lparr>qh_reserve := addEstimate (qh_reserve h) overage\<rparr>, s))
                    else (None, h, s))
             in (case err of
                   Some e \<Rightarrow> (Some e, h, s)
                 | None \<Rightarrow>
                     let credit = qh_credit h;
                         credit = (if estimatedTokens > actualTokens
                                   then credit\<lparr>eu_InputTokens := positiveTokenTotal (eu_InputTokens credit) (i64 (estimatedTokens - actualTokens))\<rparr>
                                   else credit);
                         credit = (if eu_EstimatedSpendMicros estimate > au_SpendMicros actual
                                   then credit\<lparr>eu_EstimatedSpendMicros := positiveTokenTotal (eu_EstimatedSpendMicros credit)
                                          (i64 (eu_EstimatedSpendMicros estimate - au_SpendMicros actual))\<rparr>
                                   else credit)
                     in (None, h\<lparr>qh_attempts := AList.delete attemptID (qh_attempts h), qh_credit := credit\<rparr>, s)))"

section \<open>Settlement\<close>

definition settleReserved ::
  "'s quotaOps \<Rightarrow> ctx \<Rightarrow> quotaRequest \<Rightarrow> EstimatedUsage \<Rightarrow> ActualUsage \<Rightarrow> bool \<Rightarrow> 's \<Rightarrow> goerr option \<times> 's" where
  "settleReserved ops ctx req reserved actual commit s =
     (if \<not> commit then
        let (err, s) = qo_Refund ops ctx (qr_ticket req) s
        in (map_option (Wrapped ''refund quota reservation'') err, s)
      else
        let delta = quotaTopUpDelta reserved actual;
            (err, s) = (if nonzeroEstimate delta
                        then qo_TopUp ops ctx (qr_ticket req) (qr_scopes req) delta (qr_ttl req) s else (None, s));
            settlementErr = (case err of None \<Rightarrow> None | Some e \<Rightarrow> errors_Join [None, Some (Wrapped ''top up quota reservation'' e)]);
            (err, s) = qo_Commit ops ctx (qr_ticket req) actual s;
            settlementErr = (case err of None \<Rightarrow> settlementErr
                             | Some e \<Rightarrow> errors_Join [settlementErr, Some (Wrapped ''commit quota reservation'' e)])
        in (settlementErr, s))"

text \<open>What the execution's route and stage say about usage that no attempt recorded.\<close>

definition settledQuotaUsage :: "ExecutionStage \<Rightarrow> Attempt option \<Rightarrow> Usage \<Rightarrow> EstimatedUsage \<Rightarrow> ActualUsage" where
  "settledQuotaUsage stage attempt actual reserved =
     (let input = u_InputTokens actual; output = u_OutputTokens actual;
          (input, output) = (if Usage_IsZero actual then (eu_InputTokens reserved, eu_ReservedOutputTokens reserved) else (input, output));
          input = (if input = 0 \<and> (stage = ExecutionFirstByte \<or> stage = ExecutionAborted) then eu_InputTokens reserved else input);
          output = (if output = 0 \<and> (stage = ExecutionAborted \<or> stage = ExecutionFailed) then eu_ReservedOutputTokens reserved else output);
          input = (if input = 0 \<and> u_TotalTokens actual > 0 then i64 (u_TotalTokens actual - u_OutputTokens actual) else input);
          output = (if output = 0 \<and> u_TotalTokens actual > input then i64 (u_TotalTokens actual - input) else output);
          input = (if input < 0 then 0 else input);
          output = (if output < 0 then 0 else output);
          spend = (case attempt of
                     None \<Rightarrow> 0
                   | Some a \<Rightarrow>
                       (case rr_Route (at_Route a) of
                          None \<Rightarrow> 0
                        | Some r \<Rightarrow> SpendMicrosForUsage (r_Pricing r)
                            (actual\<lparr>u_InputTokens := input, u_OutputTokens := output,
                               u_TotalTokens := positiveTokenTotal input output\<rparr>)))
      in \<lparr>au_InputTokens = input, au_OutputTokens = output, au_SpendMicros = spend\<rparr>)"

definition singleAttemptReserve :: "Attempt option \<Rightarrow> EstimatedUsage" where
  "singleAttemptReserve attempt = (case attempt of None \<Rightarrow> zero_estimate | Some a \<Rightarrow> attemptReserveEstimate (at_Route a))"


section \<open>The interceptor\<close>

text \<open>
  Before the wrapped handler: \<open>Inr None\<close> when no limit needs accounting, else the ticket. The
  handler then runs with the hooks; \<open>renewalErr\<close> below is what stopping the renewal returns.
\<close>

definition quotaStart ::
  "'s quotaOps \<Rightarrow> ctx \<Rightarrow> sentinel option \<Rightarrow> duration \<Rightarrow> duration \<Rightarrow> Meta \<Rightarrow> Usage \<Rightarrow> ScopedLimit list \<Rightarrow>
   (goerr + ResolvedRoute list) \<Rightarrow> 's \<Rightarrow> (goerr + quotaRequest option) \<times> 's" where
  "quotaStart ops ctx ctxErr reservation snapshotTTL meta estimate scopes resolved s =
     (if \<not> hasQuotaAccounting scopes then (Inr None, s)
      else case resolved of
        Inl err \<Rightarrow> (Inl err, s)
      | Inr candidates \<Rightarrow>
          if candidates = [] then (Inl (api (UnsupportedOperation ''no resolved route passed quota resolution'')), s)
          else
            let ttl = (if reservation = 0 then snapshotTTL else reservation);
                ttl = quotaReservationTTL candidates ttl;
                reservationID = (if m_ExecutionID meta = [] then m_RequestID meta else m_ExecutionID meta);
                (answer, s) = qo_Reserve ops ctx reservationID scopes zero_estimate ttl s
            in (case answer of
                  Inl err \<Rightarrow> (Inl (quotaAdmissionError ctxErr err), s)
                | Inr ticket \<Rightarrow>
                    (Inr (Some \<lparr>qr_scopes = scopes, qr_estimate = estimate, qr_ttl = ttl, qr_ticket = ticket\<rparr>), s)))"

definition quotaFailed ::
  "'s quotaOps \<Rightarrow> ctx \<Rightarrow> quotaRequest \<Rightarrow> quotaHooks \<Rightarrow> AttemptUsageAccumulator \<Rightarrow> goerr option \<Rightarrow> goerr \<Rightarrow> 's \<Rightarrow> goerr option \<times> 's" where
  "quotaFailed ops ctx req h usage renewalErr err s =
     (let settled = acc_total usage;
          (settlementErr, s) = settleReserved ops ctx req (qh_reserve h) settled (hasActualUsage settled) s
      in (errors_Join [Some err, renewalErr, settlementErr], s))"

text \<open>After a panic the request is settled the same way and the panic goes on.\<close>

definition quotaPanicked :: "'s quotaOps \<Rightarrow> ctx \<Rightarrow> quotaRequest \<Rightarrow> quotaHooks \<Rightarrow> AttemptUsageAccumulator \<Rightarrow> 's \<Rightarrow> 's" where
  "quotaPanicked ops ctx req h usage s =
     (let settled = acc_total usage in snd (settleReserved ops ctx req (qh_reserve h) settled (hasActualUsage settled) s))"

definition quotaEmpty :: "'s quotaOps \<Rightarrow> ctx \<Rightarrow> quotaRequest \<Rightarrow> goerr option \<Rightarrow> 's \<Rightarrow> goerr option \<times> 's" where
  "quotaEmpty ops ctx req renewalErr s =
     (let (refundErr, s) = qo_Refund ops ctx (qr_ticket req) s
      in (errors_Join [Some (api (NewError 500 ''server_error'' ''empty_execution'' ''gateway returned no execution'')),
            renewalErr, refundErr], s))"

text \<open>The usage a finished execution is settled for, and whether it is charged at all.\<close>

definition settledUsage ::
  "string \<Rightarrow> ExecutionStage \<Rightarrow> Attempt option \<Rightarrow> Usage \<Rightarrow> goerr option \<Rightarrow> AttemptUsageAccumulator \<Rightarrow> ActualUsage \<times> bool" where
  "settledUsage attemptID stage attempt actual callErr usage =
     (let failed = (callErr \<noteq> None \<or> stage = ExecutionAborted \<or> stage = ExecutionFailed);
          usage = acc_complete attemptID actual failed usage;
          settled = acc_total usage;
          settled = (if \<not> hasActualUsage settled
                     then settledQuotaUsage stage attempt actual (singleAttemptReserve attempt) else settled)
      in (settled, callErr = None \<or> stage = ExecutionFirstByte \<or> stage = ExecutionAborted \<or> hasActualUsage settled))"

definition quotaFinalize ::
  "'s quotaOps \<Rightarrow> ctx \<Rightarrow> quotaRequest \<Rightarrow> quotaHooks \<Rightarrow> AttemptUsageAccumulator \<Rightarrow> string \<Rightarrow> ExecutionStage \<Rightarrow> Attempt option \<Rightarrow>
   Usage \<Rightarrow> goerr option \<Rightarrow> goerr option \<Rightarrow> goerr option \<Rightarrow> 's \<Rightarrow> goerr option \<times> 's" where
  "quotaFinalize ops ctx req h usage attemptID stage attempt actual callErr renewalErr prevErr s =
     (let (settled, commit) = settledUsage attemptID stage attempt actual callErr usage;
          (err, s) = settleReserved ops ctx req (qh_reserve h) settled commit s;
          settlementErr = errors_Join [renewalErr, err]
      in (errors_Join [settlementErr, prevErr], s))"

section \<open>Renewal\<close>

definition renewalInterval :: "duration \<Rightarrow> duration \<Rightarrow> duration" where
  "renewalInterval interval ttl =
     (if interval \<le> 0 then
        let interval = go_div ttl 3;
            interval = (if interval > 30 * Second then 30 * Second else interval)
        in if interval < 100 * Millisecond then 100 * Millisecond else interval
      else interval)"

definition renewalMaxAge :: "duration \<Rightarrow> duration \<Rightarrow> duration" where
  "renewalMaxAge maxAge ttl =
     (if maxAge \<le> 0 then (if ttl > go_div MaxInt64 2 then MaxInt64 else i64 (ttl * 2)) else maxAge)"

text \<open>One tick of the renewal: an empty top-up; the first error is kept.\<close>

definition renewTick :: "'s quotaOps \<Rightarrow> ctx \<Rightarrow> quotaRequest \<Rightarrow> goerr option \<Rightarrow> 's \<Rightarrow> goerr option \<times> 's" where
  "renewTick ops ctx req renewalErr s =
     (let (err, s) = qo_TopUp ops ctx (qr_ticket req) (qr_scopes req) zero_estimate (qr_ttl req) s
      in (case err of
            None \<Rightarrow> (renewalErr, s)
          | Some e \<Rightarrow> (if renewalErr = None then Some (Wrapped ''renew quota reservation'' e) else renewalErr, s)))"

text \<open>
  The events of the renewal goroutine in the order its \<open>select\<close> takes them; it ends at the first that
  is not a tick. Nothing is started for an empty ticket or a lifetime that is not positive.
\<close>

datatype renewalEvent = RenewalTick ctx | RenewalMaxAge | RenewalStopped

fun renewalLoop :: "'s quotaOps \<Rightarrow> quotaRequest \<Rightarrow> renewalEvent list \<Rightarrow> goerr option \<Rightarrow> 's \<Rightarrow> goerr option \<times> 's" where
  "renewalLoop ops req [] renewalErr s = (renewalErr, s)"
| "renewalLoop ops req (RenewalTick ctx # es) renewalErr s =
     (let (renewalErr, s) = renewTick ops ctx req renewalErr s in renewalLoop ops req es renewalErr s)"
| "renewalLoop ops req (RenewalMaxAge # es) renewalErr s =
     (if renewalErr = None then Some (Plain ''quota reservation renewal reached its maximum lifetime'') else renewalErr, s)"
| "renewalLoop ops req (RenewalStopped # es) renewalErr s = (renewalErr, s)"

definition startReservationRenewal ::
  "'s quotaOps \<Rightarrow> quotaRequest \<Rightarrow> renewalEvent list \<Rightarrow> 's \<Rightarrow> goerr option \<times> 's" where
  "startReservationRenewal ops req events s =
     (if qt_RequestID (qr_ticket req) = [] \<or> qr_ttl req \<le> 0 then (None, s) else renewalLoop ops req events None s)"

section \<open>Runs of one request\<close>

text \<open>The calls a store may get from the other requests it serves.\<close>

datatype storeCall =
    CallReserve ctx string "ScopedLimit list" EstimatedUsage duration
  | CallTopUp ctx QuotaTicket "ScopedLimit list" EstimatedUsage duration
  | CallCommit ctx QuotaTicket ActualUsage
  | CallRefund ctx QuotaTicket
  | CallGetUsage ctx ScopedLimit

fun runCall :: "'s quotaOps \<Rightarrow> storeCall \<Rightarrow> 's \<Rightarrow> 's" where
  "runCall ops (CallReserve ctx rid scopes est ttl) s = snd (qo_Reserve ops ctx rid scopes est ttl s)"
| "runCall ops (CallTopUp ctx tk scopes est ttl) s = snd (qo_TopUp ops ctx tk scopes est ttl s)"
| "runCall ops (CallCommit ctx tk actual) s = snd (qo_Commit ops ctx tk actual s)"
| "runCall ops (CallRefund ctx tk) s = snd (qo_Refund ops ctx tk s)"
| "runCall ops (CallGetUsage ctx scope) s =
     (case qo_GetUsage ops of None \<Rightarrow> s | Some getUsage \<Rightarrow> snd (getUsage ctx scope s))"

fun callID :: "storeCall \<Rightarrow> string option" where
  "callID (CallReserve ctx rid scopes est ttl) = Some rid"
| "callID (CallTopUp ctx tk scopes est ttl) = Some (qt_RequestID tk)"
| "callID (CallCommit ctx tk actual) = Some (qt_RequestID tk)"
| "callID (CallRefund ctx tk) = Some (qt_RequestID tk)"
| "callID (CallGetUsage ctx scope) = None"

fun call_ok :: "storeCall \<Rightarrow> bool" where
  "call_ok (CallReserve ctx rid scopes est ttl) = (wf_request False scopes \<and> est_in_range est)"
| "call_ok (CallTopUp ctx tk scopes est ttl) = est_in_range est"
| "call_ok (CallCommit ctx tk actual) = act_in_range actual"
| "call_ok (CallRefund ctx tk) = True"
| "call_ok (CallGetUsage ctx scope) = True"

text \<open>
  \<open>quota_run ops req s0 h s charges\<close>: from the state \<open>s0\<close> the reservation left, the hooks and the
  renewal have run in some order, with the calls of other requests in between. \<open>charges\<close> is the
  usage of the attempts that were reconciled.
\<close>

definition act_nonneg :: "ActualUsage \<Rightarrow> bool" where
  "act_nonneg a \<longleftrightarrow> act_in_range a \<and> 0 \<le> au_SpendMicros a"

inductive quota_run ::
  "'s quotaOps \<Rightarrow> quotaRequest \<Rightarrow> 's \<Rightarrow> quotaHooks \<Rightarrow> 's \<Rightarrow> ActualUsage list \<Rightarrow> bool" for ops req s0 where
  run_start: "quota_run ops req s0 hooks0 s0 []"
| run_reserve: "quota_run ops req s0 h s cs \<Longrightarrow> nonneg_usage (attemptDelta req attempt) \<Longrightarrow>
    reserveAttempt ops ctx ctxErr req attempt (h, s) = (err, h', s') \<Longrightarrow> quota_run ops req s0 h' s' cs"
| run_release: "quota_run ops req s0 h s cs \<Longrightarrow> quota_run ops req s0 (releaseAttempt attemptID h) s cs"
| run_reconcile: "quota_run ops req s0 h s cs \<Longrightarrow> act_nonneg actual \<Longrightarrow>
    reconcileAttempt ops ctx ctxErr req attemptID actual (h, s) = (err, h', s') \<Longrightarrow>
    quota_run ops req s0 h' s' (if err = None \<and> map_of (qh_attempts h) attemptID \<noteq> None then actual # cs else cs)"
| run_renew: "quota_run ops req s0 h s cs \<Longrightarrow> renewTick ops ctx req renewalErr s = (renewalErr', s') \<Longrightarrow>
    quota_run ops req s0 h s' cs"
| run_other: "quota_run ops req s0 h s cs \<Longrightarrow> call_ok c \<Longrightarrow> callID c \<noteq> Some (qt_RequestID (qr_ticket req)) \<Longrightarrow>
    quota_run ops req s0 h (runCall ops c s) cs"

section \<open>Amounts\<close>

text \<open>Tokens (\<open>tok\<close>) or micro-dollars.\<close>

definition estAmount :: "bool \<Rightarrow> EstimatedUsage \<Rightarrow> int" where
  "estAmount tok e = (if tok then EstimatedUsage_TotalTokens e else eu_EstimatedSpendMicros e)"

definition actAmount :: "bool \<Rightarrow> ActualUsage \<Rightarrow> int" where
  "actAmount tok a = (if tok then ActualUsage_TotalTokens a else au_SpendMicros a)"

lemma positiveTokenTotal_eq: "positiveTokenTotal = saturatingUsageAdd"
  by (intro ext) (simp add: positiveTokenTotal_def saturatingUsageAdd_def)

lemma estTokens_eq: "estTokens = EstimatedUsage_TotalTokens"
  by (intro ext) (simp add: estTokens_def EstimatedUsage_TotalTokens_def positiveTokenTotal_eq)

lemma actTokens_eq: "actTokens = ActualUsage_TotalTokens"
  by (intro ext) (simp add: actTokens_def ActualUsage_TotalTokens_def positiveTokenTotal_eq)

lemma estAmount_range: "nonneg_usage e \<Longrightarrow> 0 \<le> estAmount tok e \<and> estAmount tok e \<le> MaxInt64"
  by (simp add: estAmount_def nonneg_spend)

lemma actAmount_range: "act_nonneg a \<Longrightarrow> 0 \<le> actAmount tok a \<and> actAmount tok a \<le> MaxInt64"
  by (auto simp: actAmount_def act_nonneg_def act_in_range_def in_i64_def ActualUsage_TotalTokens_def
      saturatingUsageAdd_spec)

lemma nonneg_in_range: "nonneg_usage e \<Longrightarrow> est_in_range e"
  by (simp add: nonneg_usage_def est_in_range_def in_i64_def)

lemma zero_estimate_nonneg [simp]: "nonneg_usage zero_estimate" "est_in_range zero_estimate"
  "normalizeEstimatedUsage zero_estimate = zero_estimate" "estAmount tok zero_estimate = 0"
  by (simp_all add: nonneg_usage_def est_in_range_def in_i64_def normalizeEstimatedUsage_def estAmount_def
      EstimatedUsage_TotalTokens_def saturatingUsageAdd_def)

lemma addEstimate_addHeld: "nonneg_usage a \<Longrightarrow> nonneg_usage b \<Longrightarrow> addEstimate a b = addHeld a b"
  by (simp add: addEstimate_def addHeld_def positiveTokenTotal_eq nonneg_usage_def in_i64_def
      saturatingUsageAdd_spec saturatingAdd_pos)

lemma addHeld_estAmount:
  "nonneg_usage a \<Longrightarrow> nonneg_usage b \<Longrightarrow> estAmount tok (addHeld a b) = sat_sum (estAmount tok a) (estAmount tok b)"
  by (simp add: estAmount_def addHeld_tokens)
    (simp add: addHeld_def nonneg_usage_def saturatingAdd_pos in_i64_def)

lemma normalize_estAmount: "nonneg_usage e \<Longrightarrow> estAmount tok (normalizeEstimatedUsage e) = estAmount tok e"
  by (auto simp: estAmount_def nonneg_usage_def normalizeEstimatedUsage_def Let_def EstimatedUsage_TotalTokens_def
      saturatingUsageAdd_def)

lemma zero_amounts: "nonneg_usage e \<Longrightarrow> \<not> nonzeroEstimate e \<Longrightarrow> estAmount tok e = 0"
proof -
  assume e: "nonneg_usage e" "\<not> nonzeroEstimate e"
  then have "estAmount tok e \<le> 0" by (cases tok) (auto simp: nonzeroEstimate_def estAmount_def)
  with estAmount_range [OF e(1), of tok] show ?thesis by linarith
qed

lemma consume_amounts:
  assumes "nonneg_usage want" "nonneg_usage available" "consumeReservationCredit want available = (applied, rest)"
  shows "nonneg_usage applied" "nonneg_usage rest"
    "estAmount tok applied = estAmount tok want - min (estAmount tok want) (estAmount tok available)"
    "estAmount tok rest = estAmount tok available - min (estAmount tok want) (estAmount tok available)"
proof -
  let ?w = "EstimatedUsage_TotalTokens want" and ?a = "EstimatedUsage_TotalTokens available"
  have r: "0 \<le> ?w" "?w \<le> MaxInt64" "0 \<le> ?a" "?a \<le> MaxInt64" using assms(1,2) by simp_all
  have sp: "0 \<le> eu_EstimatedSpendMicros want" "eu_EstimatedSpendMicros want \<le> MaxInt64"
    "0 \<le> eu_EstimatedSpendMicros available" "eu_EstimatedSpendMicros available \<le> MaxInt64" "0 \<le> eu_InputTokens want"
    using assms(1,2) by (simp_all add: nonneg_usage_def)
  let ?u = "min ?w ?a" and ?us = "min (eu_EstimatedSpendMicros want) (eu_EstimatedSpendMicros available)"
  let ?i = "min (eu_InputTokens want) (?w - ?u)"
  have eqs: "applied = \<lparr>eu_InputTokens = ?i, eu_ReservedOutputTokens = ?w - ?u - ?i,
      eu_EstimatedSpendMicros = eu_EstimatedSpendMicros want - ?us\<rparr>"
    "rest = \<lparr>eu_InputTokens = ?a - ?u, eu_ReservedOutputTokens = 0,
      eu_EstimatedSpendMicros = eu_EstimatedSpendMicros available - ?us\<rparr>"
    using assms(3) r sp by (auto simp: consumeReservationCredit_def Let_def estTokens_eq)
  show n: "nonneg_usage applied" "nonneg_usage rest" using r sp by (auto simp: eqs nonneg_usage_def)
  show "estAmount tok applied = estAmount tok want - min (estAmount tok want) (estAmount tok available)"
    using n(1) r sp by (simp add: estAmount_def TotalTokens_sat) (simp add: eqs sat_sum_def)
  show "estAmount tok rest = estAmount tok available - min (estAmount tok want) (estAmount tok available)"
    using n(2) r sp by (simp add: estAmount_def TotalTokens_sat) (simp add: eqs sat_sum_def)
qed

lemma TotalTokens_input [simp]:
  "0 \<le> i \<Longrightarrow> i \<le> MaxInt64 \<Longrightarrow>
     EstimatedUsage_TotalTokens \<lparr>eu_InputTokens = i, eu_ReservedOutputTokens = 0, eu_EstimatedSpendMicros = m\<rparr> = i"
  by (simp add: EstimatedUsage_TotalTokens_def saturatingUsageAdd_def)

lemma topUpDelta_amounts:
  assumes "nonneg_usage e" "act_nonneg a"
  shows "nonneg_usage (quotaTopUpDelta e a)"
    "estAmount tok (quotaTopUpDelta e a) = max 0 (actAmount tok a - estAmount tok e)"
proof -
  note r = estAmount_range [OF assms(1), of True] estAmount_range [OF assms(1), of False]
    actAmount_range [OF assms(2), of True] actAmount_range [OF assms(2), of False]
  show n: "nonneg_usage (quotaTopUpDelta e a)"
    using r by (simp add: quotaTopUpDelta_def Let_def estTokens_eq actTokens_eq nonneg_usage_def estAmount_def actAmount_def)
  show "estAmount tok (quotaTopUpDelta e a) = max 0 (actAmount tok a - estAmount tok e)"
    using r by (simp add: quotaTopUpDelta_def Let_def estTokens_eq actTokens_eq estAmount_def actAmount_def)
qed

section \<open>The books of the hooks\<close>

text \<open>What is reserved is what the running attempts hold, the credit, and what was reconciled.\<close>

definition attemptSum :: "bool \<Rightarrow> (string, EstimatedUsage) gomap \<Rightarrow> int" where
  "attemptSum tok m = sum_list (map (\<lambda>e. estAmount tok (snd e)) m)"

definition hooks_ok :: "quotaHooks \<Rightarrow> bool" where
  "hooks_ok h \<longleftrightarrow> nonneg_usage (qh_reserve h) \<and> nonneg_usage (qh_credit h) \<and> wf_gomap (qh_attempts h) \<and>
     (\<forall>e \<in> set (qh_attempts h). nonneg_usage (snd e))"

definition balanced :: "quotaHooks \<Rightarrow> ActualUsage list \<Rightarrow> bool" where
  "balanced h cs \<longleftrightarrow> (\<forall>tok. estAmount tok (qh_reserve h) < MaxInt64 \<longrightarrow>
     estAmount tok (qh_reserve h) =
       attemptSum tok (qh_attempts h) + estAmount tok (qh_credit h) + sum_list (map (actAmount tok) cs))"

lemma attemptSum_update: "map_of m k = None \<Longrightarrow> attemptSum tok (AList.update k v m) = attemptSum tok m + estAmount tok v"
  by (induction m) (auto simp: attemptSum_def split: if_splits)

lemma attemptSum_delete:
  "wf_gomap m \<Longrightarrow> map_of m k = Some v \<Longrightarrow> attemptSum tok (AList.delete k m) = attemptSum tok m - estAmount tok v"
proof (induction m)
  case (Cons e m)
  have "AList.delete k m = m" if "k = fst e"
    using Cons.prems that by (simp add: wf_gomap_def AList.delete_idem)
  moreover have "wf_gomap m" using Cons.prems by (simp add: wf_gomap_def)
  ultimately show ?case using Cons by (cases e) (auto simp: attemptSum_def)
qed simp

lemma attemptSum_nonneg: "\<forall>e \<in> set m. nonneg_usage (snd e) \<Longrightarrow> 0 \<le> attemptSum tok m"
  by (induction m) (use estAmount_range in \<open>force simp: attemptSum_def\<close>)+

lemma chargeSum_nonneg: "\<forall>c \<in> set cs. act_nonneg c \<Longrightarrow> 0 \<le> sum_list (map (actAmount tok) cs)"
  by (induction cs) (use actAmount_range in force)+

lemma hooks0_ok: "hooks_ok hooks0" "balanced hooks0 []"
  by (simp_all add: hooks0_def hooks_ok_def balanced_def attemptSum_def)

lemma hooks_attempt: "hooks_ok h \<Longrightarrow> map_of (qh_attempts h) k = Some e \<Longrightarrow> nonneg_usage e"
  by (fastforce simp: hooks_ok_def dest: map_of_SomeD)

lemma hooks_amounts:
  assumes "hooks_ok h" "\<forall>c \<in> set cs. act_nonneg c"
  shows "0 \<le> attemptSum tok (qh_attempts h)" "0 \<le> estAmount tok (qh_credit h)" "0 \<le> sum_list (map (actAmount tok) cs)"
    "0 \<le> estAmount tok (qh_reserve h)" "estAmount tok (qh_credit h) \<le> MaxInt64" "estAmount tok (qh_reserve h) \<le> MaxInt64"
  using assms by (auto simp: hooks_ok_def estAmount_range attemptSum_nonneg chargeSum_nonneg)

text \<open>The three hooks, as far as the shared variables go.\<close>

definition reserved_hooks :: "string \<Rightarrow> EstimatedUsage \<Rightarrow> quotaHooks \<Rightarrow> quotaHooks" where
  "reserved_hooks i delta h =
     (let (applied, rest) = consumeReservationCredit delta (qh_credit h)
      in \<lparr>qh_reserve = addEstimate (qh_reserve h) applied, qh_attempts = AList.update i delta (qh_attempts h), qh_credit = rest\<rparr>)"

definition creditBack :: "EstimatedUsage \<Rightarrow> ActualUsage \<Rightarrow> EstimatedUsage" where
  "creditBack e a = \<lparr>eu_InputTokens = max 0 (estTokens e - actTokens a), eu_ReservedOutputTokens = 0,
     eu_EstimatedSpendMicros = max 0 (eu_EstimatedSpendMicros e - au_SpendMicros a)\<rparr>"

definition reconciled_hooks :: "string \<Rightarrow> EstimatedUsage \<Rightarrow> ActualUsage \<Rightarrow> quotaHooks \<Rightarrow> quotaHooks" where
  "reconciled_hooks i e a h =
     \<lparr>qh_reserve = addEstimate (qh_reserve h) (quotaTopUpDelta e a), qh_attempts = AList.delete i (qh_attempts h),
      qh_credit = addEstimate (qh_credit h) (creditBack e a)\<rparr>"

lemma creditBack_amounts:
  assumes "nonneg_usage e" "act_nonneg a"
  shows "nonneg_usage (creditBack e a)" "estAmount tok (creditBack e a) = max 0 (estAmount tok e - actAmount tok a)"
  using estAmount_range [OF assms(1), of True] estAmount_range [OF assms(1), of False]
    actAmount_range [OF assms(2), of True] actAmount_range [OF assms(2), of False]
  by (simp_all add: creditBack_def estTokens_eq actTokens_eq nonneg_usage_def estAmount_def actAmount_def)

lemma reserved_hooks_ok:
  assumes "hooks_ok h" "nonneg_usage delta" "map_of (qh_attempts h) i = None" "balanced h cs" "\<forall>c \<in> set cs. act_nonneg c"
  shows "hooks_ok (reserved_hooks i delta h)" "balanced (reserved_hooks i delta h) cs"
proof -
  obtain a r where c: "consumeReservationCredit delta (qh_credit h) = (a, r)" by fastforce
  have n: "nonneg_usage (qh_credit h)" "nonneg_usage (qh_reserve h)" using assms(1) by (simp_all add: hooks_ok_def)
  note am = consume_amounts [OF assms(2) n(1) c]
  show "hooks_ok (reserved_hooks i delta h)"
    using assms(1,2) am(1,2) n(2)
    by (auto simp: reserved_hooks_def c hooks_ok_def addEstimate_addHeld addHeld_nonneg dest!: set_gomap_update)
  show "balanced (reserved_hooks i delta h) cs"
    unfolding balanced_def
  proof (intro allI impI)
    fix tok
    assume "estAmount tok (qh_reserve (reserved_hooks i delta h)) < MaxInt64"
    then have lt: "estAmount tok (qh_reserve h) + estAmount tok a < MaxInt64"
      "estAmount tok (addEstimate (qh_reserve h) a) = estAmount tok (qh_reserve h) + estAmount tok a"
      using am(1) n(2) estAmount_range [OF am(1), of tok] hooks_amounts(4) [OF assms(1,5), of tok]
      by (auto simp: reserved_hooks_def c addEstimate_addHeld addHeld_estAmount sat_sum_def)
    with assms(4) estAmount_range [OF am(1), of tok] have
      "estAmount tok (qh_reserve h) = attemptSum tok (qh_attempts h) + estAmount tok (qh_credit h) + sum_list (map (actAmount tok) cs)"
      by (simp add: balanced_def)
    then show "estAmount tok (qh_reserve (reserved_hooks i delta h)) = attemptSum tok (qh_attempts (reserved_hooks i delta h)) +
        estAmount tok (qh_credit (reserved_hooks i delta h)) + sum_list (map (actAmount tok) cs)"
      using lt(2) by (simp add: reserved_hooks_def c am(3,4) attemptSum_update [OF assms(3)])
  qed
qed

lemma credit_exact:
  assumes "hooks_ok h" "\<forall>c \<in> set cs. act_nonneg c" "balanced h cs" "map_of (qh_attempts h) i = Some e"
    "nonneg_usage back" "estAmount tok back \<le> estAmount tok e" "estAmount tok (qh_reserve h) < MaxInt64"
  shows "estAmount tok (addEstimate (qh_credit h) back) = estAmount tok (qh_credit h) + estAmount tok back"
proof -
  have n: "nonneg_usage (qh_credit h)" using assms(1) by (simp add: hooks_ok_def)
  have "0 \<le> attemptSum tok (AList.delete i (qh_attempts h))"
    using assms(1) by (intro attemptSum_nonneg) (simp add: hooks_ok_def set_gomap_delete)
  then have "estAmount tok e \<le> attemptSum tok (qh_attempts h)"
    using attemptSum_delete [OF _ assms(4), of tok] assms(1) by (simp add: hooks_ok_def)
  with assms(3,6,7) hooks_amounts(3) [OF assms(1,2), of tok]
  have "estAmount tok (qh_credit h) + estAmount tok back \<le> MaxInt64"
    unfolding balanced_def by fastforce
  then show ?thesis using n assms(5) hooks_amounts(2) [OF assms(1,2), of tok] estAmount_range [OF assms(5), of tok]
    by (simp add: addEstimate_addHeld addHeld_estAmount sat_sum_exact)
qed

lemma released_hooks_ok:
  assumes "hooks_ok h" "balanced h cs" "\<forall>c \<in> set cs. act_nonneg c"
  shows "hooks_ok (releaseAttempt i h)" "balanced (releaseAttempt i h) cs"
proof (atomize (full), cases "map_of (qh_attempts h) i")
  case None
  then show "hooks_ok (releaseAttempt i h) \<and> balanced (releaseAttempt i h) cs"
    using assms by (simp add: releaseAttempt_def)
next
  case (Some e)
  have e: "nonneg_usage e" using assms(1) Some by (rule hooks_attempt)
  have wf: "wf_gomap (qh_attempts h)" using assms(1) by (simp add: hooks_ok_def)
  have "hooks_ok (releaseAttempt i h)" using assms(1) Some e
    by (simp add: releaseAttempt_def hooks_ok_def set_gomap_delete addEstimate_addHeld addHeld_nonneg)
  moreover have "balanced (releaseAttempt i h) cs"
    using assms(2) Some credit_exact [OF assms(1,3,2) Some e] attemptSum_delete [OF wf Some]
    by (simp add: releaseAttempt_def balanced_def)
  ultimately show "hooks_ok (releaseAttempt i h) \<and> balanced (releaseAttempt i h) cs" ..
qed

lemma reconciled_hooks_ok:
  assumes "hooks_ok h" "balanced h cs" "\<forall>c \<in> set cs. act_nonneg c" "map_of (qh_attempts h) i = Some e" "act_nonneg a"
  shows "hooks_ok (reconciled_hooks i e a h)" "balanced (reconciled_hooks i e a h) (a # cs)"
proof -
  let ?h = "reconciled_hooks i e a h"
  have e: "nonneg_usage e" using assms(1,4) by (rule hooks_attempt)
  have n: "nonneg_usage (qh_reserve h)" "nonneg_usage (qh_credit h)" "wf_gomap (qh_attempts h)"
    using assms(1) by (simp_all add: hooks_ok_def)
  note d = topUpDelta_amounts [OF e assms(5)] and b = creditBack_amounts [OF e assms(5)]
  show "hooks_ok ?h" using assms(1) d(1) b(1)
    by (simp add: reconciled_hooks_def hooks_ok_def set_gomap_delete addEstimate_addHeld addHeld_nonneg)
  show "balanced ?h (a # cs)"
    unfolding balanced_def
  proof (intro allI impI)
    fix tok
    assume "estAmount tok (qh_reserve ?h) < MaxInt64"
    then have r: "estAmount tok (qh_reserve ?h) = estAmount tok (qh_reserve h) + estAmount tok (quotaTopUpDelta e a)"
      "estAmount tok (qh_reserve h) < MaxInt64"
      using n(1) d(1) estAmount_range [OF d(1), of tok] estAmount_range [OF n(1), of tok]
      by (auto simp: reconciled_hooks_def addEstimate_addHeld addHeld_estAmount sat_sum_def)
    have "estAmount tok (creditBack e a) \<le> estAmount tok e"
      using b(2) [of tok] actAmount_range [OF assms(5), of tok] estAmount_range [OF e, of tok] by simp
    from credit_exact [OF assms(1,3,2,4) b(1) this r(2)]
    have "estAmount tok (qh_credit ?h) = estAmount tok (qh_credit h) + estAmount tok (creditBack e a)"
      by (simp add: reconciled_hooks_def)
    moreover have "estAmount tok (qh_reserve h) =
        attemptSum tok (qh_attempts h) + estAmount tok (qh_credit h) + sum_list (map (actAmount tok) cs)"
      using assms(2) r(2) unfolding balanced_def by blast
    ultimately show
      "estAmount tok (qh_reserve ?h) = attemptSum tok (qh_attempts ?h) + estAmount tok (qh_credit ?h) +
         sum_list (map (actAmount tok) (a # cs))"
      using r attemptSum_delete [OF n(3) assms(4), of tok]
      by (simp add: reconciled_hooks_def b(2) d(2) max_def)
  qed
qed

text \<open>The store calls of the hooks.\<close>

lemma reserveAttempt_cases:
  assumes "reserveAttempt ops ctx ctxErr req attempt (h, s) = (err, h', s')" "hooks_ok h" "nonneg_usage (attemptDelta req attempt)"
  obtains (Seen) "map_of (qh_attempts h) (at_ID attempt) \<noteq> None" "err = None" "h' = h" "s' = s"
  | (Free) applied rest where
      "map_of (qh_attempts h) (at_ID attempt) = None"
      "consumeReservationCredit (attemptDelta req attempt) (qh_credit h) = (applied, rest)" "\<not> nonzeroEstimate applied"
      "s' = observeSoftSpendThreshold ops ctx (qr_scopes req) s" "err = None"
      "h' = reserved_hooks (at_ID attempt) (attemptDelta req attempt) h"
  | (TopUp) applied rest e where
      "map_of (qh_attempts h) (at_ID attempt) = None"
      "consumeReservationCredit (attemptDelta req attempt) (qh_credit h) = (applied, rest)"
      "qo_TopUp ops ctx (qr_ticket req) (qr_scopes req) applied (qr_ttl req)
         (observeSoftSpendThreshold ops ctx (qr_scopes req) s) = (e, s')"
      "err = map_option (quotaAdmissionError ctxErr) e"
      "h' = (if e = None then reserved_hooks (at_ID attempt) (attemptDelta req attempt) h else h)"
proof (cases "map_of (qh_attempts h) (at_ID attempt)")
  case (Some x)
  with assms(1) show thesis by (intro Seen) (simp_all add: reserveAttempt_def)
next
  case None
  obtain a r where c: "consumeReservationCredit (attemptDelta req attempt) (qh_credit h) = (a, r)" by fastforce
  obtain e t where t: "qo_TopUp ops ctx (qr_ticket req) (qr_scopes req) a (qr_ttl req)
         (observeSoftSpendThreshold ops ctx (qr_scopes req) s) = (e, t)" by fastforce
  note eqs = assms(1) [unfolded reserveAttempt_def Let_def]
  show thesis
  proof (cases "nonzeroEstimate a")
    case False
    with eqs None c show thesis by (intro Free) (auto simp: reserved_hooks_def)
  next
    case True
    have "t = s'" "err = map_option (quotaAdmissionError ctxErr) e"
      "h' = (if e = None then reserved_hooks (at_ID attempt) (attemptDelta req attempt) h else h)"
      using eqs None c t True by (auto simp: reserved_hooks_def split: option.splits)
    with TopUp [OF None c] t show thesis by blast
  qed
qed

lemma addEstimate_zero: "nonneg_usage a \<Longrightarrow> addEstimate a zero_estimate = a"
  by (simp add: addEstimate_def positiveTokenTotal_eq nonneg_usage_def saturatingUsageAdd_def)

lemma topUpDelta_zero:
  assumes "nonneg_usage e" "act_nonneg a" "\<not> nonzeroEstimate (quotaTopUpDelta e a)"
  shows "quotaTopUpDelta e a = zero_estimate"
  using zero_amounts [OF topUpDelta_amounts(1) [OF assms(1,2)] assms(3), of True]
    zero_amounts [OF topUpDelta_amounts(1) [OF assms(1,2)] assms(3), of False]
    topUpDelta_amounts(2) [OF assms(1,2), of True] topUpDelta_amounts(2) [OF assms(1,2), of False]
  by (simp add: quotaTopUpDelta_def Let_def estTokens_eq actTokens_eq estAmount_def actAmount_def max_def split: if_splits)

lemma credit_back:
  assumes "nonneg_usage c" "nonneg_usage e" "act_nonneg a"
  shows "addEstimate c (creditBack e a) =
    (let c = (if estTokens e > actTokens a
              then c\<lparr>eu_InputTokens := positiveTokenTotal (eu_InputTokens c) (i64 (estTokens e - actTokens a))\<rparr> else c)
     in if eu_EstimatedSpendMicros e > au_SpendMicros a
        then c\<lparr>eu_EstimatedSpendMicros := positiveTokenTotal (eu_EstimatedSpendMicros c)
               (i64 (eu_EstimatedSpendMicros e - au_SpendMicros a))\<rparr> else c)"
proof -
  have ptt: "positiveTokenTotal x 0 = x" if "0 \<le> x" "x \<le> MaxInt64" for x
    using that by (simp add: positiveTokenTotal_def)
  note r = estAmount_range [OF assms(2), of True] estAmount_range [OF assms(2), of False]
    actAmount_range [OF assms(3), of True] actAmount_range [OF assms(3), of False]
  have t: "i64 (estTokens e - actTokens a) = estTokens e - actTokens a"
    "i64 (eu_EstimatedSpendMicros e - au_SpendMicros a) = eu_EstimatedSpendMicros e - au_SpendMicros a"
    using r by (simp_all add: estAmount_def actAmount_def estTokens_eq actTokens_eq)
  show ?thesis using assms(1) unfolding addEstimate_def creditBack_def Let_def t
    by (simp add: ptt nonneg_usage_def max_def)
qed

lemma reconcileAttempt_cases:
  assumes "reconcileAttempt ops ctx ctxErr req i actual (h, s) = (err, h', s')" "hooks_ok h" "act_nonneg actual"
  obtains (Unknown) "map_of (qh_attempts h) i = None" "err = None" "h' = h" "s' = s"
  | (Fits) e where "map_of (qh_attempts h) i = Some e" "\<not> nonzeroEstimate (quotaTopUpDelta e actual)"
      "err = None" "h' = reconciled_hooks i e actual h" "s' = s"
  | (TopUp) e e' where "map_of (qh_attempts h) i = Some e"
      "qo_TopUp ops ctx (qr_ticket req) (qr_scopes req) (quotaTopUpDelta e actual) (qr_ttl req) s = (e', s')"
      "err = map_option (\<lambda>x. DisallowFallback (quotaAdmissionError ctxErr x)) e'"
      "h' = (if e' = None then reconciled_hooks i e actual h else h)"
proof (cases "map_of (qh_attempts h) i")
  case None
  with assms(1) show thesis by (intro Unknown) (simp_all add: reconcileAttempt_def)
next
  case (Some e)
  have e: "nonneg_usage e" using assms(2) Some by (rule hooks_attempt)
  have n: "nonneg_usage (qh_reserve h)" "nonneg_usage (qh_credit h)" using assms(2) by (simp_all add: hooks_ok_def)
  obtain e' t where t: "qo_TopUp ops ctx (qr_ticket req) (qr_scopes req) (quotaTopUpDelta e actual) (qr_ttl req) s = (e', t)"
    by fastforce
  have eqs: "(if nonzeroEstimate (quotaTopUpDelta e actual)
      then case e' of Some x \<Rightarrow> (Some (DisallowFallback (quotaAdmissionError ctxErr x)), h, t)
           | None \<Rightarrow> (None, reconciled_hooks i e actual h, t)
      else (None, h\<lparr>qh_attempts := AList.delete i (qh_attempts h), qh_credit := addEstimate (qh_credit h) (creditBack e actual)\<rparr>, s))
     = (err, h', s')"
    using assms(1) unfolding reconcileAttempt_def credit_back [OF n(2) e assms(3)] reconciled_hooks_def Let_def
      prod.case Some option.case quotaTopUpDelta_def [of e actual, unfolded Let_def, symmetric] t
    by (cases e') (auto split: if_splits)
  show thesis
  proof (cases "nonzeroEstimate (quotaTopUpDelta e actual)")
    case True
    with eqs have "t = s'" "err = map_option (\<lambda>x. DisallowFallback (quotaAdmissionError ctxErr x)) e'"
      "h' = (if e' = None then reconciled_hooks i e actual h else h)" by (auto split: option.splits)
    with TopUp [OF Some] t show thesis by blast
  next
    case False
    with eqs topUpDelta_zero [OF e assms(3) False] show thesis
      by (intro Fits [OF Some False]) (auto simp: reconciled_hooks_def addEstimate_zero n(1))
  qed
qed

text \<open>Whatever the store answers, the hooks' books balance.\<close>

lemma quota_run_balanced:
  "quota_run ops req s0 h s cs \<Longrightarrow> hooks_ok h \<and> balanced h cs \<and> (\<forall>c \<in> set cs. act_nonneg c)"
proof (induction rule: quota_run.induct)
  case run_start
  show ?case by (simp add: hooks0_ok)
next
  case (run_reserve h s cs attempt ctx ctxErr err h' s')
  then have ih: "hooks_ok h" "balanced h cs" "\<forall>c \<in> set cs. act_nonneg c" by blast+
  from run_reserve.hyps(3) ih(1) run_reserve.hyps(2) show ?case
    by (cases rule: reserveAttempt_cases) (use ih run_reserve.hyps(2) in \<open>auto simp: reserved_hooks_ok\<close>)
next
  case (run_reconcile h s cs actual ctx ctxErr i err h' s')
  then have ih: "hooks_ok h" "balanced h cs" "\<forall>c \<in> set cs. act_nonneg c" by blast+
  from run_reconcile.hyps(3) ih(1) run_reconcile.hyps(2) show ?case
    by (cases rule: reconcileAttempt_cases) (use ih run_reconcile.hyps(2) in \<open>auto simp: reconciled_hooks_ok\<close>)
qed (auto simp: released_hooks_ok)

section \<open>The contract of a quota store\<close>

text \<open>
  \<open>held s id\<close> is what the store holds for a live reservation. A call about another reservation may
  let this one expire, and nothing else.
\<close>

locale quota_store =
  fixes ops :: "'s quotaOps"
    and inv :: "'s \<Rightarrow> bool"
    and held :: "'s \<Rightarrow> string \<Rightarrow> EstimatedUsage option"
  assumes inv_call: "inv s \<Longrightarrow> call_ok c \<Longrightarrow> inv (runCall ops c s)"
    and held_other: "inv s \<Longrightarrow> call_ok c \<Longrightarrow> callID c \<noteq> Some rid \<Longrightarrow>
      held (runCall ops c s) rid = held s rid \<or> held (runCall ops c s) rid = None"
    and held_nonneg: "inv s \<Longrightarrow> held s rid = Some u \<Longrightarrow> nonneg_usage u"
    and reserve_ok: "inv s \<Longrightarrow> wf_request False scopes \<Longrightarrow> est_in_range e \<Longrightarrow> rid \<noteq> [] \<Longrightarrow>
      qo_Reserve ops ctx rid scopes e ttl s = (Inr tk, s') \<Longrightarrow>
      qt_RequestID tk = rid \<and> held s' rid = Some (normalizeEstimatedUsage e)"
    and topUp_ok: "inv s \<Longrightarrow> est_in_range d \<Longrightarrow> qt_RequestID tk \<noteq> [] \<Longrightarrow>
      qo_TopUp ops ctx tk scopes d ttl s = (None, s') \<Longrightarrow>
      \<exists>u. held s (qt_RequestID tk) = Some u \<and> held s' (qt_RequestID tk) = Some (addHeld u (normalizeEstimatedUsage d))"
    and topUp_err: "inv s \<Longrightarrow> est_in_range d \<Longrightarrow> qt_RequestID tk \<noteq> [] \<Longrightarrow>
      qo_TopUp ops ctx tk scopes d ttl s = (Some err, s') \<Longrightarrow>
      held s' (qt_RequestID tk) = held s (qt_RequestID tk) \<or> held s' (qt_RequestID tk) = None"
    and commit_ok: "inv s \<Longrightarrow> act_in_range a \<Longrightarrow> qt_RequestID tk \<noteq> [] \<Longrightarrow>
      qo_Commit ops ctx tk a s = (None, s') \<Longrightarrow> held s' (qt_RequestID tk) = None"
    and refund_ok: "inv s \<Longrightarrow> qt_RequestID tk \<noteq> [] \<Longrightarrow>
      qo_Refund ops ctx tk s = (None, s') \<Longrightarrow> held s' (qt_RequestID tk) = None"
begin

definition matches :: "quotaRequest \<Rightarrow> quotaHooks \<Rightarrow> 's \<Rightarrow> bool" where
  "matches req h s \<longleftrightarrow> inv s \<and>
     (\<forall>u tok. held s (qt_RequestID (qr_ticket req)) = Some u \<longrightarrow> estAmount tok u = estAmount tok (qh_reserve h))"

lemma matches_drop:
  "matches req h s \<Longrightarrow> inv s' \<Longrightarrow>
   held s' (qt_RequestID (qr_ticket req)) = held s (qt_RequestID (qr_ticket req)) \<or> held s' (qt_RequestID (qr_ticket req)) = None \<Longrightarrow>
   matches req h s'"
  by (auto simp: matches_def)

lemma observe_held:
  "inv s \<Longrightarrow> inv (observeSoftSpendThreshold ops ctx scopes s) \<and>
     (held (observeSoftSpendThreshold ops ctx scopes s) rid = held s rid \<or>
      held (observeSoftSpendThreshold ops ctx scopes s) rid = None)"
proof (induction scopes arbitrary: s)
  case Nil
  then show ?case by (simp add: observeSoftSpendThreshold_def split: option.split)
next
  case (Cons sl sls)
  let ?s = "if ls_SoftSpendMicros (sl_Limits sl) \<le> 0 then s else runCall ops (CallGetUsage ctx sl) s"
  have "inv ?s" "held ?s rid = held s rid \<or> held ?s rid = None"
    using Cons.prems inv_call [of s "CallGetUsage ctx sl"] held_other [of s "CallGetUsage ctx sl" rid] by auto
  moreover have "observeSoftSpendThreshold ops ctx (sl # sls) s = observeSoftSpendThreshold ops ctx sls ?s"
    by (simp add: observeSoftSpendThreshold_def split: option.split)
  ultimately show ?case using Cons.IH [of ?s] by auto
qed

lemma inv_topUp: "inv s \<Longrightarrow> est_in_range d \<Longrightarrow> qo_TopUp ops ctx tk scopes d ttl s = (e, s') \<Longrightarrow> inv s'"
  using inv_call [of s "CallTopUp ctx tk scopes d ttl"] by simp

lemma matches_topUp:
  assumes "matches req h s" "nonneg_usage d" "qt_RequestID (qr_ticket req) \<noteq> []"
    "qo_TopUp ops ctx (qr_ticket req) scopes d ttl s = (e, s')" "nonneg_usage (qh_reserve h)"
    "e = None \<Longrightarrow> qh_reserve h' = addEstimate (qh_reserve h) d" "e \<noteq> None \<Longrightarrow> qh_reserve h' = qh_reserve h"
  shows "matches req h' s'"
proof (cases e)
  case (Some x)
  have "inv s'" using inv_topUp assms(1,2,4) nonneg_in_range unfolding matches_def by blast
  then have "matches req h s'"
    using topUp_err [OF _ nonneg_in_range [OF assms(2)] assms(3) assms(4) [unfolded Some]] assms(1)
    by (intro matches_drop [OF assms(1)]) (auto simp: matches_def)
  with assms(7) Some show ?thesis by (simp add: matches_def)
next
  case None
  have i: "inv s" "inv s'" using inv_topUp assms(1,2,4) nonneg_in_range unfolding matches_def by blast+
  obtain u where u: "held s (qt_RequestID (qr_ticket req)) = Some u"
    "held s' (qt_RequestID (qr_ticket req)) = Some (addHeld u (normalizeEstimatedUsage d))"
    using topUp_ok [OF i(1) nonneg_in_range [OF assms(2)] assms(3) assms(4) [unfolded None]] by blast
  have "nonneg_usage u" using i(1) u(1) by (rule held_nonneg)
  then show ?thesis
    using assms(1,2,5,6) None i(2) u normalizeEstimatedUsage_nonneg [OF nonneg_in_range [OF assms(2)]]
    by (simp add: matches_def addEstimate_addHeld addHeld_estAmount normalize_estAmount)
qed

lemma run_matches:
  assumes "matches req hooks0 s0" "qt_RequestID (qr_ticket req) \<noteq> []" "quota_run ops req s0 h s cs"
  shows "matches req h s"
  using assms(3)
proof (induction rule: quota_run.induct)
  case run_start
  show ?case by (rule assms(1))
next
  case (run_reserve h s cs attempt ctx ctxErr err h' s')
  have h: "hooks_ok h" using quota_run_balanced [OF run_reserve.hyps(1)] by blast
  then have n: "nonneg_usage (qh_reserve h)" "nonneg_usage (qh_credit h)" by (simp_all add: hooks_ok_def)
  let ?t = "observeSoftSpendThreshold ops ctx (qr_scopes req) s"
  have t: "matches req h ?t"
    using run_reserve.IH observe_held [of s ctx "qr_scopes req"] by (intro matches_drop [OF run_reserve.IH]) (auto simp: matches_def)
  from run_reserve.hyps(3) h run_reserve.hyps(2) show ?case
  proof (cases rule: reserveAttempt_cases)
    case Seen
    with run_reserve.IH show ?thesis by simp
  next
    case (Free applied rest)
    note a = consume_amounts(1) [OF run_reserve.hyps(2) n(2) Free(2)]
    have "estAmount tok (qh_reserve h') = estAmount tok (qh_reserve h)" for tok
      using Free n(1) a zero_amounts [OF a Free(3), of tok] estAmount_range [OF n(1), of tok]
      by (simp add: reserved_hooks_def addEstimate_addHeld addHeld_estAmount)
    with t Free show ?thesis by (simp add: matches_def)
  next
    case (TopUp applied rest e)
    note a = consume_amounts(1) [OF run_reserve.hyps(2) n(2) TopUp(2)]
    show ?thesis using TopUp by (intro matches_topUp [OF t a assms(2) TopUp(3) n(1)]) (auto simp: reserved_hooks_def)
  qed
next
  case (run_release h s cs i)
  then show ?case by (simp add: matches_def releaseAttempt_def split: option.split)
next
  case (run_reconcile h s cs actual ctx ctxErr i err h' s')
  have h: "hooks_ok h" using quota_run_balanced [OF run_reconcile.hyps(1)] by blast
  then have n: "nonneg_usage (qh_reserve h)" by (simp add: hooks_ok_def)
  from run_reconcile.hyps(3) h run_reconcile.hyps(2) show ?case
  proof (cases rule: reconcileAttempt_cases)
    case Unknown
    with run_reconcile.IH show ?thesis by simp
  next
    case (Fits e)
    have "nonneg_usage e" using h Fits(1) by (rule hooks_attempt)
    then have "quotaTopUpDelta e actual = zero_estimate" using run_reconcile.hyps(2) Fits(2) by (rule topUpDelta_zero)
    with Fits(4,5) n run_reconcile.IH show ?thesis by (simp add: matches_def reconciled_hooks_def addEstimate_zero)
  next
    case (TopUp e e')
    have "nonneg_usage e" using h TopUp(1) by (rule hooks_attempt)
    then have d: "nonneg_usage (quotaTopUpDelta e actual)" using run_reconcile.hyps(2) by (rule topUpDelta_amounts)
    show ?thesis using TopUp
      by (intro matches_topUp [OF run_reconcile.IH d assms(2) TopUp(2) n]) (auto simp: reconciled_hooks_def)
  qed
next
  case (run_renew h s cs ctx renewalErr renewalErr' s')
  obtain e where e: "qo_TopUp ops ctx (qr_ticket req) (qr_scopes req) zero_estimate (qr_ttl req) s = (e, s')"
    using run_renew.hyps(2) by (auto simp: renewTick_def split: prod.splits option.splits)
  have "nonneg_usage (qh_reserve h)" using quota_run_balanced [OF run_renew.hyps(1)] by (simp add: hooks_ok_def)
  then show ?case
    by (intro matches_topUp [OF run_renew.IH zero_estimate_nonneg(1) assms(2) e]) (simp_all add: addEstimate_zero)
next
  case (run_other h s cs c)
  then show ?case
    using inv_call [of s c] held_other [of s c] by (intro matches_drop [OF run_other.IH]) (auto simp: matches_def)
qed

lemma settle_hold:
  assumes "matches req h s" "hooks_ok h" "act_nonneg actual" "qt_RequestID (qr_ticket req) \<noteq> []"
    "qo_TopUp ops ctx (qr_ticket req) scopes (quotaTopUpDelta (qh_reserve h) actual) ttl s = (None, s')"
    "held s' (qt_RequestID (qr_ticket req)) = Some u"
  shows "estAmount tok u = max (estAmount tok (qh_reserve h)) (actAmount tok actual)"
proof -
  have n: "nonneg_usage (qh_reserve h)" using assms(2) by (simp add: hooks_ok_def)
  note d = topUpDelta_amounts [OF n assms(3)]
  let ?h = "h\<lparr>qh_reserve := addEstimate (qh_reserve h) (quotaTopUpDelta (qh_reserve h) actual)\<rparr>"
  have "matches req ?h s'" by (rule matches_topUp [OF assms(1) d(1) assms(4,5) n]) simp_all
  then have "estAmount tok u = estAmount tok (addHeld (qh_reserve h) (quotaTopUpDelta (qh_reserve h) actual))"
    using assms(6) n d(1) by (simp add: matches_def addEstimate_addHeld)
  then show ?thesis
    using n d estAmount_range [OF n, of tok] actAmount_range [OF assms(3), of tok]
    by (simp add: addHeld_estAmount sat_sum_def max_def)
qed

lemma settled_released:
  assumes "inv s" "nonneg_usage reserved" "act_nonneg actual" "qt_RequestID (qr_ticket req) \<noteq> []"
    "settleReserved ops ctx req reserved actual commit s = (None, s')"
  shows "held s' (qt_RequestID (qr_ticket req)) = None"
proof (cases commit)
  case False
  then obtain t where "qo_Refund ops ctx (qr_ticket req) s = (None, t)" "t = s'"
    using assms(5) by (auto simp: settleReserved_def split: prod.splits)
  with refund_ok assms(1,4) show ?thesis by blast
next
  case True
  let ?d = "quotaTopUpDelta reserved actual"
  obtain e t where t: "(if nonzeroEstimate ?d then qo_TopUp ops ctx (qr_ticket req) (qr_scopes req) ?d (qr_ttl req) s else (None, s)) = (e, t)"
    by fastforce
  have "inv t" using t assms(1) inv_topUp [OF assms(1) nonneg_in_range [OF topUpDelta_amounts(1) [OF assms(2,3)]]]
    by (auto split: if_splits)
  moreover have "qo_Commit ops ctx (qr_ticket req) actual t = (None, s')"
    using assms(5) True t by (cases "qo_Commit ops ctx (qr_ticket req) actual t")
      (auto simp: settleReserved_def Let_def errors_Join_def split: option.splits)
  ultimately show ?thesis using commit_ok assms(3,4) by (auto simp: act_nonneg_def)
qed

end

section \<open>The in-memory store keeps the contract\<close>

definition mem_held :: "MemoryQuotaStore \<Rightarrow> string \<Rightarrow> EstimatedUsage option" where
  "mem_held s rid = map_option mr_held (map_of (q_reservations s) rid)"

lemma memoryOps_sel [simp]:
  "qo_Reserve memoryOps = Reserve" "qo_TopUp memoryOps = TopUp" "qo_Commit memoryOps = Commit"
  "qo_Refund memoryOps = Refund" "qo_GetUsage memoryOps = Some GetUsage"
  by (simp_all add: memoryOps_def)

lemma ticked_lookup:
  assumes "acc_inv hard s"
  shows "map_of (q_reservations (ticked s)) rid = map_of (q_reservations s) rid \<or> map_of (q_reservations (ticked s)) rid = None"
  using acc_invD(2) [OF assms]
  by (auto simp: ticked_reservations [OF assms] map_of_filter_wf split: option.splits)

lemma mem_ticked_held:
  "acc_inv hard s \<Longrightarrow> mem_held (ticked s) rid = mem_held s rid \<or> mem_held (ticked s) rid = None"
  using ticked_lookup [of hard s rid] by (auto simp: mem_held_def)

lemma mem_reservations:
  "q_reservations (snd (Reserve ctx rid scopes e ttl s)) \<in> {q_reservations s, q_reservations (ticked s)} \<or>
    (\<exists>r. q_reservations (snd (Reserve ctx rid scopes e ttl s)) = AList.update rid r (q_reservations (ticked s)))"
  "q_reservations (snd (TopUp ctx tk scopes e ttl s)) \<in> {q_reservations s, q_reservations (ticked s)} \<or>
    (\<exists>r. q_reservations (snd (TopUp ctx tk scopes e ttl s)) = AList.update (qt_RequestID tk) r (q_reservations (ticked s)))"
  "q_reservations (snd (Commit ctx tk a s)) \<in> {q_reservations s, q_reservations (ticked s)} \<or>
    q_reservations (snd (Commit ctx tk a s)) = AList.delete (qt_RequestID tk) (q_reservations (ticked s))"
  "q_reservations (snd (Refund ctx tk s)) \<in> {q_reservations s, q_reservations (ticked s)} \<or>
    q_reservations (snd (Refund ctx tk s)) = AList.delete (qt_RequestID tk) (q_reservations (ticked s))"
  "q_reservations (snd (GetUsage ctx sl s)) \<in> {q_reservations s, q_reservations (ticked s)}"
proof -
  show "q_reservations (snd (Reserve ctx rid scopes e ttl s)) \<in> {q_reservations s, q_reservations (ticked s)} \<or>
    (\<exists>r. q_reservations (snd (Reserve ctx rid scopes e ttl s)) = AList.update rid r (q_reservations (ticked s)))"
    by (cases "ctx_ok ctx"; cases "rid = []")
      (auto simp: not_ctx_ok no_request_id Reserve_step Let_def frame split: option.split)
  show "q_reservations (snd (TopUp ctx tk scopes e ttl s)) \<in> {q_reservations s, q_reservations (ticked s)} \<or>
    (\<exists>r. q_reservations (snd (TopUp ctx tk scopes e ttl s)) = AList.update (qt_RequestID tk) r (q_reservations (ticked s)))"
    by (cases "ctx_ok ctx"; cases "qt_RequestID tk = []")
      (auto simp: not_ctx_ok no_request_id TopUp_step Let_def frame split: option.split)
  show "q_reservations (snd (Commit ctx tk a s)) \<in> {q_reservations s, q_reservations (ticked s)} \<or>
    q_reservations (snd (Commit ctx tk a s)) = AList.delete (qt_RequestID tk) (q_reservations (ticked s))"
    by (cases "ctx_ok ctx"; cases "qt_RequestID tk = []")
      (auto simp: not_ctx_ok no_request_id Commit_step Let_def frame split: option.split)
  show "q_reservations (snd (Refund ctx tk s)) \<in> {q_reservations s, q_reservations (ticked s)} \<or>
    q_reservations (snd (Refund ctx tk s)) = AList.delete (qt_RequestID tk) (q_reservations (ticked s))"
    by (cases "ctx_ok ctx"; cases "qt_RequestID tk = []")
      (auto simp: not_ctx_ok no_request_id Refund_step Let_def frame split: option.split)
  show "q_reservations (snd (GetUsage ctx sl s)) \<in> {q_reservations s, q_reservations (ticked s)}"
    by (cases "ctx_ok ctx") (auto simp: not_ctx_ok GetUsage_state)
qed

lemma mem_other:
  assumes "acc_inv hard s" "callID c \<noteq> Some rid"
  shows "mem_held (runCall memoryOps c s) rid = mem_held s rid \<or> mem_held (runCall memoryOps c s) rid = None"
proof -
  have k: "map_of rs rid = map_of (q_reservations s) rid \<or> map_of rs rid = None"
    if "rs \<in> {q_reservations s, q_reservations (ticked s)} \<or> (\<exists>k r. k \<noteq> rid \<and> rs = AList.update k r (q_reservations (ticked s))) \<or>
      (\<exists>k. k \<noteq> rid \<and> rs = AList.delete k (q_reservations (ticked s)))" for rs
    using that ticked_lookup [OF assms(1), of rid] by (auto simp: update_conv')
  have "mem_held t rid = mem_held s rid \<or> mem_held t rid = None"
    if "q_reservations t \<in> {q_reservations s, q_reservations (ticked s)} \<or>
      (\<exists>k r. k \<noteq> rid \<and> q_reservations t = AList.update k r (q_reservations (ticked s))) \<or>
      (\<exists>k. k \<noteq> rid \<and> q_reservations t = AList.delete k (q_reservations (ticked s)))" for t
    using k [OF that] by (auto simp: mem_held_def)
  moreover have "callID c = Some k \<Longrightarrow> k \<noteq> rid" for k using assms(2) by auto
  ultimately show ?thesis
    using mem_reservations
    by (cases c) (simp_all, (metis (no_types, lifting))+)
qed

lemma answered_ctx:
  "rid \<noteq> [] \<Longrightarrow> Reserve ctx rid scopes e ttl s = (Inr tk, s') \<Longrightarrow> ctx_ok ctx"
  "TopUp ctx ticket scopes d ttl s = (None, s') \<Longrightarrow> ctx_ok ctx"
  "Commit ctx ticket a s = (None, s') \<Longrightarrow> ctx_ok ctx"
  "Refund ctx ticket s = (None, s') \<Longrightarrow> ctx_ok ctx"
  by (auto simp: ctx_ok_def Reserve_def TopUp_def Commit_def Refund_def split: option.splits)

lemma addHeld_none:
  assumes "nonneg_usage u" "nonneg_usage d" "EstimatedUsage_TotalTokens d = 0" "eu_EstimatedSpendMicros d = 0"
  shows "addHeld u d = u"
proof -
  have "eu_InputTokens d = 0" "eu_ReservedOutputTokens d = 0"
    using assms(2,3) by (auto simp: TotalTokens_sat sat_sum_eq_0 nonneg_usage_def)
  then show ?thesis using assms(1,4) by (simp add: addHeld_def nonneg_usage_def saturatingAdd_pos in_i64_def)
qed

interpretation mem: quota_store memoryOps "acc_inv False" mem_held
proof (unfold_locales, goal_cases)
  case (1 s c)
  then show ?case by (cases c) (simp_all add: Reserve_acc TopUp_acc Commit_acc Refund_acc GetUsage_acc)
next
  case (2 s c rid)
  then show ?case by (intro mem_other)
next
  case (3 s rid u)
  then show ?case by (auto simp: mem_held_def dest: acc_inv_res simp: wf_res_def)
next
  case (4 s scopes e rid ctx ttl tk s')
  have ctx: "ctx_ok ctx" using 4 answered_ctx by simp
  have acc: "acc_inv False (ticked s)" using 4(1) by (rule ticked_acc)
  have "qt_RequestID (mr_ticket r) = rid" if "map_of (q_reservations (ticked s)) rid = Some r" for r
    using acc_inv_res [OF acc that] by (simp add: wf_res_def)
  then show ?case
    using 4(5) ctx 4(4) by (auto simp: Reserve_step Let_def mem_held_def split: option.splits if_splits)
next
  case (5 s d tk ctx scopes ttl s')
  have ctx: "ctx_ok ctx" using 5 answered_ctx by simp
  note n = normalizeEstimatedUsage_nonneg [OF 5(2)]
  note z = addHeld_none [OF _ n]
  obtain r where r: "map_of (q_reservations (ticked s)) (qt_RequestID tk) = Some r"
    using 5(4) ctx 5(3) by (auto simp: TopUp_step Let_def split: option.splits)
  then have "map_of (q_reservations s) (qt_RequestID tk) = Some r"
    using ticked_lookup [OF 5(1), of "qt_RequestID tk"] by auto
  then have u: "mem_held s (qt_RequestID tk) = Some (mr_held r)" by (simp add: mem_held_def)
  have "nonneg_usage (mr_held r)" using acc_inv_res [OF ticked_acc [OF 5(1)] r] by (simp add: wf_res_def)
  with z have "mem_held s' (qt_RequestID tk) = Some (addHeld (mr_held r) (normalizeEstimatedUsage d))"
    using 5(4) ctx 5(3) r by (auto simp: TopUp_step Let_def mem_held_def split: option.splits if_splits)
  with u show ?case by blast
next
  case (6 s d tk ctx scopes ttl err s')
  have "s' = s \<or> s' = ticked s"
    using 6(3,4) not_ctx_ok(2) [of ctx tk scopes d ttl s]
    by (cases "ctx_ok ctx") (auto simp: TopUp_step Let_def split: option.splits if_splits)
  then show ?case using mem_ticked_held [OF 6(1), of "qt_RequestID tk"] by auto
next
  case (7 s a tk ctx s')
  have "ctx_ok ctx" using 7 answered_ctx by simp
  with 7 show ?case by (auto simp: Commit_step Let_def mem_held_def frame split: option.splits)
next
  case (8 s tk ctx s')
  have "ctx_ok ctx" using 8 answered_ctx by simp
  with 8 show ?case by (auto simp: Refund_step Let_def mem_held_def frame split: option.splits)
qed

section \<open>The time a reservation lives\<close>

definition candidateTime :: "ResolvedRoute \<Rightarrow> int" where
  "candidateTime c =
     (case rr_Route c of
        None \<Rightarrow> 0
      | Some r \<Rightarrow> (if r_Timeout r \<le> 0 then 30 * Second else r_Timeout r) * routeAttemptCount (Some r))"

lemma candidateTime_nonneg: "0 \<le> candidateTime c"
  using routeAttemptCount_bounds by (auto simp: candidateTime_def split: option.split intro!: mult_nonneg_nonneg)
    (smt (verit))+

lemma div_less_mult: "0 < n \<Longrightarrow> a div n < t \<longleftrightarrow> a < t * n" for a n t :: int
proof
  assume n: "0 < n" and "a div n < t"
  then have "(a div n + 1) * n \<le> t * n" by (intro mult_right_mono) auto
  then have "a div n * n + n \<le> t * n" by (simp add: algebra_simps)
  then show "a < t * n" using pos_mod_bound [OF n, of a] div_mult_mod_eq [of a n] by linarith
next
  assume n: "0 < n" and a: "a < t * n"
  show "a div n < t"
  proof (rule ccontr)
    assume "\<not> a div n < t"
    then have "t * n \<le> a div n * n" using n by (intro mult_right_mono) auto
    with a show False using pos_mod_sign [OF n, of a] div_mult_mod_eq [of a n] by linarith
  qed
qed

lemma requiredTTL_sum:
  "0 \<le> required \<Longrightarrow> required \<le> MaxInt64 \<Longrightarrow>
     requiredTTL cs required = min MaxInt64 (required + sum_list (map candidateTime cs))"
proof (induction cs arbitrary: required)
  case Nil
  then show ?case by simp
next
  case (Cons c cs)
  have rest: "0 \<le> sum_list (map candidateTime cs)"
    by (intro sum_list_nonneg) (use candidateTime_nonneg in auto)
  show ?case
  proof (cases "rr_Route c")
    case None
    with Cons show ?thesis by (simp add: candidateTime_def)
  next
    case (Some r)
    let ?n = "routeAttemptCount (Some r)"
    define t where "t = (if r_Timeout r \<le> 0 then 30 * Second else r_Timeout r)"
    have n: "0 < ?n" using routeAttemptCount_bounds [of "Some r"] by simp
    have t: "0 < t" "candidateTime c = t * ?n" by (simp_all add: t_def candidateTime_def Some)
    have big: "go_div (i64 (MaxInt64 - required)) ?n < t \<longleftrightarrow> MaxInt64 - required < t * ?n"
      using n Cons.prems by (simp add: div_less_mult)
    have "0 < t * ?n" using t(1) n by simp
    then have "requiredTTL (c # cs) required =
      (if MaxInt64 - required < t * ?n then MaxInt64 else requiredTTL cs (required + t * ?n))"
      unfolding requiredTTL.simps Some option.case Let_def t_def [symmetric] big using Cons.prems by simp
    with Cons.IH [of "required + t * ?n"] Cons.prems t rest \<open>0 < t * ?n\<close> show ?thesis
      by (simp add: min_def)
  qed
qed

section \<open>Properties\<close>

lemma quotaStart_matches:
  assumes "reach P clk s" "request_ok P scopes" "m_ExecutionID meta \<noteq> [] \<or> m_RequestID meta \<noteq> []"
    "quotaStart memoryOps ctx ctxErr reservation snapshotTTL meta estimate scopes resolved s = (Inr (Some req), s0)"
  shows "mem.matches req hooks0 s0" "qt_RequestID (qr_ticket req) \<noteq> []"
proof -
  define rid where "rid = (if m_ExecutionID meta = [] then m_RequestID meta else m_ExecutionID meta)"
  have rid: "rid \<noteq> []" using assms(3) by (simp add: rid_def)
  obtain ttl tk where r: "Reserve ctx rid scopes zero_estimate ttl s = (Inr tk, s0)" "qr_ticket req = tk"
    using assms(4) unfolding quotaStart_def Let_def rid_def
    by (auto split: if_splits sum.splits prod.splits)
  have acc: "acc_inv False s" using assms(1) by (rule reach_acc_inv) simp
  have wf: "wf_request False scopes" using assms(2) by (simp add: request_ok_def)
  have "qt_RequestID tk = rid \<and> mem_held s0 rid = Some (normalizeEstimatedUsage zero_estimate)"
    by (rule mem.reserve_ok [OF acc wf zero_estimate_nonneg(2) rid, of ctx ttl]) (simp add: r)
  moreover have "acc_inv False s0"
    using mem.inv_call [OF acc, of "CallReserve ctx rid scopes zero_estimate ttl"] wf r by simp
  ultimately show "mem.matches req hooks0 s0" "qt_RequestID (qr_ticket req) \<noteq> []"
    using rid r(2) by (simp_all add: mem.matches_def hooks0_def)
qed

text \<open>
  C17. Through any interleaving of a request's attempt hooks, its renewal and other requests' calls,
  what the store holds for the request, in tokens and in micro-dollars, is what the interceptor thinks
  it reserved; and while that has not saturated it is exactly the estimates of the running attempts,
  the unused credit, and the usage of the attempts reconciled so far.
\<close>

theorem quota_books_exact:
  assumes "reach P clk s" "request_ok P scopes" "m_ExecutionID meta \<noteq> [] \<or> m_RequestID meta \<noteq> []"
    and "quotaStart memoryOps ctx ctxErr reservation snapshotTTL meta estimate scopes resolved s = (Inr (Some req), s0)"
    and "quota_run memoryOps req s0 h s1 charges"
  shows "(\<forall>r. map_of (q_reservations s1) (qt_RequestID (qr_ticket req)) = Some r \<longrightarrow>
            estAmount tok (mr_held r) = estAmount tok (qh_reserve h)) \<and>
         (estAmount tok (qh_reserve h) < MaxInt64 \<longrightarrow>
            estAmount tok (qh_reserve h) = sum_list (map (\<lambda>e. estAmount tok (snd e)) (qh_attempts h)) +
              estAmount tok (qh_credit h) + sum_list (map (actAmount tok) charges))"
  using mem.run_matches [OF quotaStart_matches [OF assms(1-4)] assms(5)] quota_run_balanced [OF assms(5)]
  by (auto simp: mem.matches_def mem_held_def balanced_def attemptSum_def)





lemma settle_releases:
  assumes "ctx_ok ctx" "qt_RequestID (qr_ticket req) \<noteq> []"
  shows "map_of (q_reservations (snd (settleReserved memoryOps ctx req reserved actual commit s))) (qt_RequestID (qr_ticket req)) = None"
proof -
  have c: "map_of (q_reservations (snd (Commit ctx (qr_ticket req) actual t))) (qt_RequestID (qr_ticket req)) = None" for t
    using assms by (simp add: Commit_step Let_def frame split: option.split)
  show ?thesis
  proof (cases commit)
    case False
    then show ?thesis using assms
      by (simp add: settleReserved_def Refund_step Let_def frame split: option.split prod.split)
  next
    case True
    then show ?thesis using c by (simp add: settleReserved_def Let_def split: prod.split) (metis snd_conv)
  qed
qed

text \<open>
  C19. However a request ends, failed, panicked, without an execution or finished, the settlement on
  a context that is not cancelled leaves no reservation of it in the store.
\<close>

theorem endings_release:
  assumes "ctx_ok ctx" "qt_RequestID (qr_ticket req) \<noteq> []"
  shows "qt_RequestID (qr_ticket req) \<notin>
     fst ` set (q_reservations (snd (quotaFailed memoryOps ctx req h usage renewalErr err s))) \<union>
     fst ` set (q_reservations (quotaPanicked memoryOps ctx req h usage s)) \<union>
     fst ` set (q_reservations (snd (quotaEmpty memoryOps ctx req renewalErr s))) \<union>
     fst ` set (q_reservations (snd
       (quotaFinalize memoryOps ctx req h usage attemptID stage attempt actual callErr renewalErr prevErr s)))"
proof -
  note r = settle_releases [OF assms]
  let ?gone = "\<lambda>s. map_of (q_reservations s) (qt_RequestID (qr_ticket req)) = None"
  have "?gone (snd (quotaFailed memoryOps ctx req h usage renewalErr err s))"
    using r by (simp add: quotaFailed_def Let_def case_prod_beta)
  moreover have "?gone (quotaPanicked memoryOps ctx req h usage s)"
    using r by (simp add: quotaPanicked_def Let_def)
  moreover have "?gone (snd (quotaEmpty memoryOps ctx req renewalErr s))"
    using assms by (simp add: quotaEmpty_def Refund_step Let_def case_prod_beta frame split: option.split)
  moreover have "?gone (snd (quotaFinalize memoryOps ctx req h usage attemptID stage attempt actual callErr renewalErr prevErr s))"
    using r by (simp add: quotaFinalize_def Let_def case_prod_beta)
  ultimately show ?thesis by (simp add: map_of_eq_None_iff)
qed

text \<open>
  The lifetime of a reservation is the configured one or, when longer, ten seconds more than
  every try of every candidate may take, cut off at the largest duration; no step of the
  computation overflows.
\<close>

theorem reservation_ttl:
  "quotaReservationTTL candidates conf =
     max conf (min MaxInt64 (10 * Second + sum_list (map candidateTime candidates)))"
  by (auto simp: quotaReservationTTL_def requiredTTL_sum max_def)

section \<open>A concrete request\<close>

text \<open>A key that may make ten requests a minute, and a request with one attempt on the sample route.\<close>

definition demo_rpm_scope :: ScopedLimit where
  "demo_rpm_scope = \<lparr>sl_Ref = \<lparr>sr_Kind = ScopeKey, sr_ID = ''k1''\<rparr>, sl_Limits = zero_limit\<lparr>ls_RPM := 10\<rparr>\<rparr>"

definition demo_start :: "(goerr + quotaRequest option) \<times> MemoryQuotaStore" where
  "demo_start = quotaStart memoryOps background None 0 (10 * Minute) (rq_Meta demo_request) demo_usage [demo_rpm_scope]
     (Inr [demo_resolved]) (NewMemoryQuotaStore demo_clock)"

definition demo_quota :: quotaRequest where
  "demo_quota = \<lparr>qr_scopes = [demo_rpm_scope], qr_estimate = demo_usage, qr_ttl = 10 * Minute,
     qr_ticket = \<lparr>qt_RequestID = ''x1'', qt_Scopes = [sl_Ref demo_rpm_scope]\<rparr>\<rparr>"

definition demo_attempt :: Attempt where
  "demo_attempt = \<lparr>at_Number = 1, at_Retry = 0, at_ID = ''x1-1'', at_Route = demo_resolved, at_StartedAt = 0\<rparr>"

text \<open>Estimates that are 64-bit counts, at valid prices, are nonnegative amounts.\<close>

lemma routeEstimate_nonneg:
  assumes "usage_in_range u" "units_in_range u" "0 \<le> u_InputTokens u" "0 \<le> u_OutputTokens u"
    "\<And>r. route = Some r \<Longrightarrow> valid_pricing (r_Pricing r)"
  shows "nonneg_usage (estimatedUsageForRoute route u)"
  using assms(1-4) spend_exact [OF _ assms(1,2)] assms(5)
  by (auto simp: estimatedUsageForRoute_def nonneg_usage_def usage_in_range_def in_i64_def split: option.split)

lemma demo_delta: "nonneg_usage (attemptDelta demo_quota demo_attempt)"
proof -
  have r: "rr_Route demo_resolved = Some demo_route" "rr_Estimate demo_resolved = demo_usage" "r_Pricing demo_route = demo_pricing"
    by (simp_all add: demo_resolved_def demo_route_def)
  have "nonneg_usage (estimatedUsageForRoute (Some demo_route) demo_usage)"
    by (rule routeEstimate_nonneg [OF demo_usage_ok(1,2)]) (auto simp: r demo_usage_ok(3) demo_usage_def)
  then show ?thesis
    by (simp add: attemptDelta_def attemptReserveEstimate_def demo_attempt_def demo_quota_def r Let_def)
qed

lemma demo_start_ok:
  "demo_start = (Inr (Some demo_quota), snd demo_start)"
  "request_ok (\<lambda>sl. sl = demo_rpm_scope) [demo_rpm_scope]" "m_ExecutionID (rq_Meta demo_request) \<noteq> []"
proof -
  have "fst demo_start = Inr (Some demo_quota)" by code_simp
  then show "demo_start = (Inr (Some demo_quota), snd demo_start)" by (metis prod.collapse)
  show "request_ok (\<lambda>sl. sl = demo_rpm_scope) [demo_rpm_scope]"
    by (simp add: request_ok_def wf_request_def demo_rpm_scope_def wf_limit_def)
  show "m_ExecutionID (rq_Meta demo_request) \<noteq> []" by code_simp
qed

text \<open>Any top-up of the sample request is granted: its scope limits neither tokens nor spend.\<close>

lemma demo_topUp:
  "\<exists>s r. TopUp background (qr_ticket demo_quota) scopes d ttl (snd demo_start) = (None, s) \<and>
     map_of (q_reservations s) ''x1'' = Some r"
proof -
  let ?t = "ticked (snd demo_start)"
  have "map_option (\<lambda>r. map ms_limit (mr_scopes r)) (map_of (q_reservations ?t) ''x1'') = Some [zero_limit\<lparr>ls_RPM := 10\<rparr>]"
    by code_simp
  then obtain r sc where r: "map_of (q_reservations ?t) ''x1'' = Some r" "mr_scopes r = [sc]" "ms_limit sc = zero_limit\<lparr>ls_RPM := 10\<rparr>"
    by auto
  have id: "qt_RequestID (qr_ticket demo_quota) = ''x1''" by (simp add: demo_quota_def)
  have "checkScopes (mr_scopes r) e now True t = None" for e now t
    by (simp add: r(2,3) checkScope_def exceedsLimit_def)
  then show ?thesis
    using TopUp_step [of background "qr_ticket demo_quota" scopes d ttl "snd demo_start"] r(1)
    by (simp add: demo_ok(4) id Let_def)
qed

definition demo_after :: "goerr option \<times> quotaHooks \<times> MemoryQuotaStore" where
  "demo_after = reserveAttempt memoryOps background None demo_quota demo_attempt (hooks0, snd demo_start)"

lemma demo_run: "quota_run memoryOps demo_quota (snd demo_start) (fst (snd demo_after)) (snd (snd demo_after)) []"
  by (rule run_reserve [OF run_start demo_delta, where ctx = background and ctxErr = None and err = "fst demo_after"])
    (simp add: demo_after_def)

lemma demo_after_reserve: "estAmount True (qh_reserve (fst (snd demo_after))) = 120"
proof -
  have d: "estAmount True (attemptDelta demo_quota demo_attempt) = 120"
    by (simp add: attemptDelta_def attemptReserveEstimate_def demo_attempt_def demo_resolved_def demo_route_def demo_quota_def
        Let_def estAmount_def EstimatedUsage_TotalTokens_def estimatedUsageForRoute_def demo_usage_def saturatingUsageAdd_def)
  have s: "observeSoftSpendThreshold memoryOps background (qr_scopes demo_quota) t = t" for t
    by (simp add: observeSoftSpendThreshold_def demo_quota_def demo_rpm_scope_def)
  obtain a r where c: "consumeReservationCredit (attemptDelta demo_quota demo_attempt) zero_estimate = (a, r)" by fastforce
  note am = consume_amounts [OF demo_delta zero_estimate_nonneg(1) c]
  have "nonzeroEstimate a" using am(3) [of True] d by (simp add: nonzeroEstimate_def estAmount_def)
  moreover obtain t where "TopUp background (qr_ticket demo_quota) (qr_scopes demo_quota) a (qr_ttl demo_quota) (snd demo_start) = (None, t)"
    using demo_topUp by blast
  ultimately have "qh_reserve (fst (snd demo_after)) = addEstimate zero_estimate a"
    by (simp add: demo_after_def reserveAttempt_def hooks0_def c s)
  then show ?thesis using am(1) am(3) [of True] d
    by (simp add: addEstimate_addHeld addHeld_estAmount) (simp add: sat_sum_def)
qed

theorem quota_books_exact_witness:
  "sum_list (map (\<lambda>e. estAmount True (snd e)) (qh_attempts (fst (snd demo_after)))) +
     estAmount True (qh_credit (fst (snd demo_after))) = 120"
  using quota_books_exact [OF reach_New demo_start_ok(2) disjI1 [OF demo_start_ok(3)]
      demo_start_ok(1) [unfolded demo_start_def] demo_run [unfolded demo_start_def], of True]
  by (simp add: demo_after_reserve)


theorem endings_release_witness:
  "map_of (q_reservations (snd demo_start)) ''x1'' \<noteq> None \<and>
   ''x1'' \<notin> fst ` set (q_reservations (snd
      (quotaFailed memoryOps background demo_quota hooks0 [] None (Sentinel ErrQuotaReservationNotFound) (snd demo_start))))"
proof
  show "map_of (q_reservations (snd demo_start)) ''x1'' \<noteq> None" by code_simp
  have id: "qt_RequestID (qr_ticket demo_quota) = ''x1''" by (simp add: demo_quota_def)
  show "''x1'' \<notin> fst ` set (q_reservations (snd
      (quotaFailed memoryOps background demo_quota hooks0 [] None (Sentinel ErrQuotaReservationNotFound) (snd demo_start))))"
    using endings_release [OF demo_ok(4), of demo_quota] by (simp add: id)
qed

end
