(* ===== verification/Engine.thy ===== *)
theory Engine
  imports Router Quota_Interceptor Attempt_Pipeline "HOL-Library.Sublist"
begin

text \<open>
  The engine of \<open>gateway/gateway.go\<close>: candidate resolution and preflight, the dispatch loop with its
  fallback, the handler around one provider call with its usage and reservation bookkeeping, the
  check of a provider's result with the prefetch of a stream, and the stages of an execution.
\<close>

section \<open>Streams\<close>

text \<open>
  An \<open>io.ReadCloser\<close>: the results its next reads have to offer, then end of file. A read into a
  buffer of \<open>n\<close> bytes gets at most \<open>n\<close> bytes of the first result; the error comes with its last byte.
\<close>

record upstream =
  up_reads :: rawStream
  up_closes :: nat
  up_closeErr :: "goerr option"

definition up_Read :: "nat \<Rightarrow> upstream \<Rightarrow> (string \<times> goerr option) \<times> upstream" where
  "up_Read n u =
     (case up_reads u of
        [] \<Rightarrow> (([], Some (Sentinel EOF)), u)
      | (d, e) # rs \<Rightarrow>
          if length d \<le> n then ((d, e), u\<lparr>up_reads := rs\<rparr>)
          else ((take n d, None), u\<lparr>up_reads := (drop n d, e) # rs\<rparr>))"

definition up_Close :: "upstream \<Rightarrow> goerr option \<times> upstream" where
  "up_Close u = (up_closeErr u, u\<lparr>up_closes := Suc (up_closes u)\<rparr>)"

text \<open>
  The reader that completes the attempt's usage at the first end of file, error or close. \<open>ar_usage\<close> is
  what \<open>result.FinalUsage\<close> answers then.
\<close>

record attemptUsageReadCloser =
  ar_up :: upstream
  ar_usage :: Usage
  ar_id :: string
  ar_once :: bool
  ar_sawEOF :: bool

definition ar_finish ::
  "bool \<Rightarrow> attemptUsageReadCloser \<times> AttemptUsageAccumulator \<Rightarrow> attemptUsageReadCloser \<times> AttemptUsageAccumulator" where
  "ar_finish failed ra =
     (let (r, acc) = ra
      in if ar_once r then (r, acc)
         else (r\<lparr>ar_once := True\<rparr>, acc_complete (ar_id r) (ar_usage r) failed acc))"

definition ar_Read ::
  "nat \<Rightarrow> attemptUsageReadCloser \<times> AttemptUsageAccumulator \<Rightarrow>
   (string \<times> goerr option) \<times> attemptUsageReadCloser \<times> AttemptUsageAccumulator" where
  "ar_Read n ra =
     (let (r, acc) = ra; ((d, err), u) = up_Read n (ar_up r); r = r\<lparr>ar_up := u\<rparr>
      in case err of
           None \<Rightarrow> ((d, err), r, acc)
         | Some e \<Rightarrow>
             if err_is EOF e then ((d, err), ar_finish False (r\<lparr>ar_sawEOF := True\<rparr>, acc))
             else ((d, err), ar_finish True (r, acc)))"

definition ar_Close ::
  "attemptUsageReadCloser \<times> AttemptUsageAccumulator \<Rightarrow> goerr option \<times> attemptUsageReadCloser \<times> AttemptUsageAccumulator" where
  "ar_Close ra =
     (let (r, acc) = ra; (err, u) = up_Close (ar_up r)
      in (err, ar_finish (\<not> ar_sawEOF r) (r\<lparr>ar_up := u\<rparr>, acc)))"

text \<open>The reader that gives the prefetched bytes back first.\<close>

record prefetchedReadCloser =
  pf_Reader :: string
  pf_Tail :: attemptUsageReadCloser
  pf_PendingErr :: "goerr option"

definition pf_Read ::
  "nat \<Rightarrow> prefetchedReadCloser \<times> AttemptUsageAccumulator \<Rightarrow>
   (string \<times> goerr option) \<times> prefetchedReadCloser \<times> AttemptUsageAccumulator" where
  "pf_Read n pa =
     (let (p, acc) = pa
      in if pf_Reader p \<noteq> [] then ((take n (pf_Reader p), None), p\<lparr>pf_Reader := drop n (pf_Reader p)\<rparr>, acc)
         else case pf_PendingErr p of
           Some e \<Rightarrow> (([], Some e), p\<lparr>pf_PendingErr := None\<rparr>, acc)
         | None \<Rightarrow> let (out, r, acc) = ar_Read n (pf_Tail p, acc) in (out, p\<lparr>pf_Tail := r\<rparr>, acc))"

definition pf_Close ::
  "prefetchedReadCloser \<times> AttemptUsageAccumulator \<Rightarrow> goerr option \<times> prefetchedReadCloser \<times> AttemptUsageAccumulator" where
  "pf_Close pa =
     (let (p, acc) = pa; (err, r, acc) = ar_Close (pf_Tail p, acc) in (err, p\<lparr>pf_Tail := r\<rparr>, acc))"

section \<open>The first byte\<close>

abbreviation prefetchBuffer :: nat where
  "prefetchBuffer \<equiv> 32 * 1024"

text \<open>
  The loop of \<open>prefetchStream\<close> with the number of reads left: the last read, or the context's error.
  \<open>ctxErr i\<close> is \<open>ctx.Err()\<close> after the read with \<open>i\<close> reads left.
\<close>

fun prefetchLoop ::
  "(nat \<Rightarrow> sentinel option) \<Rightarrow> nat \<Rightarrow> attemptUsageReadCloser \<times> AttemptUsageAccumulator \<Rightarrow>
   (goerr + string \<times> goerr option) \<times> attemptUsageReadCloser \<times> AttemptUsageAccumulator" where
  "prefetchLoop ctxErr 0 ra = (Inr ([], None), ra)"
| "prefetchLoop ctxErr (Suc left) ra =
     (let ((d, err), ra) = ar_Read prefetchBuffer ra
      in if d \<noteq> [] \<or> err \<noteq> None then (Inr (d, err), ra)
         else case ctxErr left of
           Some s \<Rightarrow> (Inl (Sentinel s), snd (ar_Close ra))
         | None \<Rightarrow> prefetchLoop ctxErr left ra)"

definition prefetchStream ::
  "(nat \<Rightarrow> sentinel option) \<Rightarrow> attemptUsageReadCloser \<times> AttemptUsageAccumulator \<Rightarrow>
   (goerr + prefetchedReadCloser) \<times> AttemptUsageAccumulator" where
  "prefetchStream ctxErr ra =
     (let (answer, ra) = prefetchLoop ctxErr 8 ra
      in case answer of
           Inl err \<Rightarrow> (Inl err, snd ra)
         | Inr (d, readErr) \<Rightarrow>
             let failed = (\<lambda>code message. api (NewError 502 ''upstream_error'' code message))
             in (case readErr of
                   None \<Rightarrow>
                     if d = [] then
                       (Inl (failed ''stream_no_progress'' ''provider stream made no progress before the first byte''),
                        snd (snd (ar_Close ra)))
                     else (Inr \<lparr>pf_Reader = d, pf_Tail = fst ra, pf_PendingErr = None\<rparr>, snd ra)
                 | Some e \<Rightarrow>
                     if d = [] then
                       ((if as_api e \<noteq> None then Inl e
                         else if err_is EOF e then Inl (failed ''empty_stream'' ''provider returned an empty stream'')
                         else Inl (failed ''stream_read_failed'' ''provider stream failed before the first byte'')),
                        snd (snd (ar_Close ra)))
                     else if \<not> err_is EOF e then
                       ((if as_api e \<noteq> None then Inl e
                         else Inl (failed ''stream_read_failed'' ''provider stream failed before the first byte'')),
                        snd (snd (ar_Close ra)))
                     else (Inr \<lparr>pf_Reader = d, pf_Tail = fst ra, pf_PendingErr = Some e\<rparr>, snd ra)))"

text \<open>An error without a disposition of its own becomes eligible for fallback and counts for the circuit.\<close>

definition defaultDisposition :: "goerr \<Rightarrow> goerr" where
  "defaultDisposition err =
     (case as_api err of
        Some a \<Rightarrow> if \<not> ae_dispositionSet a then upd_api (WithDisposition False True True) err else err
      | None \<Rightarrow> err)"

definition emptyResult :: "string \<Rightarrow> goerr" where
  "emptyResult message =
     api (WithDisposition False True True (NewError 502 ''upstream_error'' ''empty_result'' message))"

text \<open>The result and its stream, if it has one, already wrapped in the usage reader.\<close>

definition validateProviderResult ::
  "(nat \<Rightarrow> sentinel option) \<Rightarrow> (Result \<times> attemptUsageReadCloser option) option \<Rightarrow> AttemptUsageAccumulator \<Rightarrow>
   (goerr + Result \<times> prefetchedReadCloser option) \<times> AttemptUsageAccumulator" where
  "validateProviderResult ctxErr result acc =
     (case result of
        None \<Rightarrow> (Inl (emptyResult ''provider returned no result''), acc)
      | Some (r, stream) \<Rightarrow>
          let r = (if rs_StatusCode r = 0 then r\<lparr>rs_StatusCode := 200\<rparr> else r)
          in if rs_StatusCode r < 200 \<or> rs_StatusCode r \<ge> 300 then
               (Inl (api (providerStatusError (rs_StatusCode r))),
                case stream of None \<Rightarrow> acc | Some s \<Rightarrow> snd (snd (ar_Close (s, acc))))
             else case stream of
               None \<Rightarrow>
                 if rs_RawBody r = [] then (Inl (emptyResult ''provider returned no response body''), acc)
                 else (Inr (r, None), acc)
             | Some s \<Rightarrow>
                 let (answer, acc) = prefetchStream ctxErr (s, acc)
                 in (case answer of
                       Inl err \<Rightarrow> (Inl (defaultDisposition err), acc)
                     | Inr p \<Rightarrow> (Inr (r, Some p), acc)))"

section \<open>The hooks of a request\<close>

text \<open>The functions a request interceptor installs, on a state \<open>'q\<close>; \<open>None\<close> is a hook nobody set.\<close>

record 'q attemptHooks =
  ah_reserve :: "(ctx \<Rightarrow> Attempt \<Rightarrow> 'q \<Rightarrow> goerr option \<times> 'q) option"
  ah_release :: "(string \<Rightarrow> 'q \<Rightarrow> 'q) option"
  ah_reconcile :: "(ctx \<Rightarrow> string \<Rightarrow> ActualUsage \<Rightarrow> 'q \<Rightarrow> goerr option \<times> 'q) option"

definition noHooks :: "'q attemptHooks" where
  "noHooks = \<lparr>ah_reserve = None, ah_release = None, ah_reconcile = None\<rparr>"

definition SetAttemptReservation :: "(ctx \<Rightarrow> Attempt \<Rightarrow> 'q \<Rightarrow> goerr option \<times> 'q) option \<Rightarrow> 'q attemptHooks \<Rightarrow> 'q attemptHooks" where
  "SetAttemptReservation fn hs = hs\<lparr>ah_reserve := fn\<rparr>"

definition SetAttemptReservationRelease :: "(string \<Rightarrow> 'q \<Rightarrow> 'q) option \<Rightarrow> 'q attemptHooks \<Rightarrow> 'q attemptHooks" where
  "SetAttemptReservationRelease fn hs = hs\<lparr>ah_release := fn\<rparr>"

definition SetAttemptReservationReconcile ::
  "(ctx \<Rightarrow> string \<Rightarrow> ActualUsage \<Rightarrow> 'q \<Rightarrow> goerr option \<times> 'q) option \<Rightarrow> 'q attemptHooks \<Rightarrow> 'q attemptHooks" where
  "SetAttemptReservationReconcile fn hs = hs\<lparr>ah_reconcile := fn\<rparr>"

record 'q requestState =
  rst_quota :: 'q
  rst_usage :: AttemptUsageAccumulator

definition ReserveProviderAttempt :: "'q attemptHooks \<Rightarrow> ctx \<Rightarrow> Attempt \<Rightarrow> 'q requestState \<Rightarrow> goerr option \<times> 'q requestState" where
  "ReserveProviderAttempt hs ctx attempt st =
     (case ah_reserve hs of
        None \<Rightarrow> (None, st)
      | Some fn \<Rightarrow> let (err, q) = fn ctx attempt (rst_quota st) in (err, st\<lparr>rst_quota := q\<rparr>))"

definition ReleaseProviderAttemptReservation :: "'q attemptHooks \<Rightarrow> string \<Rightarrow> 'q requestState \<Rightarrow> 'q requestState" where
  "ReleaseProviderAttemptReservation hs attemptID st =
     (if attemptID = [] then st
      else case ah_release hs of None \<Rightarrow> st | Some fn \<Rightarrow> st\<lparr>rst_quota := fn attemptID (rst_quota st)\<rparr>)"

definition ReconcileProviderAttemptReservation ::
  "'q attemptHooks \<Rightarrow> ctx \<Rightarrow> string \<Rightarrow> 'q requestState \<Rightarrow> goerr option \<times> 'q requestState" where
  "ReconcileProviderAttemptReservation hs ctx attemptID st =
     (if attemptID = [] then (None, st)
      else case acc_charge attemptID (rst_usage st) of
        None \<Rightarrow> (None, st)
      | Some actual \<Rightarrow>
          (case ah_reconcile hs of
             None \<Rightarrow> (None, st)
           | Some fn \<Rightarrow> let (err, q) = fn ctx attemptID actual (rst_quota st) in (err, st\<lparr>rst_quota := q\<rparr>)))"

definition CompleteResultUsage :: "Result option \<Rightarrow> Usage \<Rightarrow> bool \<Rightarrow> 'q requestState \<Rightarrow> 'q requestState" where
  "CompleteResultUsage result usage failed st =
     (case result of
        None \<Rightarrow> st
      | Some r \<Rightarrow> if rs_AttemptID r = [] then st
                  else st\<lparr>rst_usage := acc_complete (rs_AttemptID r) usage failed (rst_usage st)\<rparr>)"

text \<open>The hooks that the quota interceptor sets; \<open>ctxErr\<close> is \<open>ctx.Err()\<close> when a store call fails.\<close>

definition quotaAttemptHooks :: "'s quotaOps \<Rightarrow> sentinel option \<Rightarrow> quotaRequest \<Rightarrow> (quotaHooks \<times> 's) attemptHooks" where
  "quotaAttemptHooks ops ctxErr req =
     SetAttemptReservationReconcile (Some (\<lambda>ctx i actual q. reconcileAttempt ops ctx ctxErr req i actual q))
       (SetAttemptReservationRelease (Some (\<lambda>i q. (releaseAttempt i (fst q), snd q)))
         (SetAttemptReservation (Some (\<lambda>ctx attempt q. reserveAttempt ops ctx ctxErr req attempt q)) noHooks))"

section \<open>One provider call\<close>

datatype providerAnswer = ProviderPanic | ProviderError goerr | ProviderResult "Result option"

datatype handlerOutcome = HPanic | HErr goerr | HResult Result "prefetchedReadCloser option"

text \<open>What the handler does once the provider has answered with an error.\<close>

definition providerFailed ::
  "'q attemptHooks \<Rightarrow> ctx \<Rightarrow> string \<Rightarrow> goerr \<Rightarrow> 'q requestState \<Rightarrow> handlerOutcome \<times> 'q requestState" where
  "providerFailed hs ctx i err st =
     (let (usage, known, unbillable) = attemptErrorUsage err
      in if unbillable then
           (HErr err, ReleaseProviderAttemptReservation hs i (st\<lparr>rst_usage := acc_cancel i (rst_usage st)\<rparr>))
         else
           let st = st\<lparr>rst_usage := acc_complete i usage False (rst_usage st)\<rparr>
           in if known then
                let (reconcileErr, st) = ReconcileProviderAttemptReservation hs ctx i st
                in (HErr (case reconcileErr of Some e \<Rightarrow> e | None \<Rightarrow> err), st)
              else (HErr err, st))"

text \<open>With a result: the stream is wrapped, the result checked, the usage completed.\<close>

definition providerAnswered ::
  "'q attemptHooks \<Rightarrow> ctx \<Rightarrow> (nat \<Rightarrow> sentinel option) \<Rightarrow> string \<Rightarrow> Result option \<Rightarrow> 'q requestState \<Rightarrow>
   handlerOutcome \<times> 'q requestState" where
  "providerAnswered hs ctx ctxErr i result st =
     (let result = map_option (\<lambda>r. r\<lparr>rs_AttemptID := i\<rparr>) result;
          wrapped = map_option (\<lambda>r. (r, map_option (\<lambda>reads.
            \<lparr>ar_up = \<lparr>up_reads = reads, up_closes = 0, up_closeErr = None\<rparr>, ar_usage = FinalUsage (Some r), ar_id = i,
             ar_once = False, ar_sawEOF = False\<rparr>) (rs_RawStream r))) result;
          (validated, acc) = validateProviderResult ctxErr wrapped (rst_usage st);
          st = st\<lparr>rst_usage := acc\<rparr>
      in case validated of
           Inl err \<Rightarrow>
             let usage = FinalUsage result;
                 st = st\<lparr>rst_usage := acc_complete i usage False (rst_usage st)\<rparr>
             in if \<not> Usage_IsZero usage then
                  let (reconcileErr, st) = ReconcileProviderAttemptReservation hs ctx i st
                  in (HErr (case reconcileErr of Some e \<Rightarrow> e | None \<Rightarrow> err), st)
                else (HErr err, st)
         | Inr (r, None) \<Rightarrow>
             (HResult r None, st\<lparr>rst_usage := acc_complete i (FinalUsage (Some r)) False (rst_usage st)\<rparr>)
         | Inr (r, Some p) \<Rightarrow> (HResult r (Some p), st))"

definition providerHandler ::
  "'q attemptHooks \<Rightarrow> ctx \<Rightarrow> (nat \<Rightarrow> sentinel option) \<Rightarrow> Attempt \<Rightarrow> providerAnswer \<Rightarrow> 'q requestState \<Rightarrow>
   handlerOutcome \<times> 'q requestState" where
  "providerHandler hs ctx ctxErr attempt answer st =
     (let (reserveErr, st) = ReserveProviderAttempt hs ctx attempt st
      in case reserveErr of
           Some err \<Rightarrow> (HErr err, st)
         | None \<Rightarrow>
             let i = at_ID attempt;
                 st = st\<lparr>rst_usage := acc_begin i (at_Route attempt) (rst_usage st)\<rparr>
             in (case answer of
                   ProviderPanic \<Rightarrow> (HPanic, st\<lparr>rst_usage := acc_complete i zero_usage True (rst_usage st)\<rparr>)
                 | ProviderError err \<Rightarrow> providerFailed hs ctx i err st
                 | ProviderResult result \<Rightarrow> providerAnswered hs ctx ctxErr i result st))"

section \<open>Dispatch\<close>

text \<open>
  What the handler chain answers to an attempt, and \<open>ctx.Err()\<close> after it, are functions of the attempts
  made so far; \<open>de_now\<close> are the readings of the clock.
\<close>

record dispatchEnv =
  de_invoke :: "Attempt list \<Rightarrow> goerr + Result option"
  de_ctxErr :: "Attempt list \<Rightarrow> sentinel option"
  de_now :: clock

record Execution =
  x_Attempt :: Attempt
  x_Result :: Result
  x_stage :: ExecutionStage

definition setStage :: "ExecutionStage \<Rightarrow> Execution \<Rightarrow> Execution" where
  "setStage stage x = x\<lparr>x_stage := stage\<rparr>"

definition MarkDispatched :: "Execution \<Rightarrow> Execution" where
  "MarkDispatched = setStage ExecutionDispatched"

definition MarkFirstByte :: "Execution \<Rightarrow> Execution" where
  "MarkFirstByte = setStage ExecutionFirstByte"

text \<open>The end of \<open>invoke\<close>: the answer of the handler chain, named after provider and route.\<close>

definition invoked :: "Provider \<Rightarrow> Attempt \<Rightarrow> (goerr + Result option) \<Rightarrow> goerr + Result" where
  "invoked provider attempt answer =
     (case answer of
        Inl err \<Rightarrow> Inl err
      | Inr None \<Rightarrow> Inl (api (NewError 500 ''server_error'' ''invalid_attempt_result'' ''attempt interceptor returned no result''))
      | Inr (Some r) \<Rightarrow>
          let route = the (rr_Route (at_Route attempt));
              r = r\<lparr>rs_Provider := pv_Name provider, rs_Route := r_Name route\<rparr>
          in Inr (if rs_Model r = [] then r\<lparr>rs_Model := r_Model route\<rparr> else r))"

definition newAttempt :: "string \<Rightarrow> nat \<Rightarrow> ResolvedRoute \<Rightarrow> instant \<Rightarrow> Attempt" where
  "newAttempt executionID idx route startedAt =
     \<lparr>at_Number = int idx + 1, at_Retry = 0, at_ID = executionID @ '':'' @ show_int (int idx + 1), at_Route = route,
      at_StartedAt = startedAt\<rparr>"

definition newExecution :: "Attempt \<Rightarrow> Result \<Rightarrow> Execution" where
  "newExecution attempt result =
     (let exec = MarkDispatched \<lparr>x_Attempt = attempt, x_Result = result, x_stage = ExecutionReserved\<rparr>
      in if rs_RawStream result \<noteq> None then MarkFirstByte exec else exec)"

fun dispatchLoop ::
  "dispatchEnv \<Rightarrow> (string \<rightharpoonup> Provider) \<Rightarrow> string \<Rightarrow> nat \<Rightarrow> goerr option \<Rightarrow> ResolvedRoute list \<Rightarrow> Attempt list \<Rightarrow>
   (goerr + Execution) \<times> Attempt list" where
  "dispatchLoop env providers executionID idx lastErr [] tr =
     (Inl (case lastErr of
             Some err \<Rightarrow> err
           | None \<Rightarrow> api (NewError 502 ''server_error'' ''no_route'' ''no route could complete the request'')), tr)"
| "dispatchLoop env providers executionID idx lastErr (route # routes) tr =
     (case providers (r_Provider (the (rr_Route route))) of
        None \<Rightarrow>
          dispatchLoop env providers executionID (Suc idx)
            (Some (api (NewError 502 ''server_error'' ''unknown_provider'' ''route provider is not registered''))) routes tr
      | Some provider \<Rightarrow>
          if \<not> pv_Supports provider (rq_Operation (rr_Request route)) then
            dispatchLoop env providers executionID (Suc idx)
              (Some (api (UnsupportedOperation ''provider does not support requested operation''))) routes tr
          else
            let attempt = newAttempt executionID idx route (de_now env (length tr));
                tr = tr @ [attempt]
            in (case invoked provider attempt (de_invoke env tr) of
                  Inr result \<Rightarrow> (Inr (newExecution attempt result), tr)
                | Inl err \<Rightarrow>
                    (case de_ctxErr env tr of
                       Some s \<Rightarrow> (Inl (Sentinel s), tr)
                     | None \<Rightarrow>
                         if \<not> fallbackEligible err then (Inl err, tr)
                         else dispatchLoop env providers executionID (Suc idx) (Some err) routes tr)))"

definition dispatch ::
  "dispatchEnv \<Rightarrow> (string \<rightharpoonup> Provider) \<Rightarrow> string \<Rightarrow> (goerr + ResolvedRoute list) \<Rightarrow> (goerr + Execution) \<times> Attempt list" where
  "dispatch env providers executionID resolved =
     (case resolved of
        Inl err \<Rightarrow> (Inl err, [])
      | Inr candidates \<Rightarrow> dispatchLoop env providers executionID 0 None candidates [])"

section \<open>Candidates\<close>

record candidateState =
  cs_Candidates :: "ResolvedRoute list"
  cs_resolved :: bool

definition ResolveCandidates :: "(goerr + ResolvedRoute list) \<Rightarrow> candidateState \<Rightarrow> (goerr + ResolvedRoute list) \<times> candidateState" where
  "ResolveCandidates resolve c =
     (if cs_resolved c then (Inr (cs_Candidates c), c)
      else case resolve of
        Inl err \<Rightarrow> (Inl err, c)
      | Inr candidates \<Rightarrow> (Inr candidates, \<lparr>cs_Candidates = candidates, cs_resolved = True\<rparr>))"

definition ReplaceCandidates :: "ResolvedRoute list \<Rightarrow> candidateState \<Rightarrow> candidateState" where
  "ReplaceCandidates candidates c = c\<lparr>cs_Candidates := candidates, cs_resolved := True\<rparr>"

text \<open>A provider that is not registered, or has no check, lets the candidate pass.\<close>

definition preflightOf :: "(string \<rightharpoonup> Provider) \<Rightarrow> string \<Rightarrow> (ResolvedRoute \<Rightarrow> Request \<Rightarrow> goerr option) option" where
  "preflightOf providers name = (case providers name of None \<Rightarrow> None | Some provider \<Rightarrow> pv_Preflight provider)"

fun preflightLoop ::
  "(string \<rightharpoonup> Provider) \<Rightarrow> ResolvedRoute list \<Rightarrow> ResolvedRoute list \<Rightarrow> goerr option \<Rightarrow>
   goerr + ResolvedRoute list \<times> goerr option" where
  "preflightLoop providers [] filtered lastErr = Inr (filtered, lastErr)"
| "preflightLoop providers (c # cs) filtered lastErr =
     (case rr_Route c of
        None \<Rightarrow>
          preflightLoop providers cs filtered
            (Some (api (NewError 500 ''server_error'' ''invalid_route'' ''resolved route is missing configuration'')))
      | Some r \<Rightarrow>
          (case preflightOf providers (r_Provider r) of
             None \<Rightarrow> preflightLoop providers cs (filtered @ [c]) lastErr
           | Some check \<Rightarrow>
               (case check c (rr_Request c) of
                  None \<Rightarrow> preflightLoop providers cs (filtered @ [c]) lastErr
                | Some err \<Rightarrow> if fallbackEligible err then preflightLoop providers cs filtered (Some err) else Inl err)))"

definition CandidatePreflight ::
  "(string \<rightharpoonup> Provider) \<Rightarrow> (goerr + ResolvedRoute list) \<Rightarrow> candidateState \<Rightarrow>
   goerr option \<times> candidateState" where
  "CandidatePreflight providers resolve c =
     (let (candidates, c) = ResolveCandidates resolve c
      in case candidates of
           Inl err \<Rightarrow> (Some err, c)
         | Inr candidates \<Rightarrow>
             (case preflightLoop providers candidates [] None of
                Inl err \<Rightarrow> (Some err, c)
              | Inr (filtered, lastErr) \<Rightarrow>
                  if filtered = [] then
                    (case lastErr of
                       Some err \<Rightarrow> (Some err, c)
                     | None \<Rightarrow> (Some (api (UnsupportedOperation ''no resolved route passed provider preflight'')), c))
                  else (None, ReplaceCandidates filtered c)))"

section \<open>Settling an execution\<close>

text \<open>The stage \<open>Settle\<close> puts the execution in before it calls \<open>Finalize\<close>.\<close>

definition Settle :: "goerr option \<Rightarrow> Execution \<Rightarrow> Execution" where
  "Settle callErr x =
     (if callErr = None then setStage ExecutionCompleted x
      else if x_stage x = ExecutionFirstByte then setStage ExecutionAborted x
      else setStage ExecutionFailed x)"

section \<open>What a stream delivers\<close>

text \<open>The bytes up to the first error, and that error.\<close>

fun content :: "rawStream \<Rightarrow> string \<times> goerr" where
  "content [] = ([], Sentinel EOF)"
| "content ((d, None) # rs) = (d @ fst (content rs), snd (content rs))"
| "content ((d, Some e) # rs) = (d, e)"

definition streamWork :: "rawStream \<Rightarrow> nat" where
  "streamWork rs = sum_list (map (\<lambda>(d, e). Suc (length d)) rs)"

lemma streamWork_simps [simp]: "streamWork [] = 0" "streamWork ((d, e) # rs) = Suc (length d) + streamWork rs"
  by (simp_all add: streamWork_def)

lemma up_Read_content:
  "up_Read n u = ((d, e), u') \<Longrightarrow>
     content (up_reads u) = (case e of Some err \<Rightarrow> (d, err) | None \<Rightarrow> (d @ fst (content (up_reads u')), snd (content (up_reads u'))))"
  by (cases "up_reads u" rule: content.cases) (auto simp: up_Read_def split: if_splits option.splits)

lemma up_Read_work:
  "up_Read n u = ((d, None), u') \<Longrightarrow> 0 < n \<Longrightarrow> length d + streamWork (up_reads u') \<le> streamWork (up_reads u) \<and>
     streamWork (up_reads u') < streamWork (up_reads u)"
  by (cases "up_reads u" rule: content.cases) (auto simp: up_Read_def split: if_splits)

lemma up_Read_error_work:
  "up_Read n u = ((d, Some e), u') \<Longrightarrow> d \<noteq> [] \<Longrightarrow> length d + 1 + streamWork (up_reads u') \<le> streamWork (up_reads u)"
  by (cases "up_reads u" rule: content.cases) (auto simp: up_Read_def split: if_splits)

lemma ar_finish_up [simp]: "ar_up (fst (ar_finish failed ra)) = ar_up (fst ra)"
  by (simp add: ar_finish_def split: prod.split)

lemma ar_Read_up: "ar_Read n (r, acc) = (out, ra) \<Longrightarrow> up_Read n (ar_up r) = (out, ar_up (fst ra))"
  by (auto simp: ar_Read_def Let_def split: prod.splits option.splits if_splits)

lemma prefetchLoop_content:
  "prefetchLoop ctxErr k ra = (Inr (d, e), ra') \<Longrightarrow>
     content (up_reads (ar_up (fst ra))) =
       (case e of Some err \<Rightarrow> (d, err)
        | None \<Rightarrow> (d @ fst (content (up_reads (ar_up (fst ra')))), snd (content (up_reads (ar_up (fst ra')))))) \<and>
     (d \<noteq> [] \<longrightarrow> length d + (if e = None then 0 else 1) + streamWork (up_reads (ar_up (fst ra'))) \<le>
        streamWork (up_reads (ar_up (fst ra))))"
proof (induction k arbitrary: ra)
  case 0
  then show ?case by auto
next
  case (Suc k)
  obtain d1 e1 ra1 where rd: "ar_Read prefetchBuffer ra = ((d1, e1), ra1)" by (metis surj_pair)
  have up: "up_Read prefetchBuffer (ar_up (fst ra)) = ((d1, e1), ar_up (fst ra1))"
    using ar_Read_up [of prefetchBuffer "fst ra" "snd ra"] rd by simp
  show ?case
  proof (cases "d1 \<noteq> [] \<or> e1 \<noteq> None")
    case True
    then have eq: "d1 = d" "e1 = e" "ra1 = ra'" using Suc.prems rd by auto
    with up_Read_content [OF up] up show ?thesis
      using up_Read_work [of prefetchBuffer "ar_up (fst ra)" d "ar_up (fst ra')"]
        up_Read_error_work [of prefetchBuffer "ar_up (fst ra)" d _ "ar_up (fst ra')"]
      by (cases e) auto
  next
    case False
    then have "prefetchLoop ctxErr k ra1 = (Inr (d, e), ra')" using Suc.prems rd by (auto split: option.splits)
    from Suc.IH [OF this] show ?thesis
      using up_Read_content [OF up] up_Read_work [of prefetchBuffer "ar_up (fst ra)" d1 "ar_up (fst ra1)"] up False
      by (auto split: option.splits)
  qed
qed

definition pf_content :: "prefetchedReadCloser \<Rightarrow> string \<times> goerr" where
  "pf_content p =
     (let (bs, e) = (case pf_PendingErr p of Some e \<Rightarrow> ([], e) | None \<Rightarrow> content (up_reads (ar_up (pf_Tail p))))
      in (pf_Reader p @ bs, e))"

definition pf_work :: "prefetchedReadCloser \<Rightarrow> nat" where
  "pf_work p = length (pf_Reader p) + (if pf_PendingErr p = None then 0 else 1) + streamWork (up_reads (ar_up (pf_Tail p)))"

lemma prefetchStream_content:
  assumes "prefetchStream ctxErr (r, acc) = (Inr p, acc')"
  shows "pf_content p = content (up_reads (ar_up r))" "pf_work p \<le> streamWork (up_reads (ar_up r))"
proof -
  obtain d e ra where l: "prefetchLoop ctxErr 8 (r, acc) = (Inr (d, e), ra)" and d: "d \<noteq> []"
    and p: "p = \<lparr>pf_Reader = d, pf_Tail = fst ra, pf_PendingErr = e\<rparr>"
    using assms by (auto simp: prefetchStream_def Let_def split: prod.splits sum.splits option.splits if_splits)
  note c = prefetchLoop_content [OF l]
  show "pf_content p = content (up_reads (ar_up r))"
    using c by (cases e) (auto simp: p pf_content_def split: prod.split)
  show "pf_work p \<le> streamWork (up_reads (ar_up r))" using c d by (simp add: p pf_work_def)
qed

text \<open>A client that reads with buffers of the given sizes until the first error.\<close>

fun pf_run ::
  "nat list \<Rightarrow> prefetchedReadCloser \<times> AttemptUsageAccumulator \<Rightarrow>
   string \<times> goerr option \<times> prefetchedReadCloser \<times> AttemptUsageAccumulator" where
  "pf_run [] pa = ([], None, pa)"
| "pf_run (n # ns) pa =
     (let ((d, e), pa) = pf_Read n pa
      in case e of
           Some err \<Rightarrow> (d, Some err, pa)
         | None \<Rightarrow> let (bs, e, pa) = pf_run ns pa in (d @ bs, e, pa))"

lemma pf_Read_content:
  "pf_Read n pa = ((d, e), pa') \<Longrightarrow>
     pf_content (fst pa) = (case e of Some err \<Rightarrow> (d, err) | None \<Rightarrow> (d @ fst (pf_content (fst pa')), snd (pf_content (fst pa'))))"
proof -
  assume rd: "pf_Read n pa = ((d, e), pa')"
  obtain p acc where pa: "pa = (p, acc)" by fastforce
  show ?thesis
  proof (cases "pf_Reader p = [] \<and> pf_PendingErr p = None")
    case True
    obtain out r acc2 where a: "ar_Read n (pf_Tail p, acc) = (out, r, acc2)" by (metis surj_pair)
    have "out = (d, e)" "fst pa' = p\<lparr>pf_Tail := r\<rparr>" using rd True a by (auto simp: pa pf_Read_def)
    with up_Read_content [of n "ar_up (pf_Tail p)" d e "ar_up r"] ar_Read_up [OF a] True show ?thesis
      by (auto simp: pa pf_content_def split: prod.splits option.splits)
  next
    case False
    then show ?thesis using rd
      by (auto simp: pa pf_Read_def pf_content_def split: prod.splits option.splits if_splits)
  qed
qed

lemma pf_Read_work:
  assumes "pf_Read n pa = ((d, None), pa')" "0 < n"
  shows "pf_work (fst pa') < pf_work (fst pa)"
proof -
  obtain p acc where pa: "pa = (p, acc)" by fastforce
  show ?thesis
  proof (cases "pf_Reader p = []")
    case True
    obtain out r acc2 where a: "ar_Read n (pf_Tail p, acc) = (out, r, acc2)" by (metis surj_pair)
    have "out = (d, None)" "fst pa' = p\<lparr>pf_Tail := r\<rparr>" "pf_PendingErr p = None"
      using assms(1) True a by (auto simp: pa pf_Read_def split: option.splits)
    with up_Read_work [of n "ar_up (pf_Tail p)" d "ar_up r"] ar_Read_up [OF a] assms(2) show ?thesis
      by (simp add: pa pf_work_def)
  next
    case False
    then have "fst pa' = p\<lparr>pf_Reader := drop n (pf_Reader p)\<rparr>" using assms(1) by (auto simp: pa pf_Read_def)
    with False assms(2) show ?thesis by (simp add: pa pf_work_def)
  qed
qed

lemma pf_run_content:
  "pf_run ns pa = (bs, e, pa') \<Longrightarrow>
     pf_content (fst pa) = (case e of Some err \<Rightarrow> (bs, err) | None \<Rightarrow> (bs @ fst (pf_content (fst pa')), snd (pf_content (fst pa'))))"
proof (induction ns arbitrary: pa bs e pa')
  case Nil
  then show ?case by simp
next
  case (Cons n ns)
  obtain d e1 pa1 where rd: "pf_Read n pa = ((d, e1), pa1)" by (metis surj_pair)
  obtain bs2 e2 pa2 where rest: "pf_run ns pa1 = (bs2, e2, pa2)" by (metis surj_pair)
  show ?case using Cons.prems rd rest pf_Read_content [OF rd] Cons.IH [OF rest] by (auto split: option.splits)
qed

lemma pf_run_ends: "pf_work (fst pa) < length ns \<Longrightarrow> \<forall>n \<in> set ns. 0 < n \<Longrightarrow> fst (snd (pf_run ns pa)) \<noteq> None"
proof (induction ns arbitrary: pa)
  case (Cons n ns)
  obtain d e1 pa1 where rd: "pf_Read n pa = ((d, e1), pa1)" by (metis surj_pair)
  obtain bs2 e2 pa2 where rest: "pf_run ns pa1 = (bs2, e2, pa2)" by (metis surj_pair)
  show ?case
  proof (cases e1)
    case None
    then have "pf_work (fst pa1) < pf_work (fst pa)" using pf_Read_work rd Cons.prems(2) by simp
    then show ?thesis using Cons.IH [of pa1] Cons.prems rd rest None by simp
  qed (simp add: rd)
qed simp

text \<open>
  Prefetching the first bytes of a stream is invisible to the client: a read that ends in an
  error has delivered exactly the bytes and the error of the provider's stream, a read that goes on has
  delivered a prefix of them, and reading with buffers that are not empty always reaches the end.
\<close>

theorem prefetch_transparent:
  assumes "prefetchStream ctxErr (r, acc) = (Inr p, acc')"
  shows "case pf_run ns (p, acc') of
           (bs, Some err, _) \<Rightarrow> content (up_reads (ar_up r)) = (bs, err)
         | (bs, None, _) \<Rightarrow> prefix bs (fst (content (up_reads (ar_up r)))) \<and>
             ((\<forall>n \<in> set ns. 0 < n) \<longrightarrow> length ns \<le> streamWork (up_reads (ar_up r)))"
proof -
  obtain bs e pa where run: "pf_run ns (p, acc') = (bs, e, pa)" by (metis surj_pair)
  note c = prefetchStream_content [OF assms]
  show ?thesis
    using pf_run_content [OF run] pf_run_ends [of "(p, acc')" ns] c run
    by (cases e) (auto simp: not_less [symmetric])
qed

section \<open>Every attempt is accounted for\<close>

definition settled :: "string \<Rightarrow> AttemptUsageAccumulator \<Rightarrow> bool" where
  "settled i acc \<longleftrightarrow> acc_charge i acc \<noteq> None"

text \<open>The reader of attempt \<open>i\<close> with an entry in the accumulator; once it has finished, the charge is fixed.\<close>

definition ar_ok :: "string \<Rightarrow> attemptUsageReadCloser \<times> AttemptUsageAccumulator \<Rightarrow> bool" where
  "ar_ok i ra \<longleftrightarrow> i \<noteq> [] \<and> ar_id (fst ra) = i \<and> map_of (snd ra) i \<noteq> None \<and> (ar_once (fst ra) \<longrightarrow> settled i (snd ra))"

lemma complete_settles: "i \<noteq> [] \<Longrightarrow> map_of acc i \<noteq> None \<Longrightarrow> settled i (acc_complete i u b acc)"
  by (auto simp: settled_def acc_charge_def acc_complete_def Let_def)

lemma complete_keeps: "map_of acc i \<noteq> None \<Longrightarrow> map_of (acc_complete i u b acc) i \<noteq> None"
  by (auto simp: acc_complete_def Let_def split: option.splits)

lemma settled_complete: "settled i acc \<Longrightarrow> settled i (acc_complete i u b acc)"
  by (auto simp: settled_def acc_charge_def acc_complete_def Let_def split: option.splits if_splits)

lemma settled_entry: "settled i acc \<Longrightarrow> i \<noteq> [] \<and> map_of acc i \<noteq> None"
  by (auto simp: settled_def acc_charge_def split: option.splits if_splits)

lemma ar_finish_ok: "ar_ok i ra \<Longrightarrow> ar_ok i (ar_finish failed ra) \<and> settled i (snd (ar_finish failed ra))"
  by (cases ra) (auto simp: ar_ok_def ar_finish_def complete_settles complete_keeps [unfolded not_None_eq])

lemma ar_upd_ok [simp]:
  "ar_ok i (r\<lparr>ar_up := u\<rparr>, acc) = ar_ok i (r, acc)" "ar_ok i (r\<lparr>ar_sawEOF := b\<rparr>, acc) = ar_ok i (r, acc)"
  by (simp_all add: ar_ok_def)

lemma ar_Read_ok: "ar_ok i ra \<Longrightarrow> ar_ok i (snd (ar_Read n ra))"
  by (cases ra) (auto simp: ar_Read_def Let_def ar_finish_ok split: prod.splits option.splits)

lemma ar_Close_ok: "ar_ok i ra \<Longrightarrow> ar_ok i (snd (ar_Close ra)) \<and> settled i (snd (snd (ar_Close ra)))"
  by (cases ra) (auto simp: ar_Close_def Let_def ar_finish_ok split: prod.splits)

lemma prefetchLoop_ok:
  "ar_ok i ra \<Longrightarrow> prefetchLoop ctxErr k ra = (out, ra') \<Longrightarrow> ar_ok i ra' \<and> (isl out \<longrightarrow> settled i (snd ra'))"
proof (induction k arbitrary: ra)
  case 0
  then show ?case by auto
next
  case (Suc k)
  obtain d e ra1 where rd: "ar_Read prefetchBuffer ra = ((d, e), ra1)" by (metis surj_pair)
  have ok: "ar_ok i ra1" using ar_Read_ok [OF Suc.prems(1), of prefetchBuffer] rd by simp
  show ?case using Suc.prems(2) Suc.IH [OF ok] ok ar_Close_ok [OF ok] rd
    by (auto split: if_splits option.splits)
qed

lemma prefetchStream_ok:
  assumes "ar_ok i ra" "prefetchStream ctxErr ra = (out, acc')"
  shows "case out of Inl err \<Rightarrow> settled i acc' | Inr p \<Rightarrow> ar_ok i (pf_Tail p, acc')"
proof -
  obtain a ra' where l: "prefetchLoop ctxErr 8 ra = (a, ra')" by (metis surj_pair)
  note ok = prefetchLoop_ok [OF assms(1) l]
  then have "settled i (snd (snd (ar_Close ra')))" using ar_Close_ok by blast
  with ok assms(2) l show ?thesis
    by (auto simp: prefetchStream_def Let_def split: sum.splits option.splits if_splits)
qed

lemma validate_ok:
  assumes "validateProviderResult ctxErr result acc = (out, acc')" "i \<noteq> []" "map_of acc i \<noteq> None"
    "\<And>r s. result = Some (r, Some s) \<Longrightarrow> ar_ok i (s, acc)"
  shows "map_of acc' i \<noteq> None"
    "case out of Inr (r, Some p) \<Rightarrow> ar_ok i (pf_Tail p, acc') | _ \<Rightarrow> True"
proof -
  have "map_of acc' i \<noteq> None \<and> (case out of Inr (r, Some p) \<Rightarrow> ar_ok i (pf_Tail p, acc') | _ \<Rightarrow> True)"
  proof (cases "\<exists>r s. result = Some (r, Some s)")
    case False
    then show ?thesis using assms(1,3)
      by (auto simp: validateProviderResult_def Let_def split: option.splits if_splits)
  next
    case True
    then obtain r s where rs: "result = Some (r, Some s)" by blast
    have ok: "ar_ok i (s, acc)" using assms(4) rs .
    obtain a acc1 where p: "prefetchStream ctxErr (s, acc) = (a, acc1)" by fastforce
    note pok = prefetchStream_ok [OF ok p]
    show ?thesis
      using assms(1) p pok ar_Close_ok [OF ok] settled_entry
      by (cases a) (auto simp: rs validateProviderResult_def Let_def ar_ok_def split: if_splits)
  qed
  then show "map_of acc' i \<noteq> None" "case out of Inr (r, Some p) \<Rightarrow> ar_ok i (pf_Tail p, acc') | _ \<Rightarrow> True" by blast+
qed

lemma reconcile_usage: "rst_usage (snd (ReconcileProviderAttemptReservation hs ctx i st)) = rst_usage st"
  by (auto simp: ReconcileProviderAttemptReservation_def Let_def split: option.split prod.split)

lemma release_usage: "rst_usage (ReleaseProviderAttemptReservation hs i st) = rst_usage st"
  by (simp add: ReleaseProviderAttemptReservation_def split: option.split)

lemma reserve_usage: "rst_usage (snd (ReserveProviderAttempt hs ctx attempt st)) = rst_usage st"
  by (auto simp: ReserveProviderAttempt_def Let_def split: option.split prod.split)

text \<open>What each ending of a provider call leaves in the accumulator.\<close>

definition accounted :: "string \<Rightarrow> providerAnswer \<Rightarrow> handlerOutcome \<times> 'q requestState \<Rightarrow> bool" where
  "accounted i answer r \<longleftrightarrow>
     (case fst r of
        HResult res (Some p) \<Rightarrow> settled i (snd (snd (pf_Close (p, rst_usage (snd r)))))
      | HErr err \<Rightarrow> settled i (rst_usage (snd r)) \<or>
          (\<exists>e. answer = ProviderError e \<and> AttemptUnbillable e \<and> map_of (rst_usage (snd r)) i = None)
      | _ \<Rightarrow> settled i (rst_usage (snd r)))"

lemma providerFailed_accounted:
  assumes "i \<noteq> []" "map_of (rst_usage st) i = Some e" "\<not> ue_final e"
  shows "accounted i (ProviderError err) (providerFailed hs ctx i err st)"
proof (cases "attemptErrorUsage err")
  case (fields usage known unbillable)
  have "settled i (acc_complete i usage False (rst_usage st))" using assms by (intro complete_settles) auto
  with fields assms show ?thesis
    using reconcile_usage [of hs ctx i "st\<lparr>rst_usage := acc_complete i usage False (rst_usage st)\<rparr>"]
    by (auto simp: accounted_def providerFailed_def Let_def release_usage AttemptUnbillable_def acc_cancel_def
        split: prod.split)
qed

lemma providerAnswered_accounted:
  assumes "i \<noteq> []" "map_of (rst_usage st) i \<noteq> None"
  shows "accounted i answer (providerAnswered hs ctx ctxErr i result st)"
proof -
  define res where "res = map_option (\<lambda>r. r\<lparr>rs_AttemptID := i\<rparr>) result"
  define wrapped where "wrapped = map_option (\<lambda>r. (r, map_option (\<lambda>reads.
            \<lparr>ar_up = \<lparr>up_reads = reads, up_closes = 0, up_closeErr = None\<rparr>, ar_usage = FinalUsage (Some r), ar_id = i,
             ar_once = False, ar_sawEOF = False\<rparr>) (rs_RawStream r))) res"
  obtain v acc where v: "validateProviderResult ctxErr wrapped (rst_usage st) = (v, acc)" by fastforce
  have "ar_ok i (s, rst_usage st)" if "wrapped = Some (r, Some s)" for r s
    using that assms by (auto simp: wrapped_def ar_ok_def)
  note ok = validate_ok [OF v assms this]
  note fin = complete_settles [OF assms(1) ok(1)]
  note eq = providerAnswered_def [of hs ctx ctxErr i result st, unfolded Let_def, folded res_def, folded wrapped_def,
      unfolded v prod.case]
  show ?thesis
  proof (cases v)
    case (Inl err)
    with fin show ?thesis
      using reconcile_usage [of hs ctx i "st\<lparr>rst_usage := acc_complete i (FinalUsage res) False acc\<rparr>"]
      by (auto simp: accounted_def eq split: prod.split)
  next
    case (Inr x)
    obtain r p where x: "x = (r, p)" by fastforce
    show ?thesis
    proof (cases p)
      case None
      with fin Inr x show ?thesis by (simp add: accounted_def eq)
    next
      case (Some q)
      with ok(2) Inr x have "settled i (snd (snd (ar_Close (pf_Tail q, acc))))" using ar_Close_ok by simp
      then show ?thesis using Inr x Some by (auto simp: accounted_def eq pf_Close_def Let_def split: prod.split)
    qed
  qed
qed

text \<open>
  C20. Once the reservation of a provider call is granted, the call is charged whatever happens: after
  a panic, an error, a rejected result or a whole response its charge is fixed, and a stream's is
  fixed at the latest when it is closed. The only call without a charge is one the provider marked
  unbillable.
\<close>

theorem provider_call_accounted:
  assumes "at_ID attempt \<noteq> []" "map_of (rst_usage st) (at_ID attempt) = None"
    and "fst (ReserveProviderAttempt hs ctx attempt st) = None"
    and "providerHandler hs ctx ctxErr attempt answer st = (out, st')"
  shows "case out of
           HPanic \<Rightarrow> acc_charge (at_ID attempt) (rst_usage st') \<noteq> None
         | HErr err \<Rightarrow> acc_charge (at_ID attempt) (rst_usage st') \<noteq> None \<or>
             (\<exists>e. answer = ProviderError e \<and> AttemptUnbillable e \<and> map_of (rst_usage st') (at_ID attempt) = None)
         | HResult r None \<Rightarrow> acc_charge (at_ID attempt) (rst_usage st') \<noteq> None
         | HResult r (Some p) \<Rightarrow> acc_charge (at_ID attempt) (snd (snd (pf_Close (p, rst_usage st')))) \<noteq> None"
proof -
  obtain st1 where r: "ReserveProviderAttempt hs ctx attempt st = (None, st1)"
    using assms(3) by (metis prod.collapse)
  have "rst_usage st1 = rst_usage st" using reserve_usage [of hs ctx attempt st] r by simp
  then have "map_of (rst_usage st1) (at_ID attempt) = None" using assms(2) by simp
  then obtain e where e: "map_of (acc_begin (at_ID attempt) (at_Route attempt) (rst_usage st1)) (at_ID attempt) = Some e" "\<not> ue_final e"
    using assms(1) by (auto simp: acc_begin_def Let_def)
  let ?st = "st1\<lparr>rst_usage := acc_begin (at_ID attempt) (at_Route attempt) (rst_usage st1)\<rparr>"
  have "accounted (at_ID attempt) answer (out, st')"
  proof (cases answer)
    case ProviderPanic
    with assms(4) r e(1) assms(1) show ?thesis by (auto simp: providerHandler_def accounted_def Let_def complete_settles)
  next
    case (ProviderError err)
    have "accounted (at_ID attempt) answer (providerFailed hs ctx (at_ID attempt) err ?st)"
      unfolding ProviderError by (rule providerFailed_accounted) (use assms(1) e in auto)
    with assms(4) r ProviderError show ?thesis by (simp add: providerHandler_def Let_def)
  next
    case (ProviderResult res)
    have "accounted (at_ID attempt) answer (providerAnswered hs ctx ctxErr (at_ID attempt) res ?st)"
      by (rule providerAnswered_accounted) (use assms(1) e in auto)
    with assms(4) r ProviderResult show ?thesis by (simp add: providerHandler_def Let_def)
  qed
  then show ?thesis
    by (auto simp: accounted_def settled_def split: handlerOutcome.splits option.splits)
qed

section \<open>Fallback\<close>

text \<open>The last attempt failed in a way that lets the engine try the next candidate.\<close>

definition fellBack :: "dispatchEnv \<Rightarrow> Attempt list \<Rightarrow> bool" where
  "fellBack env tr \<longleftrightarrow> de_ctxErr env tr = None \<and>
     (case de_invoke env tr of Inl err \<Rightarrow> fallbackEligible err | Inr None \<Rightarrow> True | Inr (Some r) \<Rightarrow> False)"

definition fromCandidate :: "string \<Rightarrow> nat \<Rightarrow> ResolvedRoute list \<Rightarrow> Attempt \<Rightarrow> bool" where
  "fromCandidate executionID idx cs a \<longleftrightarrow>
     (\<exists>j < length cs. at_Number a = int (idx + j) + 1 \<and> at_Route a = cs ! j \<and>
        at_ID a = executionID @ '':'' @ show_int (int (idx + j) + 1))"

text \<open>How a dispatch that made the attempts \<open>tr\<close> may end.\<close>

definition endsWith :: "dispatchEnv \<Rightarrow> Attempt list \<Rightarrow> (goerr + Execution) \<Rightarrow> bool" where
  "endsWith env tr res \<longleftrightarrow>
     (case res of
        Inr x \<Rightarrow> tr \<noteq> [] \<and> x_Attempt x = last tr \<and>
          (\<exists>r. de_invoke env tr = Inr (Some r) \<and>
             x_stage x = (if rs_RawStream r = None then ExecutionDispatched else ExecutionFirstByte))
      | Inl err \<Rightarrow> tr = [] \<or> fellBack env tr \<or> (\<exists>s. de_ctxErr env tr = Some s \<and> err = Sentinel s) \<or>
          (de_invoke env tr = Inl err \<and> \<not> fallbackEligible err))"

lemma fromCandidate_Suc: "fromCandidate executionID (Suc idx) cs a \<Longrightarrow> fromCandidate executionID idx (c # cs) a"
  unfolding fromCandidate_def
proof (elim exE conjE)
  fix j
  assume "j < length cs" "at_Number a = int (Suc idx + j) + 1" "at_Route a = cs ! j"
    "at_ID a = executionID @ '':'' @ show_int (int (Suc idx + j) + 1)"
  then show "\<exists>j<length (c # cs). at_Number a = int (idx + j) + 1 \<and> at_Route a = (c # cs) ! j \<and>
       at_ID a = executionID @ '':'' @ show_int (int (idx + j) + 1)"
    by (intro exI [of _ "Suc j"]) simp
qed

lemma fromCandidate_new: "fromCandidate executionID idx (c # cs) (newAttempt executionID idx c t)"
  unfolding fromCandidate_def by (intro exI [of _ 0]) (simp add: newAttempt_def)

lemma fromCandidate_later: "fromCandidate executionID (Suc idx) cs a \<Longrightarrow> int idx + 1 < at_Number a"
  by (auto simp: fromCandidate_def)

lemma invoked_cases:
  assumes "invoked provider a answer = Inl err"
  shows "answer = Inl err \<or> answer = Inr None \<and> fallbackEligible err"
  using assms by (auto simp: invoked_def NewError_def fallbackEligible_def Let_def split: sum.splits option.splits)

lemma invoked_result:
  "invoked provider a answer = Inr r \<Longrightarrow> \<exists>r'. answer = Inr (Some r') \<and> rs_RawStream r' = rs_RawStream r"
  by (auto simp: invoked_def Let_def split: sum.splits option.splits)

lemma newExecution_sel:
  "x_Attempt (newExecution a r) = a" "x_Result (newExecution a r) = r"
  "x_stage (newExecution a r) = (if rs_RawStream r = None then ExecutionDispatched else ExecutionFirstByte)"
  by (simp_all add: newExecution_def MarkDispatched_def MarkFirstByte_def setStage_def Let_def)

lemma dispatchLoop_trace:
  "dispatchLoop env providers executionID idx lastErr cs tr = (res, tr') \<Longrightarrow> tr = [] \<or> fellBack env tr \<Longrightarrow>
   \<exists>new. tr' = tr @ new \<and> sorted_wrt (\<lambda>a b. at_Number a < at_Number b) new \<and>
     (\<forall>a \<in> set new. fromCandidate executionID idx cs a) \<and>
     (\<forall>k. length tr < k \<longrightarrow> k < length tr' \<longrightarrow> fellBack env (take k tr')) \<and> (tr' = tr \<and> isl res \<or> endsWith env tr' res)"
proof (induction env providers executionID idx lastErr cs tr rule: dispatchLoop.induct)
  case (1 env providers executionID idx lastErr tr)
  then show ?case by auto
next
  case (2 env providers executionID idx lastErr c cs tr)
  have skip: ?case
    if "\<exists>new. tr' = tr @ new \<and> sorted_wrt (\<lambda>a b. at_Number a < at_Number b) new \<and>
       (\<forall>a \<in> set new. fromCandidate executionID (Suc idx) cs a) \<and>
       (\<forall>k. length tr < k \<longrightarrow> k < length tr' \<longrightarrow> fellBack env (take k tr')) \<and> (tr' = tr \<and> isl res \<or> endsWith env tr' res)"
    using that by (blast intro: fromCandidate_Suc)
  show ?case
  proof (cases "providers (r_Provider (the (rr_Route c)))")
    case None
    then show ?thesis using "2.prems" by (intro skip "2.IH"(1)) auto
  next
    case (Some provider)
    show ?thesis
    proof (cases "pv_Supports provider (rq_Operation (rr_Request c))")
      case False
      then show ?thesis using "2.prems" Some by (intro skip "2.IH"(2)) auto
    next
      case True
      let ?a = "newAttempt executionID idx c (de_now env (length tr))"
      let ?tr = "tr @ [?a]"
      show ?thesis
      proof (cases "invoked provider ?a (de_invoke env ?tr)")
        case (Inr r)
        then have "res = Inr (newExecution ?a r)" "tr' = ?tr" using "2.prems"(1) Some True by (auto simp: Let_def)
        moreover obtain r' where "de_invoke env ?tr = Inr (Some r')" "rs_RawStream r' = rs_RawStream r"
          using invoked_result [OF Inr] by blast
        ultimately have "endsWith env tr' res" by (simp add: endsWith_def newExecution_sel)
        with \<open>tr' = ?tr\<close> fromCandidate_new show ?thesis by auto
      next
        case (Inl err)
        note ic = invoked_cases [OF Inl]
        show ?thesis
        proof (cases "de_ctxErr env ?tr = None \<and> fallbackEligible err")
          case False
          then have "tr' = ?tr" "endsWith env tr' res" using "2.prems"(1) Some True Inl ic
            by (auto simp: Let_def endsWith_def split: option.splits if_splits)
          then show ?thesis using fromCandidate_new by auto
        next
          case True2: True
          have fb: "fellBack env ?tr" using True2 ic by (auto simp: fellBack_def)
          have loop: "dispatchLoop env providers executionID (Suc idx) (Some err) cs ?tr = (res, tr')"
            using "2.prems"(1) Some True Inl True2 by (simp add: Let_def)
          obtain new where new: "tr' = ?tr @ new" "sorted_wrt (\<lambda>a b. at_Number a < at_Number b) new"
            "\<forall>a \<in> set new. fromCandidate executionID (Suc idx) cs a"
            "\<forall>k. length ?tr < k \<longrightarrow> k < length tr' \<longrightarrow> fellBack env (take k tr')"
            "tr' = ?tr \<and> isl res \<or> endsWith env tr' res"
            using "2.IH"(3) [OF Some _ refl refl Inl _ _ loop] True True2 fb by auto
          have "fellBack env (take k tr')" if "length tr < k" "k < length tr'" for k
            using that new(4) new(1) fb by (cases "k = length ?tr") auto
          moreover have "endsWith env tr' res" using new(5) fb by (auto simp: endsWith_def split: sum.splits)
          moreover have "sorted_wrt (\<lambda>a b. at_Number a < at_Number b) (?a # new)"
            using new(2,3) fromCandidate_later by (fastforce simp: newAttempt_def)
          ultimately show ?thesis using new(1,3) fromCandidate_new fromCandidate_Suc
            by (intro exI [of _ "?a # new"]) auto
        qed
      qed
    qed
  qed
qed

text \<open>
  C21. The engine tries candidates in order, each at most once and under an ID of its own, and goes on
  only after an attempt that failed with an error open to fallback while the request was alive. It
  answers with the first attempt that succeeds, with the error that forbids a fallback, or with the
  context's error.
\<close>

theorem dispatch_fallback:
  assumes "dispatch env providers executionID (Inr candidates) = (res, tr)"
  shows "sorted_wrt (\<lambda>a b. at_Number a < at_Number b) tr \<and> distinct (map at_ID tr) \<and>
    (\<forall>a \<in> set tr. 1 \<le> at_Number a \<and> nat (at_Number a) \<le> length candidates \<and> at_Route a = candidates ! (nat (at_Number a) - 1)) \<and>
    (\<forall>k. 0 < k \<longrightarrow> k < length tr \<longrightarrow> fellBack env (take k tr)) \<and>
    (case res of
       Inr x \<Rightarrow> tr \<noteq> [] \<and> x_Attempt x = last tr \<and> (\<exists>r. de_invoke env tr = Inr (Some r))
     | Inl err \<Rightarrow> tr = [] \<or> fellBack env tr \<or> (\<exists>s. de_ctxErr env tr = Some s \<and> err = Sentinel s) \<or>
         (de_invoke env tr = Inl err \<and> \<not> fallbackEligible err))"
proof -
  have "dispatchLoop env providers executionID 0 None candidates [] = (res, tr)"
    using assms by (simp add: dispatch_def)
  from dispatchLoop_trace [OF this] obtain new where "tr = new" and tr:
    "sorted_wrt (\<lambda>a b. at_Number a < at_Number b) tr" "\<forall>a \<in> set tr. fromCandidate executionID 0 candidates a"
    "\<forall>k. 0 < k \<longrightarrow> k < length tr \<longrightarrow> fellBack env (take k tr)" "tr = [] \<and> isl res \<or> endsWith env tr res"
    by auto
  have num: "at_ID a = executionID @ '':'' @ show_nat (nat (at_Number a))" "0 < at_Number a" if "a \<in> set tr" for a
    using tr(2) that by (auto simp: fromCandidate_def show_int_def)
  have "distinct (map at_Number tr)" using tr(1) by (induction tr) auto
  then have "distinct (map at_ID tr)"
    using num by (fastforce simp: distinct_map inj_on_def dest!: show_nat_inj)
  moreover have "1 \<le> at_Number a \<and> nat (at_Number a) \<le> length candidates \<and> at_Route a = candidates ! (nat (at_Number a) - 1)"
    if "a \<in> set tr" for a
    using tr(2) that by (force simp: fromCandidate_def nat_add_distrib)
  ultimately show ?thesis using tr(1,3,4) by (auto simp: endsWith_def split: sum.splits)
qed

section \<open>Stages\<close>

text \<open>
  A stream whose first byte was fetched is charged even when the client's call fails: settling
  it then aborts the execution, and the settlement is a commit. A failed response without a stream
  ends in the failed stage.
\<close>

theorem started_stream_charged:
  assumes "dispatch env providers executionID resolved = (Inr x, tr)"
  shows "(callErr \<noteq> None \<longrightarrow> x_stage (Settle callErr x) =
        (if rs_RawStream (x_Result x) \<noteq> None then ExecutionAborted else ExecutionFailed)) \<and>
      (rs_RawStream (x_Result x) \<noteq> None \<longrightarrow>
        snd (settledUsage attemptID (x_stage (Settle callErr x)) (Some (x_Attempt x)) actual callErr usage))"
proof -
  have loop: "\<exists>a r. x = newExecution a r"
    if "dispatchLoop env providers executionID idx lastErr cs tr0 = (Inr x, tr)" for idx lastErr cs tr0
    using that
    by (induction env providers executionID idx lastErr cs tr0 rule: dispatchLoop.induct)
      (auto simp: Let_def split: option.splits sum.splits if_splits)
  obtain cs where "dispatchLoop env providers executionID 0 None cs [] = (Inr x, tr)"
    using assms by (auto simp: dispatch_def split: sum.splits)
  then obtain a r where x: "x = newExecution a r" using loop by metis
  show ?thesis
    by (cases callErr) (simp_all add: x newExecution_sel Settle_def setStage_def settledUsage_def Let_def)
qed

section \<open>Preflight\<close>

definition passes :: "(string \<rightharpoonup> Provider) \<Rightarrow> ResolvedRoute \<Rightarrow> bool" where
  "passes providers c \<longleftrightarrow>
     (case rr_Route c of
        None \<Rightarrow> False
      | Some r \<Rightarrow> (case preflightOf providers (r_Provider r) of None \<Rightarrow> True | Some check \<Rightarrow> check c (rr_Request c) = None))"

definition rejects :: "(string \<rightharpoonup> Provider) \<Rightarrow> ResolvedRoute \<Rightarrow> goerr option" where
  "rejects providers c =
     (case rr_Route c of
        None \<Rightarrow> None
      | Some r \<Rightarrow>
          (case preflightOf providers (r_Provider r) of
             None \<Rightarrow> None
           | Some check \<Rightarrow> (case check c (rr_Request c) of Some err \<Rightarrow> if fallbackEligible err then None else Some err | None \<Rightarrow> None)))"

lemma preflightLoop_step:
  "rejects providers c = Some err \<Longrightarrow> preflightLoop providers (c # cs) filtered lastErr = Inl err"
  "rejects providers c = None \<Longrightarrow> \<exists>l. preflightLoop providers (c # cs) filtered lastErr =
     preflightLoop providers cs (if passes providers c then filtered @ [c] else filtered) l"
  by (auto simp: rejects_def passes_def split: option.splits if_splits)

lemma preflightLoop_filter:
  "preflightLoop providers cs filtered lastErr = Inr (fs, le) \<Longrightarrow> fs = filtered @ filter (passes providers) cs"
proof (induction cs arbitrary: filtered lastErr)
  case (Cons c cs)
  have "rejects providers c = None" using preflightLoop_step(1) Cons.prems by (cases "rejects providers c") auto
  from preflightLoop_step(2) [OF this, of cs filtered lastErr] Cons.prems obtain l where
    "preflightLoop providers cs (if passes providers c then filtered @ [c] else filtered) l = Inr (fs, le)" by auto
  from Cons.IH [OF this] show ?case by simp
qed simp

lemma preflightLoop_error:
  "preflightLoop providers cs filtered lastErr = Inl err \<Longrightarrow> \<exists>c \<in> set cs. rejects providers c = Some err"
proof (induction cs arbitrary: filtered lastErr)
  case (Cons c cs)
  show ?case
  proof (cases "rejects providers c")
    case None
    then obtain f l where "preflightLoop providers cs f l = Inl err"
      using preflightLoop_step(2) [OF None, of cs filtered lastErr] Cons.prems by metis
    from Cons.IH [OF this] show ?thesis by auto
  next
    case (Some e)
    with preflightLoop_step(1) [OF Some] Cons.prems show ?thesis by simp
  qed
qed simp

text \<open>
  Preflight keeps exactly the candidates whose provider accepts them, in order, and later
  stages see only those; it fails when a provider rejects a candidate with an error that forbids
  fallback, or when no candidate is left.
\<close>

theorem preflight_filters:
  assumes "CandidatePreflight providers (Inr candidates) \<lparr>cs_Candidates = [], cs_resolved = False\<rparr> = (err, c)"
  shows "(case err of
            None \<Rightarrow> (\<forall>resolve. fst (ResolveCandidates resolve c) = Inr (filter (passes providers) candidates)) \<and>
              filter (passes providers) candidates \<noteq> []
          | Some e \<Rightarrow> (\<exists>cand \<in> set candidates. rejects providers cand = Some e) \<or> filter (passes providers) candidates = [])"
proof (cases "preflightLoop providers candidates [] None")
  case (Inl e)
  then have "err = Some e" using assms by (auto simp: CandidatePreflight_def ResolveCandidates_def)
  with preflightLoop_error [OF Inl] show ?thesis by simp
next
  case (Inr x)
  obtain fs le where x: "x = (fs, le)" by fastforce
  have "fs = filter (passes providers) candidates" using preflightLoop_filter [of providers candidates "[]" None fs le] Inr x by simp
  with assms Inr x show ?thesis
    by (auto simp: CandidatePreflight_def ResolveCandidates_def ReplaceCandidates_def split: if_splits option.splits)
qed

section \<open>Concrete runs\<close>

definition demo_reader :: attemptUsageReadCloser where
  "demo_reader = \<lparr>ar_up = \<lparr>up_reads = [([], None), (''ab'', None), (''c'', Some (Sentinel EOF))], up_closes = 0, up_closeErr = None\<rparr>,
     ar_usage = zero_usage, ar_id = ''x1:1'', ar_once = False, ar_sawEOF = False\<rparr>"

definition demo_prefetched :: prefetchedReadCloser where
  "demo_prefetched = \<lparr>pf_Reader = ''ab'', pf_Tail = demo_reader\<lparr>ar_up := (ar_up demo_reader)\<lparr>up_reads := [(''c'', Some (Sentinel EOF))]\<rparr>\<rparr>,
     pf_PendingErr = None\<rparr>"

lemma demo_prefetch: "prefetchStream (\<lambda>_. None) (demo_reader, []) = (Inr demo_prefetched, [])"
  by code_simp

theorem prefetch_transparent_witness:
  "pf_run [1, 4, 4] (demo_prefetched, []) = (''abc'', Some (Sentinel EOF), snd (snd (pf_run [1, 4, 4] (demo_prefetched, [])))) \<and>
   content (up_reads (ar_up demo_reader)) = (''abc'', Sentinel EOF)"
proof -
  have "fst (pf_run [1, 4, 4] (demo_prefetched, [])) = ''abc'' \<and>
      fst (snd (pf_run [1, 4, 4] (demo_prefetched, []))) = Some (Sentinel EOF)" by code_simp
  then have run: "pf_run [1, 4, 4] (demo_prefetched, []) = (''abc'', Some (Sentinel EOF), snd (snd (pf_run [1, 4, 4] (demo_prefetched, []))))"
    by (metis prod.collapse)
  then show ?thesis using prefetch_transparent [OF demo_prefetch, of "[1, 4, 4]"] by (auto split: prod.splits)
qed

theorem provider_call_accounted_witness:
  "acc_charge ''x1:1'' (rst_usage (snd (providerHandler noHooks background (\<lambda>_. None) (newAttempt ''x1'' 0 demo_resolved 0)
     ProviderPanic \<lparr>rst_quota = (), rst_usage = []\<rparr>))) \<noteq> None"
proof -
  let ?a = "newAttempt ''x1'' 0 demo_resolved 0" and ?st = "\<lparr>rst_quota = (), rst_usage = []\<rparr>"
  have id: "at_ID ?a = ''x1:1''" by code_simp
  have "fst (providerHandler noHooks background (\<lambda>_. None) ?a ProviderPanic ?st) = HPanic"
    by (simp add: providerHandler_def ReserveProviderAttempt_def noHooks_def Let_def)
  then show ?thesis
    using provider_call_accounted [of ?a ?st noHooks background "\<lambda>_. None" ProviderPanic, OF _ _ _ prod.collapse [symmetric]]
    by (simp add: id ReserveProviderAttempt_def noHooks_def)
qed

text \<open>Two candidates; the first fails with status 503, the second answers with a stream.\<close>

definition demo_provider :: Provider where
  "demo_provider = \<lparr>pv_Name = ''openai'', pv_Supports = (\<lambda>_. True), pv_PlanBridge = None, pv_Preflight = None\<rparr>"

definition demo_providers :: "string \<rightharpoonup> Provider" where
  "demo_providers = [''openai'' \<mapsto> demo_provider]"

definition demo_dispatch :: dispatchEnv where
  "demo_dispatch = \<lparr>de_invoke = (\<lambda>tr. if length tr = 1 then Inl (api (providerStatusError 503)) else Inr (Some demo_stream)),
     de_ctxErr = (\<lambda>_. None), de_now = int\<rparr>"

definition demo_execution :: Execution where
  "demo_execution = newExecution (newAttempt ''x1'' 1 demo_resolved 1)
     (demo_stream\<lparr>rs_Provider := ''openai'', rs_Route := ''a'', rs_Model := ''gpt''\<rparr>)"

lemma demo_dispatched:
  "dispatch demo_dispatch demo_providers ''x1'' (Inr [demo_resolved, demo_resolved]) =
     (Inr demo_execution, [newAttempt ''x1'' 0 demo_resolved 0, newAttempt ''x1'' 1 demo_resolved 1])"
  by code_simp

theorem dispatch_fallback_witness:
  "distinct (map at_ID [newAttempt ''x1'' 0 demo_resolved 0, newAttempt ''x1'' 1 demo_resolved 1]) \<and>
   fellBack demo_dispatch [newAttempt ''x1'' 0 demo_resolved 0] \<and> x_Attempt demo_execution = newAttempt ''x1'' 1 demo_resolved 1"
proof -
  note w = dispatch_fallback [OF demo_dispatched]
  let ?tr = "[newAttempt ''x1'' 0 demo_resolved 0, newAttempt ''x1'' 1 demo_resolved 1]"
  have "distinct (map at_ID ?tr)" by (rule w [THEN conjunct2, THEN conjunct1])
  moreover have "fellBack demo_dispatch (take 1 ?tr)"
    by (rule w [THEN conjunct2, THEN conjunct2, THEN conjunct2, THEN conjunct1, rule_format]) simp_all
  moreover have "x_Attempt demo_execution = last ?tr"
    using w [THEN conjunct2, THEN conjunct2, THEN conjunct2, THEN conjunct2] by (simp only: sum.case)
  ultimately show ?thesis by (simp only: take_Suc_Cons take_0 One_nat_def last.simps list.distinct if_False) simp
qed

theorem started_stream_charged_witness:
  "x_stage (Settle (Some (Sentinel Canceled)) demo_execution) = ExecutionAborted \<and>
   snd (settledUsage ''x1:2'' (x_stage (Settle (Some (Sentinel Canceled)) demo_execution)) (Some (x_Attempt demo_execution))
     zero_usage (Some (Sentinel Canceled)) [])"
proof -
  have s: "rs_RawStream (x_Result demo_execution) \<noteq> None" by (simp add: demo_execution_def newExecution_sel demo_stream_def)
  show ?thesis
    using started_stream_charged [OF demo_dispatched, of "Some (Sentinel Canceled)" "''x1:2''" zero_usage "[]"] s by auto
qed

theorem preflight_filters_witness:
  "fst (ResolveCandidates (Inr []) \<lparr>cs_Candidates = [demo_resolved], cs_resolved = True\<rparr>) = Inr (filter (passes demo_providers) [demo_resolved])"
proof -
  have "CandidatePreflight demo_providers (Inr [demo_resolved]) \<lparr>cs_Candidates = [], cs_resolved = False\<rparr> =
      (None, \<lparr>cs_Candidates = [demo_resolved], cs_resolved = True\<rparr>)" by code_simp
  from preflight_filters [OF this] show ?thesis by simp
qed

end
