(* ===== verification/Limit_Stores.thy ===== *)
theory Limit_Stores
  imports Quota_Properties
begin

text \<open>
  The stores of quota limits in \<open>store/limits.go\<close>: the in-memory one, the cache with its LRU list and
  write generation, and the store that serves an immutable snapshot; with the validation of limits
  (\<open>gateway/config.go\<close>) and provider names (\<open>gateway/providers.go\<close>). The SQL store is a source, a
  parameter.
\<close>

section \<open>Validation\<close>

definition MaximumQuotaValue :: int where
  "MaximumQuotaValue = 99999999999999"

definition validateProviderName :: "string \<Rightarrow> goerr option" where
  "validateProviderName name =
     (if name = [] then Some (Plain ''provider name must not be empty'')
      else if name \<noteq> TrimSpace name \<or> name \<noteq> ToLower name then
        Some (Plain (''provider name '' @ name @ '' must be lowercase without surrounding whitespace''))
      else if length name > 128 then Some (Plain (''provider name '' @ name @ '' exceeds 128 bytes''))
      else if list_all (\<lambda>c. 97 \<le> byte c \<and> byte c \<le> 122 \<or> 48 \<le> byte c \<and> byte c \<le> 57 \<or> c \<in> set ''._-'') name then None
      else Some (Plain (''provider name '' @ name @ '' contains an invalid character'')))"

text \<open>
  The map of the checked fields, as an association list in the order of the literal; which of several
  errors is reported depends on the order of the iteration.
\<close>

definition limitFields :: "LimitSpec \<Rightarrow> (string, int) gomap" where
  "limitFields l =
     [(''rpm'', ls_RPM l), (''tpm'', ls_TPM l), (''max_parallel'', ls_MaxParallel l),
      (''max_spend_micros'', ls_MaxSpendMicros l), (''soft_spend_micros'', ls_SoftSpendMicros l),
      (''daily_tokens'', ls_DailyTokens l), (''monthly_tokens'', ls_MonthlyTokens l),
      (''max_input_tokens'', ls_MaxInputTokens l), (''max_output_tokens'', ls_MaxOutputTokens l)]"

fun checkFields :: "string \<Rightarrow> (string, int) gomap \<Rightarrow> goerr option" where
  "checkFields path [] = None"
| "checkFields path ((field, value) # fs) =
     (if value < 0 then Some (Plain (path @ ''.'' @ field @ '' must be greater than or equal to zero''))
      else if value > MaximumQuotaValue then
        Some (Plain (path @ ''.'' @ field @ '' must not exceed '' @ show_int MaximumQuotaValue))
      else checkFields path fs)"

fun checkProviders :: "string \<Rightarrow> string list \<Rightarrow> goerr option" where
  "checkProviders path [] = None"
| "checkProviders path (p # ps) =
     (case validateProviderName p of
        Some err \<Rightarrow> Some (Wrapped (path @ ''.provider_allowlist contains an invalid provider'') err)
      | None \<Rightarrow> checkProviders path ps)"

definition validateLimitSpec :: "string \<Rightarrow> LimitSpec \<Rightarrow> goerr option" where
  "validateLimitSpec path limit =
     (case checkFields path (limitFields limit) of
        Some err \<Rightarrow> Some err
      | None \<Rightarrow>
          if ls_BudgetDuration limit < 0 then
            Some (Plain (path @ ''.budget_duration must be greater than or equal to zero''))
          else if ls_MaxSpendMicros limit > 0 \<and> ls_SoftSpendMicros limit > ls_MaxSpendMicros limit then
            Some (Plain (path @ ''.soft_spend_micros must not exceed max_spend_micros''))
          else checkProviders path (case ls_ProviderAllowlist limit of None \<Rightarrow> [] | Some ps \<Rightarrow> ps))"

definition ValidateLimitSpec :: "LimitSpec \<Rightarrow> goerr option" where
  "ValidateLimitSpec limit = validateLimitSpec ''limits'' limit"

text \<open>Appending nothing to a nil slice gives nil, so an empty list does not survive the clone.\<close>

definition cloneSlice :: "string list option \<Rightarrow> string list option" where
  "cloneSlice xs = (case xs of None \<Rightarrow> None | Some [] \<Rightarrow> None | Some ys \<Rightarrow> Some ys)"

definition cloneLimitSpec :: "LimitSpec \<Rightarrow> LimitSpec" where
  "cloneLimitSpec limit =
     limit\<lparr>ls_ModelAllowlist := cloneSlice (ls_ModelAllowlist limit), ls_ProviderAllowlist := cloneSlice (ls_ProviderAllowlist limit)\<rparr>"

definition cloneLimitMap :: "(string \<rightharpoonup> LimitSpec) \<Rightarrow> string \<rightharpoonup> LimitSpec" where
  "cloneLimitMap limits = (\<lambda>keyID. map_option cloneLimitSpec (limits keyID))"

definition validateQuotaLimit :: "string \<Rightarrow> LimitSpec \<Rightarrow> goerr option" where
  "validateQuotaLimit keyID limit =
     (if TrimSpace keyID = [] then Some (Plain ''quota limit key id must not be empty'')
      else map_option (Wrapped (''quota limit '' @ keyID @ '' is invalid'')) (ValidateLimitSpec limit))"

fun validateQuotaLimitMap :: "(string, LimitSpec) gomap \<Rightarrow> goerr option" where
  "validateQuotaLimitMap [] = None"
| "validateQuotaLimitMap ((keyID, limit) # ls) =
     (case validateQuotaLimit keyID limit of Some err \<Rightarrow> Some err | None \<Rightarrow> validateQuotaLimitMap ls)"

section \<open>The in-memory store\<close>

type_synonym MemoryQuotaLimitStore = "string \<rightharpoonup> LimitSpec"

text \<open>\<open>Get\<close> answers the limit, zero when there is none, and whether there is one.\<close>

type_synonym limitAnswer = "goerr + LimitSpec \<times> bool"

definition found :: "LimitSpec option \<Rightarrow> LimitSpec \<times> bool" where
  "found l = (case l of None \<Rightarrow> (cloneLimitSpec zero_limit, False) | Some limit \<Rightarrow> (cloneLimitSpec limit, True))"

definition ml_Get :: "ctx \<Rightarrow> string \<Rightarrow> MemoryQuotaLimitStore \<Rightarrow> limitAnswer" where
  "ml_Get ctx keyID s =
     (case ctx 0 of Some err \<Rightarrow> Inl err | None \<Rightarrow>
      case ctx 1 of Some err \<Rightarrow> Inl err | None \<Rightarrow> Inr (found (s keyID)))"

definition ml_Put :: "ctx \<Rightarrow> string \<Rightarrow> LimitSpec \<Rightarrow> MemoryQuotaLimitStore \<Rightarrow> goerr option \<times> MemoryQuotaLimitStore" where
  "ml_Put ctx keyID limit s =
     (case ctx 0 of Some err \<Rightarrow> (Some err, s) | None \<Rightarrow>
      case validateQuotaLimit keyID limit of Some err \<Rightarrow> (Some err, s) | None \<Rightarrow>
      case ctx 1 of Some err \<Rightarrow> (Some err, s) | None \<Rightarrow> (None, s(keyID \<mapsto> cloneLimitSpec limit)))"

section \<open>The cache\<close>

record cachedQuotaLimit =
  cq_key :: string
  cq_limit :: LimitSpec
  cq_found :: bool
  cq_expires :: instant

text \<open>
  The LRU list, most recently used first. The map from keys to list elements is the index of this list:
  every element is in the map under its key and nothing else is.
\<close>

record CachedQuotaLimitStore =
  cl_ttl :: duration
  cl_capacity :: nat
  cl_lru :: "cachedQuotaLimit list"
  cl_writeGeneration :: nat

definition defaultQuotaLimitCacheCapacity :: int where
  "defaultQuotaLimitCacheCapacity = 4096"

definition NewCachedQuotaLimitStoreWithCapacity :: "duration \<Rightarrow> int \<Rightarrow> CachedQuotaLimitStore" where
  "NewCachedQuotaLimitStoreWithCapacity ttl capacity =
     \<lparr>cl_ttl = (if ttl \<le> 0 then 30 * Second else ttl),
      cl_capacity = nat (if capacity \<le> 0 then defaultQuotaLimitCacheCapacity else capacity), cl_lru = [], cl_writeGeneration = 0\<rparr>"

definition cl_lookup :: "string \<Rightarrow> CachedQuotaLimitStore \<Rightarrow> cachedQuotaLimit option" where
  "cl_lookup keyID s = find (\<lambda>e. cq_key e = keyID) (cl_lru s)"

definition removeCacheElement :: "string \<Rightarrow> CachedQuotaLimitStore \<Rightarrow> CachedQuotaLimitStore" where
  "removeCacheElement keyID s = s\<lparr>cl_lru := filter (\<lambda>e. cq_key e \<noteq> keyID) (cl_lru s)\<rparr>"

definition pushFront :: "cachedQuotaLimit \<Rightarrow> CachedQuotaLimitStore \<Rightarrow> CachedQuotaLimitStore" where
  "pushFront e s = s\<lparr>cl_lru := e # cl_lru s\<rparr>"

text \<open>A known key gets the new value and moves to the front; else the oldest elements make room.\<close>

definition putCacheEntry :: "cachedQuotaLimit \<Rightarrow> CachedQuotaLimitStore \<Rightarrow> CachedQuotaLimitStore" where
  "putCacheEntry entry s =
     (if cl_lookup (cq_key entry) s \<noteq> None then pushFront entry (removeCacheElement (cq_key entry) s)
      else let s = pushFront entry s in s\<lparr>cl_lru := take (cl_capacity s) (cl_lru s)\<rparr>)"

definition cl_pruneExpired :: "instant \<Rightarrow> CachedQuotaLimitStore \<Rightarrow> CachedQuotaLimitStore" where
  "cl_pruneExpired now s = s\<lparr>cl_lru := filter (\<lambda>e. now < cq_expires e) (cl_lru s)\<rparr>"

text \<open>
  \<open>Get\<close> releases its lock around the read of the source: first the lookup, which answers a hit or the
  write generation to remember, then the publication of what the source answered.
\<close>

definition cl_GetStart :: "string \<Rightarrow> instant \<Rightarrow> CachedQuotaLimitStore \<Rightarrow> (nat + LimitSpec \<times> bool) \<times> CachedQuotaLimitStore" where
  "cl_GetStart keyID now s =
     (case cl_lookup keyID s of
        Some entry \<Rightarrow>
          if now < cq_expires entry
          then (Inr (cloneLimitSpec (cq_limit entry), cq_found entry), pushFront entry (removeCacheElement keyID s))
          else (Inl (cl_writeGeneration s), removeCacheElement keyID s)
      | None \<Rightarrow> (Inl (cl_writeGeneration s), s))"

definition cl_GetFinish :: "string \<Rightarrow> nat \<Rightarrow> LimitSpec \<times> bool \<Rightarrow> instant \<Rightarrow> CachedQuotaLimitStore \<Rightarrow> CachedQuotaLimitStore" where
  "cl_GetFinish keyID writeGeneration answer now s =
     (if writeGeneration = cl_writeGeneration s
      then putCacheEntry \<lparr>cq_key = keyID, cq_limit = cloneLimitSpec (fst answer), cq_found = snd answer,
             cq_expires = now + cl_ttl s\<rparr> (cl_pruneExpired now s)
      else s)"

text \<open>The whole \<open>Get\<close> of a caller who is not interrupted. A cache may have no source.\<close>

definition cl_Get ::
  "(string \<Rightarrow> limitAnswer) option \<Rightarrow> string \<Rightarrow> instant \<Rightarrow> instant \<Rightarrow> CachedQuotaLimitStore \<Rightarrow> limitAnswer \<times> CachedQuotaLimitStore" where
  "cl_Get source keyID now now' s =
     (if keyID = [] then (Inr (zero_limit, False), s)
      else
        let (hit, s) = cl_GetStart keyID now s
        in case hit of
             Inr answer \<Rightarrow> (Inr answer, s)
           | Inl gen \<Rightarrow>
               (case map_option (\<lambda>get. get keyID) source of
                  None \<Rightarrow> (Inr (zero_limit, False), s)
                | Some (Inl err) \<Rightarrow> (Inl err, s)
                | Some (Inr answer) \<Rightarrow>
                    (Inr (cloneLimitSpec (fst answer), snd answer), cl_GetFinish keyID gen answer now' s)))"

text \<open>The part of \<open>Put\<close> after the source has taken the value.\<close>

definition cl_PutFinish :: "string \<Rightarrow> LimitSpec \<Rightarrow> instant \<Rightarrow> CachedQuotaLimitStore \<Rightarrow> CachedQuotaLimitStore" where
  "cl_PutFinish keyID limit now s =
     (let s = cl_pruneExpired now s;
          s = s\<lparr>cl_writeGeneration := Suc (cl_writeGeneration s) mod 2 ^ 64\<rparr>
      in putCacheEntry \<lparr>cq_key = keyID, cq_limit = cloneLimitSpec limit, cq_found = True, cq_expires = now + cl_ttl s\<rparr> s)"

definition cl_Put ::
  "(string \<Rightarrow> LimitSpec \<Rightarrow> goerr option) option \<Rightarrow> string \<Rightarrow> LimitSpec \<Rightarrow> instant \<Rightarrow> CachedQuotaLimitStore \<Rightarrow> goerr option \<times> CachedQuotaLimitStore" where
  "cl_Put sourcePut keyID limit now s =
     (case validateQuotaLimit keyID limit of
        Some err \<Rightarrow> (Some err, s)
      | None \<Rightarrow>
          (case map_option (\<lambda>put. put keyID limit) sourcePut of
             None \<Rightarrow> (None, s)
           | Some (Some err) \<Rightarrow> (Some err, s)
           | Some None \<Rightarrow> (None, cl_PutFinish keyID limit now s)))"

section \<open>The snapshot store\<close>

record RefreshingQuotaLimitStore =
  rl_ttl :: duration
  rl_snapshot :: "(string \<rightharpoonup> LimitSpec) option"
  rl_closed :: bool
  rl_lastErr :: "goerr option"
  rl_errorHook :: bool
  rl_healthGeneration :: nat
  rl_closeErr :: "goerr option"

text \<open>What \<open>LoadAll\<close> of the source answers: an error, or all limits.\<close>

definition loadSnapshot :: "(goerr + (string, LimitSpec) gomap) \<Rightarrow> goerr + (string \<rightharpoonup> LimitSpec)" where
  "loadSnapshot load =
     (case load of
        Inl err \<Rightarrow> Inl err
      | Inr limits \<Rightarrow>
          (case validateQuotaLimitMap limits of Some err \<Rightarrow> Inl err | None \<Rightarrow> Inr (cloneLimitMap (map_of limits))))"

definition NewRefreshingQuotaLimitStore :: "(goerr + (string, LimitSpec) gomap) \<Rightarrow> duration \<Rightarrow> goerr + RefreshingQuotaLimitStore" where
  "NewRefreshingQuotaLimitStore load ttl =
     (case load of
        Inl err \<Rightarrow> Inl (Wrapped ''load quota limit snapshot'' err)
      | Inr limits \<Rightarrow>
          (case validateQuotaLimitMap limits of
             Some err \<Rightarrow> Inl (Wrapped ''validate quota limit snapshot'' err)
           | None \<Rightarrow>
               Inr \<lparr>rl_ttl = (if ttl \<le> 0 then 30 * Second else ttl), rl_snapshot = Some (cloneLimitMap (map_of limits)),
                    rl_closed = False, rl_lastErr = None, rl_errorHook = False, rl_healthGeneration = 0, rl_closeErr = None\<rparr>))"

definition rl_Get :: "string \<Rightarrow> RefreshingQuotaLimitStore \<Rightarrow> limitAnswer" where
  "rl_Get keyID s =
     (if rl_closed s then Inl (Sentinel ErrQuotaLimitStoreClosed)
      else if keyID = [] then Inr (zero_limit, False)
      else case rl_snapshot s of None \<Rightarrow> Inr (zero_limit, False) | Some limits \<Rightarrow> Inr (found (limits keyID)))"

definition rl_Put ::
  "(string \<Rightarrow> LimitSpec \<Rightarrow> goerr option) \<Rightarrow> string \<Rightarrow> LimitSpec \<Rightarrow> RefreshingQuotaLimitStore \<Rightarrow> goerr option \<times> RefreshingQuotaLimitStore" where
  "rl_Put sourcePut keyID limit s =
     (if rl_closed s then (Some (Sentinel ErrQuotaLimitStoreClosed), s)
      else case validateQuotaLimit keyID limit of
        Some err \<Rightarrow> (Some err, s)
      | None \<Rightarrow>
          (case sourcePut keyID limit of
             Some err \<Rightarrow> (Some err, s)
           | None \<Rightarrow>
               let limits = (case rl_snapshot s of None \<Rightarrow> Map.empty | Some current \<Rightarrow> cloneLimitMap current)
               in (None, s\<lparr>rl_snapshot := Some (limits(keyID \<mapsto> cloneLimitSpec limit))\<rparr>)))"

definition rl_Refresh :: "(goerr + (string, LimitSpec) gomap) \<Rightarrow> RefreshingQuotaLimitStore \<Rightarrow> goerr option \<times> RefreshingQuotaLimitStore" where
  "rl_Refresh load s =
     (if rl_closed s then (Some (Sentinel ErrQuotaLimitStoreClosed), s)
      else
        let (err, s) =
              (case loadSnapshot load of
                 Inl err \<Rightarrow> (Some err, s)
               | Inr limits \<Rightarrow> (None, s\<lparr>rl_snapshot := Some limits\<rparr>))
        in (err, s\<lparr>rl_lastErr := err, rl_healthGeneration := Suc (rl_healthGeneration s) mod 2 ^ 64\<rparr>))"

definition rl_Close :: "goerr option \<Rightarrow> RefreshingQuotaLimitStore \<Rightarrow> goerr option \<times> RefreshingQuotaLimitStore" where
  "rl_Close sourceClose s =
     (let s = (if rl_closed s then s
               else s\<lparr>rl_closed := True, rl_errorHook := False,
                      rl_healthGeneration := Suc (rl_healthGeneration s) mod 2 ^ 64, rl_closeErr := sourceClose\<rparr>)
      in (rl_closeErr s, s))"

definition rl_Ping :: "RefreshingQuotaLimitStore \<Rightarrow> goerr option" where
  "rl_Ping s =
     (if rl_closed s then Some (Sentinel ErrQuotaLimitStoreClosed)
      else if rl_snapshot s = None then Some (Plain ''quota limit snapshot is not loaded'') else None)"

definition LastRefreshError :: "RefreshingQuotaLimitStore \<Rightarrow> goerr option" where
  "LastRefreshError s = rl_lastErr s"

definition SetRefreshErrorHook :: "bool \<Rightarrow> RefreshingQuotaLimitStore \<Rightarrow> RefreshingQuotaLimitStore" where
  "SetRefreshErrorHook hook s =
     (if rl_closed s then s
      else s\<lparr>rl_errorHook := hook, rl_healthGeneration := Suc (rl_healthGeneration s) mod 2 ^ 64\<rparr>)"

section \<open>Clones and validation\<close>

lemma cloneSlice_idem [simp]: "cloneSlice (cloneSlice xs) = cloneSlice xs"
  by (auto simp: cloneSlice_def split: option.splits list.splits)

lemma clone_idem [simp]: "cloneLimitSpec (cloneLimitSpec l) = cloneLimitSpec l"
  by (simp add: cloneLimitSpec_def)

lemma clone_zero [simp]: "cloneLimitSpec zero_limit = zero_limit"
  by (simp add: cloneLimitSpec_def cloneSlice_def)

lemma found_clone [simp]: "cloneLimitSpec (fst (found l)) = fst (found l)" "(fst (found l), snd (found l)) = found l"
  by (simp_all add: found_def split: option.split)

lemma found_Some: "found (Some l) = (cloneLimitSpec l, True)"
  by (simp add: found_def)

lemma found_clone_option [simp]: "found (map_option cloneLimitSpec l) = found l"
  by (cases l) (simp_all add: found_def)

lemma validate_clone [simp]: "validateQuotaLimit k (cloneLimitSpec l) = validateQuotaLimit k l"
proof -
  have "(case cloneSlice xs of None \<Rightarrow> [] | Some ys \<Rightarrow> ys) = (case xs of None \<Rightarrow> [] | Some ys \<Rightarrow> ys)" for xs
    by (auto simp: cloneSlice_def split: option.splits list.splits)
  then show ?thesis
    by (simp add: validateQuotaLimit_def ValidateLimitSpec_def validateLimitSpec_def cloneLimitSpec_def limitFields_def)
qed

lemma validate_key: "validateQuotaLimit k l = None \<Longrightarrow> k \<noteq> []"
  by (auto simp: validateQuotaLimit_def)

lemma validate_map: "validateQuotaLimitMap ls = None \<Longrightarrow> (k, l) \<in> set ls \<Longrightarrow> validateQuotaLimit k l = None"
  by (induction ls rule: validateQuotaLimitMap.induct) (auto split: option.splits)

section \<open>The cache under concurrency\<close>

text \<open>
  A source, the cache, the reads that have left the lock with their write generation and, once the
  source has answered, its answer, and the write whose value the source has and the cache not yet.
\<close>

record limitSystem =
  sy_source :: "string \<rightharpoonup> LimitSpec"
  sy_cache :: CachedQuotaLimitStore
  sy_reads :: "(string \<times> nat \<times> (LimitSpec \<times> bool) option) list"
  sy_put :: "(string \<times> LimitSpec) option"

text \<open>Any number of readers, one writer at a time, fewer than \<open>2\<^sup>6\<^sup>4\<close> writes.\<close>

inductive sys_step :: "limitSystem \<Rightarrow> limitSystem \<Rightarrow> bool" where
  get_hit: "cl_GetStart k now (sy_cache S) = (Inr a, c) \<Longrightarrow> sys_step S (S\<lparr>sy_cache := c\<rparr>)"
| get_miss: "cl_GetStart k now (sy_cache S) = (Inl g, c) \<Longrightarrow> sys_step S (S\<lparr>sy_cache := c, sy_reads := (k, g, None) # sy_reads S\<rparr>)"
| get_source: "i < length (sy_reads S) \<Longrightarrow> sy_reads S ! i = (k, g, None) \<Longrightarrow>
    sys_step S (S\<lparr>sy_reads := (sy_reads S)[i := (k, g, Some (found (sy_source S k)))]\<rparr>)"
| get_finish: "i < length (sy_reads S) \<Longrightarrow> sy_reads S ! i = (k, g, Some a) \<Longrightarrow>
    sys_step S (S\<lparr>sy_cache := cl_GetFinish k g a now (sy_cache S), sy_reads := take i (sy_reads S) @ drop (Suc i) (sy_reads S)\<rparr>)"
| get_failed: "i < length (sy_reads S) \<Longrightarrow> sys_step S (S\<lparr>sy_reads := take i (sy_reads S) @ drop (Suc i) (sy_reads S)\<rparr>)"
| put_source: "sy_put S = None \<Longrightarrow> validateQuotaLimit k l = None \<Longrightarrow>
    sys_step S (S\<lparr>sy_source := (sy_source S)(k \<mapsto> l), sy_put := Some (k, l)\<rparr>)"
| put_finish: "sy_put S = Some (k, l) \<Longrightarrow> Suc (cl_writeGeneration (sy_cache S)) < 2 ^ 64 \<Longrightarrow>
    sys_step S (S\<lparr>sy_cache := cl_PutFinish k l now (sy_cache S), sy_put := None\<rparr>)"

inductive sys_reach :: "(string \<rightharpoonup> LimitSpec) \<Rightarrow> duration \<Rightarrow> int \<Rightarrow> limitSystem \<Rightarrow> bool" for src ttl cap where
  sys_init: "sys_reach src ttl cap
    \<lparr>sy_source = src, sy_cache = NewCachedQuotaLimitStoreWithCapacity ttl cap, sy_reads = [], sy_put = None\<rparr>"
| sys_next: "sys_reach src ttl cap S \<Longrightarrow> sys_step S S' \<Longrightarrow> sys_reach src ttl cap S'"

definition agrees :: "(string \<rightharpoonup> LimitSpec) \<Rightarrow> cachedQuotaLimit \<Rightarrow> bool" where
  "agrees src e \<longleftrightarrow> (cq_limit e, cq_found e) = found (src (cq_key e))"

definition writing :: "limitSystem \<Rightarrow> string \<Rightarrow> bool" where
  "writing S k \<longleftrightarrow> (\<exists>l. sy_put S = Some (k, l))"

definition read_ok :: "limitSystem \<Rightarrow> string \<times> nat \<times> (LimitSpec \<times> bool) option \<Rightarrow> bool" where
  "read_ok S r \<longleftrightarrow> (case r of (k, g, a) \<Rightarrow> g \<le> cl_writeGeneration (sy_cache S) \<and>
     (a \<noteq> None \<longrightarrow> g = cl_writeGeneration (sy_cache S) \<longrightarrow> a = Some (found (sy_source S k)) \<or> writing S k))"

definition coherent :: "limitSystem \<Rightarrow> bool" where
  "coherent S \<longleftrightarrow> (\<forall>e \<in> set (cl_lru (sy_cache S)). agrees (sy_source S) e \<or> writing S (cq_key e)) \<and>
     (\<forall>r \<in> set (sy_reads S). read_ok S r) \<and> (\<forall>k l. sy_put S = Some (k, l) \<longrightarrow> sy_source S k = Some l)"

lemma put_entry_set:
  "e \<in> set (cl_lru (putCacheEntry x s)) \<Longrightarrow> e = x \<or> e \<in> set (cl_lru s) \<and> cq_key e \<noteq> cq_key x"
  by (auto simp: putCacheEntry_def pushFront_def removeCacheElement_def cl_lookup_def find_None_iff Let_def
      dest: in_set_takeD split: if_splits)

lemma put_entry_sel [simp]:
  "cl_writeGeneration (putCacheEntry x s) = cl_writeGeneration s" "cl_ttl (putCacheEntry x s) = cl_ttl s"
  "cl_capacity (putCacheEntry x s) = cl_capacity s"
  by (simp_all add: putCacheEntry_def pushFront_def removeCacheElement_def Let_def)

lemma put_finish_set:
  "e \<in> set (cl_lru (cl_PutFinish k l now s)) \<Longrightarrow>
    e = \<lparr>cq_key = k, cq_limit = cloneLimitSpec l, cq_found = True, cq_expires = now + cl_ttl s\<rparr> \<or>
    e \<in> set (cl_lru s) \<and> cq_key e \<noteq> k"
  unfolding cl_PutFinish_def Let_def by (drule put_entry_set) (auto simp: cl_pruneExpired_def)

lemma put_entry_lookup: "0 < cl_capacity s \<Longrightarrow> cl_lookup (cq_key x) (putCacheEntry x s) = Some x"
  by (cases "cl_capacity s") (simp_all add: cl_lookup_def putCacheEntry_def pushFront_def Let_def)

lemma put_finish_lookup:
  assumes "0 < cl_capacity s"
  shows "cl_lookup k (cl_PutFinish k l now s) =
    Some \<lparr>cq_key = k, cq_limit = cloneLimitSpec l, cq_found = True, cq_expires = now + cl_ttl s\<rparr>"
  using put_entry_lookup [of "cl_pruneExpired now s\<lparr>cl_writeGeneration := Suc (cl_writeGeneration s) mod 2 ^ 64\<rparr>"
      "\<lparr>cq_key = k, cq_limit = cloneLimitSpec l, cq_found = True, cq_expires = now + cl_ttl s\<rparr>"] assms
  by (simp add: cl_PutFinish_def Let_def cl_pruneExpired_def)

lemma put_finish_sel [simp]:
  "cl_ttl (cl_PutFinish k l now s) = cl_ttl s" "cl_capacity (cl_PutFinish k l now s) = cl_capacity s"
  by (simp_all add: cl_PutFinish_def cl_pruneExpired_def Let_def)

lemma lookup_in: "cl_lookup k s = Some e \<Longrightarrow> e \<in> set (cl_lru s) \<and> cq_key e = k"
  by (auto simp: cl_lookup_def find_Some_iff)

lemma get_start_frame:
  assumes "cl_GetStart k now s = (a, c)"
  shows "set (cl_lru c) \<subseteq> set (cl_lru s)" "cl_writeGeneration c = cl_writeGeneration s"
    "a = Inl g \<Longrightarrow> g = cl_writeGeneration s"
    "a = Inr x \<Longrightarrow> \<exists>e \<in> set (cl_lru s). cq_key e = k \<and> x = (cloneLimitSpec (cq_limit e), cq_found e)"
  using assms lookup_in [of k s]
  by (auto simp: cl_GetStart_def pushFront_def removeCacheElement_def split: option.splits if_splits)

lemma step_coherent: "sys_step S S' \<Longrightarrow> coherent S \<Longrightarrow> coherent S'"
proof (induction rule: sys_step.induct)
  case (get_hit k now S a c)
  then show ?case using get_start_frame(1,2) [OF get_hit.hyps]
    by (auto simp: coherent_def read_ok_def writing_def)
next
  case (get_miss k now S g c)
  then show ?case using get_start_frame(1,2) [OF get_miss.hyps] get_start_frame(3) [OF get_miss.hyps refl]
    by (auto simp: coherent_def read_ok_def writing_def)
next
  case (get_source i S k g)
  have "(k, g, None) \<in> set (sy_reads S)" using get_source.hyps nth_mem by metis
  then have "g \<le> cl_writeGeneration (sy_cache S)" using get_source.prems by (auto simp: coherent_def read_ok_def)
  then show ?case using get_source.prems
    by (auto simp: coherent_def read_ok_def writing_def dest!: set_update_subset_insert [THEN subsetD])
next
  case (get_finish i S k g a now)
  have r: "read_ok S (k, g, Some a)" using get_finish.hyps get_finish.prems nth_mem by (metis coherent_def)
  let ?c = "cl_GetFinish k g a now (sy_cache S)"
  have gen: "cl_writeGeneration ?c = cl_writeGeneration (sy_cache S)" by (simp add: cl_GetFinish_def cl_pruneExpired_def)
  have e: "agrees (sy_source S) e \<or> writing S (cq_key e)" if "e \<in> set (cl_lru ?c)" for e
  proof (cases "e \<in> set (cl_lru (sy_cache S))")
    case True
    then show ?thesis using get_finish.prems by (simp add: coherent_def)
  next
    case False
    then have g: "g = cl_writeGeneration (sy_cache S)"
      and eq: "e = \<lparr>cq_key = k, cq_limit = cloneLimitSpec (fst a), cq_found = snd a, cq_expires = now + cl_ttl (sy_cache S)\<rparr>"
      using that by (auto simp: cl_GetFinish_def cl_pruneExpired_def dest: put_entry_set split: if_splits)
    from r g have "a = found (sy_source S k) \<or> writing S k" by (simp add: read_ok_def)
    then show ?thesis by (auto simp: eq agrees_def)
  qed
  let ?S = "S\<lparr>sy_cache := ?c, sy_reads := take i (sy_reads S) @ drop (Suc i) (sy_reads S)\<rparr>"
  have w: "writing ?S k' = writing S k'" for k' by (simp add: writing_def)
  have ro: "read_ok ?S r = read_ok S r" for r by (simp add: read_ok_def w gen split: prod.split)
  show ?case using get_finish.prems e unfolding coherent_def ro w
    by (auto dest: in_set_takeD in_set_dropD)
next
  case (get_failed i S)
  let ?S = "S\<lparr>sy_reads := take i (sy_reads S) @ drop (Suc i) (sy_reads S)\<rparr>"
  have w: "writing ?S k' = writing S k'" for k' by (simp add: writing_def)
  have ro: "read_ok ?S r = read_ok S r" for r by (simp add: read_ok_def w split: prod.split)
  show ?case using get_failed.prems unfolding coherent_def ro w
    by (auto dest: in_set_takeD in_set_dropD)
next
  case (put_source S k l)
  then show ?case by (auto simp: coherent_def read_ok_def writing_def agrees_def)
next
  case (put_finish S k l now)
  let ?c = "cl_PutFinish k l now (sy_cache S)"
  have gen: "cl_writeGeneration ?c = Suc (cl_writeGeneration (sy_cache S))"
    using put_finish.hyps(2) by (simp add: cl_PutFinish_def cl_pruneExpired_def Let_def)
  have src: "sy_source S k = Some l" using put_finish by (simp add: coherent_def)
  have e: "agrees (sy_source S) e" if in_c: "e \<in> set (cl_lru ?c)" for e
  proof -
    consider "e = \<lparr>cq_key = k, cq_limit = cloneLimitSpec l, cq_found = True, cq_expires = now + cl_ttl (sy_cache S)\<rparr>"
      | "e \<in> set (cl_lru (sy_cache S))" "cq_key e \<noteq> k"
      using put_finish_set [OF in_c] by blast
    then show ?thesis
      using put_finish src by cases (auto simp: agrees_def found_Some coherent_def writing_def)
  qed
  have "read_ok (S\<lparr>sy_cache := ?c, sy_put := None\<rparr>) r" if "r \<in> set (sy_reads S)" for r
  proof -
    have "read_ok S r" using put_finish.prems that by (simp add: coherent_def)
    then show ?thesis by (auto simp: read_ok_def gen split: prod.splits)
  qed
  with e show ?case by (simp add: coherent_def)
qed

lemma reach_coherent: "sys_reach src ttl cap S \<Longrightarrow> coherent S"
proof (induction rule: sys_reach.induct)
  case sys_init
  show ?case by (simp add: coherent_def NewCachedQuotaLimitStoreWithCapacity_def)
next
  case (sys_next S S')
  then show ?case by (blast intro: step_coherent)
qed

section \<open>Well-formed stores\<close>

definition cl_wf :: "CachedQuotaLimitStore \<Rightarrow> bool" where
  "cl_wf s \<longleftrightarrow> distinct (map cq_key (cl_lru s)) \<and> length (cl_lru s) \<le> cl_capacity s \<and> 0 < cl_capacity s \<and> 0 < cl_ttl s"

lemma wf_new: "cl_wf (NewCachedQuotaLimitStoreWithCapacity ttl cap)"
  by (simp add: cl_wf_def NewCachedQuotaLimitStoreWithCapacity_def defaultQuotaLimitCacheCapacity_def)

lemma wf_filter: "cl_wf s \<Longrightarrow> cl_wf (s\<lparr>cl_lru := filter P (cl_lru s)\<rparr>)"
  by (auto simp: cl_wf_def intro: order_trans [OF length_filter_le] distinct_map_filter)

lemma length_remove:
  "e \<in> set xs \<Longrightarrow> cq_key e = k \<Longrightarrow> length (filter (\<lambda>e. cq_key e \<noteq> k) xs) < length xs"
  by (induction xs) (auto simp: less_Suc_eq_le)

lemma wf_refresh: "cl_wf s \<Longrightarrow> cl_lookup k s = Some e0 \<Longrightarrow> cq_key e = k \<Longrightarrow> cl_wf (pushFront e (removeCacheElement k s))"
  using length_remove [of e0 "cl_lru s" k] lookup_in [of k s e0]
  by (auto simp: cl_wf_def pushFront_def removeCacheElement_def distinct_map_filter)

lemma wf_put_entry: "cl_wf s \<Longrightarrow> cl_wf (putCacheEntry x s)"
proof (cases "cl_lookup (cq_key x) s")
  case (Some e)
  assume "cl_wf s"
  with Some show ?thesis by (simp add: putCacheEntry_def wf_refresh)
next
  case None
  assume wf: "cl_wf s"
  have "cq_key x \<notin> cq_key ` set (cl_lru s)" using None by (auto simp: cl_lookup_def find_None_iff)
  then have "distinct (map cq_key (x # cl_lru s))" using wf by (simp add: cl_wf_def)
  then have "distinct (map cq_key (take (cl_capacity s) (x # cl_lru s)))" by (metis distinct_take take_map)
  then show ?thesis using wf None by (simp add: cl_wf_def putCacheEntry_def pushFront_def Let_def)
qed

lemma step_wf: "sys_step S S' \<Longrightarrow> cl_wf (sy_cache S) \<Longrightarrow> cl_wf (sy_cache S')"
proof (induction rule: sys_step.induct)
  case (get_hit k now S a c)
  then show ?case
    by (auto simp: cl_GetStart_def removeCacheElement_def wf_filter split: option.splits if_splits
        dest: lookup_in intro!: wf_refresh [unfolded removeCacheElement_def])
next
  case (get_miss k now S g c)
  then show ?case
    by (auto simp: cl_GetStart_def removeCacheElement_def wf_filter split: option.splits if_splits)
next
  case (put_finish S k l now)
  then have "cl_wf (cl_pruneExpired now (sy_cache S))" by (simp add: cl_pruneExpired_def wf_filter)
  then have "cl_wf (cl_pruneExpired now (sy_cache S)\<lparr>cl_writeGeneration := g\<rparr>)" for g by (simp add: cl_wf_def)
  then show ?case by (simp add: cl_PutFinish_def Let_def wf_put_entry)
qed (simp_all add: cl_GetFinish_def cl_pruneExpired_def wf_filter wf_put_entry)

lemma reach_wf: "sys_reach src ttl cap S \<Longrightarrow> cl_wf (sy_cache S)"
  by (induction rule: sys_reach.induct) (auto simp: wf_new intro: step_wf)

text \<open>Every snapshot that is served was validated.\<close>

inductive rl_reach :: "RefreshingQuotaLimitStore \<Rightarrow> bool" where
  rl_new: "NewRefreshingQuotaLimitStore load ttl = Inr s \<Longrightarrow> rl_reach s"
| rl_put: "rl_reach s \<Longrightarrow> rl_reach (snd (rl_Put sourcePut k l s))"
| rl_refresh: "rl_reach s \<Longrightarrow> rl_reach (snd (rl_Refresh load s))"
| rl_close: "rl_reach s \<Longrightarrow> rl_reach (snd (rl_Close sourceClose s))"
| rl_hook: "rl_reach s \<Longrightarrow> rl_reach (SetRefreshErrorHook hook s)"

definition snapshot_ok :: "(string \<rightharpoonup> LimitSpec) \<Rightarrow> bool" where
  "snapshot_ok m \<longleftrightarrow> (\<forall>k l. m k = Some l \<longrightarrow> validateQuotaLimit k l = None \<and> cloneLimitSpec l = l)"

lemma snapshot_load: "validateQuotaLimitMap ls = None \<Longrightarrow> snapshot_ok (cloneLimitMap (map_of ls))"
  by (auto simp: snapshot_ok_def cloneLimitMap_def dest!: map_of_SomeD intro: validate_map)

lemma snapshot_clone: "snapshot_ok m \<Longrightarrow> cloneLimitMap m = m"
proof (rule ext)
  fix k
  assume "snapshot_ok m"
  then show "cloneLimitMap m k = m k" by (cases "m k") (auto simp: snapshot_ok_def cloneLimitMap_def)
qed

lemma snapshot_upd: "snapshot_ok m \<Longrightarrow> validateQuotaLimit k l = None \<Longrightarrow> snapshot_ok (m(k \<mapsto> cloneLimitSpec l))"
  by (simp add: snapshot_ok_def)

lemma rl_reach_snapshot: "rl_reach s \<Longrightarrow> \<exists>m. rl_snapshot s = Some m \<and> snapshot_ok m"
proof (induction rule: rl_reach.induct)
  case (rl_new load ttl s)
  then show ?case
    by (auto simp: NewRefreshingQuotaLimitStore_def snapshot_load split: sum.splits option.splits)
next
  case (rl_put s sourcePut k l)
  then show ?case
    by (auto simp: rl_Put_def Let_def snapshot_clone snapshot_upd split: option.splits)
next
  case (rl_refresh s load)
  then show ?case
    by (auto simp: rl_Refresh_def loadSnapshot_def Let_def snapshot_load split: sum.splits option.splits)
qed (auto simp: rl_Close_def SetRefreshErrorHook_def)

section \<open>A system with one limit\<close>

definition demo_system :: limitSystem where
  "demo_system = \<lparr>sy_source = [''k'' \<mapsto> zero_limit],
     sy_cache = cl_PutFinish ''k'' zero_limit 0 (NewCachedQuotaLimitStoreWithCapacity 0 0), sy_reads = [], sy_put = None\<rparr>"

definition demo_snapshot :: RefreshingQuotaLimitStore where
  "demo_snapshot = \<lparr>rl_ttl = 30 * Second, rl_snapshot = Some [''k'' \<mapsto> zero_limit], rl_closed = False,
     rl_lastErr = None, rl_errorHook = False, rl_healthGeneration = 0, rl_closeErr = None\<rparr>"

lemma demo_limit_valid: "validateQuotaLimit ''k'' zero_limit = None"
  by code_simp

lemma demo_system_reach: "sys_reach Map.empty 0 0 demo_system"
  using sys_next [OF sys_next [OF sys_init put_source] put_finish, of Map.empty 0 0 "''k''" zero_limit "''k''" zero_limit 0]
  by (simp add: demo_system_def demo_limit_valid NewCachedQuotaLimitStoreWithCapacity_def)

lemma demo_hit: "fst (cl_GetStart ''k'' 1 (sy_cache demo_system)) = Inr (zero_limit, True)"
  using put_finish_lookup [of "NewCachedQuotaLimitStoreWithCapacity 0 0" "''k''" zero_limit 0]
  by (simp add: demo_system_def cl_GetStart_def NewCachedQuotaLimitStoreWithCapacity_def
      defaultQuotaLimitCacheCapacity_def)

lemma demo_snapshot_new: "NewRefreshingQuotaLimitStore (Inr [(''k'', zero_limit)]) 0 = Inr demo_snapshot"
  by (simp add: NewRefreshingQuotaLimitStore_def demo_snapshot_def demo_limit_valid cloneLimitMap_def fun_eq_iff)

section \<open>Properties\<close>

text \<open>
  C22. With any number of concurrent readers and one writer at a time, a limit served from the cache is
  the limit the source holds, except while a write of that very key is on its way from the source to
  the cache: a read that started before a write never puts the old value back. (A write that the source
  reports as failed is taken to have left it as it was.)
\<close>

theorem cache_coherent:
  assumes "sys_reach src ttl cap S" "cl_GetStart k now (sy_cache S) = (Inr answer, c)"
    and "\<forall>l. sy_put S \<noteq> Some (k, l)"
  shows "answer = found (sy_source S k)"
proof -
  obtain e where e: "e \<in> set (cl_lru (sy_cache S))" "cq_key e = k" "answer = (cloneLimitSpec (cq_limit e), cq_found e)"
    using get_start_frame(4) [OF assms(2) refl] by blast
  have "agrees (sy_source S) e"
    using reach_coherent [OF assms(1)] e(1,2) assms(3) by (auto simp: coherent_def writing_def)
  then show ?thesis using e(2,3) by (simp add: agrees_def) (metis found_clone fst_conv snd_conv)
qed

theorem cache_coherent_witness:
  "fst (cl_GetStart ''k'' 1 (sy_cache demo_system)) = Inr (zero_limit, True) \<and>
   (zero_limit, True) = found (sy_source demo_system ''k'')"
proof -
  obtain c where c: "cl_GetStart ''k'' 1 (sy_cache demo_system) = (Inr (zero_limit, True), c)"
    using demo_hit by (metis prod.collapse)
  show ?thesis using cache_coherent [OF demo_system_reach c] c by (simp add: demo_system_def)
qed

text \<open>
  The cache never holds two entries for one key nor more entries than its capacity, and the
  snapshot store always has a snapshot, all of whose limits passed validation.
\<close>

theorem limit_stores_wf:
  assumes "sys_reach src ttl cap S" "rl_reach r"
  shows "distinct (map cq_key (cl_lru (sy_cache S))) \<and> length (cl_lru (sy_cache S)) \<le> cl_capacity (sy_cache S) \<and>
    (\<exists>m. rl_snapshot r = Some m \<and> (\<forall>k l. m k = Some l \<longrightarrow> k \<noteq> [] \<and> ValidateLimitSpec l = None))"
proof -
  obtain m where m: "rl_snapshot r = Some m" "snapshot_ok m" using rl_reach_snapshot [OF assms(2)] by blast
  have "k \<noteq> [] \<and> ValidateLimitSpec l = None" if "m k = Some l" for k l
    using m(2) that by (auto simp: snapshot_ok_def validateQuotaLimit_def split: if_splits)
  with m(1) reach_wf [OF assms(1)] show ?thesis by (simp add: cl_wf_def)
qed

theorem limit_stores_wf_witness:
  "distinct (map cq_key (cl_lru (sy_cache demo_system))) \<and> length (cl_lru (sy_cache demo_system)) \<le> 4096 \<and>
   (\<exists>m. rl_snapshot demo_snapshot = Some m \<and> m ''k'' = Some zero_limit \<and> ValidateLimitSpec zero_limit = None)"
  using limit_stores_wf [OF demo_system_reach rl_new [OF demo_snapshot_new]]
  by (auto simp: demo_system_def demo_snapshot_def NewCachedQuotaLimitStoreWithCapacity_def defaultQuotaLimitCacheCapacity_def)

text \<open>
  Whichever store is used, a limit that \<open>Put\<close> accepted is what \<open>Get\<close> returns next, up to empty
  allow lists, which become nil; the cache keeps it for its time to live. In the in-memory store and
  the snapshot store the limits of other keys stay as they were.
\<close>

theorem put_then_get:
  assumes "ml_Put ctx k l m = (None, m')" "ctx_ok ctx"
    and "cl_wf c" "cl_Put (Some sourcePut) k l now c = (None, c')" "now' < now + cl_ttl c"
    and "rl_Put sourcePut k l r = (None, r')"
  shows "ml_Get ctx k m' = Inr (cloneLimitSpec l, True) \<and> fst (cl_Get source k now' now'' c') = Inr (cloneLimitSpec l, True) \<and>
    rl_Get k r' = Inr (cloneLimitSpec l, True) \<and> (\<forall>k'. k' \<noteq> k \<longrightarrow> ml_Get ctx k' m' = ml_Get ctx k' m \<and>
      (rl_snapshot r \<noteq> None \<longrightarrow> rl_Get k' r' = rl_Get k' r))"
proof -
  have v: "validateQuotaLimit k l = None" using assms(4) by (auto simp: cl_Put_def split: option.splits)
  note k = validate_key [OF v]
  have m: "m' = m(k \<mapsto> cloneLimitSpec l)" using assms(1) by (auto simp: ml_Put_def split: option.splits)
  have c: "c' = cl_PutFinish k l now c" using assms(4) by (auto simp: cl_Put_def split: option.splits)
  have r: "\<not> rl_closed r" "r' = r\<lparr>rl_snapshot := Some ((case rl_snapshot r of None \<Rightarrow> Map.empty | Some current \<Rightarrow> cloneLimitMap current)
      (k \<mapsto> cloneLimitSpec l))\<rparr>"
    using assms(6) by (auto simp: rl_Put_def Let_def split: if_splits option.splits)
  have "cl_lookup k c' = Some \<lparr>cq_key = k, cq_limit = cloneLimitSpec l, cq_found = True, cq_expires = now + cl_ttl c\<rparr>"
    using put_finish_lookup [of c] assms(3) by (simp add: c cl_wf_def)
  then have "fst (cl_Get source k now' now'' c') = Inr (cloneLimitSpec l, True)"
    using k assms(5) by (simp add: cl_Get_def cl_GetStart_def)
  moreover have "ml_Get ctx k m' = Inr (cloneLimitSpec l, True)" "k' \<noteq> k \<Longrightarrow> ml_Get ctx k' m' = ml_Get ctx k' m" for k'
    using assms(2) by (simp_all add: ml_Get_def ctx_ok_def m found_Some)
  moreover have "rl_Get k r' = Inr (cloneLimitSpec l, True)"
    "k' \<noteq> k \<Longrightarrow> rl_snapshot r \<noteq> None \<Longrightarrow> rl_Get k' r' = rl_Get k' r" for k'
    using r k by (auto simp: rl_Get_def found_Some cloneLimitMap_def split: option.splits)
  ultimately show ?thesis by blast
qed

theorem put_then_get_witness:
  "ml_Get (\<lambda>_. None) ''k'' [''k'' \<mapsto> zero_limit] = Inr (zero_limit, True) \<and>
   fst (cl_Get (Some (\<lambda>_. Inr (zero_limit, False))) ''k'' 1 1 (cl_PutFinish ''k'' zero_limit 0 (NewCachedQuotaLimitStoreWithCapacity 0 0))) =
     Inr (zero_limit, True) \<and>
   rl_Get ''k'' (snd (rl_Put (\<lambda>_ _. None) ''k'' zero_limit demo_snapshot)) = Inr (zero_limit, True)"
proof -
  have "ml_Put (\<lambda>_. None) ''k'' zero_limit Map.empty = (None, [''k'' \<mapsto> zero_limit])"
    by (simp add: ml_Put_def demo_limit_valid)
  moreover have "cl_Put (Some (\<lambda>_ _. None)) ''k'' zero_limit 0 (NewCachedQuotaLimitStoreWithCapacity 0 0) =
      (None, cl_PutFinish ''k'' zero_limit 0 (NewCachedQuotaLimitStoreWithCapacity 0 0))"
    by (simp add: cl_Put_def demo_limit_valid)
  moreover have "rl_Put (\<lambda>_ _. None) ''k'' zero_limit demo_snapshot =
      (None, snd (rl_Put (\<lambda>_ _. None) ''k'' zero_limit demo_snapshot))"
    by (simp add: rl_Put_def demo_limit_valid demo_snapshot_def Let_def)
  moreover have "1 < (0::int) + cl_ttl (NewCachedQuotaLimitStoreWithCapacity 0 0)"
    by (simp add: NewCachedQuotaLimitStoreWithCapacity_def)
  moreover have "ctx_ok (\<lambda>_. None)" by (simp add: ctx_ok_def)
  ultimately show ?thesis
    using put_then_get [of "\<lambda>_. None" "''k''" zero_limit Map.empty "[''k'' \<mapsto> zero_limit]"
        "NewCachedQuotaLimitStoreWithCapacity 0 0" "\<lambda>_ _. None" 0 _ 1 demo_snapshot _ "Some (\<lambda>_. Inr (zero_limit, False))" 1] wf_new
    by (metis clone_zero)
qed

text \<open>
  Two writers are not ordered: the source takes \<open>l1\<close> then \<open>l2\<close>, the cache \<open>l2\<close> then \<open>l1\<close>, and
  the older limit is served until it expires.
\<close>

lemma concurrent_puts_stale:
  assumes "cl_wf c" "now < t1 + cl_ttl c"
  shows "fst (cl_GetStart k now (cl_PutFinish k l1 t1 (cl_PutFinish k l2 t2 c))) = Inr (cloneLimitSpec l1, True)"
  using put_finish_lookup [of "cl_PutFinish k l2 t2 c" k l1 t1] assms
  by (simp add: cl_wf_def cl_GetStart_def)

end
