(* ===== verification/Token_Validation.thy ===== *)
theory Token_Validation
  imports Router Attempt_Pipeline Usage_Accounting
begin

text \<open>
  The token estimate of a candidate (\<open>policy/token.go\<close>): counting the prompt with the tokenizer of the
  route, the reservation of output, the surcharges of images and audio, the units of hosted tools, and
  the check of the token limits of the route. The tokenizers (\<open>tiktoken-go/tokenizer\<close>) and the hooks of
  the providers are parameters.
\<close>

section \<open>Text\<close>

text \<open>
  The number of runes of a byte string (\<open>[]rune\<close>): a valid UTF-8 sequence is one rune, every other byte
  is one too.
\<close>

definition continuation :: "nat \<Rightarrow> bool" where
  "continuation b \<longleftrightarrow> 0x80 \<le> b \<and> b \<le> 0xBF"

definition byte_at :: "nat list \<Rightarrow> nat \<Rightarrow> nat" where
  "byte_at bs i = (if i < length bs then bs ! i else 0)"

definition rune_len :: "nat list \<Rightarrow> nat" where
  "rune_len bs =
     (let b0 = byte_at bs 0; b1 = byte_at bs 1; b2 = byte_at bs 2; b3 = byte_at bs 3
      in if 0xC2 \<le> b0 \<and> b0 \<le> 0xDF \<and> continuation b1 then 2
         else if (b0 = 0xE0 \<and> 0xA0 \<le> b1 \<or> b0 = 0xED \<and> b1 \<le> 0x9F \<or> 0xE1 \<le> b0 \<and> b0 \<le> 0xEF \<and> b0 \<noteq> 0xED) \<and>
           continuation b1 \<and> continuation b2 then 3
         else if (b0 = 0xF0 \<and> 0x90 \<le> b1 \<or> b0 = 0xF4 \<and> b1 \<le> 0x8F \<or> 0xF1 \<le> b0 \<and> b0 \<le> 0xF3) \<and>
           continuation b1 \<and> continuation b2 \<and> continuation b3 then 4
         else 1)"

lemma rune_len_pos: "0 < rune_len bs"
  by (simp add: rune_len_def Let_def)

function RuneCount :: "nat list \<Rightarrow> nat" where
  "RuneCount [] = 0"
| "RuneCount (b # bs) = Suc (RuneCount (drop (rune_len (b # bs)) (b # bs)))"
  by pat_completeness auto
termination
  by (relation "measure length") (auto simp: rune_len_pos)

section \<open>Tokenizers\<close>

datatype encoding = O200kBase | Cl100kBase | P50kBase | P50kEdit | R50kBase

text \<open>
  \<open>tokenizer.Get\<close> of the library: a codec or an error; \<open>Count\<close> of a codec: a count or an error. Both
  errors are only tested for.
\<close>

type_synonym tokenizers = "encoding \<Rightarrow> (string \<Rightarrow> int option) option"

definition tokenizerForFamily :: "tokenizers \<Rightarrow> string \<Rightarrow> (string \<Rightarrow> int option) option" where
  "tokenizerForFamily load family =
     (if family = ''o200k_base'' then load O200kBase
      else if family \<in> {''cl100k_base'', ''claude'', ''gemini''} then load Cl100kBase
      else if family = ''p50k_base'' then load P50kBase
      else if family = ''p50k_edit'' then load P50kEdit
      else if family = ''r50k_base'' then load R50kBase
      else None)"

definition countTokens :: "tokenizers \<Rightarrow> string \<Rightarrow> string \<Rightarrow> int" where
  "countTokens load text family =
     (let text = TrimSpace text
      in if text = [] then 0
         else case tokenizerForFamily load family of
           None \<Rightarrow> 0
         | Some encoder \<Rightarrow> (case encoder text of None \<Rightarrow> 0 | Some n \<Rightarrow> n))"

definition saturatingTokenMargin :: "int \<Rightarrow> int \<Rightarrow> int \<Rightarrow> int" where
  "saturatingTokenMargin value numerator denominator =
     (if value \<le> 0 \<or> numerator \<le> 0 \<or> denominator \<le> 0 then value
      else if value > go_div (MaxInt64 - (denominator - 1)) numerator then MaxInt64
      else go_div (i64 (i64 (value * numerator) + denominator - 1)) denominator)"

definition saturatingMultiply :: "int \<Rightarrow> int \<Rightarrow> int" where
  "saturatingMultiply first second =
     (if first \<le> 0 \<or> second \<le> 0 then 0
      else if first > go_div MaxInt64 second then MaxInt64
      else i64 (first * second))"

section \<open>The estimate of a request\<close>

definition promptText :: "(string \<Rightarrow> string) option \<Rightarrow> Request \<Rightarrow> string" where
  "promptText projector req =
     (if rq_RawBody req \<noteq> [] then
        let text = (case projector of None \<Rightarrow> [] | Some project \<Rightarrow> project (rq_RawBody req))
        in if text = [] then rq_RawBody req else text
      else h_PromptText (rq_Hints req))"

definition meteredTokens :: "tokenizers \<Rightarrow> string \<Rightarrow> string \<Rightarrow> int" where
  "meteredTokens load family text =
     (let n = countTokens load text family
      in if n > 0 \<and> family \<in> {''claude'', ''gemini''} then saturatingTokenMargin n 5 4 else n)"

definition inputEstimate :: "tokenizers \<Rightarrow> string \<Rightarrow> string \<Rightarrow> Request \<Rightarrow> int" where
  "inputEstimate load family text req =
     (let n = meteredTokens load family text;
          n = (if n = 0 then int (length text) else n);
          n = (if n = 0 then h_EstimatedInputTokens (rq_Hints req) else n);
          n = (if n = 0 \<and> m_BodyBytes (rq_Meta req) > 0 then
                 let q = go_div (m_BodyBytes (rq_Meta req)) 4 in if q = 0 then 1 else q
               else n);
          n = (if n = 0 \<and> h_PromptText (rq_Hints req) \<noteq> [] then
                 int (RuneCount (map byte (h_PromptText (rq_Hints req)))) div 4 + 1
               else n)
      in if n = 0 then 1 else n)"

definition estimateUsage :: "tokenizers \<Rightarrow> Request \<Rightarrow> string \<Rightarrow> (string \<Rightarrow> string) option \<Rightarrow> Usage" where
  "estimateUsage load req family projector =
     (let inp = inputEstimate load family (promptText projector req) req;
          out = (if rq_Operation req = OpEmbeddings then 0 else RequestedMaxOutputTokens req)
      in zero_usage\<lparr>u_InputTokens := inp, u_OutputTokens := out, u_TotalTokens := policy_saturatingAdd inp out\<rparr>)"

section \<open>The estimate of a candidate\<close>

text \<open>What the request asks for, unless the provider's parameters say otherwise.\<close>

definition requestedOutput :: "EffectiveParams option \<Rightarrow> Request \<Rightarrow> int" where
  "requestedOutput effective req =
     (case effective of
        Some e \<Rightarrow> if ep_MaxOutputTokens e > 0 then ep_MaxOutputTokens e else RequestedMaxOutputTokens req
      | None \<Rightarrow> RequestedMaxOutputTokens req)"

definition reserveCandidateOutput :: "Usage \<Rightarrow> ResolvedRoute \<Rightarrow> EffectiveParams option \<Rightarrow> Usage" where
  "reserveCandidateOutput usage candidate effective =
     (if rq_Operation (rr_Request candidate) = OpEmbeddings then
        usage\<lparr>u_OutputTokens := 0, u_TotalTokens := max (u_TotalTokens usage) (u_InputTokens usage)\<rparr>
      else
        let requested = requestedOutput effective (rr_Request candidate);
            requested = (case rr_Route candidate of
                           Some route \<Rightarrow> if requested \<le> 0 then cap_MaxOutputTokens (r_Capabilities route) else requested
                         | None \<Rightarrow> requested);
            requested = (if requested \<le> 0 then 256 else requested);
            multiplier = h_OutputMultiplicity (rq_Hints (rr_Request candidate));
            multiplier = (if multiplier \<le> 0 then 1 else multiplier);
            reserved = saturatingMultiply requested multiplier;
            usage = (if u_OutputTokens usage < reserved then usage\<lparr>u_OutputTokens := reserved\<rparr> else usage);
            minimum = policy_saturatingAdd (u_InputTokens usage) (u_OutputTokens usage)
        in if u_TotalTokens usage < minimum then usage\<lparr>u_TotalTokens := minimum\<rparr> else usage)"

definition addMultimodalSurcharges :: "Usage \<Rightarrow> RequestHints \<Rightarrow> Capability \<Rightarrow> Usage" where
  "addMultimodalSurcharges usage hints capabilities =
     (let vision = saturatingMultiply (h_VisionInputParts hints) (cap_VisionInputTokenSurcharge capabilities);
          audio = saturatingMultiply (h_AudioInputParts hints) (cap_AudioInputTokenSurcharge capabilities);
          surcharge = policy_saturatingAdd vision audio;
          usage = usage\<lparr>u_InputTokens := policy_saturatingAdd (u_InputTokens usage) surcharge,
                        u_TotalTokens := policy_saturatingAdd (u_TotalTokens usage) surcharge\<rparr>;
          minimum = policy_saturatingAdd (u_InputTokens usage) (u_OutputTokens usage)
      in if u_TotalTokens usage < minimum then usage\<lparr>u_TotalTokens := minimum\<rparr> else usage)"

definition reserveUnit :: "Pricing \<Rightarrow> string \<Rightarrow> Usage \<Rightarrow> Usage" where
  "reserveUnit pricing unit usage =
     (case map_of (p_ProviderUnits pricing) unit of
        None \<Rightarrow> usage
      | Some unitPricing \<Rightarrow>
          if pu_MaxUnitsPerRequest unitPricing \<le> 0 then usage
          else if mget (map_of (u_ProviderDetails usage)) unit < pu_MaxUnitsPerRequest unitPricing
          then usage\<lparr>u_ProviderDetails := AList.update unit (pu_MaxUnitsPerRequest unitPricing) (u_ProviderDetails usage)\<rparr>
          else usage)"

definition addProviderUnitReservations :: "Usage \<Rightarrow> RequestHints \<Rightarrow> Pricing \<Rightarrow> Usage" where
  "addProviderUnitReservations usage hints pricing = fold (reserveUnit pricing) (h_ProviderUnits hints) usage"

text \<open>The hooks of the providers, by provider name.\<close>

record tokenHooks =
  th_Counters :: "string \<rightharpoonup> (ResolvedRoute \<Rightarrow> Request \<Rightarrow> goerr + Usage)"
  th_Builders :: "string \<rightharpoonup> (ResolvedRoute \<Rightarrow> Request \<Rightarrow> goerr + EffectiveParams option)"
  th_Projectors :: "string \<rightharpoonup> (string \<Rightarrow> string)"

definition countedUsage :: "tokenHooks \<Rightarrow> ResolvedRoute \<Rightarrow> Usage \<Rightarrow> Usage" where
  "countedUsage t candidate estimate =
     (case th_Counters t (r_Provider (the (rr_Route candidate))) of
        None \<Rightarrow> estimate
      | Some counter \<Rightarrow>
          (case counter candidate (rr_Request candidate) of
             Inl err \<Rightarrow> estimate
           | Inr counted \<Rightarrow> ReconcileReportedUsage counted estimate))"

definition materializeCandidate ::
  "tokenHooks \<Rightarrow> tokenizers \<Rightarrow> ResolvedRoute \<Rightarrow> goerr + EffectiveParams option \<times> Usage" where
  "materializeCandidate t load candidate =
     (let route = the (rr_Route candidate); req = rr_Request candidate;
          estimate = estimateUsage load req (cap_Tokenizer (r_Capabilities route)) (th_Projectors t (r_Provider route))
      in case (case th_Builders t (r_Provider route) of None \<Rightarrow> Inr None | Some builder \<Rightarrow> builder candidate req) of
           Inl err \<Rightarrow> Inl err
         | Inr effective \<Rightarrow>
             let candidate = (if th_Builders t (r_Provider route) = None then candidate else candidate\<lparr>rr_Effective := effective\<rparr>);
                 estimate = countedUsage t candidate estimate;
                 estimate = reserveCandidateOutput estimate candidate effective;
                 estimate = addMultimodalSurcharges estimate (rq_Hints req) (r_Capabilities route);
                 estimate = (if h_MayWritePromptCache (rq_Hints req)
                             then estimate\<lparr>u_CacheWriteTokens := u_InputTokens estimate\<rparr> else estimate);
                 estimate = addProviderUnitReservations estimate (rq_Hints req) (r_Pricing route)
             in Inr (effective, estimate))"

section \<open>Validation of the candidates\<close>

datatype tokenVerdict = Skip | TooMuchInput | TooMuchOutput | Keep ResolvedRoute

definition judgeCandidate :: "tokenHooks \<Rightarrow> tokenizers \<Rightarrow> ResolvedRoute \<Rightarrow> tokenVerdict" where
  "judgeCandidate t load candidate =
     (case materializeCandidate t load candidate of
        Inl err \<Rightarrow> Skip
      | Inr (effective, estimate) \<Rightarrow>
          let candidate = candidate\<lparr>rr_Effective := effective, rr_Estimate := estimate\<rparr>;
              capabilities = r_Capabilities (the (rr_Route candidate))
          in if cap_MaxInputTokens capabilities > 0 \<and> u_InputTokens estimate > cap_MaxInputTokens capabilities
             then TooMuchInput
             else if cap_MaxOutputTokens capabilities > 0 \<and>
               requestedOutput effective (rr_Request candidate) > cap_MaxOutputTokens capabilities
             then TooMuchOutput
             else Keep candidate)"

text \<open>The candidates that are kept, and the error when there are none.\<close>

definition validateCandidates :: "tokenHooks \<Rightarrow> tokenizers \<Rightarrow> ResolvedRoute list \<Rightarrow> goerr + ResolvedRoute list" where
  "validateCandidates t load candidates =
     (let verdicts = map (judgeCandidate t load) candidates;
          filtered = List.map_filter (\<lambda>v. case v of Keep c \<Rightarrow> Some c | _ \<Rightarrow> None) verdicts
      in if filtered \<noteq> [] then Inr filtered
         else if TooMuchInput \<in> set verdicts then
           Inl (api (NewError 400 ''invalid_request_error'' ''max_input_tokens_exceeded''
             ''estimated input tokens exceed configured maximum''))
         else if TooMuchOutput \<in> set verdicts then
           Inl (api (NewError 400 ''invalid_request_error'' ''max_output_tokens_exceeded''
             ''requested max output tokens exceed configured maximum''))
         else Inl (api (UnsupportedOperation ''no resolved route passed token validation'')))"

definition maxUnit :: "string \<times> int \<Rightarrow> (string, int) gomap \<Rightarrow> (string, int) gomap" where
  "maxUnit e details =
     (if snd e > mget (map_of details) (fst e) then AList.update (fst e) (snd e) details else details)"

definition maxUsage :: "ResolvedRoute \<Rightarrow> Usage \<Rightarrow> Usage" where
  "maxUsage candidate acc =
     (let e = rr_Estimate candidate
      in acc\<lparr>u_InputTokens := max (u_InputTokens acc) (u_InputTokens e),
             u_OutputTokens := max (u_OutputTokens acc) (u_OutputTokens e),
             u_TotalTokens := max (u_TotalTokens acc) (u_TotalTokens e),
             u_ProviderDetails := fold maxUnit (u_ProviderDetails e) (u_ProviderDetails acc)\<rparr>)"

definition maxEstimate :: "ResolvedRoute list \<Rightarrow> Usage" where
  "maxEstimate candidates =
     (let out = fold maxUsage candidates zero_usage
      in if u_TotalTokens out = 0
         then out\<lparr>u_TotalTokens := policy_saturatingAdd (u_InputTokens out) (u_OutputTokens out)\<rparr> else out)"

section \<open>Arithmetic\<close>

lemma policy_saturatingAdd_sum: "policy_saturatingAdd a b = sat_sum a b"
  by (auto simp: policy_saturatingAdd_def sat_sum_def Let_def)

definition sat_prod :: "int \<Rightarrow> int \<Rightarrow> int" where
  "sat_prod a b = min MaxInt64 (max 0 a * max 0 b)"

lemma saturatingMultiply_prod: "saturatingMultiply a b = sat_prod a b"
proof (cases "0 < a \<and> 0 < b")
  case True
  then have "a > MaxInt64 div b \<longleftrightarrow> a * b > MaxInt64"
    using div_le_iff_mult [of b a MaxInt64] by (simp add: linorder_not_le [symmetric])
  moreover have "i64 (a * b) = a * b" if "a * b \<le> MaxInt64"
  proof -
    have "0 < a * b" using True by simp
    then have "MinInt64 \<le> a * b" by linarith
    with that show ?thesis by (simp add: i64_id)
  qed
  ultimately show ?thesis using True
    by (auto simp: saturatingMultiply_def sat_prod_def)
next
  case False
  then show ?thesis by (auto simp: saturatingMultiply_def sat_prod_def max_def)
qed

lemma sat_prod_range [simp]: "0 \<le> sat_prod a b" "sat_prod a b \<le> MaxInt64"
  by (simp_all add: sat_prod_def)

lemma margin_range:
  assumes "0 < v" "v \<le> MaxInt64"
  shows "v \<le> saturatingTokenMargin v 5 4 \<and> saturatingTokenMargin v 5 4 \<le> MaxInt64"
proof (cases "v > (MaxInt64 - 3) div 5")
  case True
  with assms show ?thesis by (simp add: saturatingTokenMargin_def)
next
  case False
  then have "v * 5 \<le> MaxInt64 - 3" by simp
  with assms have "i64 (v * 5) = v * 5" "i64 (v * 5 + 4 - 1) = v * 5 + 3"
    by (simp_all add: i64_id in_i64_def)
  moreover have "v \<le> (v * 5 + 3) div 4" using assms(1) by presburger
  moreover have "4 * ((v * 5 + 3) div 4) \<le> v * 5 + 3" using mult_div_mod_eq [of 4 "v * 5 + 3"] pos_mod_sign [of 4 "v * 5 + 3"] by linarith
  ultimately show ?thesis using False assms \<open>v * 5 \<le> MaxInt64 - 3\<close> by (simp add: saturatingTokenMargin_def add.commute)
qed

section \<open>Estimates in range\<close>

text \<open>
  What is assumed of the parameters: tokenizers count at least zero tokens, counts of the providers are
  64-bit integers, and so are the sizes and hints of the request.
\<close>

definition tokenizers_ok :: "tokenizers \<Rightarrow> bool" where
  "tokenizers_ok load \<longleftrightarrow>
     (\<forall>enc codec text n. load enc = Some codec \<longrightarrow> codec text = Some n \<longrightarrow> 0 \<le> n \<and> n \<le> MaxInt64)"

definition counters_ok :: "tokenHooks \<Rightarrow> bool" where
  "counters_ok t \<longleftrightarrow>
     (\<forall>name counter c req usage. th_Counters t name = Some counter \<longrightarrow> counter c req = Inr usage \<longrightarrow> usage_in_range usage)"

definition request_sizes_ok :: "tokenHooks \<Rightarrow> ResolvedRoute \<Rightarrow> bool" where
  "request_sizes_ok t c \<longleftrightarrow>
     (let req = rr_Request c
      in int (length (promptText (th_Projectors t (r_Provider (the (rr_Route c)))) req)) \<le> MaxInt64 \<and>
         0 \<le> h_EstimatedInputTokens (rq_Hints req) \<and> h_EstimatedInputTokens (rq_Hints req) \<le> MaxInt64 \<and>
         in_i64 (h_MaxOutputTokens (rq_Hints req)) \<and> m_BodyBytes (rq_Meta req) \<le> MaxInt64)"

lemma tokenizerForFamily_load: "tokenizerForFamily load family = Some codec \<Longrightarrow> \<exists>enc. load enc = Some codec"
  unfolding tokenizerForFamily_def by (meson option.distinct(1))

lemma countTokens_range:
  assumes "tokenizers_ok load"
  shows "0 \<le> countTokens load text family \<and> countTokens load text family \<le> MaxInt64"
proof -
  have "0 \<le> n \<and> n \<le> MaxInt64" if "tokenizerForFamily load family = Some codec" "codec w = Some n" for codec w n
    using tokenizerForFamily_load [OF that(1)] that(2) assms unfolding tokenizers_ok_def by blast
  then show ?thesis unfolding countTokens_def Let_def by (auto split: option.split)
qed

lemma meteredTokens_range:
  assumes "tokenizers_ok load"
  shows "0 \<le> meteredTokens load family text \<and> meteredTokens load family text \<le> MaxInt64"
  using countTokens_range [OF assms, of "text" family] margin_range [of "countTokens load text family"]
  unfolding meteredTokens_def Let_def by auto

lemma promptText_Nil: "promptText p req = [] \<Longrightarrow> h_PromptText (rq_Hints req) = []"
  unfolding promptText_def Let_def by (meson)

lemma inputEstimate_range:
  assumes "tokenizers_ok load" "text = promptText p req" "int (length text) \<le> MaxInt64"
    and "0 \<le> h_EstimatedInputTokens (rq_Hints req)" "h_EstimatedInputTokens (rq_Hints req) \<le> MaxInt64"
    and "m_BodyBytes (rq_Meta req) \<le> MaxInt64"
  shows "0 < inputEstimate load family text req \<and> inputEstimate load family text req \<le> MaxInt64"
proof (cases "meteredTokens load family text = 0")
  case False
  then have "inputEstimate load family text req = meteredTokens load family text"
    by (simp add: inputEstimate_def Let_def)
  then show ?thesis using False meteredTokens_range [OF assms(1), of family "text"] by simp
next
  case True
  show ?thesis
  proof (cases "text = []")
    case False
    with True assms(3) show ?thesis by (simp add: inputEstimate_def Let_def)
  next
    case empty: True
    then have "h_PromptText (rq_Hints req) = []" using assms(2) promptText_Nil [of p req] by simp
    with True empty assms(4-6) show ?thesis by (auto simp: inputEstimate_def Let_def)
  qed
qed

lemma estimateUsage_range:
  assumes "tokenizers_ok load" "request_sizes_ok t c"
  shows "let e = estimateUsage load (rr_Request c) family (th_Projectors t (r_Provider (the (rr_Route c))))
    in 0 < u_InputTokens e \<and> usage_in_range e"
proof -
  let ?p = "th_Projectors t (r_Provider (the (rr_Route c)))"
  have "0 < inputEstimate load family (promptText ?p (rr_Request c)) (rr_Request c) \<and>
      inputEstimate load family (promptText ?p (rr_Request c)) (rr_Request c) \<le> MaxInt64"
    using assms(2) by (intro inputEstimate_range [OF assms(1) refl]) (simp_all add: request_sizes_ok_def Let_def)
  moreover have "in_i64 (RequestedMaxOutputTokens (rr_Request c))"
    using assms(2) by (simp add: request_sizes_ok_def Let_def RequestedMaxOutputTokens_def)
  ultimately show ?thesis
    by (simp add: estimateUsage_def Let_def usage_in_range_def policy_saturatingAdd_sum) (simp add: in_i64_def)
qed

lemma countedUsage_range:
  assumes "counters_ok t" "usage_in_range e" "0 \<le> u_InputTokens e"
  shows "usage_in_range (countedUsage t c e) \<and> 0 \<le> u_InputTokens (countedUsage t c e)"
proof -
  have "usage_in_range (ReconcileReportedUsage r e) \<and> 0 \<le> u_InputTokens (ReconcileReportedUsage r e)"
    if "usage_in_range r" for r
    using reconcile_normalized [OF that assms(2)] normalized_range by (auto simp: normalized_def)
  then show ?thesis using assms unfolding countedUsage_def counters_ok_def
    by (auto split: option.splits sum.splits)
qed

text \<open>The output a candidate may produce: per answer, times the number of answers.\<close>

definition outputPerAnswer :: "EffectiveParams option \<Rightarrow> ResolvedRoute \<Rightarrow> int" where
  "outputPerAnswer effective c =
     (let requested = requestedOutput effective (rr_Request c);
          capacity = cap_MaxOutputTokens (r_Capabilities (the (rr_Route c)))
      in if requested > 0 then requested else if capacity > 0 then capacity else 256)"

lemma reserveOutput_sel:
  assumes "usage_in_range u" "0 \<le> u_InputTokens u" "rr_Route c = Some r"
  shows "let v = reserveCandidateOutput u c eff in
    u_InputTokens v = u_InputTokens u \<and> 0 \<le> u_OutputTokens v \<and> u_OutputTokens v \<le> MaxInt64 \<and>
    sat_sum (u_InputTokens v) (u_OutputTokens v) \<le> u_TotalTokens v \<and> u_TotalTokens v \<le> MaxInt64 \<and>
    (rq_Operation (rr_Request c) \<noteq> OpEmbeddings \<longrightarrow>
      sat_prod (outputPerAnswer eff c) (max 1 (h_OutputMultiplicity (rq_Hints (rr_Request c)))) \<le> u_OutputTokens v)"
proof (cases "rq_Operation (rr_Request c) = OpEmbeddings")
  case True
  then show ?thesis using assms
    by (auto simp: reserveCandidateOutput_def usage_in_range_def in_i64_def Let_def sat_sum_def)
next
  case False
  let ?m = "h_OutputMultiplicity (rq_Hints (rr_Request c))"
  have m: "(if ?m \<le> 0 then 1 else ?m) = max 1 ?m" by auto
  have p: "(let requested = requestedOutput eff (rr_Request c);
      requested = (if requested \<le> 0 then cap_MaxOutputTokens (r_Capabilities r) else requested)
      in if requested \<le> 0 then 256 else requested) = outputPerAnswer eff c"
    using assms(3) by (auto simp: outputPerAnswer_def Let_def)
  define res where "res = sat_prod (outputPerAnswer eff c) (max 1 ?m)"
  have "reserveCandidateOutput u c eff =
      (let u = (if u_OutputTokens u < res then u\<lparr>u_OutputTokens := res\<rparr> else u);
           minimum = sat_sum (u_InputTokens u) (u_OutputTokens u)
       in if u_TotalTokens u < minimum then u\<lparr>u_TotalTokens := minimum\<rparr> else u)"
    using False assms(3) p by (simp add: reserveCandidateOutput_def m res_def saturatingMultiply_prod policy_saturatingAdd_sum Let_def)
  moreover have "0 \<le> res" "res \<le> MaxInt64" by (simp_all add: res_def)
  ultimately show ?thesis using assms(1,2)
    by (auto simp: usage_in_range_def in_i64_def Let_def res_def [symmetric])
qed

lemma surcharges_sel:
  assumes "0 \<le> u_InputTokens u" "u_InputTokens u \<le> MaxInt64" "0 \<le> u_OutputTokens u" "u_TotalTokens u \<le> MaxInt64"
  shows "let v = addMultimodalSurcharges u hints caps in
    u_OutputTokens v = u_OutputTokens u \<and> u_InputTokens v = sat_sum (u_InputTokens u)
      (sat_sum (sat_prod (h_VisionInputParts hints) (cap_VisionInputTokenSurcharge caps))
        (sat_prod (h_AudioInputParts hints) (cap_AudioInputTokenSurcharge caps))) \<and>
    sat_sum (u_InputTokens v) (u_OutputTokens v) \<le> u_TotalTokens v \<and> u_TotalTokens v \<le> MaxInt64"
  by (auto simp: addMultimodalSurcharges_def Let_def policy_saturatingAdd_sum saturatingMultiply_prod)

lemma reserveUnit_sel [simp]:
  "u_InputTokens (reserveUnit p x u) = u_InputTokens u" "u_OutputTokens (reserveUnit p x u) = u_OutputTokens u"
  "u_TotalTokens (reserveUnit p x u) = u_TotalTokens u" "u_CacheWriteTokens (reserveUnit p x u) = u_CacheWriteTokens u"
  by (simp_all add: reserveUnit_def split: option.split)

lemma units_sel [simp]:
  "u_InputTokens (fold (reserveUnit p) xs u) = u_InputTokens u" "u_OutputTokens (fold (reserveUnit p) xs u) = u_OutputTokens u"
  "u_TotalTokens (fold (reserveUnit p) xs u) = u_TotalTokens u"
  "u_CacheWriteTokens (fold (reserveUnit p) xs u) = u_CacheWriteTokens u"
  by (induction xs arbitrary: u) simp_all

abbreviation units :: "Usage \<Rightarrow> string \<Rightarrow> int" where
  "units u \<equiv> mget (map_of (u_ProviderDetails u))"

lemma reserveUnit_mono: "units u y \<le> units (reserveUnit p x u) y"
  by (auto simp: reserveUnit_def split: option.split) (auto simp: mget_def)

lemma reserveUnit_covers:
  "map_of (p_ProviderUnits p) x = Some q \<Longrightarrow> 0 < pu_MaxUnitsPerRequest q \<Longrightarrow> pu_MaxUnitsPerRequest q \<le> units (reserveUnit p x u) x"
  by (auto simp: reserveUnit_def mget_def)

lemma units_mono: "units u y \<le> units (fold (reserveUnit p) xs u) y"
proof (induction xs arbitrary: u)
  case (Cons x xs)
  then show ?case using reserveUnit_mono [of u y p x] order_trans by (metis fold_simps(2))
qed simp

lemma units_cover:
  assumes "x \<in> set xs" "map_of (p_ProviderUnits p) x = Some q" "0 < pu_MaxUnitsPerRequest q"
  shows "pu_MaxUnitsPerRequest q \<le> units (fold (reserveUnit p) xs u) x"
proof -
  obtain ys zs where "xs = ys @ x # zs" using assms(1) split_list by metis
  then have "fold (reserveUnit p) xs u = fold (reserveUnit p) zs (reserveUnit p x (fold (reserveUnit p) ys u))" by simp
  then show ?thesis using reserveUnit_covers [OF assms(2,3)] units_mono order_trans by metis
qed

lemma materialize_shape:
  assumes "materializeCandidate t load c = Inr (eff, est)" "rr_Route c = Some route"
    and "tokenizers_ok load" "counters_ok t" "request_sizes_ok t c"
  shows "\<exists>c' e0. rr_Request c' = rr_Request c \<and> rr_Route c' = Some route \<and> usage_in_range e0 \<and> 0 \<le> u_InputTokens e0 \<and>
    est = (let v = addMultimodalSurcharges (reserveCandidateOutput e0 c' eff) (rq_Hints (rr_Request c)) (r_Capabilities route)
       in fold (reserveUnit (r_Pricing route)) (h_ProviderUnits (rq_Hints (rr_Request c)))
          (if h_MayWritePromptCache (rq_Hints (rr_Request c)) then v\<lparr>u_CacheWriteTokens := u_InputTokens v\<rparr> else v))"
proof -
  define e where "e = estimateUsage load (rr_Request c) (cap_Tokenizer (r_Capabilities route)) (th_Projectors t (r_Provider route))"
  define c' where "c' = (if th_Builders t (r_Provider route) = None then c else c\<lparr>rr_Effective := eff\<rparr>)"
  have c': "rr_Request c' = rr_Request c" "rr_Route c' = Some route" using assms(2) by (simp_all add: c'_def)
  have e: "usage_in_range e" "0 \<le> u_InputTokens e"
    using estimateUsage_range [OF assms(3,5), of "cap_Tokenizer (r_Capabilities route)"] assms(2) by (simp_all add: e_def Let_def)
  have "est = addProviderUnitReservations
      (let v = addMultimodalSurcharges (reserveCandidateOutput (countedUsage t c' e) c' eff) (rq_Hints (rr_Request c)) (r_Capabilities route)
       in if h_MayWritePromptCache (rq_Hints (rr_Request c)) then v\<lparr>u_CacheWriteTokens := u_InputTokens v\<rparr> else v)
      (rq_Hints (rr_Request c)) (r_Pricing route)"
    using assms(1,2) by (auto simp: materializeCandidate_def e_def c'_def Let_def split: option.splits sum.splits)
  then show ?thesis using c' countedUsage_range [OF assms(4) e, of c']
    unfolding addProviderUnitReservations_def Let_def by blast
qed

section \<open>Properties\<close>

text \<open>
  C23. The estimate of a candidate bounds what the request may consume: it is made of nonnegative 64-bit
  counts whose total is at least input plus output; its input contains the surcharges of all images and
  audio parts; its output covers the longest answer the provider may give times the number of answers
  requested, or stops at the largest integer; prompt-cache writes are reserved in full, and so is the
  maximum of every hosted tool that has a price.
\<close>

theorem estimate_covers_request:
  assumes "materializeCandidate t load c = Inr (eff, est)" "rr_Route c = Some route"
    and "tokenizers_ok load" "counters_ok t" "request_sizes_ok t c"
  shows "0 \<le> u_InputTokens est \<and> u_InputTokens est \<le> MaxInt64 \<and> 0 \<le> u_OutputTokens est \<and> u_OutputTokens est \<le> MaxInt64 \<and>
    sat_sum (u_InputTokens est) (u_OutputTokens est) \<le> u_TotalTokens est \<and> u_TotalTokens est \<le> MaxInt64 \<and>
    sat_sum (sat_prod (h_VisionInputParts (rq_Hints (rr_Request c))) (cap_VisionInputTokenSurcharge (r_Capabilities route)))
      (sat_prod (h_AudioInputParts (rq_Hints (rr_Request c))) (cap_AudioInputTokenSurcharge (r_Capabilities route))) \<le> u_InputTokens est \<and>
    (rq_Operation (rr_Request c) \<noteq> OpEmbeddings \<longrightarrow>
      sat_prod (outputPerAnswer eff c) (max 1 (h_OutputMultiplicity (rq_Hints (rr_Request c)))) \<le> u_OutputTokens est) \<and>
    (h_MayWritePromptCache (rq_Hints (rr_Request c)) \<longrightarrow> u_CacheWriteTokens est = u_InputTokens est) \<and>
    (\<forall>x \<in> set (h_ProviderUnits (rq_Hints (rr_Request c))). \<forall>q. map_of (p_ProviderUnits (r_Pricing route)) x = Some q \<longrightarrow>
      0 < pu_MaxUnitsPerRequest q \<longrightarrow> pu_MaxUnitsPerRequest q \<le> mget (map_of (u_ProviderDetails est)) x)"
proof -
  obtain c' e0 where c': "rr_Request c' = rr_Request c" "rr_Route c' = Some route"
    and e0: "usage_in_range e0" "0 \<le> u_InputTokens e0"
    and est: "est = (let v = addMultimodalSurcharges (reserveCandidateOutput e0 c' eff) (rq_Hints (rr_Request c)) (r_Capabilities route)
       in fold (reserveUnit (r_Pricing route)) (h_ProviderUnits (rq_Hints (rr_Request c)))
          (if h_MayWritePromptCache (rq_Hints (rr_Request c)) then v\<lparr>u_CacheWriteTokens := u_InputTokens v\<rparr> else v))"
    using materialize_shape [OF assms] by blast
  define v1 where "v1 = reserveCandidateOutput e0 c' eff"
  define v where "v = addMultimodalSurcharges v1 (rq_Hints (rr_Request c)) (r_Capabilities route)"
  note v1 = reserveOutput_sel [OF e0 c'(2), of eff, unfolded Let_def, folded v1_def]
  have v1_in: "0 \<le> u_InputTokens v1" "u_InputTokens v1 \<le> MaxInt64" using v1 e0 by (simp_all add: usage_in_range_def in_i64_def)
  note v = surcharges_sel [of v1 "rq_Hints (rr_Request c)" "r_Capabilities route", unfolded Let_def, folded v_def]
  have per: "outputPerAnswer eff c' = outputPerAnswer eff c" using c' assms(2) by (simp add: outputPerAnswer_def)
  let ?w = "if h_MayWritePromptCache (rq_Hints (rr_Request c)) then v\<lparr>u_CacheWriteTokens := u_InputTokens v\<rparr> else v"
  have w: "u_InputTokens ?w = u_InputTokens v" "u_OutputTokens ?w = u_OutputTokens v" "u_TotalTokens ?w = u_TotalTokens v" by simp_all
  have est: "est = fold (reserveUnit (r_Pricing route)) (h_ProviderUnits (rq_Hints (rr_Request c))) ?w"
    using est by (simp add: v_def v1_def Let_def)
  let ?s = "sat_sum (sat_prod (h_VisionInputParts (rq_Hints (rr_Request c))) (cap_VisionInputTokenSurcharge (r_Capabilities route)))
      (sat_prod (h_AudioInputParts (rq_Hints (rr_Request c))) (cap_AudioInputTokenSurcharge (r_Capabilities route)))"
  have v: "u_OutputTokens v = u_OutputTokens v1" "u_InputTokens v = sat_sum (u_InputTokens v1) ?s"
    "sat_sum (u_InputTokens v) (u_OutputTokens v) \<le> u_TotalTokens v" "u_TotalTokens v \<le> MaxInt64"
    using v v1 v1_in by blast+
  have s: "?s \<le> u_InputTokens v" unfolding v(2) by (subst sat_sum_commute) (simp add: sat_sum_ge_left)
  have "0 \<le> u_InputTokens v" "u_InputTokens v \<le> MaxInt64" by (simp_all add: v(2))
  moreover have "0 \<le> u_OutputTokens v" "u_OutputTokens v \<le> MaxInt64" using v1 v(1) by simp_all
  moreover have "rq_Operation (rr_Request c) \<noteq> OpEmbeddings \<Longrightarrow>
      sat_prod (outputPerAnswer eff c) (max 1 (h_OutputMultiplicity (rq_Hints (rr_Request c)))) \<le> u_OutputTokens v"
    using v1 v(1) per c'(1) by simp
  moreover have "h_MayWritePromptCache (rq_Hints (rr_Request c)) \<Longrightarrow> u_CacheWriteTokens ?w = u_InputTokens v" by simp
  ultimately show ?thesis unfolding est units_sel w using v(3,4) s units_cover by blast
qed

text \<open>Three answers of at most 100 tokens to a prompt of eleven bytes.\<close>

definition demo_tokenizers :: tokenizers where
  "demo_tokenizers enc = Some (\<lambda>s. Some (int (length s) mod 7))"

definition demo_hooks :: tokenHooks where
  "demo_hooks = \<lparr>th_Counters = Map.empty, th_Builders = Map.empty, th_Projectors = Map.empty\<rparr>"

definition demo_choices :: ResolvedRoute where
  "demo_choices = demo_resolved\<lparr>rr_Request := demo_request\<lparr>rq_Hints := (rq_Hints demo_request)
     \<lparr>h_PromptText := ''hello world'', h_MaxOutputTokens := 100, h_OutputMultiplicity := 3\<rparr>\<rparr>\<rparr>"

definition demo_estimate :: Usage where
  "demo_estimate = zero_usage\<lparr>u_InputTokens := 11, u_OutputTokens := 300, u_TotalTokens := 311\<rparr>"

lemma demo_choices_ok: "tokenizers_ok demo_tokenizers" "counters_ok demo_hooks" "request_sizes_ok demo_hooks demo_choices"
  by (auto simp: tokenizers_ok_def demo_tokenizers_def counters_ok_def demo_hooks_def request_sizes_ok_def promptText_def
      demo_choices_def demo_resolved_def demo_request_def in_i64_def intro: order_trans [OF less_imp_le [OF pos_mod_bound]])

theorem estimate_covers_request_witness:
  "materializeCandidate demo_hooks demo_tokenizers demo_choices = Inr (None, demo_estimate) \<and>
   sat_prod 100 3 \<le> u_OutputTokens demo_estimate"
proof -
  have m: "materializeCandidate demo_hooks demo_tokenizers demo_choices = Inr (None, demo_estimate)" by code_simp
  have r: "rr_Route demo_choices = Some demo_route" by (simp add: demo_choices_def demo_resolved_def)
  have o: "rq_Operation (rr_Request demo_choices) \<noteq> OpEmbeddings \<and> outputPerAnswer None demo_choices = 100 \<and>
      max 1 (h_OutputMultiplicity (rq_Hints (rr_Request demo_choices))) = 3" by code_simp
  show ?thesis using estimate_covers_request [OF m r demo_choices_ok] o m by metis
qed

end
