(* ===== verification/Request_Policies.thy ===== *)
theory Request_Policies
  imports Engine Limit_Stores Token_Validation
begin

text \<open>
  The interceptors a request passes before its quota is reserved (\<open>policy/request.go\<close>,
  \<open>policy/token.go\<close>, \<open>policy/jwt.go\<close>): authentication, the checks of metadata and of required
  identities, the size of the body, token limits, access control, the preflight of the providers and the
  quota scopes, in the order \<open>app/app.go\<close> puts them. An interceptor either stops the request with an
  error or hands the changed state to the next one. Parsing and verifying a JSON web token
  (\<open>golang-jwt\<close>) and its key are parameters.
\<close>

section \<open>Principals\<close>

record Principal =
  pr_ID :: string
  pr_Name :: string
  pr_KeyID :: string
  pr_Providers :: "string list"
  pr_Models :: "string list"
  pr_Projects :: "string list"
  pr_Permissions :: "string list"
  pr_QuotaKey :: string

record Subject =
  su_KeyID :: string

definition Principal_Subject :: "Principal \<Rightarrow> Subject" where
  "Principal_Subject p = \<lparr>su_KeyID = firstNonEmpty [pr_KeyID p, pr_QuotaKey p, pr_ID p]\<rparr>"

record JWTClaimMapping =
  jc_Principal :: string
  jc_Name :: string
  jc_KeyID :: string
  jc_Providers :: string
  jc_Models :: string
  jc_Projects :: string
  jc_Permissions :: string

record JWTConfig =
  jw_Algorithm :: string
  jw_Issuer :: string
  jw_Audience :: string
  jw_Secret :: string
  jw_PublicKey :: string
  jw_Claims :: JWTClaimMapping

definition JWT_Enabled :: "JWTConfig \<Rightarrow> bool" where
  "JWT_Enabled j \<longleftrightarrow> jw_Secret j \<noteq> [] \<or> jw_PublicKey j \<noteq> []"

abbreviation orDefault :: "string \<Rightarrow> string \<Rightarrow> string" where
  "orDefault s d \<equiv> (if s = [] then d else s)"

definition JWT_Normalize :: "JWTConfig \<Rightarrow> JWTConfig" where
  "JWT_Normalize j =
     (let algorithm = (if jw_Algorithm j \<noteq> [] then jw_Algorithm j
                       else if jw_Secret j \<noteq> [] then ''HS256''
                       else if jw_PublicKey j \<noteq> [] then ''RS256'' else []);
          c = jw_Claims j;
          normalized = ToUpper algorithm
      in j\<lparr>jw_Claims :=
             \<lparr>jc_Principal = orDefault (jc_Principal c) ''sub'', jc_Name = orDefault (jc_Name c) ''name'',
              jc_KeyID = orDefault (jc_KeyID c) ''key_id'', jc_Providers = orDefault (jc_Providers c) ''providers'',
              jc_Models = orDefault (jc_Models c) ''models'', jc_Projects = orDefault (jc_Projects c) ''projects'',
              jc_Permissions = orDefault (jc_Permissions c) ''permissions''\<rparr>,
           jw_Algorithm := if normalized = ''EDDSA'' then ''EdDSA'' else normalized\<rparr>)"

section \<open>JSON web tokens\<close>

text \<open>The dynamic types of a claim that the code tells apart.\<close>

datatype claim = ClaimString string | ClaimStringer string | ClaimStrings "string list" | ClaimList "claim list" | ClaimOther

type_synonym claims = "string \<rightharpoonup> claim"

definition claimString :: "claims \<Rightarrow> string \<Rightarrow> string" where
  "claimString claims key =
     (if key = [] then []
      else case claims key of
        Some (ClaimString value) \<Rightarrow> TrimSpace value
      | Some (ClaimStringer value) \<Rightarrow> TrimSpace value
      | _ \<Rightarrow> [])"

definition sanitizeClaimList :: "string list \<Rightarrow> string list" where
  "sanitizeClaimList values = filter (\<lambda>v. v \<noteq> []) (map TrimSpace values)"

definition splitClaimList :: "string \<Rightarrow> string list" where
  "splitClaimList value = sanitizeClaimList (SplitByte CHR '','' value)"

fun claimItems :: "claim list \<Rightarrow> string list option" where
  "claimItems [] = Some []"
| "claimItems (ClaimString t # items) =
     (if TrimSpace t = [] then None else map_option (Cons (TrimSpace t)) (claimItems items))"
| "claimItems (_ # items) = None"

definition claimStrings :: "claims \<Rightarrow> string \<Rightarrow> bool \<Rightarrow> goerr + string list" where
  "claimStrings claims key requireNonEmpty =
     (if key = [] then Inr []
      else case claims key of
        None \<Rightarrow> Inr []
      | Some raw \<Rightarrow>
          (case (case raw of
                   ClaimString value \<Rightarrow> Inr (splitClaimList value)
                 | ClaimStrings value \<Rightarrow> Inr (sanitizeClaimList value)
                 | ClaimList value \<Rightarrow>
                     (case claimItems value of
                        None \<Rightarrow> Inl (Plain (''claim '' @ key @ '' must contain only non-empty strings''))
                      | Some out \<Rightarrow> Inr out)
                 | _ \<Rightarrow> Inl (Plain (''claim '' @ key @ '' must be a string or string array''))) of
             Inl err \<Rightarrow> Inl err
           | Inr out \<Rightarrow>
               if requireNonEmpty \<and> out = [] then Inl (Plain (''claim '' @ key @ '' must not be empty'')) else Inr out))"

text \<open>What the parser of the library is asked to check besides the signature.\<close>

record parserOptions =
  po_ValidMethods :: "string list"
  po_ExpirationRequired :: bool
  po_Issuer :: "string option"
  po_Audience :: "string option"

definition jwtOptions :: "JWTConfig \<Rightarrow> parserOptions" where
  "jwtOptions cfg =
     \<lparr>po_ValidMethods = [jw_Algorithm cfg], po_ExpirationRequired = True,
      po_Issuer = (if jw_Issuer cfg \<noteq> [] then Some (jw_Issuer cfg) else None),
      po_Audience = (if jw_Audience cfg \<noteq> [] then Some (jw_Audience cfg) else None)\<rparr>"

text \<open>
  The library verifies a token with the key and the options and returns its claims, or nothing for an
  invalid token. The key comes from the configuration, which may be unusable.
\<close>

record 'key jwtLibrary =
  jl_VerificationKey :: "JWTConfig \<Rightarrow> 'key option"
  jl_ParseWithClaims :: "'key \<Rightarrow> parserOptions \<Rightarrow> string \<Rightarrow> claims option"

definition claimsPrincipal :: "JWTClaimMapping \<Rightarrow> claims \<Rightarrow> goerr + Principal" where
  "claimsPrincipal m claims =
     (case claimStrings claims (jc_Providers m) True of
        Inl err \<Rightarrow> Inl (api (Unauthorized ''jwt has invalid provider authorization claims''))
      | Inr providers \<Rightarrow>
      case claimStrings claims (jc_Models m) True of
        Inl err \<Rightarrow> Inl (api (Unauthorized ''jwt has invalid model authorization claims''))
      | Inr models \<Rightarrow>
      case claimStrings claims (jc_Projects m) True of
        Inl err \<Rightarrow> Inl (api (Unauthorized ''jwt has invalid project authorization claims''))
      | Inr projects \<Rightarrow>
      case claimStrings claims (jc_Permissions m) False of
        Inl err \<Rightarrow> Inl (api (Unauthorized ''jwt has invalid permission claims''))
      | Inr permissions \<Rightarrow>
          let who = \<lparr>pr_ID = firstNonEmpty [claimString claims (jc_Principal m), claimString claims ''sub''],
                pr_Name = claimString claims (jc_Name m), pr_KeyID = claimString claims (jc_KeyID m), pr_Providers = providers,
                pr_Models = models, pr_Projects = projects, pr_Permissions = permissions, pr_QuotaKey = []\<rparr>;
              who = (if pr_ID who = [] then who\<lparr>pr_ID := pr_KeyID who\<rparr> else who)
          in if pr_ID who = [] then Inl (api (Unauthorized ''jwt is missing a stable principal identity''))
             else Inr who)"

definition parseJWTPrincipal :: "'key jwtLibrary \<Rightarrow> JWTConfig \<Rightarrow> string \<Rightarrow> goerr + Principal" where
  "parseJWTPrincipal lib cfg rawToken =
     (let cfg = JWT_Normalize cfg
      in case jl_VerificationKey lib cfg of
           None \<Rightarrow> Inl (api (NewError 500 ''server_error'' ''jwt_config_invalid'' ''authentication configuration is invalid''))
         | Some key \<Rightarrow>
             (case jl_ParseWithClaims lib key (jwtOptions cfg) rawToken of
                None \<Rightarrow> Inl (api (Unauthorized ''invalid jwt''))
              | Some claims \<Rightarrow> claimsPrincipal (jw_Claims cfg) claims))"

record AuthConfig =
  ac_RequireUser :: bool
  ac_RequireProject :: bool
  ac_AllowAnonymous :: bool
  ac_Tokens :: "(string, Principal) gomap"
  ac_JWT :: JWTConfig

definition AuthenticatePrincipal :: "'key jwtLibrary \<Rightarrow> AuthConfig \<Rightarrow> string \<Rightarrow> goerr + Principal" where
  "AuthenticatePrincipal lib auth rawToken =
     (case map_of (ac_Tokens auth) rawToken of
        Some who \<Rightarrow> Inr who
      | None \<Rightarrow>
          if JWT_Enabled (ac_JWT auth) then parseJWTPrincipal lib (ac_JWT auth) rawToken
          else Inl (api (Unauthorized ''invalid bearer token'')))"

section \<open>Authentication\<close>

text \<open>The part of \<open>RequestState\<close> the interceptors read and write.\<close>

record policyState =
  ps_Request :: Request
  ps_Principal :: "Principal option"
  ps_Subject :: Subject
  ps_Candidates :: candidateState
  ps_Scopes :: "ScopedLimit list"
  ps_Estimate :: Usage

text \<open>\<open>Header.Get\<close> with the name in canonical form.\<close>

definition Header_Get :: "Header \<Rightarrow> string \<Rightarrow> string" where
  "Header_Get headers name = (case map_of headers name of Some (value # _) \<Rightarrow> value | _ \<Rightarrow> [])"

definition headerValue :: "Header \<Rightarrow> string \<Rightarrow> string" where
  "headerValue headers name =
     (if Header_Get headers name \<noteq> [] then Header_Get headers name
      else case find (\<lambda>(key, values). ToLower key = ToLower name \<and> values \<noteq> []) headers of
        Some (key, values) \<Rightarrow> hd values
      | None \<Rightarrow> [])"

text \<open>The token and whether one was presented.\<close>

definition gatewayToken :: "Request \<Rightarrow> string \<times> bool" where
  "gatewayToken req =
     (let auth = TrimSpace (headerValue (m_Headers (rq_Meta req)) ''Authorization'')
      in if auth \<noteq> [] then
           if \<not> HasPrefix (ToLower auth) ''bearer '' then ([], True) else (TrimSpace (drop 7 auth), True)
         else ([], False))"

definition metadataProject :: "Request \<Rightarrow> string" where
  "metadataProject req = (case map_of (h_Metadata (rq_Hints req)) ''project'' of None \<Rightarrow> [] | Some project \<Rightarrow> project)"

definition enrichMeta :: "policyState \<Rightarrow> policyState" where
  "enrichMeta state =
     (let req = ps_Request state; meta = rq_Meta req; headers = m_Headers meta;
          meta = (if m_User meta = [] then meta\<lparr>m_User := firstNonEmpty
                    [Header_Get headers ''X-Llmgw-User'', Header_Get headers ''Openai-User'', h_User (rq_Hints req)]\<rparr>
                  else meta);
          meta = (if m_Project meta = [] then meta\<lparr>m_Project := firstNonEmpty
                    [Header_Get headers ''X-Llmgw-Project'', Header_Get headers ''X-Project-Id'',
                     Header_Get headers ''Openai-Project'', metadataProject req]\<rparr>
                  else meta)
      in state\<lparr>ps_Request := req\<lparr>rq_Meta := meta\<rparr>\<rparr>)"

definition bindPrincipal :: "Principal \<Rightarrow> policyState \<Rightarrow> policyState" where
  "bindPrincipal who state =
     (let req = ps_Request state
      in state\<lparr>ps_Principal := Some who,
               ps_Request := req\<lparr>rq_Meta := (rq_Meta req)\<lparr>m_Principal := firstNonEmpty [pr_ID who, pr_KeyID who]\<rparr>\<rparr>,
               ps_Subject := Principal_Subject who\<rparr>)"

text \<open>An interceptor: an error, or none and the next one is called.\<close>

type_synonym interceptor = "policyState \<Rightarrow> goerr option \<times> policyState"

definition Auth :: "'key jwtLibrary \<Rightarrow> AuthConfig \<Rightarrow> Principal option \<Rightarrow> interceptor" where
  "Auth lib auth fromContext state =
     (case fromContext of
        Some who \<Rightarrow> (None, bindPrincipal who (enrichMeta state))
      | None \<Rightarrow>
          if ac_Tokens auth = [] \<and> \<not> JWT_Enabled (ac_JWT auth) then
            if \<not> ac_AllowAnonymous auth then (Some (api (Unauthorized ''authentication is not configured'')), state)
            else (None, enrichMeta state)
          else case gatewayToken (ps_Request state) of (token, presented) \<Rightarrow>
            if \<not> presented then
              if ac_AllowAnonymous auth then (None, enrichMeta state)
              else (Some (api (Unauthorized ''missing bearer token'')), state)
            else case AuthenticatePrincipal lib auth token of
              Inl err \<Rightarrow> (Some err, state)
            | Inr who \<Rightarrow> (None, bindPrincipal who (enrichMeta state)))"

section \<open>Checks of the request\<close>

definition MetadataValidation :: interceptor where
  "MetadataValidation state =
     (case validateForwardedIdentity ''user'' (m_User (rq_Meta (ps_Request state))) of
        Some err \<Rightarrow> (Some err, state)
      | None \<Rightarrow>
          (case validateForwardedIdentity ''project'' (m_Project (rq_Meta (ps_Request state))) of
             Some err \<Rightarrow> (Some err, state)
           | None \<Rightarrow> (None, state)))"

definition RequireUser :: "AuthConfig \<Rightarrow> interceptor" where
  "RequireUser auth state =
     (if ac_RequireUser auth \<and> m_User (rq_Meta (ps_Request state)) = [] then
        (Some (api (NewError 400 ''invalid_request_error'' ''missing_user'' ''user is required'')), state)
      else if ac_RequireProject auth \<and> m_Project (rq_Meta (ps_Request state)) = [] then
        (Some (api (NewError 400 ''invalid_request_error'' ''missing_project'' ''project is required'')), state)
      else (None, state))"

text \<open>Resolution of the candidates of the request as it is now.\<close>

type_synonym resolver = "Request \<Rightarrow> goerr + ResolvedRoute list"

definition resolved :: "resolver \<Rightarrow> policyState \<Rightarrow> (goerr + ResolvedRoute list) \<times> policyState" where
  "resolved resolve state =
     (let (answer, candidates) = ResolveCandidates (resolve (ps_Request state)) (ps_Candidates state)
      in (answer, state\<lparr>ps_Candidates := candidates\<rparr>))"

definition replaced :: "ResolvedRoute list \<Rightarrow> policyState \<Rightarrow> policyState" where
  "replaced candidates state = state\<lparr>ps_Candidates := ReplaceCandidates candidates (ps_Candidates state)\<rparr>"

definition RequestSize :: "resolver \<Rightarrow> interceptor" where
  "RequestSize resolve state =
     (case resolved resolve state of
        (Inl err, state) \<Rightarrow> (Some err, state)
      | (Inr candidates, state) \<Rightarrow>
          let filtered = filter (\<lambda>c. let maxBody = lc_MaxBodyBytes (r_Limits (the (rr_Route c)))
                in maxBody = 0 \<or> m_BodyBytes (rq_Meta (ps_Request state)) \<le> maxBody) candidates
          in if filtered = [] then
               (Some (api (NewError 413 ''invalid_request_error'' ''body_too_large'' ''request body exceeds route maximum'')), state)
             else (None, replaced filtered state))"

definition TokenValidation :: "tokenHooks \<Rightarrow> tokenizers \<Rightarrow> resolver \<Rightarrow> interceptor" where
  "TokenValidation t load resolve state =
     (case resolved resolve state of
        (Inl err, state) \<Rightarrow> (Some err, state)
      | (Inr candidates, state) \<Rightarrow>
          (case validateCandidates t load candidates of
             Inl err \<Rightarrow> (Some err, state)
           | Inr filtered \<Rightarrow> (None, (replaced filtered state)\<lparr>ps_Estimate := maxEstimate filtered\<rparr>)))"

section \<open>Access control\<close>

definition aclProviders :: "resolver \<Rightarrow> Principal \<Rightarrow> interceptor" where
  "aclProviders resolve who state =
     (if pr_Providers who = [] then (None, state)
      else case resolved resolve state of
        (Inl err, state) \<Rightarrow> (Some err, state)
      | (Inr candidates, state) \<Rightarrow>
          let filtered = filter (\<lambda>c. r_Provider (the (rr_Route c)) \<in> set (pr_Providers who)) candidates
          in if filtered = [] then (Some (api (Forbidden ''provider not allowed for this token'')), state)
             else (None, replaced filtered state))"

definition ACL :: "resolver \<Rightarrow> interceptor" where
  "ACL resolve state =
     (case ps_Principal state of
        None \<Rightarrow> (None, state)
      | Some who \<Rightarrow>
          if pr_Models who \<noteq> [] \<and> rq_Model (ps_Request state) \<notin> set (pr_Models who) then
            (Some (api (Forbidden ''model not allowed for this token'')), state)
          else if pr_Projects who \<noteq> [] \<and> m_Project (rq_Meta (ps_Request state)) = [] then
            (Some (api (Forbidden ''project is required for this token'')), state)
          else if pr_Projects who \<noteq> [] \<and> m_Project (rq_Meta (ps_Request state)) \<notin> set (pr_Projects who) then
            (Some (api (Forbidden ''project not allowed for this token'')), state)
          else aclProviders resolve who state)"

definition Preflight :: "(string \<rightharpoonup> Provider) \<Rightarrow> resolver \<Rightarrow> interceptor" where
  "Preflight providers resolve state =
     (let (err, candidates) = CandidatePreflight providers (resolve (ps_Request state)) (ps_Candidates state)
      in (err, state\<lparr>ps_Candidates := candidates\<rparr>))"

section \<open>Quota scopes\<close>

record QuotaConfig =
  qc_Profiles :: "(string, LimitSpec) gomap"
  qc_Keys :: "(string, string) gomap"

definition lookupQuotaLimit :: "QuotaConfig \<Rightarrow> string \<Rightarrow> LimitSpec option" where
  "lookupQuotaLimit quota name = (if name = [] then None else map_of (qc_Profiles quota) name)"

definition ResolveQuotaScopes :: "QuotaConfig \<Rightarrow> Subject \<Rightarrow> ScopedLimit list" where
  "ResolveQuotaScopes quota subject =
     (if su_KeyID subject \<noteq> [] then
        case lookupQuotaLimit quota (case map_of (qc_Keys quota) (su_KeyID subject) of None \<Rightarrow> [] | Some name \<Rightarrow> name) of
          Some limit \<Rightarrow> [\<lparr>sl_Ref = \<lparr>sr_Kind = ScopeKey, sr_ID = su_KeyID subject\<rparr>, sl_Limits = limit\<rparr>]
        | None \<Rightarrow> []
      else [])"

text \<open>The error of the context of the request, if it is done.\<close>

definition scopes_of ::
  "(string \<Rightarrow> limitAnswer) option \<Rightarrow> sentinel option \<Rightarrow> QuotaConfig \<Rightarrow> Subject \<Rightarrow> goerr + ScopedLimit list" where
  "scopes_of limits ctxErr quota subject =
     (if su_KeyID subject = [] then Inr []
      else case map_option (\<lambda>get. get (su_KeyID subject)) limits of
        Some (Inl err) \<Rightarrow>
          if (case ctxErr of None \<Rightarrow> False | Some e \<Rightarrow> err_is e err) then Inl err
          else Inl (ApiErr (WithDisposition False False False
            (NewError 503 ''server_error'' ''quota_limit_store_unavailable'' ''quota limit service is temporarily unavailable''))
            (Some err))
      | Some (Inr (limit, True)) \<Rightarrow>
          Inr [\<lparr>sl_Ref = \<lparr>sr_Kind = ScopeKey, sr_ID = su_KeyID subject\<rparr>, sl_Limits = limit\<rparr>]
      | _ \<Rightarrow> Inr (ResolveQuotaScopes quota subject))"

definition subjectForState :: "policyState \<Rightarrow> Subject" where
  "subjectForState state =
     (if su_KeyID (ps_Subject state) = []
      then \<lparr>su_KeyID = firstNonEmpty [m_Principal (rq_Meta (ps_Request state)), ''anonymous'']\<rparr>
      else ps_Subject state)"

definition hardSpendEnabled :: "ScopedLimit list \<Rightarrow> bool" where
  "hardSpendEnabled scopes \<longleftrightarrow> list_ex (\<lambda>scope. ls_MaxSpendMicros (sl_Limits scope) > 0) scopes"

definition unitPriced :: "ResolvedRoute \<Rightarrow> string \<Rightarrow> bool" where
  "unitPriced candidate unit \<longleftrightarrow>
     (case map_of (p_ProviderUnits (r_Pricing (the (rr_Route candidate)))) unit of
        None \<Rightarrow> False
      | Some pricing \<Rightarrow> \<not> f64_le (pu_MicrosPerUnit pricing) (Fin 0) \<and> 0 < pu_MaxUnitsPerRequest pricing)"

definition candidateHasRequiredUnitPricing :: "Request \<Rightarrow> ResolvedRoute \<Rightarrow> ScopedLimit list \<Rightarrow> bool" where
  "candidateHasRequiredUnitPricing req candidate scopes \<longleftrightarrow>
     h_ProviderUnits (rq_Hints req) = [] \<or> \<not> hardSpendEnabled scopes \<or> rr_Route candidate = None \<or>
     list_all (unitPriced candidate) (h_ProviderUnits (rq_Hints req))"

definition allowedByScope :: "Request \<Rightarrow> ResolvedRoute \<Rightarrow> ScopedLimit \<Rightarrow> bool" where
  "allowedByScope req candidate scope =
     (let l = sl_Limits scope;
          requested = requestedOutput (rr_Effective candidate) (rr_Request candidate);
          requested = (if requested = 0 then u_OutputTokens (rr_Estimate candidate) else requested)
      in if slice_elems (ls_ModelAllowlist l) \<noteq> [] \<and> rq_Model req \<notin> set (slice_elems (ls_ModelAllowlist l)) then False
         else if slice_elems (ls_ProviderAllowlist l) \<noteq> [] \<and>
           r_Provider (the (rr_Route candidate)) \<notin> set (slice_elems (ls_ProviderAllowlist l)) then False
         else if ls_MaxInputTokens l > 0 \<and> u_InputTokens (rr_Estimate candidate) > ls_MaxInputTokens l then False
         else if ls_MaxOutputTokens l > 0 \<and> requested > ls_MaxOutputTokens l then False
         else True)"

definition candidateAllowedByScopes :: "Request \<Rightarrow> ResolvedRoute \<Rightarrow> ScopedLimit list \<Rightarrow> bool" where
  "candidateAllowedByScopes req candidate scopes = list_all (allowedByScope req candidate) scopes"

definition ResolveScopes ::
  "(string \<Rightarrow> limitAnswer) option \<Rightarrow> sentinel option \<Rightarrow> QuotaConfig \<Rightarrow> resolver \<Rightarrow> interceptor" where
  "ResolveScopes limits ctxErr quota resolve state =
     (let state = (if su_KeyID (ps_Subject state) = [] then state\<lparr>ps_Subject := subjectForState state\<rparr> else state)
      in case scopes_of limits ctxErr quota (ps_Subject state) of
           Inl err \<Rightarrow> (Some err, state)
         | Inr scopes \<Rightarrow>
             if scopes = [] then (None, state)
             else case resolved resolve state of
               (Inl err, state) \<Rightarrow> (Some err, state)
             | (Inr candidates, state) \<Rightarrow>
                 let filtered = filter (\<lambda>c. candidateAllowedByScopes (ps_Request state) c scopes \<and>
                       candidateHasRequiredUnitPricing (ps_Request state) c scopes) candidates
                 in if filtered = [] then
                      if hardSpendEnabled scopes \<and> h_ProviderUnits (rq_Hints (ps_Request state)) \<noteq> [] then
                        (Some (api (UnsupportedOperation
                           ''hard spend quotas require pricing and a positive per-request reservation bound for every hosted provider tool'')), state)
                      else (Some (api (Forbidden ''request is not allowed by quota scope policy'')), state)
                    else (None, (replaced filtered state)\<lparr>ps_Scopes := scopes, ps_Estimate := maxEstimate filtered\<rparr>))"

section \<open>The chain\<close>

fun chain :: "interceptor list \<Rightarrow> interceptor" where
  "chain [] state = (None, state)"
| "chain (i # is) state = (case i state of (Some err, state) \<Rightarrow> (Some err, state) | (None, state) \<Rightarrow> chain is state)"

record 'key gatewayPolicies =
  gp_Auth :: AuthConfig
  gp_Quota :: QuotaConfig
  gp_JWT :: "'key jwtLibrary"
  gp_Hooks :: tokenHooks
  gp_Tokenizers :: tokenizers
  gp_Providers :: "string \<rightharpoonup> Provider"
  gp_Resolve :: resolver
  gp_Limits :: "(string \<Rightarrow> limitAnswer) option"

definition admit :: "'key gatewayPolicies \<Rightarrow> Principal option \<Rightarrow> sentinel option \<Rightarrow> interceptor" where
  "admit g fromContext ctxErr =
     chain [Auth (gp_JWT g) (gp_Auth g) fromContext, MetadataValidation, RequireUser (gp_Auth g), RequestSize (gp_Resolve g),
       TokenValidation (gp_Hooks g) (gp_Tokenizers g) (gp_Resolve g), ACL (gp_Resolve g),
       Preflight (gp_Providers g) (gp_Resolve g), ResolveScopes (gp_Limits g) ctxErr (gp_Quota g) (gp_Resolve g)]"

section \<open>What each interceptor lets through\<close>

abbreviation cands :: "policyState \<Rightarrow> ResolvedRoute list" where
  "cands s \<equiv> cs_Candidates (ps_Candidates s)"

abbreviation with_cands :: "ResolvedRoute list \<Rightarrow> policyState \<Rightarrow> policyState" where
  "with_cands xs s \<equiv> s\<lparr>ps_Candidates := \<lparr>cs_Candidates = xs, cs_resolved = True\<rparr>\<rparr>"

lemma resolved_Inr:
  assumes "resolved resolve s = (Inr xs, s1)"
  shows "s1 = with_cands xs s \<and> (cs_resolved (ps_Candidates s) \<longrightarrow> xs = cands s)"
proof -
  obtain a c where a: "ResolveCandidates (resolve (ps_Request s)) (ps_Candidates s) = (a, c)" by (metis surj_pair)
  with assms have "a = Inr xs" "s1 = s\<lparr>ps_Candidates := c\<rparr>" by (simp_all add: resolved_def)
  with a show ?thesis by (auto simp: ResolveCandidates_def split: if_splits sum.splits)
qed

lemma replaced_with: "replaced ys (with_cands xs s) = with_cands ys s"
  by (simp add: replaced_def ReplaceCandidates_def)

text \<open>The shape of an interceptor that filters the candidates.\<close>

lemma filtering:
  assumes "(case resolved resolve s of (Inl err, s) \<Rightarrow> (Some err, s) | (Inr xs, s) \<Rightarrow> f xs s) = (None, s')"
  shows "\<exists>xs. f xs (with_cands xs s) = (None, s') \<and> (cs_resolved (ps_Candidates s) \<longrightarrow> xs = cands s)"
proof -
  obtain a s1 where a: "resolved resolve s = (a, s1)" by (metis surj_pair)
  show ?thesis
  proof (cases a)
    case (Inl e)
    with a assms show ?thesis by simp
  next
    case (Inr xs)
    then have "s1 = with_cands xs s \<and> (cs_resolved (ps_Candidates s) \<longrightarrow> xs = cands s)" using resolved_Inr a by blast
    with a Inr assms show ?thesis by (intro exI [of _ xs]) simp
  qed
qed

definition body_fits :: "policyState \<Rightarrow> ResolvedRoute \<Rightarrow> bool" where
  "body_fits s c \<longleftrightarrow> lc_MaxBodyBytes (r_Limits (the (rr_Route c))) = 0 \<or>
     m_BodyBytes (rq_Meta (ps_Request s)) \<le> lc_MaxBodyBytes (r_Limits (the (rr_Route c)))"

lemma body_fits_route: "rr_Route c = rr_Route c0 \<Longrightarrow> body_fits s c = body_fits s c0"
  by (simp add: body_fits_def)

lemma RequestSize_ok:
  assumes "RequestSize resolve s = (None, s')"
  shows "\<exists>xs. s' = with_cands xs s \<and> xs \<noteq> [] \<and> (\<forall>c \<in> set xs. body_fits s c)"
proof -
  from filtering [OF assms [unfolded RequestSize_def]] obtain xs where
    "s' = with_cands (filter (body_fits s) xs) s \<and> filter (body_fits s) xs \<noteq> []"
    by (auto simp: replaced_with body_fits_def [abs_def] Let_def split: if_splits)
  then show ?thesis by auto
qed

lemma validate_Inr:
  assumes "validateCandidates t load xs = Inr ys"
  shows "ys \<noteq> [] \<and> (\<forall>c \<in> set ys. \<exists>c0 \<in> set xs. judgeCandidate t load c0 = Keep c)"
  using assms
  by (auto simp: validateCandidates_def Let_def List.map_filter_def split: if_splits tokenVerdict.splits) blast

definition tokens_fit :: "tokenHooks \<Rightarrow> tokenizers \<Rightarrow> ResolvedRoute \<Rightarrow> bool" where
  "tokens_fit t load c \<longleftrightarrow>
     (let caps = r_Capabilities (the (rr_Route c))
      in (\<exists>c0. materializeCandidate t load c0 = Inr (rr_Effective c, rr_Estimate c) \<and>
            rr_Request c0 = rr_Request c \<and> rr_Route c0 = rr_Route c) \<and>
         (0 < cap_MaxInputTokens caps \<longrightarrow> u_InputTokens (rr_Estimate c) \<le> cap_MaxInputTokens caps) \<and>
         (0 < cap_MaxOutputTokens caps \<longrightarrow> requestedOutput (rr_Effective c) (rr_Request c) \<le> cap_MaxOutputTokens caps))"

lemma judge_Keep:
  assumes "judgeCandidate t load c0 = Keep c"
  shows "tokens_fit t load c \<and> rr_Route c = rr_Route c0"
proof -
  obtain eff est where m: "materializeCandidate t load c0 = Inr (eff, est)"
    using assms by (auto simp: judgeCandidate_def split: sum.splits)
  with assms have "c = c0\<lparr>rr_Effective := eff, rr_Estimate := est\<rparr>"
    "\<not> (0 < cap_MaxInputTokens (r_Capabilities (the (rr_Route c0))) \<and> cap_MaxInputTokens (r_Capabilities (the (rr_Route c0))) < u_InputTokens est)"
    "\<not> (0 < cap_MaxOutputTokens (r_Capabilities (the (rr_Route c0))) \<and>
        cap_MaxOutputTokens (r_Capabilities (the (rr_Route c0))) < requestedOutput eff (rr_Request c0))"
    by (simp_all add: judgeCandidate_def Let_def split: if_splits)
  with m show ?thesis unfolding tokens_fit_def Let_def by auto
qed

lemma TokenValidation_ok:
  assumes "TokenValidation t load resolve s = (None, s')" "cs_resolved (ps_Candidates s)"
  shows "\<exists>xs e. s' = (with_cands xs s)\<lparr>ps_Estimate := e\<rparr> \<and> xs \<noteq> [] \<and>
    (\<forall>c \<in> set xs. tokens_fit t load c \<and> (\<exists>c0 \<in> set (cands s). rr_Route c = rr_Route c0))"
proof -
  from filtering [OF assms(1) [unfolded TokenValidation_def]] assms(2) obtain ys where
    ys: "validateCandidates t load (cands s) = Inr ys" "s' = (with_cands ys s)\<lparr>ps_Estimate := maxEstimate ys\<rparr>"
    by (auto simp: replaced_with split: sum.splits)
  from validate_Inr [OF ys(1)] have "ys \<noteq> []"
    "\<forall>c \<in> set ys. tokens_fit t load c \<and> (\<exists>c0 \<in> set (cands s). rr_Route c = rr_Route c0)"
    using judge_Keep by blast+
  with ys(2) show ?thesis by blast
qed

definition acl_allows :: "policyState \<Rightarrow> bool" where
  "acl_allows s \<longleftrightarrow> (case ps_Principal s of None \<Rightarrow> True | Some p \<Rightarrow>
     (pr_Models p = [] \<or> rq_Model (ps_Request s) \<in> set (pr_Models p)) \<and>
     (pr_Projects p = [] \<or> m_Project (rq_Meta (ps_Request s)) \<in> set (pr_Projects p)))"

definition acl_provider :: "policyState \<Rightarrow> ResolvedRoute \<Rightarrow> bool" where
  "acl_provider s c \<longleftrightarrow> (case ps_Principal s of None \<Rightarrow> True | Some p \<Rightarrow>
     pr_Providers p = [] \<or> r_Provider (the (rr_Route c)) \<in> set (pr_Providers p))"

lemma ACL_ok:
  assumes "ACL resolve s = (None, s')" "cs_resolved (ps_Candidates s)" "cands s \<noteq> []"
  shows "acl_allows s \<and> (\<exists>xs. s' = with_cands xs s \<and> xs \<noteq> [] \<and> set xs \<subseteq> set (cands s) \<and> (\<forall>c \<in> set xs. acl_provider s c))"
proof (cases "ps_Principal s")
  case None
  with assms show ?thesis
    by (intro conjI exI [of _ "cands s"]) (auto simp: ACL_def acl_allows_def acl_provider_def)
next
  case (Some p)
  then have p: "aclProviders resolve p s = (None, s')" "acl_allows s"
    using assms(1) by (auto simp: ACL_def acl_allows_def split: if_splits)
  show ?thesis
  proof (cases "pr_Providers p = []")
    case True
    with p Some assms show ?thesis
      by (intro conjI exI [of _ "cands s"]) (auto simp: aclProviders_def acl_provider_def)
  next
    case False
    with p(1) have "(case resolved resolve s of (Inl err, s) \<Rightarrow> (Some err, s) | (Inr xs, s) \<Rightarrow>
        let filtered = filter (\<lambda>c. r_Provider (the (rr_Route c)) \<in> set (pr_Providers p)) xs
        in if filtered = [] then (Some (api (Forbidden ''provider not allowed for this token'')), s)
           else (None, replaced filtered s)) = (None, s')" by (simp add: aclProviders_def)
    from filtering [OF this] assms(2) have
      "s' = with_cands (filter (\<lambda>c. r_Provider (the (rr_Route c)) \<in> set (pr_Providers p)) (cands s)) s \<and>
       filter (\<lambda>c. r_Provider (the (rr_Route c)) \<in> set (pr_Providers p)) (cands s) \<noteq> []"
      by (auto simp: replaced_with Let_def split: if_splits)
    with p(2) Some show ?thesis
      by (intro conjI exI [of _ "filter (\<lambda>c. r_Provider (the (rr_Route c)) \<in> set (pr_Providers p)) (cands s)"])
        (auto simp: acl_provider_def)
  qed
qed

lemma Preflight_ok:
  assumes "Preflight providers resolve s = (None, s')" "cs_resolved (ps_Candidates s)"
  shows "\<exists>xs. s' = with_cands xs s \<and> xs \<noteq> [] \<and> set xs \<subseteq> set (cands s) \<and> (\<forall>c \<in> set xs. passes providers c)"
proof -
  obtain c where c: "CandidatePreflight providers (resolve (ps_Request s)) (ps_Candidates s) = (None, c)" "s' = s\<lparr>ps_Candidates := c\<rparr>"
    using assms(1) by (auto simp: Preflight_def split: prod.splits)
  have r: "ResolveCandidates (resolve (ps_Request s)) (ps_Candidates s) = (Inr (cands s), ps_Candidates s)"
    using assms(2) by (simp add: ResolveCandidates_def)
  obtain fs le where fs: "preflightLoop providers (cands s) [] None = Inr (fs, le)" "fs \<noteq> []" "c = ReplaceCandidates fs (ps_Candidates s)"
    using c(1) r by (auto simp: CandidatePreflight_def split: sum.splits if_splits option.splits)
  have "fs = filter (passes providers) (cands s)" using preflightLoop_filter [OF fs(1)] by simp
  with fs c(2) show ?thesis by (intro exI [of _ fs]) (auto simp: ReplaceCandidates_def)
qed

definition scope_allows :: "policyState \<Rightarrow> ResolvedRoute \<Rightarrow> LimitSpec \<Rightarrow> bool" where
  "scope_allows s c l \<longleftrightarrow>
     (slice_elems (ls_ModelAllowlist l) = [] \<or> rq_Model (ps_Request s) \<in> set (slice_elems (ls_ModelAllowlist l))) \<and>
     (slice_elems (ls_ProviderAllowlist l) = [] \<or> r_Provider (the (rr_Route c)) \<in> set (slice_elems (ls_ProviderAllowlist l))) \<and>
     (0 < ls_MaxInputTokens l \<longrightarrow> u_InputTokens (rr_Estimate c) \<le> ls_MaxInputTokens l) \<and>
     (0 < ls_MaxOutputTokens l \<longrightarrow> requestedOutput (rr_Effective c) (rr_Request c) \<le> ls_MaxOutputTokens l) \<and>
     (0 < ls_MaxSpendMicros l \<longrightarrow> rr_Route c \<noteq> None \<longrightarrow> (\<forall>unit \<in> set (h_ProviderUnits (rq_Hints (ps_Request s))). unitPriced c unit))"

lemma scope_allowed:
  assumes "candidateAllowedByScopes (ps_Request s) c scopes" "candidateHasRequiredUnitPricing (ps_Request s) c scopes"
    and "scope \<in> set scopes"
  shows "scope_allows s c (sl_Limits scope)"
proof -
  have "allowedByScope (ps_Request s) c scope" using assms(1,3) by (simp add: candidateAllowedByScopes_def list_all_iff)
  moreover have "0 < ls_MaxSpendMicros (sl_Limits scope) \<Longrightarrow> hardSpendEnabled scopes"
    using assms(3) by (auto simp: hardSpendEnabled_def list_ex_iff)
  ultimately show ?thesis using assms(2)
    by (auto simp: scope_allows_def allowedByScope_def candidateHasRequiredUnitPricing_def list_all_iff Let_def split: if_splits)
qed

lemma ResolveScopes_ok:
  assumes "ResolveScopes limits ctxErr quota resolve s = (None, s')" "cs_resolved (ps_Candidates s)" "cands s \<noteq> []" "ps_Scopes s = []"
  shows "cands s' \<noteq> [] \<and> set (cands s') \<subseteq> set (cands s) \<and> ps_Request s' = ps_Request s \<and> ps_Principal s' = ps_Principal s \<and>
    scopes_of limits ctxErr quota (ps_Subject s') = Inr (ps_Scopes s') \<and>
    (\<forall>c \<in> set (cands s'). \<forall>scope \<in> set (ps_Scopes s'). scope_allows s' c (sl_Limits scope))"
proof -
  define t where "t = (if su_KeyID (ps_Subject s) = [] then s\<lparr>ps_Subject := subjectForState s\<rparr> else s)"
  have t: "ps_Candidates t = ps_Candidates s" "ps_Request t = ps_Request s" "ps_Principal t = ps_Principal s" "ps_Scopes t = []"
    using assms(4) by (simp_all add: t_def)
  obtain scopes where sc: "scopes_of limits ctxErr quota (ps_Subject t) = Inr scopes"
    using assms(1) by (cases "scopes_of limits ctxErr quota (ps_Subject t)") (simp_all add: ResolveScopes_def t_def [symmetric])
  show ?thesis
  proof (cases "scopes = []")
    case True
    then have "s' = t" using assms(1) sc by (simp add: ResolveScopes_def t_def [symmetric])
    with True sc t assms(3) show ?thesis by simp
  next
    case False
    define ok where "ok = (\<lambda>c. candidateAllowedByScopes (ps_Request s) c scopes \<and> candidateHasRequiredUnitPricing (ps_Request s) c scopes)"
    have "(case resolved resolve t of (Inl err, s) \<Rightarrow> (Some err, s) | (Inr xs, s) \<Rightarrow>
        let filtered = filter (\<lambda>c. candidateAllowedByScopes (ps_Request s) c scopes \<and>
              candidateHasRequiredUnitPricing (ps_Request s) c scopes) xs
        in if filtered = [] then
             if hardSpendEnabled scopes \<and> h_ProviderUnits (rq_Hints (ps_Request s)) \<noteq> [] then
               (Some (api (UnsupportedOperation
                  ''hard spend quotas require pricing and a positive per-request reservation bound for every hosted provider tool'')), s)
             else (Some (api (Forbidden ''request is not allowed by quota scope policy'')), s)
           else (None, (replaced filtered s)\<lparr>ps_Scopes := scopes, ps_Estimate := maxEstimate filtered\<rparr>)) = (None, s')"
      using assms(1) sc False by (simp add: ResolveScopes_def t_def [symmetric])
    from filtering [OF this] t assms(2) have s': "filter ok (cands s) \<noteq> []"
      "s' = (with_cands (filter ok (cands s)) t)\<lparr>ps_Scopes := scopes, ps_Estimate := maxEstimate (filter ok (cands s))\<rparr>"
      by (auto simp: replaced_with ok_def Let_def split: if_splits)
    have "scope_allows s' c (sl_Limits scope)" if "ok c" "scope \<in> set scopes" for c scope
      using scope_allowed [of s' c scopes scope] that t by (simp add: s'(2) ok_def)
    with s' sc t show ?thesis by auto
  qed
qed

section \<open>Authenticated principals\<close>

text \<open>A token never loosens what its claims restrict: a list that is present is never taken as unrestricted.\<close>

definition claims_bind :: "JWTClaimMapping \<Rightarrow> claims \<Rightarrow> Principal \<Rightarrow> bool" where
  "claims_bind m claims p \<longleftrightarrow> pr_ID p \<noteq> [] \<and>
     (claims (jc_Providers m) \<noteq> None \<longrightarrow> pr_Providers p \<noteq> []) \<and> (claims (jc_Models m) \<noteq> None \<longrightarrow> pr_Models p \<noteq> []) \<and>
     (claims (jc_Projects m) \<noteq> None \<longrightarrow> pr_Projects p \<noteq> [])"

definition authentic :: "'key jwtLibrary \<Rightarrow> AuthConfig \<Rightarrow> string \<Rightarrow> Principal \<Rightarrow> bool" where
  "authentic lib auth token p \<longleftrightarrow>
     map_of (ac_Tokens auth) token = Some p \<or>
     (let cfg = JWT_Normalize (ac_JWT auth)
      in JWT_Enabled (ac_JWT auth) \<and> (\<exists>key claims. jl_VerificationKey lib cfg = Some key \<and>
           jl_ParseWithClaims lib key (jwtOptions cfg) token = Some claims \<and> claims_bind (jw_Claims cfg) claims p))"

lemma claimStrings_nonempty: "claimStrings claims k True = Inr xs \<Longrightarrow> k \<noteq> [] \<Longrightarrow> claims k \<noteq> None \<Longrightarrow> xs \<noteq> []"
  by (auto simp: claimStrings_def split: option.splits sum.splits if_splits)

lemma claimsPrincipal_bind:
  assumes "claimsPrincipal m claims = Inr p" "jc_Providers m \<noteq> []" "jc_Models m \<noteq> []" "jc_Projects m \<noteq> []"
  shows "claims_bind m claims p"
proof -
  obtain xs ys zs where "claimStrings claims (jc_Providers m) True = Inr xs" "claimStrings claims (jc_Models m) True = Inr ys"
    "claimStrings claims (jc_Projects m) True = Inr zs" "pr_Providers p = xs" "pr_Models p = ys" "pr_Projects p = zs" "pr_ID p \<noteq> []"
    using assms(1) by (auto simp: claimsPrincipal_def Let_def split: sum.splits if_splits)
  with assms(2-4) show ?thesis unfolding claims_bind_def using claimStrings_nonempty by metis
qed

lemma normalized_claims:
  "jc_Providers (jw_Claims (JWT_Normalize j)) \<noteq> []" "jc_Models (jw_Claims (JWT_Normalize j)) \<noteq> []"
  "jc_Projects (jw_Claims (JWT_Normalize j)) \<noteq> []"
  by (simp_all add: JWT_Normalize_def Let_def)

lemma AuthenticatePrincipal_authentic: "AuthenticatePrincipal lib auth token = Inr p \<Longrightarrow> authentic lib auth token p"
  unfolding AuthenticatePrincipal_def parseJWTPrincipal_def authentic_def Let_def
  using claimsPrincipal_bind [OF _ normalized_claims]
  by (fastforce split: option.splits if_splits)

lemma enrichMeta_sel [simp]:
  "ps_Candidates (enrichMeta s) = ps_Candidates s" "ps_Scopes (enrichMeta s) = ps_Scopes s" "ps_Principal (enrichMeta s) = ps_Principal s"
  by (simp_all add: enrichMeta_def Let_def)

lemma bindPrincipal_sel [simp]:
  "ps_Candidates (bindPrincipal p s) = ps_Candidates s" "ps_Scopes (bindPrincipal p s) = ps_Scopes s"
  "ps_Principal (bindPrincipal p s) = Some p"
  by (simp_all add: bindPrincipal_def Let_def)

lemma Auth_ok:
  assumes "Auth lib auth fromContext s = (None, s')" "ps_Principal s = None"
  shows "ps_Candidates s' = ps_Candidates s \<and> ps_Scopes s' = ps_Scopes s \<and>
    (case ps_Principal s' of
       None \<Rightarrow> fromContext = None \<and> ac_AllowAnonymous auth
     | Some p \<Rightarrow> fromContext = Some p \<or> authentic lib auth (fst (gatewayToken (ps_Request s))) p)"
proof (cases fromContext)
  case (Some p)
  with assms show ?thesis by (auto simp: Auth_def)
next
  case None
  obtain token presented where t: "gatewayToken (ps_Request s) = (token, presented)" by (metis surj_pair)
  show ?thesis
  proof (cases "\<not> presented \<or> ac_Tokens auth = [] \<and> \<not> JWT_Enabled (ac_JWT auth)")
    case True
    then have "s' = enrichMeta s \<and> ac_AllowAnonymous auth"
      using assms(1) None t by (auto simp: Auth_def split: if_splits)
    with None assms(2) show ?thesis by simp
  next
    case False
    then obtain p where p: "AuthenticatePrincipal lib auth token = Inr p" "s' = bindPrincipal p (enrichMeta s)"
      using assms(1) None t by (auto simp: Auth_def split: if_splits sum.splits)
    with t show ?thesis using AuthenticatePrincipal_authentic [OF p(1)] by simp
  qed
qed

definition forwardable :: "string \<Rightarrow> bool" where
  "forwardable v \<longleftrightarrow> length v \<le> 512 \<and> (\<forall>c \<in> set v. 0x20 \<le> byte c \<and> byte c \<noteq> 0x7f)"

lemma validate_forwardable: "validateForwardedIdentity field v = None \<Longrightarrow> forwardable v"
  by (auto simp: validateForwardedIdentity_def forwardable_def maxForwardedIdentityBytes_def split: if_splits)

lemma chain_None: "chain (i # is) s = (None, s') \<longleftrightarrow> (\<exists>t. i s = (None, t) \<and> chain is t = (None, s'))"
  by (auto split: prod.splits option.splits)

section \<open>Properties\<close>

text \<open>
  C24. A request that passes the interceptors before the quota has a principal from its context, from a
  configured token or from a verified web token whose restrictions hold, or is anonymous where that is
  allowed; its user and project can be forwarded as headers; and it keeps at least one candidate, each
  within the limits of body and tokens of its route, allowed by the principal, accepted by its
  provider, and within every quota scope, which are the ones in force for the subject.
\<close>

theorem admitted_request:
  assumes "admit g fromContext ctxErr s = (None, s')" "ps_Principal s = None" "ps_Scopes s = []"
  shows "cands s' \<noteq> [] \<and> forwardable (m_User (rq_Meta (ps_Request s'))) \<and> forwardable (m_Project (rq_Meta (ps_Request s'))) \<and>
    (case ps_Principal s' of
       None \<Rightarrow> fromContext = None \<and> ac_AllowAnonymous (gp_Auth g)
     | Some p \<Rightarrow> fromContext = Some p \<or> authentic (gp_JWT g) (gp_Auth g) (fst (gatewayToken (ps_Request s))) p) \<and>
    acl_allows s' \<and> scopes_of (gp_Limits g) ctxErr (gp_Quota g) (ps_Subject s') = Inr (ps_Scopes s') \<and>
    (\<forall>c \<in> set (cands s'). body_fits s' c \<and> tokens_fit (gp_Hooks g) (gp_Tokenizers g) c \<and> acl_provider s' c \<and>
      passes (gp_Providers g) c \<and> (\<forall>scope \<in> set (ps_Scopes s'). scope_allows s' c (sl_Limits scope)))"
proof -
  obtain s1 s2 s3 s4 s5 s6 s7 where
    a: "Auth (gp_JWT g) (gp_Auth g) fromContext s = (None, s1)" and m: "MetadataValidation s1 = (None, s2)"
    and r: "RequireUser (gp_Auth g) s2 = (None, s3)" and b: "RequestSize (gp_Resolve g) s3 = (None, s4)"
    and v: "TokenValidation (gp_Hooks g) (gp_Tokenizers g) (gp_Resolve g) s4 = (None, s5)"
    and l: "ACL (gp_Resolve g) s5 = (None, s6)" and p: "Preflight (gp_Providers g) (gp_Resolve g) s6 = (None, s7)"
    and q: "ResolveScopes (gp_Limits g) ctxErr (gp_Quota g) (gp_Resolve g) s7 = (None, s')"
    using assms(1) unfolding admit_def chain_None by auto
  have s3: "s2 = s1" "s3 = s1" "forwardable (m_User (rq_Meta (ps_Request s1)))" "forwardable (m_Project (rq_Meta (ps_Request s1)))"
    using m r by (auto simp: MetadataValidation_def RequireUser_def split: option.splits if_splits dest: validate_forwardable)
  obtain xs4 where s4: "s4 = with_cands xs4 s1" "\<forall>c \<in> set xs4. body_fits s1 c" using RequestSize_ok [OF b] s3(2) by auto
  obtain xs5 e where s5: "s5 = (with_cands xs5 s1)\<lparr>ps_Estimate := e\<rparr>" "xs5 \<noteq> []"
    "\<forall>c \<in> set xs5. tokens_fit (gp_Hooks g) (gp_Tokenizers g) c \<and> (\<exists>c0 \<in> set xs4. rr_Route c = rr_Route c0)"
    using TokenValidation_ok [OF v] s4(1) by auto
  have b5: "\<forall>c \<in> set xs5. body_fits s1 c" using s5(3) s4(2) body_fits_route by blast
  obtain xs6 where s6: "acl_allows s5" "s6 = with_cands xs6 s5" "xs6 \<noteq> []" "set xs6 \<subseteq> set xs5" "\<forall>c \<in> set xs6. acl_provider s5 c"
    using ACL_ok [OF l] s5(1,2) by auto
  obtain xs7 where s7: "s7 = with_cands xs7 s5" "xs7 \<noteq> []" "set xs7 \<subseteq> set xs6" "\<forall>c \<in> set xs7. passes (gp_Providers g) c"
    using Preflight_ok [OF p] s6(2) by auto
  have a': "ps_Scopes s1 = []" using Auth_ok [OF a assms(2)] assms(3) by simp
  have q': "cands s' \<noteq> []" "set (cands s') \<subseteq> set xs7" "ps_Request s' = ps_Request s1" "ps_Principal s' = ps_Principal s1"
    "scopes_of (gp_Limits g) ctxErr (gp_Quota g) (ps_Subject s') = Inr (ps_Scopes s')"
    "\<forall>c \<in> set (cands s'). \<forall>scope \<in> set (ps_Scopes s'). scope_allows s' c (sl_Limits scope)"
    using ResolveScopes_ok [OF q] s7(1,2) a' s5(1) by auto
  have "body_fits s' c \<and> tokens_fit (gp_Hooks g) (gp_Tokenizers g) c \<and> acl_provider s' c \<and> passes (gp_Providers g) c"
    if "c \<in> set (cands s')" for c
  proof -
    have c: "c \<in> set xs7" "c \<in> set xs6" "c \<in> set xs5" using that q'(2) s7(3) s6(4) by auto
    then have "body_fits s1 c" "tokens_fit (gp_Hooks g) (gp_Tokenizers g) c" "acl_provider s5 c" "passes (gp_Providers g) c"
      using b5 s5(3) s6(5) s7(4) by auto
    then show ?thesis using q'(3,4) s5(1) by (simp add: body_fits_def acl_provider_def)
  qed
  moreover have "acl_allows s'" using s6(1) s5(1) q'(3,4) by (auto simp: acl_allows_def split: option.splits)
  ultimately show ?thesis using q' s3(3,4) Auth_ok [OF a assms(2)] by simp
qed

text \<open>A request with a bearer token, for a gateway with one token, one route and one limit.\<close>

definition demo_principal :: Principal where
  "demo_principal = \<lparr>pr_ID = ''alice'', pr_Name = [], pr_KeyID = ''k'', pr_Providers = [''openai''], pr_Models = [''gpt''],
     pr_Projects = [], pr_Permissions = [], pr_QuotaKey = []\<rparr>"

definition demo_jwt :: JWTConfig where
  "demo_jwt = \<lparr>jw_Algorithm = [], jw_Issuer = [], jw_Audience = [], jw_Secret = [], jw_PublicKey = [],
     jw_Claims = \<lparr>jc_Principal = [], jc_Name = [], jc_KeyID = [], jc_Providers = [], jc_Models = [], jc_Projects = [],
       jc_Permissions = []\<rparr>\<rparr>"

definition demo_gateway :: "unit gatewayPolicies" where
  "demo_gateway = \<lparr>gp_Auth = \<lparr>ac_RequireUser = True, ac_RequireProject = False, ac_AllowAnonymous = False,
       ac_Tokens = [(''secret'', demo_principal)], ac_JWT = demo_jwt\<rparr>,
     gp_Quota = \<lparr>qc_Profiles = [], qc_Keys = []\<rparr>,
     gp_JWT = \<lparr>jl_VerificationKey = (\<lambda>_. None), jl_ParseWithClaims = (\<lambda>_ _ _. None)\<rparr>,
     gp_Hooks = demo_hooks, gp_Tokenizers = demo_tokenizers, gp_Providers = Map.empty,
     gp_Resolve = (\<lambda>req. Inr [demo_choices]), gp_Limits = Some (\<lambda>k. rl_Get k demo_snapshot)\<rparr>"

definition demo_arrival :: policyState where
  "demo_arrival = \<lparr>ps_Request = demo_request\<lparr>rq_Meta := (rq_Meta demo_request)\<lparr>m_Headers :=
       [(''Authorization'', [''Bearer secret'']), (''X-Llmgw-User'', [''bob''])]\<rparr>\<rparr>,
     ps_Principal = None, ps_Subject = \<lparr>su_KeyID = []\<rparr>, ps_Candidates = \<lparr>cs_Candidates = [], cs_resolved = False\<rparr>,
     ps_Scopes = [], ps_Estimate = zero_usage\<rparr>"

theorem admitted_request_witness:
  "cands (snd (admit demo_gateway None None demo_arrival)) \<noteq> [] \<and>
   authentic (gp_JWT demo_gateway) (gp_Auth demo_gateway) ''secret'' demo_principal"
proof -
  let ?a = "admit demo_gateway None None demo_arrival"
  have "fst ?a = None \<and> ps_Principal (snd ?a) = Some demo_principal" by code_simp
  then have a: "?a = (None, snd ?a)" "ps_Principal (snd ?a) = Some demo_principal" by (simp_all add: prod_eq_iff)
  have "ps_Principal demo_arrival = None" "ps_Scopes demo_arrival = []" by (simp_all add: demo_arrival_def)
  moreover have "fst (gatewayToken (ps_Request demo_arrival)) = ''secret''" by code_simp
  ultimately show ?thesis using admitted_request [OF a(1)] a(2) by simp
qed

end
