(* ===== verification/Provider_Streams.thy ===== *)
theory Provider_Streams
  imports Engine Usage_Accounting
begin

text \<open>
  The streams of package \<open>proxy\<close> (\<open>stream.go\<close>): the tracker that watches the server-sent events of a
  provider for usage and for their terminal event, the reader that feeds it, the reader that caps the
  bytes of a response, the bounded read of a unary body (\<open>proxy.go\<close>), and the merge of usage snapshots.
  A byte slice is a \<open>string\<close>. The hooks of an adapter are arguments: \<open>'s\<close> is the state a terminal
  observer keeps between events.
\<close>

section \<open>Merging usage snapshots\<close>

definition saturatingProxyAdd :: "int \<Rightarrow> int \<Rightarrow> int" where
  "saturatingProxyAdd first second =
     (let first = (if first < 0 then 0 else first);
          second = (if second < 0 then 0 else second)
      in if first > i64 (MaxInt64 - second) then MaxInt64 else i64 (first + second))"

lemma saturatingProxyAdd_spec [i64_spec]:
  "in_i64 a \<Longrightarrow> in_i64 b \<Longrightarrow> saturatingProxyAdd a b = sat_sum a b"
  by (auto simp: saturatingProxyAdd_def sat_sum_def in_i64_def Let_def)

definition mergeUsageCounter :: "int \<Rightarrow> int \<Rightarrow> int" where
  "mergeUsageCounter current reported =
     (if current < 0 \<or> reported < 0 then - 1 else max current reported)"

definition mergeCounterMap :: "(string, int) gomap \<Rightarrow> (string, int) gomap \<Rightarrow> (string, int) gomap" where
  "mergeCounterMap dst src =
     fold (\<lambda>(key, v) m. AList.update key (mergeUsageCounter (mget (map_of m) key) v) m) src dst"

definition mergeUsageDetails :: "UsageDetails option \<Rightarrow> UsageDetails option \<Rightarrow> UsageDetails option" where
  "mergeUsageDetails dst src =
     (case src of
        None \<Rightarrow> dst
      | Some s \<Rightarrow>
          (let d = (case dst of None \<Rightarrow> zero_details | Some d \<Rightarrow> d)
           in Some \<lparr>ud_TextTokens = mergeUsageCounter (ud_TextTokens d) (ud_TextTokens s),
                ud_AudioTokens = mergeUsageCounter (ud_AudioTokens d) (ud_AudioTokens s),
                ud_ReasoningTokens = mergeUsageCounter (ud_ReasoningTokens d) (ud_ReasoningTokens s),
                ud_ToolTokens = mergeUsageCounter (ud_ToolTokens d) (ud_ToolTokens s),
                ud_CachedTokens = mergeUsageCounter (ud_CachedTokens d) (ud_CachedTokens s),
                ud_ByModality = mergeCounterMap (ud_ByModality d) (ud_ByModality s)\<rparr>))"

definition raiseTotal :: "Usage \<Rightarrow> Usage" where
  "raiseTotal dst =
     (let sum = saturatingProxyAdd (u_InputTokens dst) (u_OutputTokens dst)
      in if 0 \<le> u_InputTokens dst \<and> 0 \<le> u_OutputTokens dst \<and> 0 \<le> u_TotalTokens dst \<and> u_TotalTokens dst < sum
         then dst\<lparr>u_TotalTokens := sum\<rparr> else dst)"

definition mergeUsage :: "Usage \<Rightarrow> Usage \<Rightarrow> Usage" where
  "mergeUsage dst src =
     (if Usage_IsZero src then dst
      else raiseTotal
        \<lparr>u_InputTokens = mergeUsageCounter (u_InputTokens dst) (u_InputTokens src),
         u_OutputTokens = mergeUsageCounter (u_OutputTokens dst) (u_OutputTokens src),
         u_TotalTokens = mergeUsageCounter (u_TotalTokens dst) (u_TotalTokens src),
         u_CacheReadTokens = mergeUsageCounter (u_CacheReadTokens dst) (u_CacheReadTokens src),
         u_CacheWriteTokens = mergeUsageCounter (u_CacheWriteTokens dst) (u_CacheWriteTokens src),
         u_InputDetails = mergeUsageDetails (u_InputDetails dst) (u_InputDetails src),
         u_OutputDetails = mergeUsageDetails (u_OutputDetails dst) (u_OutputDetails src),
         u_ProviderDetails = mergeCounterMap (u_ProviderDetails dst) (u_ProviderDetails src)\<rparr>)"

section \<open>The usage tracker\<close>

definition maxUsageEventBytes :: int where
  "maxUsageEventBytes = 2 ^ 20"

text \<open>
  A terminal observer is a function with the state it keeps between the events of one stream. A nil
  hook is \<open>None\<close>.
\<close>

type_synonym 's StreamTerminal = "(string \<Rightarrow> 's \<Rightarrow> bool \<times> 's) \<times> 's"

record 's StreamCodec =
  sc_Usage :: "(ResolvedRoute \<Rightarrow> Request \<Rightarrow> string \<Rightarrow> Usage) option"
  sc_Terminal :: "(ResolvedRoute \<Rightarrow> Request \<Rightarrow> 's StreamTerminal option) option"

record 's streamUsageTracker =
  tk_codec :: "'s StreamCodec"
  tk_route :: ResolvedRoute
  tk_req :: Request
  tk_terminal :: "'s StreamTerminal option"
  tk_usage :: Usage
  tk_pending :: string
  tk_event :: string
  tk_discard :: bool
  tk_finished :: bool
  tk_complete :: bool

definition newStreamUsageTracker :: "'s StreamCodec \<Rightarrow> ResolvedRoute \<Rightarrow> Request \<Rightarrow> 's streamUsageTracker" where
  "newStreamUsageTracker codec route req =
     \<lparr>tk_codec = codec, tk_route = route, tk_req = req,
      tk_terminal = (case sc_Terminal codec of None \<Rightarrow> None | Some f \<Rightarrow> f route req),
      tk_usage = zero_usage, tk_pending = [], tk_event = [], tk_discard = False, tk_finished = False,
      tk_complete = False\<rparr>"

text \<open>What one event does: the terminal observer sees it, then its usage is merged.\<close>

definition tk_askTerminal :: "string \<Rightarrow> 's streamUsageTracker \<Rightarrow> 's streamUsageTracker" where
  "tk_askTerminal data t =
     (case tk_terminal t of
        None \<Rightarrow> t
      | Some (f, s) \<Rightarrow>
          (let (terminal, s') = f data s
           in t\<lparr>tk_terminal := Some (f, s'), tk_complete := (if terminal then True else tk_complete t)\<rparr>))"

definition tk_readUsage :: "string \<Rightarrow> 's streamUsageTracker \<Rightarrow> 's streamUsageTracker" where
  "tk_readUsage data t =
     (case sc_Usage (tk_codec t) of
        None \<Rightarrow> t
      | Some usage \<Rightarrow> t\<lparr>tk_usage := mergeUsage (tk_usage t) (usage (tk_route t) (tk_req t) data)\<rparr>)"

definition tk_observe :: "string \<Rightarrow> 's streamUsageTracker \<Rightarrow> 's streamUsageTracker" where
  "tk_observe data t = tk_readUsage data (tk_askTerminal data t)"

definition processEventLocked :: "'s streamUsageTracker \<Rightarrow> 's streamUsageTracker" where
  "processEventLocked t =
     (if tk_discard t \<or> tk_event t = [] then t\<lparr>tk_event := []\<rparr>
      else (let data = TrimSpace (tk_event t); t = t\<lparr>tk_event := []\<rparr>
            in if data = [] then t else tk_observe data t))"

definition TrimSuffixByte :: "char \<Rightarrow> string \<Rightarrow> string" where
  "TrimSuffixByte c s = (if s \<noteq> [] \<and> last s = c then butlast s else s)"

text \<open>The payload of a data line, and its place at the end of the event.\<close>

definition appendEventData :: "string \<Rightarrow> 's streamUsageTracker \<Rightarrow> 's streamUsageTracker" where
  "appendEventData data t =
     (let event = (if tk_event t \<noteq> [] then tk_event t @ [CHR 0x0A] else tk_event t)
      in if int (length event) + int (length data) > maxUsageEventBytes then t\<lparr>tk_event := [], tk_discard := True\<rparr>
         else t\<lparr>tk_event := event @ data\<rparr>)"

definition processLineLocked :: "string \<Rightarrow> 's streamUsageTracker \<Rightarrow> 's streamUsageTracker" where
  "processLineLocked line t =
     (let line = TrimSuffixByte (CHR 0x0D) line
      in if line = [] then (processEventLocked t)\<lparr>tk_discard := False\<rparr>
         else if tk_discard t \<or> hd line = CHR '':'' then t
         else (case strip_prefix ''data:'' line of
                 None \<Rightarrow> t
               | Some data \<Rightarrow>
                   appendEventData (if data \<noteq> [] \<and> hd data = CHR '' '' then tl data else data) t))"

lemma pending_askTerminal [simp]: "tk_pending (tk_askTerminal d t) = tk_pending t"
  by (simp add: tk_askTerminal_def Let_def split: option.split prod.split)

lemma pending_readUsage [simp]: "tk_pending (tk_readUsage d t) = tk_pending t"
  by (simp add: tk_readUsage_def split: option.split)

lemma pending_processEvent [simp]: "tk_pending (processEventLocked t) = tk_pending t"
  by (simp add: processEventLocked_def tk_observe_def Let_def)

lemma pending_processLine [simp]: "tk_pending (processLineLocked l t) = tk_pending t"
  by (simp add: processLineLocked_def appendEventData_def Let_def split: option.split)

text \<open>\<open>bytes.IndexByte\<close> on the pending bytes, with the line before the newline and what follows it.\<close>

fun cutLine :: "string \<Rightarrow> (string \<times> string) option" where
  "cutLine [] = None"
| "cutLine (c # cs) =
     (if c = CHR 0x0A then Some ([], cs)
      else (case cutLine cs of None \<Rightarrow> None | Some (line, rest) \<Rightarrow> Some (c # line, rest)))"

lemma cutLine_Some: "cutLine s = Some (line, rest) \<Longrightarrow> s = line @ CHR 0x0A # rest \<and> CHR 0x0A \<notin> set line"
  by (induction s arbitrary: line) (auto split: if_splits option.splits)

lemma cutLine_None [simp]: "cutLine s = None \<longleftrightarrow> CHR 0x0A \<notin> set s"
  by (induction s) (auto split: option.split)

function feedLoop :: "'s streamUsageTracker \<Rightarrow> 's streamUsageTracker" where
  "feedLoop t =
     (case cutLine (tk_pending t) of
        None \<Rightarrow>
          if int (length (tk_pending t)) > maxUsageEventBytes
          then t\<lparr>tk_pending := [], tk_event := [], tk_discard := True\<rparr> else t
      | Some (line, rest) \<Rightarrow> feedLoop (processLineLocked line (t\<lparr>tk_pending := rest\<rparr>)))"
  by pat_completeness auto
termination
  by (relation "measure (\<lambda>t. length (tk_pending t))") (auto dest: cutLine_Some)

declare feedLoop.simps [simp del]

definition Feed :: "string \<Rightarrow> 's streamUsageTracker \<Rightarrow> 's streamUsageTracker" where
  "Feed data t =
     (if data = [] then t
      else if tk_finished t then t
      else feedLoop (t\<lparr>tk_pending := tk_pending t @ data\<rparr>))"

definition tk_Finish :: "'s streamUsageTracker \<Rightarrow> 's streamUsageTracker" where
  "tk_Finish t =
     (if tk_finished t then t
      else (let t = (if tk_pending t \<noteq> [] then (processLineLocked (tk_pending t) t)\<lparr>tk_pending := []\<rparr> else t)
            in (processEventLocked t)\<lparr>tk_finished := True\<rparr>))"

section \<open>Readers\<close>

text \<open>
  An \<open>io.Reader\<close> over states of type \<open>'b\<close>: the result of reading into a buffer of \<open>n\<close> bytes, and the
  state after it.
\<close>

type_synonym 'b Reader = "nat \<Rightarrow> 'b \<Rightarrow> (string \<times> goerr option) \<times> 'b"

definition responseTooLargeError :: goerr where
  "responseTooLargeError =
     api (WithDisposition False True False
       (NewError 502 ''upstream_error'' ''response_too_large'' ''upstream response exceeds the gateway limit''))"

record 'b responseLimitReadCloser =
  lr_body :: 'b
  lr_remaining :: int
  lr_overflow :: "goerr option"

definition newResponseLimitReadCloser :: "'b \<Rightarrow> int \<Rightarrow> 'b responseLimitReadCloser" where
  "newResponseLimitReadCloser body limit = \<lparr>lr_body = body, lr_remaining = limit, lr_overflow = None\<rparr>"

definition lr_Read :: "'b Reader \<Rightarrow> 'b responseLimitReadCloser Reader" where
  "lr_Read body_Read n r =
     (case lr_overflow r of
        Some e \<Rightarrow> (([], Some e), r)
      | None \<Rightarrow>
          if n = 0 then (([], None), r)
          else (let readSize = (if lr_remaining r < int n then lr_remaining r + 1 else int n);
                    ((d, err), body) = body_Read (nat readSize) (lr_body r)
                in if int (length d) > lr_remaining r
                   then ((take (nat (lr_remaining r)) d, Some responseTooLargeError),
                         r\<lparr>lr_body := body, lr_remaining := 0, lr_overflow := Some responseTooLargeError\<rparr>)
                   else ((d, err), r\<lparr>lr_body := body, lr_remaining := lr_remaining r - int (length d)\<rparr>)))"

record ('s, 'b) usageTrackingReadCloser =
  tr_body :: 'b
  tr_tracker :: "'s streamUsageTracker"

definition tk_Wrap :: "'b \<Rightarrow> 's streamUsageTracker \<Rightarrow> ('s, 'b) usageTrackingReadCloser" where
  "tk_Wrap body t = \<lparr>tr_body = body, tr_tracker = t\<rparr>"

definition truncatedStream :: goerr where
  "truncatedStream =
     api (WithDisposition True True True
       (NewError 502 ''upstream_error'' ''truncated_stream'' ''upstream stream ended before a terminal event''))"

definition tr_Read :: "'b Reader \<Rightarrow> ('s, 'b) usageTrackingReadCloser Reader" where
  "tr_Read body_Read n r =
     (let ((d, err), body) = body_Read n (tr_body r);
          t = (if d \<noteq> [] then Feed d (tr_tracker r) else tr_tracker r)
      in case err of
           None \<Rightarrow> ((d, None), r\<lparr>tr_body := body, tr_tracker := t\<rparr>)
         | Some e \<Rightarrow>
             (let t = tk_Finish t; r = r\<lparr>tr_body := body, tr_tracker := t\<rparr>
              in if e = Sentinel EOF \<and> \<not> tk_complete t then ((d, Some truncatedStream), r)
                 else ((d, Some e), r)))"

definition tr_Close :: "('b \<Rightarrow> goerr option \<times> 'b) \<Rightarrow> ('s, 'b) usageTrackingReadCloser \<Rightarrow>
    goerr option \<times> ('s, 'b) usageTrackingReadCloser" where
  "tr_Close body_Close r =
     (let r = r\<lparr>tr_tracker := tk_Finish (tr_tracker r)\<rparr>; (err, body) = body_Close (tr_body r)
      in (err, r\<lparr>tr_body := body\<rparr>))"

text \<open>
  \<open>io.LimitReader\<close> and \<open>io.ReadAll\<close>. The buffer that \<open>ReadAll\<close> grows is the run's choice: \<open>spare\<close> gives
  the room it has after the bytes read so far, which is never zero.
\<close>

definition limited_Read :: "(int \<times> upstream) Reader" where
  "limited_Read n lu =
     (let (N, u) = lu
      in if N \<le> 0 then (([], Some (Sentinel EOF)), (N, u))
         else (let ((d, err), u) = up_Read (nat (min (int n) N)) u in ((d, err), (N - int (length d), u))))"

lemma limited_Read_work:
  "limited_Read n (N, u) = ((d, None), (N', u')) \<Longrightarrow> 0 < n \<Longrightarrow> streamWork (up_reads u') < streamWork (up_reads u)"
  by (auto simp: limited_Read_def Let_def split: if_splits prod.splits dest!: up_Read_work)

function io_ReadAll :: "(nat \<Rightarrow> nat) \<Rightarrow> string \<Rightarrow> int \<times> upstream \<Rightarrow> (string \<times> goerr option) \<times> upstream" where
  "io_ReadAll spare acc lu =
     (case limited_Read (Suc (spare (length acc))) lu of
        ((d, None), lu') \<Rightarrow> io_ReadAll spare (acc @ d) lu'
      | ((d, Some e), lu') \<Rightarrow> ((acc @ d, if e = Sentinel EOF then None else Some e), snd lu'))"
  by pat_completeness auto
termination
  by (relation "measure (\<lambda>(spare, acc, lu). streamWork (up_reads (snd lu)))")
    (auto dest: limited_Read_work [OF sym])

declare io_ReadAll.simps [simp del]

text \<open>The data, whether the body is over the limit, and the error of the read; then the reader.\<close>

definition readBounded :: "(nat \<Rightarrow> nat) \<Rightarrow> upstream \<Rightarrow> int \<Rightarrow> (string \<times> bool \<times> goerr option) \<times> upstream" where
  "readBounded spare reader limit =
     (case io_ReadAll spare [] (saturatingProxyAdd limit 1, reader) of
        ((d, Some e), u) \<Rightarrow> (([], False, Some e), u)
      | ((d, None), u) \<Rightarrow>
          if int (length d) > limit then (([], True, None), u) else ((d, False, None), u))"

section \<open>Lines\<close>

abbreviation lines :: "string \<Rightarrow> string list" where
  "lines s \<equiv> SplitByte (CHR 0x0A) s"

lemma SplitByte_no_sep: "c \<notin> set s \<Longrightarrow> SplitByte c s = [s]"
  by (induction s) auto

lemma SplitByte_sep: "c \<notin> set l \<Longrightarrow> SplitByte c (l @ c # r) = l # SplitByte c r"
  by (induction l) auto

lemma SplitByte_concat:
  "SplitByte c (a @ b) = butlast (SplitByte c a) @ SplitByte c (last (SplitByte c a) @ b)"
proof (induction a)
  case (Cons d a)
  show ?case
  proof (cases "d = c")
    case False
    obtain x xs where a: "SplitByte c a = x # xs" by (cases "SplitByte c a") auto
    show ?thesis using False Cons.IH a by (cases "xs = []") auto
  qed (use Cons.IH in simp)
qed simp

lemma SplitByte_last_no_sep: "c \<notin> set (last (SplitByte c s))"
  by (induction s) (auto split: list.split)

lemma SplitByte_hd_length: "c \<notin> set a \<Longrightarrow> length a \<le> length (hd (SplitByte c (a @ b)))"
  by (induction a) (auto split: list.split)

lemma SplitByte_last_length: "length (last (SplitByte c s)) \<le> length s"
  by (induction s) (auto split: list.split if_splits)

lemma SplitByte_part_length: "l \<in> set (SplitByte c s) \<Longrightarrow> length l \<le> length s"
  by (induction s arbitrary: l) (auto split: list.splits if_splits intro: le_SucI)

section \<open>The tracker reads lines\<close>

lemma processEvent_pending:
  "processEventLocked (t\<lparr>tk_pending := p\<rparr>) = (processEventLocked t)\<lparr>tk_pending := p\<rparr>"
  by (simp add: processEventLocked_def tk_observe_def tk_askTerminal_def tk_readUsage_def Let_def
      split: option.split prod.split)

lemma processLine_pending:
  "processLineLocked l (t\<lparr>tk_pending := p\<rparr>) = (processLineLocked l t)\<lparr>tk_pending := p\<rparr>"
  by (simp add: processLineLocked_def appendEventData_def processEvent_pending Let_def split: option.split)

lemma fold_processLine_pending:
  "fold processLineLocked ls (t\<lparr>tk_pending := p\<rparr>) = (fold processLineLocked ls t)\<lparr>tk_pending := p\<rparr>"
  by (induction ls arbitrary: t) (simp_all add: processLine_pending)

lemma pending_fold_processLine [simp]: "tk_pending (fold processLineLocked ls t) = tk_pending t"
  by (induction ls arbitrary: t) simp_all

lemma pending_self [simp]: "t\<lparr>tk_pending := tk_pending t\<rparr> = t"
  by simp

lemma feedLoop_lines:
  "int (length (last (lines (tk_pending t)))) \<le> maxUsageEventBytes \<Longrightarrow>
     feedLoop t = (fold processLineLocked (butlast (lines (tk_pending t))) t)\<lparr>tk_pending := last (lines (tk_pending t))\<rparr>"
proof (induction t rule: feedLoop.induct)
  case (1 t)
  show ?case
  proof (cases "cutLine (tk_pending t)")
    case None
    moreover from None have "lines (tk_pending t) = [tk_pending t]" by (simp add: SplitByte_no_sep)
    ultimately show ?thesis using "1.prems" by (subst feedLoop.simps) (simp del: cutLine_None)
  next
    case (Some lr)
    obtain line rest where lr: "lr = (line, rest)" by (cases lr)
    have ls: "lines (tk_pending t) = line # lines rest"
      using cutLine_Some [OF Some [unfolded lr]] by (simp add: SplitByte_sep)
    show ?thesis
      using "1.IH" [OF Some lr [symmetric]] "1.prems" Some lr ls
      by (simp add: feedLoop.simps [of t] processLine_pending fold_processLine_pending)
  qed
qed

text \<open>The line limits of a stream: no line, finished or not, is longer than the tracker keeps.\<close>

definition shortLines :: "string \<Rightarrow> bool" where
  "shortLines s \<longleftrightarrow> (\<forall>l \<in> set (lines s). int (length l) \<le> maxUsageEventBytes)"

definition tk_open :: "'s streamUsageTracker \<Rightarrow> bool" where
  "tk_open t \<longleftrightarrow> \<not> tk_finished t \<and> CHR 0x0A \<notin> set (tk_pending t)"

lemma shortLines_last: "shortLines s \<Longrightarrow> int (length (last (lines s))) \<le> maxUsageEventBytes"
  by (simp add: shortLines_def)

lemma shortLines_append: "shortLines (a @ b) \<Longrightarrow> int (length (last (lines a))) \<le> maxUsageEventBytes"
proof -
  assume "shortLines (a @ b)"
  then have "\<forall>l \<in> set (lines (last (lines a) @ b)). int (length l) \<le> maxUsageEventBytes"
    by (simp add: shortLines_def SplitByte_concat [of _ a b])
  moreover have "length (last (lines a)) \<le> length (hd (lines (last (lines a) @ b)))"
    by (rule SplitByte_hd_length [OF SplitByte_last_no_sep])
  ultimately show ?thesis by (meson SplitByte_nonempty hd_in_set order_trans of_nat_mono)
qed

lemma Feed_lines:
  assumes "tk_open t" "shortLines (tk_pending t @ data @ rest)"
  shows "Feed data t = (fold processLineLocked (butlast (lines (tk_pending t @ data))) t)\<lparr>tk_pending := last (lines (tk_pending t @ data))\<rparr>"
proof (cases "data = []")
  case True
  with assms(1) show ?thesis by (simp add: Feed_def tk_open_def SplitByte_no_sep)
next
  case False
  have "int (length (last (lines (tk_pending t @ data)))) \<le> maxUsageEventBytes"
    using assms(2) by (auto intro: shortLines_append [of _ rest])
  with False assms(1) show ?thesis
    by (simp add: Feed_def tk_open_def feedLoop_lines fold_processLine_pending)
qed

lemma finished_askTerminal [simp]: "tk_finished (tk_askTerminal d t) = tk_finished t"
  by (simp add: tk_askTerminal_def Let_def split: option.split prod.split)

lemma finished_readUsage [simp]: "tk_finished (tk_readUsage d t) = tk_finished t"
  by (simp add: tk_readUsage_def split: option.split)

lemma finished_processLine [simp]: "tk_finished (processLineLocked l t) = tk_finished t"
  by (simp add: processLineLocked_def appendEventData_def processEventLocked_def tk_observe_def Let_def
      split: option.split)

lemma finished_fold_processLine [simp]: "tk_finished (fold processLineLocked ls t) = tk_finished t"
  by (induction ls arbitrary: t) simp_all

lemma Feed_open:
  assumes "tk_open t" "shortLines (tk_pending t @ data @ rest)"
  shows "tk_open (Feed data t)" "shortLines (tk_pending (Feed data t) @ rest)"
  using assms SplitByte_concat [of "CHR 0x0A" "tk_pending t @ data" rest]
  by (auto simp: Feed_lines [OF assms] tk_open_def SplitByte_last_no_sep shortLines_def)

text \<open>Any way of cutting the bytes of a stream into chunks leaves the tracker in the same state.\<close>

lemma Feed_chunks:
  "tk_open t \<Longrightarrow> shortLines (tk_pending t @ concat chunks) \<Longrightarrow>
     fold Feed chunks t = (fold processLineLocked (butlast (lines (tk_pending t @ concat chunks))) t)
       \<lparr>tk_pending := last (lines (tk_pending t @ concat chunks))\<rparr>"
proof (induction chunks arbitrary: t)
  case Nil
  then show ?case by (simp add: tk_open_def SplitByte_no_sep)
next
  case (Cons c cs)
  note sh = Cons.prems(2) [simplified]
  note F = Feed_lines [OF Cons.prems(1) sh]
  show ?case
    using Cons.IH [OF Feed_open [OF Cons.prems(1) sh]]
      SplitByte_concat [of "CHR 0x0A" "tk_pending t @ c" "concat cs"]
    by (simp add: F fold_processLine_pending butlast_append)
qed

text \<open>
  C32. The tracker sees a stream independently of how the transport cuts it into reads: as long as no
  line exceeds the limit on a kept event, feeding the chunks one by one equals feeding all bytes at once.
\<close>

theorem feed_chunking_independent:
  assumes "tk_open t" "shortLines (tk_pending t @ concat chunks)"
  shows "fold Feed chunks t = Feed (concat chunks) t"
  using assms Feed_lines [of t "concat chunks" "[]"] by (simp add: Feed_chunks)

section \<open>Server-sent events\<close>

text \<open>
  The reference decoding of a whole stream: its lines without their carriage returns, grouped by blank
  lines; the data fields of a group joined by newlines, and the group left out when they are larger than
  the limit on an event; the events are those with something in them.
\<close>

definition dataField :: "string \<Rightarrow> string option" where
  "dataField line =
     (case strip_prefix ''data:'' line of
        None \<Rightarrow> None
      | Some data \<Rightarrow> Some (if data \<noteq> [] \<and> hd data = CHR '' '' then tl data else data))"

fun lineGroups :: "string list \<Rightarrow> string list \<Rightarrow> string list list" where
  "lineGroups acc [] = [acc]"
| "lineGroups acc (l # ls) = (if l = [] then acc # lineGroups [] ls else lineGroups (acc @ [l]) ls)"

definition groupData :: "string list \<Rightarrow> string" where
  "groupData ls = TrimSpace (JoinStrings (List.map_filter dataField ls) [CHR 0x0A])"

definition nonEmpty :: "string list \<Rightarrow> string list" where
  "nonEmpty = filter (\<lambda>s. s \<noteq> [])"

text \<open>The fields joined as the limit counts them, without a newline before the first nonempty one.\<close>

definition joinFields :: "string list \<Rightarrow> string" where
  "joinFields ds = foldl (\<lambda>e d. (if e \<noteq> [] then e @ [CHR 0x0A] else e) @ d) [] ds"

definition keptGroup :: "string list \<Rightarrow> bool" where
  "keptGroup ls \<longleftrightarrow> int (length (joinFields (List.map_filter dataField ls))) \<le> maxUsageEventBytes"

definition sseEvents :: "string \<Rightarrow> string list" where
  "sseEvents s =
     nonEmpty (map groupData (filter keptGroup (lineGroups [] (map (TrimSuffixByte (CHR 0x0D)) (lines s)))))"

lemma joinFields_simps [simp]:
  "joinFields [] = []"
  "joinFields (ds @ [d]) = (if joinFields ds \<noteq> [] then joinFields ds @ [CHR 0x0A] else []) @ d"
  by (simp_all add: joinFields_def)

lemma JoinStrings_snoc: "JoinStrings (xs @ [x]) sep = (if xs = [] then x else JoinStrings xs sep @ sep @ x)"
  by (induction xs sep rule: JoinStrings.induct) auto

lemma JoinStrings_joinFields:
  "\<exists>n. JoinStrings ds [CHR 0x0A] = replicate n (CHR 0x0A) @ joinFields ds"
proof (induction ds rule: rev_induct)
  case (snoc d ds)
  then obtain n where "JoinStrings ds [CHR 0x0A] = replicate n (CHR 0x0A) @ joinFields ds" by blast
  then have "JoinStrings (ds @ [d]) [CHR 0x0A] =
      replicate (if ds = [] then 0 else if joinFields ds = [] then Suc n else n) (CHR 0x0A) @ joinFields (ds @ [d])"
    by (simp add: JoinStrings_snoc replicate_append_same)
  then show ?case by blast
qed simp

lemma trim_left_newline: "trim_left (CHR 0x0A # s) = trim_left s"
  by (subst trim_left.simps) (simp add: space_encodings_def)

lemma TrimSpace_newlines: "TrimSpace (replicate n (CHR 0x0A) @ s) = TrimSpace s"
  by (induction n) (simp_all add: TrimSpace_def trim_left_newline)

lemma TrimSpace_join: "TrimSpace (JoinStrings ds [CHR 0x0A]) = TrimSpace (joinFields ds)"
  using JoinStrings_joinFields [of ds] by (auto simp: TrimSpace_newlines)

lemma event_tk_observe [simp]: "tk_event (tk_observe d t) = tk_event t"
  by (simp add: tk_observe_def tk_askTerminal_def tk_readUsage_def Let_def split: option.split prod.split)

lemma discard_tk_observe [simp]: "tk_discard (tk_observe d t) = tk_discard t"
  by (simp add: tk_observe_def tk_askTerminal_def tk_readUsage_def Let_def split: option.split prod.split)

lemma map_filter_snoc: "List.map_filter f (xs @ [x]) = List.map_filter f xs @ (case f x of None \<Rightarrow> [] | Some y \<Rightarrow> [y])"
  by (simp add: List.map_filter_def split: option.split)

lemma dataField_colon: "l \<noteq> [] \<Longrightarrow> hd l = CHR '':'' \<Longrightarrow> dataField l = None"
  by (cases l) (simp_all add: dataField_def)

lemma lineGroups_nonempty [simp]: "lineGroups acc ls \<noteq> []"
  by (induction acc ls rule: lineGroups.induct) auto

lemma fold_observe_fields [simp]:
  "tk_event (fold tk_observe es t) = tk_event t" "tk_discard (fold tk_observe es t) = tk_discard t"
  by (induction es arbitrary: t) simp_all

lemma pending_Nil: "tk_pending t = [] \<Longrightarrow> t\<lparr>tk_pending := []\<rparr> = t"
  by (cases t) simp

lemma discard_finished: "t\<lparr>tk_finished := b, tk_discard := c\<rparr> = t\<lparr>tk_discard := c\<rparr>\<lparr>tk_finished := b\<rparr>"
  by (cases t) simp

lemma discard_False: "\<not> tk_discard t \<Longrightarrow> t\<lparr>tk_discard := False\<rparr> = t"
  by (cases t) simp

lemma askTerminal_discard: "tk_askTerminal d (t\<lparr>tk_discard := b\<rparr>) = (tk_askTerminal d t)\<lparr>tk_discard := b\<rparr>"
  by (cases "tk_terminal t") (simp_all add: tk_askTerminal_def Let_def split: prod.split)

lemma readUsage_discard: "tk_readUsage d (t\<lparr>tk_discard := b\<rparr>) = (tk_readUsage d t)\<lparr>tk_discard := b\<rparr>"
  by (cases "sc_Usage (tk_codec t)") (simp_all add: tk_readUsage_def)

lemma observe_discard: "tk_observe d (t\<lparr>tk_discard := b\<rparr>) = (tk_observe d t)\<lparr>tk_discard := b\<rparr>"
  by (simp add: tk_observe_def askTerminal_discard readUsage_discard)

text \<open>
  A tracker in the middle of a group of lines: it holds their data as long as these are within the limit
  and skips the rest of the group once they are not. \<open>betweenEvents\<close> forgets where in a group it is.
\<close>

definition tk_inGroup :: "string list \<Rightarrow> 's streamUsageTracker \<Rightarrow> bool" where
  "tk_inGroup acc t \<longleftrightarrow>
     (if keptGroup acc then \<not> tk_discard t \<and> tk_event t = joinFields (List.map_filter dataField acc)
      else tk_discard t \<and> tk_event t = [])"

abbreviation betweenEvents :: "'s streamUsageTracker \<Rightarrow> 's streamUsageTracker" where
  "betweenEvents t \<equiv> t\<lparr>tk_event := [], tk_discard := False\<rparr>"

definition groupEvents :: "string list list \<Rightarrow> string list" where
  "groupEvents gs = nonEmpty (map groupData (filter keptGroup gs))"

lemma groupEvents_Cons: "groupEvents (g # gs) = groupEvents [g] @ groupEvents gs"
  by (simp add: groupEvents_def nonEmpty_def)

lemma keptGroup_Nil [simp]: "keptGroup []"
  by (simp add: keptGroup_def maxUsageEventBytes_def List.map_filter_def)

lemma keptGroup_snoc: "keptGroup (acc @ [l]) \<Longrightarrow> keptGroup acc"
  by (auto simp: keptGroup_def map_filter_snoc split: option.splits if_splits)

lemma betweenEvents_id: "tk_event t = [] \<Longrightarrow> \<not> tk_discard t \<Longrightarrow> betweenEvents t = t"
  by (cases t) simp

text \<open>The end of a group shows the tracker its event, if the group is kept.\<close>

lemma processEvent_group:
  assumes "tk_inGroup acc t"
  shows "(processEventLocked t)\<lparr>tk_discard := False\<rparr> = fold tk_observe (groupEvents [acc]) (betweenEvents t)"
proof (cases "keptGroup acc")
  case True
  with assms have "\<not> tk_discard t" "tk_event t = joinFields (List.map_filter dataField acc)"
    by (simp_all add: tk_inGroup_def)
  with True show ?thesis
    by (auto simp: processEventLocked_def groupEvents_def nonEmpty_def groupData_def TrimSpace_join Let_def observe_discard)
next
  case False
  with assms show ?thesis by (simp add: tk_inGroup_def processEventLocked_def groupEvents_def nonEmpty_def)
qed

text \<open>A line inside a group adds its data field.\<close>

lemma processLine_group:
  assumes "tk_inGroup acc t" and l: "TrimSuffixByte (CHR 0x0D) line = l" "l \<noteq> []"
  shows "tk_inGroup (acc @ [l]) (processLineLocked line t)" "betweenEvents (processLineLocked line t) = betweenEvents t"
proof -
  show "betweenEvents (processLineLocked line t) = betweenEvents t"
    using l by (auto simp: processLineLocked_def appendEventData_def Let_def split: option.split)
  show "tk_inGroup (acc @ [l]) (processLineLocked line t)"
  proof (cases "keptGroup acc")
    case False
    then show ?thesis
      using assms keptGroup_snoc [of acc l] by (auto simp: tk_inGroup_def processLineLocked_def)
  next
    case True
    with assms(1) have t: "\<not> tk_discard t" "tk_event t = joinFields (List.map_filter dataField acc)"
      by (simp_all add: tk_inGroup_def)
    show ?thesis
    proof (cases "dataField l")
      case None
      then have "processLineLocked line t = t"
        using l by (auto simp: processLineLocked_def dataField_def split: option.splits)
      with True None t show ?thesis by (simp add: tk_inGroup_def keptGroup_def map_filter_snoc)
    next
      case (Some d)
      then have "hd l \<noteq> CHR '':''" using dataField_colon l(2) by force
      with Some t(1) l have "processLineLocked line t = appendEventData d t"
        by (auto simp: processLineLocked_def dataField_def split: option.splits)
      with Some t show ?thesis
        by (auto simp: tk_inGroup_def keptGroup_def map_filter_snoc appendEventData_def)
    qed
  qed
qed

lemma processLines_observe:
  "tk_inGroup acc t \<Longrightarrow>
     (processEventLocked (fold processLineLocked ls t))\<lparr>tk_discard := False\<rparr> =
       fold tk_observe (groupEvents (lineGroups acc (map (TrimSuffixByte (CHR 0x0D)) ls))) (betweenEvents t)"
proof (induction ls arbitrary: t acc)
  case Nil
  then show ?case by (simp add: processEvent_group)
next
  case (Cons l ls)
  let ?l = "TrimSuffixByte (CHR 0x0D) l"
  show ?case
  proof (cases "?l = []")
    case True
    let ?t = "fold tk_observe (groupEvents [acc]) (betweenEvents t)"
    have t: "tk_event ?t = []" "\<not> tk_discard ?t" by simp_all
    have "processLineLocked l t = ?t"
      using True processEvent_group [OF Cons.prems] by (simp add: processLineLocked_def)
    moreover have "tk_inGroup [] ?t" using t by (simp add: tk_inGroup_def List.map_filter_def)
    moreover note Cons.IH [OF this, unfolded betweenEvents_id [OF t]]
    ultimately show ?thesis
      using True groupEvents_Cons [of acc "lineGroups [] (map (TrimSuffixByte (CHR 0x0D)) ls)"] by simp
  next
    case False
    show ?thesis
      using Cons.IH [OF processLine_group(1) [OF Cons.prems refl False]]
        processLine_group(2) [OF Cons.prems refl False] False by simp
  qed
qed

lemma processLine_empty_event: "processEventLocked (processLineLocked [] t) = (processEventLocked t)\<lparr>tk_discard := False\<rparr>"
  by (simp add: processLineLocked_def TrimSuffixByte_def processEventLocked_def Let_def)

lemma shortLines_length: "int (length s) \<le> maxUsageEventBytes \<Longrightarrow> shortLines s"
  by (auto simp: shortLines_def dest: SplitByte_part_length)

text \<open>Finishing reads what is left of the last line, then the last event.\<close>

lemma Finish_after_lines:
  assumes "\<not> tk_finished t" "tk_pending t = []"
  shows "tk_Finish ((fold processLineLocked ls t)\<lparr>tk_pending := l\<rparr>) =
    (processEventLocked (if l = [] then fold processLineLocked ls t else fold processLineLocked (ls @ [l]) t))\<lparr>tk_finished := True\<rparr>"
proof (cases "l = []")
  case True
  with assms show ?thesis by (simp add: tk_Finish_def pending_Nil)
next
  case False
  have p: "tk_pending (processLineLocked l (fold processLineLocked ls t)) = []" using assms(2) by simp
  from False assms(1) show ?thesis
    by (simp add: tk_Finish_def processLine_pending pending_Nil [OF p])
qed


lemma Finish_events:
  assumes "tk_open t" "tk_pending t = []" "tk_event t = []" "\<not> tk_discard t" "shortLines (concat chunks)"
  shows "(tk_Finish (fold Feed chunks t))\<lparr>tk_discard := False\<rparr> =
    (fold tk_observe (sseEvents (concat chunks)) t)\<lparr>tk_finished := True\<rparr>"
proof -
  let ?L = "lines (concat chunks)"
  let ?obs = "\<lambda>ls. fold tk_observe (groupEvents (lineGroups [] (map (TrimSuffixByte (CHR 0x0D)) ls))) t"
  have "tk_inGroup [] t" using assms(3,4) by (simp add: tk_inGroup_def List.map_filter_def)
  note obs = processLines_observe [OF this, unfolded betweenEvents_id [OF assms(3,4)]]
  have butlast: "?L = butlast ?L @ [last ?L]" by simp
  have "(processEventLocked (if last ?L = [] then fold processLineLocked (butlast ?L) t
      else fold processLineLocked (butlast ?L @ [last ?L]) t))\<lparr>tk_discard := False\<rparr> = ?obs ?L"
  proof (cases "last ?L = []")
    case True
    have "?obs ?L = (processEventLocked (fold processLineLocked (butlast ?L @ [[]]) t))\<lparr>tk_discard := False\<rparr>"
      using obs [of ?L] butlast True by metis
    also have "\<dots> = (processEventLocked (fold processLineLocked (butlast ?L) t))\<lparr>tk_discard := False\<rparr>"
      by (simp add: processLine_empty_event)
    finally show ?thesis using True by simp
  qed (simp add: obs)
  then have "(processEventLocked (if last ?L = [] then fold processLineLocked (butlast ?L) t
      else fold processLineLocked (butlast ?L @ [last ?L]) t))\<lparr>tk_finished := True, tk_discard := False\<rparr> =
      (?obs ?L)\<lparr>tk_finished := True\<rparr>" by (metis discard_finished)
  moreover have "shortLines (tk_pending t @ concat chunks)" using assms(2,5) by simp
  moreover have "\<not> tk_finished t" using assms(1) by (simp add: tk_open_def)
  ultimately show ?thesis
    using assms(2) by (simp add: Feed_chunks [OF assms(1)] Finish_after_lines sseEvents_def groupEvents_def)
qed

text \<open>
  C31. The tracker implements the reference decoding of server-sent events: after a stream of any length
  whose lines are at most \<open>maxUsageEventBytes\<close> long, however it was cut into chunks, the tracker is the one
  that was shown the events of the whole stream in order, events whose data exceed that limit left out.
  (Only the mark of a last event being skipped may differ, which no one reads after \<open>Finish\<close>.)
\<close>

theorem tracker_implements_sse:
  assumes "shortLines (concat chunks)"
  shows "(tk_Finish (fold Feed chunks (newStreamUsageTracker codec route req)))\<lparr>tk_discard := False\<rparr> =
    (fold tk_observe (sseEvents (concat chunks)) (newStreamUsageTracker codec route req))\<lparr>tk_finished := True\<rparr>"
  using assms by (intro Finish_events) (simp_all add: newStreamUsageTracker_def tk_open_def)

text \<open>
  Past the limits a tracker can lose its place. A line that grows beyond the limit is dropped and its
  event marked as discarded; when the next chunk starts with the newline of that line, the newline is
  taken for the blank line that ends the event, and the rest of the event is read as a new one.
\<close>

lemma pending_observe: "tk_pending (tk_observe d t) = tk_pending t"
  by (simp add: tk_observe_def)

lemma TrimSpace_one: "TrimSpace ''x'' = ''x''"
  by code_simp

lemma oversized_line_end_taken_for_blank:
  assumes "tk_open t" "tk_pending t = []" "tk_event t = []" "tk_discard t"
  shows "Feed ([CHR 0x0A] @ ''data: x'' @ [CHR 0x0A, CHR 0x0A]) t = tk_observe ''x'' (t\<lparr>tk_discard := False\<rparr>)"
proof -
  have "shortLines (tk_pending t @ ([CHR 0x0A] @ ''data: x'' @ [CHR 0x0A, CHR 0x0A]) @ [])"
    using assms(2) by (simp add: shortLines_def maxUsageEventBytes_def)
  moreover have "processLineLocked [] t = t\<lparr>tk_discard := False\<rparr>"
    using assms(3) by (cases t) (simp add: processLineLocked_def processEventLocked_def TrimSuffixByte_def)
  moreover have "processLineLocked ''data: x'' (t\<lparr>tk_discard := False\<rparr>) = t\<lparr>tk_discard := False, tk_event := ''x''\<rparr>"
    using assms(3) by (simp add: processLineLocked_def appendEventData_def TrimSuffixByte_def maxUsageEventBytes_def)
  moreover have "processLineLocked [] (t\<lparr>tk_discard := False, tk_event := ''x''\<rparr>) =
      (tk_observe ''x'' (t\<lparr>tk_discard := False\<rparr>))\<lparr>tk_discard := False\<rparr>"
    using assms(3) TrimSpace_one by (cases t) (simp add: processLineLocked_def processEventLocked_def TrimSuffixByte_def)
  moreover have "tk_observe ''x'' (t\<lparr>tk_discard := False\<rparr>) =
      (tk_observe ''x'' (t\<lparr>tk_discard := False\<rparr>))\<lparr>tk_discard := False, tk_pending := []\<rparr>"
    using assms(2) by (simp add: discard_False pending_Nil pending_observe)
  ultimately show ?thesis using Feed_lines [OF assms(1)] assms(2) by force
qed

section \<open>The contract of a reader\<close>

text \<open>
  A reader delivers its contents: the bytes up to its first error and that error, in reads no larger
  than their buffers.
\<close>

locale go_reader =
  fixes Read :: "'b Reader" and contents :: "'b \<Rightarrow> string \<times> goerr"
  assumes Read_contents: "Read n b = ((d, e), b') \<Longrightarrow>
      contents b = (case e of Some err \<Rightarrow> (d, err) | None \<Rightarrow> (d @ fst (contents b'), snd (contents b')))"
    and Read_length: "Read n b = ((d, e), b') \<Longrightarrow> length d \<le> n"

text \<open>Reads into buffers of the given sizes, up to the first error.\<close>

fun reads :: "'b Reader \<Rightarrow> nat list \<Rightarrow> 'b \<Rightarrow> string list \<times> goerr option \<times> 'b" where
  "reads Read [] b = ([], None, b)"
| "reads Read (n # ns) b =
     (case Read n b of
        ((d, Some e), b') \<Rightarrow> ([d], Some e, b')
      | ((d, None), b') \<Rightarrow> (case reads Read ns b' of (cs, e, b'') \<Rightarrow> (d # cs, e, b'')))"

definition lr_contents :: "('b \<Rightarrow> string \<times> goerr) \<Rightarrow> 'b responseLimitReadCloser \<Rightarrow> string \<times> goerr" where
  "lr_contents contents r =
     (case lr_overflow r of
        Some e \<Rightarrow> ([], e)
      | None \<Rightarrow>
          if int (length (fst (contents (lr_body r)))) \<le> lr_remaining r then contents (lr_body r)
          else (take (nat (lr_remaining r)) (fst (contents (lr_body r))), responseTooLargeError))"

context go_reader
begin

lemma reads_contents:
  "reads Read ns b = (cs, e, b') \<Longrightarrow>
     contents b = (case e of Some err \<Rightarrow> (concat cs, err) | None \<Rightarrow> (concat cs @ fst (contents b'), snd (contents b')))"
proof (induction ns arbitrary: b cs)
  case (Cons n ns)
  obtain d e1 b1 where r: "Read n b = ((d, e1), b1)" by (metis surj_pair)
  note c = Read_contents [OF r]
  show ?case
  proof (cases e1)
    case None
    obtain cs' e' b'' where rest: "reads Read ns b1 = (cs', e', b'')" by (metis surj_pair)
    with Cons.prems r None have "cs = d # cs'" "e' = e" "b'' = b'" by simp_all
    with Cons.IH [of b1 cs'] rest c None show ?thesis by (cases e) auto
  next
    case (Some err)
    with Cons.prems r c show ?thesis by auto
  qed
qed simp

lemma limited_contents:
  assumes "lr_Read Read n r = ((d, e), r')"
  shows "lr_contents contents r =
    (case e of Some err \<Rightarrow> (d, err) | None \<Rightarrow> (d @ fst (lr_contents contents r'), snd (lr_contents contents r')))"
proof (cases "lr_overflow r = None \<and> n \<noteq> 0")
  case False
  with assms show ?thesis by (auto simp: lr_Read_def lr_contents_def split: option.splits)
next
  case True
  let ?size = "nat (if lr_remaining r < int n then lr_remaining r + 1 else int n)"
  obtain d1 e1 b1 where rd: "Read ?size (lr_body r) = ((d1, e1), b1)" by (metis surj_pair)
  note c = Read_contents [OF rd]
  show ?thesis
  proof (cases "int (length d1) > lr_remaining r")
    case over: True
    with True assms rd have out: "d = take (nat (lr_remaining r)) d1" "e = Some responseTooLargeError"
      by (auto simp: lr_Read_def Let_def)
    have "take (nat (lr_remaining r)) (fst (contents (lr_body r))) = take (nat (lr_remaining r)) d1"
      using c over by (cases e1) auto
    moreover have "lr_remaining r < int (length (fst (contents (lr_body r))))" using c over by (cases e1) auto
    ultimately show ?thesis using True out by (simp add: lr_contents_def)
  next
    case False
    with True assms rd have "d = d1" "e = e1" "lr_body r' = b1" "lr_overflow r' = None"
        "lr_remaining r' = lr_remaining r - int (length d1)"
      by (auto simp: lr_Read_def Let_def)
    moreover have "nat (lr_remaining r - int (length d1)) = nat (lr_remaining r) - length d1" by arith
    ultimately show ?thesis using c True False by (cases e1) (auto simp: lr_contents_def)
  qed
qed

lemma limited_length: "lr_Read Read n r = ((d, e), r') \<Longrightarrow> length d \<le> n"
  by (auto simp: lr_Read_def Let_def min_def split: option.splits if_splits prod.splits dest!: Read_length)

end

context go_reader
begin

text \<open>The tracking reader passes on the bytes of its body, feeding them to the tracker.\<close>

lemma tracked_reads:
  "reads (tr_Read Read) ns r = (cs, e, r') \<Longrightarrow>
     (case e of
        None \<Rightarrow> reads Read ns (tr_body r) = (cs, None, tr_body r') \<and> tr_tracker r' = fold Feed cs (tr_tracker r)
      | Some err \<Rightarrow>
          (\<exists>err0. reads Read ns (tr_body r) = (cs, Some err0, tr_body r') \<and>
             tr_tracker r' = tk_Finish (fold Feed cs (tr_tracker r)) \<and>
             err = (if err0 = Sentinel EOF \<and> \<not> tk_complete (tr_tracker r') then truncatedStream else err0)))"
proof (induction ns arbitrary: r cs)
  case (Cons n ns)
  obtain d e1 b1 where rd: "Read n (tr_body r) = ((d, e1), b1)" by (metis surj_pair)
  have fed: "(if d \<noteq> [] then Feed d (tr_tracker r) else tr_tracker r) = Feed d (tr_tracker r)" by (simp add: Feed_def)
  show ?case
  proof (cases e1)
    case None
    let ?r = "r\<lparr>tr_body := b1, tr_tracker := Feed d (tr_tracker r)\<rparr>"
    obtain cs' e' r'' where rest: "reads (tr_Read Read) ns ?r = (cs', e', r'')" by (metis surj_pair)
    have "tr_Read Read n r = ((d, None), ?r)" using rd None fed by (simp add: tr_Read_def Let_def)
    with Cons.prems rest have eq: "cs = d # cs'" "e' = e" "r'' = r'" by simp_all
    note IH = Cons.IH [OF rest [unfolded eq]]
    show ?thesis
    proof (cases e)
      case (Some err)
      with IH obtain err0 where "reads Read ns b1 = (cs', Some err0, tr_body r')"
        "tr_tracker r' = tk_Finish (fold Feed cs' (Feed d (tr_tracker r)))"
        "err = (if err0 = Sentinel EOF \<and> \<not> tk_complete (tr_tracker r') then truncatedStream else err0)"
        by auto
      then show ?thesis using rd None eq Some by (intro option.case_eq_if [THEN iffD2]) simp
    qed (use IH rd None eq in simp)
  next
    case (Some err0)
    let ?r = "r\<lparr>tr_body := b1, tr_tracker := tk_Finish (Feed d (tr_tracker r))\<rparr>"
    have "tr_Read Read n r = ((d, Some (if err0 = Sentinel EOF \<and> \<not> tk_complete (tr_tracker ?r) then truncatedStream else err0)), ?r)"
      using rd Some fed by (simp add: tr_Read_def Let_def)
    with Cons.prems rd Some show ?thesis by auto
  qed
qed simp

end

text \<open>The body of a response: a reader whose limited and tracked forms the proxy hands out.\<close>

locale response_body = go_reader

sublocale response_body \<subseteq> limited: go_reader "lr_Read Read" "lr_contents contents"
  by unfold_locales (rule limited_contents limited_length; assumption)+

context response_body
begin

lemma limited_tracked_reads:
  assumes "reads (tr_Read (lr_Read Read)) ns (tk_Wrap (newResponseLimitReadCloser b limit) t) = (cs, Some err, r')"
    and "int (length (fst (contents b))) \<le> limit"
  shows "concat cs = fst (contents b) \<and> tr_tracker r' = tk_Finish (fold Feed cs t) \<and>
    err = (if snd (contents b) = Sentinel EOF \<and> \<not> tk_complete (tr_tracker r') then truncatedStream else snd (contents b))"
proof -
  have c: "lr_contents contents (newResponseLimitReadCloser b limit) = contents b"
    using assms(2) by (simp add: lr_contents_def newResponseLimitReadCloser_def)
  from limited.tracked_reads [OF assms(1)] obtain err0 b' where
    "reads (lr_Read Read) ns (newResponseLimitReadCloser b limit) = (cs, Some err0, b')"
    "tr_tracker r' = tk_Finish (fold Feed cs t)"
    "err = (if err0 = Sentinel EOF \<and> \<not> tk_complete (tr_tracker r') then truncatedStream else err0)"
    by (auto simp: tk_Wrap_def)
  moreover from this(1) have "contents b = (concat cs, err0)"
    using limited.reads_contents [of ns "newResponseLimitReadCloser b limit" cs "Some err0" b'] c by simp
  ultimately show ?thesis by simp
qed

end

text \<open>The body of an upstream response is such a reader.\<close>

interpretation up: response_body up_Read "\<lambda>u. content (up_reads u)"
proof
  show "content (up_reads b) = (case e of Some err \<Rightarrow> (d, err)
      | None \<Rightarrow> (d @ fst (content (up_reads b')), snd (content (up_reads b'))))"
    if "up_Read n b = ((d, e), b')" for n b d e b'
    using that by (rule up_Read_content)
  show "length d \<le> n" if "up_Read n b = ((d, e), b')" for n b d e b'
    using that by (auto simp: up_Read_def split: list.splits if_splits)
qed

text \<open>
  C30. A streamed response never delivers more than its limit: what the reads return is a prefix of the
  body, and a reader that ends has delivered all of a body within the limit with the body's own error, or
  the first \<open>limit\<close> bytes of a larger one with the error \<open>response_too_large\<close>.
\<close>

theorem response_limit_enforced:
  assumes "reads (lr_Read up_Read) ns (newResponseLimitReadCloser u limit) = (cs, e, r')" "0 \<le> limit"
  shows "case e of
      Some err \<Rightarrow>
        (concat cs, err) =
          (if int (length (fst (content (up_reads u)))) \<le> limit then content (up_reads u)
           else (take (nat limit) (fst (content (up_reads u))), responseTooLargeError))
    | None \<Rightarrow> prefix (concat cs) (take (nat limit) (fst (content (up_reads u))))"
proof -
  have c: "lr_contents (\<lambda>u. content (up_reads u)) (newResponseLimitReadCloser u limit) =
      (if int (length (fst (content (up_reads u)))) \<le> limit then content (up_reads u)
       else (take (nat limit) (fst (content (up_reads u))), responseTooLargeError))"
    by (simp add: lr_contents_def newResponseLimitReadCloser_def)
  then have "fst (lr_contents (\<lambda>u. content (up_reads u)) (newResponseLimitReadCloser u limit)) =
      take (nat limit) (fst (content (up_reads u)))"
    by auto
  with up.limited.reads_contents [OF assms(1)] c show ?thesis
    by (cases e) (auto simp: prefix_def dest: sym)
qed

text \<open>
  A stream that is read to its end, within the response limit and with lines the tracker keeps, has delivered the
  bytes of the provider unchanged; it ends with end of file only after a terminal event, and with
  \<open>truncated_stream\<close> when the provider ended before one; its usage is the merge of the usage its events report.
\<close>

theorem provider_stream_delivery:
  assumes "reads (tr_Read (lr_Read up_Read)) ns
      (tk_Wrap (newResponseLimitReadCloser u limit) (newStreamUsageTracker codec route req)) = (cs, Some err, r')"
    and "content (up_reads u) = (body, end)"
    and "int (length body) \<le> limit" "shortLines body"
    and "t = fold tk_observe (sseEvents body) (newStreamUsageTracker codec route req)"
  shows "concat cs = body \<and> tk_usage (tr_tracker r') = tk_usage t \<and>
    err = (if end = Sentinel EOF \<and> \<not> tk_complete t then truncatedStream else end)"
proof -
  note d = up.limited_tracked_reads [OF assms(1)]
  have cs: "concat cs = body" using d assms(2,3) by simp
  have "(tr_tracker r')\<lparr>tk_discard := False\<rparr> = t\<lparr>tk_finished := True\<rparr>"
    using d assms(2-5) cs Finish_events [of "newStreamUsageTracker codec route req" cs]
    by (simp add: newStreamUsageTracker_def tk_open_def)
  from arg_cong [OF this, of tk_usage] arg_cong [OF this, of tk_complete]
  have "tk_usage (tr_tracker r') = tk_usage t" "tk_complete (tr_tracker r') = tk_complete t" by simp_all
  with d cs assms(2,3) show ?thesis by simp
qed

section \<open>Bounded reads\<close>

lemma up_Read_short: "up_Read n u = ((d, e), u') \<Longrightarrow> length d \<le> n"
  by (rule up.Read_length)

lemma ReadAll_body:
  assumes "int (length (fst (content (up_reads u)))) < N \<or> snd (content (up_reads u)) = Sentinel EOF"
  shows "fst (io_ReadAll spare acc (N, u)) =
    (acc @ take (nat N) (fst (content (up_reads u))),
     if snd (content (up_reads u)) = Sentinel EOF then None else Some (snd (content (up_reads u))))"
  using assms
proof (induction spare acc "(N, u)" arbitrary: N u rule: io_ReadAll.induct)
  case (1 spare acc N u)
  show ?case
  proof (cases "N \<le> 0")
    case True
    with "1.prems" show ?thesis by (simp add: io_ReadAll.simps [of spare acc "(N, u)"] limited_Read_def)
  next
    case False
    let ?n = "nat (min (int (Suc (spare (length acc)))) N)"
    obtain d e u' where rd: "up_Read ?n u = ((d, e), u')" by (metis surj_pair)
    then have lim: "limited_Read (Suc (spare (length acc))) (N, u) = ((d, e), (N - int (length d), u'))"
      using False by (simp add: limited_Read_def)
    have len: "int (length d) \<le> N" using up_Read_short [OF rd] False by linarith
    note c = up_Read_content [OF rd]
    show ?thesis
    proof (cases e)
      case None
      have "int (length (fst (content (up_reads u')))) < N - int (length d) \<or> snd (content (up_reads u')) = Sentinel EOF"
        using "1.prems" c None by auto
      from "1.hyps" [OF lim [symmetric] refl None this] c None lim len show ?thesis
        by (simp add: io_ReadAll.simps [of spare acc "(N, u)"] nat_diff_distrib')
    next
      case (Some err)
      with c lim len show ?thesis by (simp add: io_ReadAll.simps [of spare acc "(N, u)"])
    qed
  qed
qed

text \<open>
  The bounded read of a body returns exactly the body when it fits the limit and is complete, reports
  one that does not fit as too large, and the error of one that breaks off.
\<close>

lemma readBounded_result:
  assumes "content (up_reads u) = (body, err)" "0 \<le> limit" "limit < MaxInt64"
    and "int (length body) \<le> limit \<or> err = Sentinel EOF"
  shows "fst (readBounded spare u limit) =
    (if err \<noteq> Sentinel EOF then ([], False, Some err)
     else if int (length body) \<le> limit then (body, False, None) else ([], True, None))"
proof -
  have N: "saturatingProxyAdd limit 1 = limit + 1"
    using assms(2,3) by (simp add: saturatingProxyAdd_def)
  have "fst (io_ReadAll spare [] (limit + 1, u)) =
      (take (nat (limit + 1)) body, if err = Sentinel EOF then None else Some err)"
    using ReadAll_body [of u "limit + 1" spare "[]"] assms by auto
  then show ?thesis
    using assms(2) by (cases "err = Sentinel EOF") (auto simp: readBounded_def N split: prod.split option.split)
qed


section \<open>A stream at work\<close>

text \<open>Two events, the second one the terminal, in reads that cut their lines.\<close>

definition demo_codec :: "nat StreamCodec" where
  "demo_codec = \<lparr>sc_Usage = Some (\<lambda>_ _ data. if data = ''u'' then demo_usage else zero_usage),
     sc_Terminal = Some (\<lambda>_ _. Some (\<lambda>data n. (data = ''[DONE]'', Suc n), 0))\<rparr>"

definition demo_chunks :: "string list" where
  "demo_chunks = [''data: u'' @ [CHR 0x0A], [CHR 0x0A] @ ''da'', ''ta: [DONE]'' @ [CHR 0x0D, CHR 0x0A, CHR 0x0A]]"

definition demo_sse :: upstream where
  "demo_sse = \<lparr>up_reads = map (\<lambda>d. (d, None)) demo_chunks, up_closes = 0, up_closeErr = None\<rparr>"

definition demo_tracker :: "nat streamUsageTracker" where
  "demo_tracker = newStreamUsageTracker demo_codec demo_resolved demo_request"

definition demo_delivery :: "string list \<times> goerr option \<times> (nat, upstream responseLimitReadCloser) usageTrackingReadCloser" where
  "demo_delivery = reads (tr_Read (lr_Read up_Read)) (replicate 6 16)
     (tk_Wrap (newResponseLimitReadCloser demo_sse 100) demo_tracker)"

lemma demo_chunks_eval: "length (concat demo_chunks) = 24"
  by (simp add: demo_chunks_def)

lemma demo_sse_content: "content (up_reads demo_sse) = (concat demo_chunks, Sentinel EOF)"
  by (simp add: demo_sse_def demo_chunks_def)

lemma demo_events: "sseEvents (concat demo_chunks) = [''u'', ''[DONE]'']"
  by code_simp

lemma demo_delivery_ends: "fst (snd demo_delivery) = Some (Sentinel EOF)"
  by code_simp

lemma demo_short: "shortLines (concat demo_chunks)"
  by (rule shortLines_length) (simp add: demo_chunks_eval maxUsageEventBytes_def)

theorem feed_chunking_independent_witness:
  "tk_open demo_tracker \<and> shortLines (tk_pending demo_tracker @ concat demo_chunks) \<and>
   fold Feed demo_chunks demo_tracker = Feed (concat demo_chunks) demo_tracker"
proof -
  have t: "tk_open demo_tracker" "tk_pending demo_tracker = []"
    by (simp_all add: demo_tracker_def newStreamUsageTracker_def tk_open_def)
  moreover from this have "shortLines (tk_pending demo_tracker @ concat demo_chunks)"
    using demo_short by simp
  ultimately show ?thesis using feed_chunking_independent by blast
qed

theorem tracker_implements_sse_witness:
  "(tk_Finish (fold Feed demo_chunks (newStreamUsageTracker demo_codec demo_resolved demo_request)))\<lparr>tk_discard := False\<rparr> =
   (fold tk_observe [''u'', ''[DONE]''] (newStreamUsageTracker demo_codec demo_resolved demo_request))\<lparr>tk_finished := True\<rparr>"
  using tracker_implements_sse [OF demo_short, of demo_codec demo_resolved demo_request] by (simp only: demo_events)

theorem response_limit_enforced_witness:
  "(concat (fst (reads (lr_Read up_Read) [16, 16] (newResponseLimitReadCloser demo_sse 9))),
    fst (snd (reads (lr_Read up_Read) [16, 16] (newResponseLimitReadCloser demo_sse 9)))) =
   (take 9 (concat demo_chunks), Some responseTooLargeError)"
proof -
  let ?r = "reads (lr_Read up_Read) [16, 16] (newResponseLimitReadCloser demo_sse 9)"
  have e: "fst (snd ?r) = Some responseTooLargeError" by code_simp
  have "?r = (fst ?r, Some responseTooLargeError, snd (snd ?r))" by (simp flip: e)
  from response_limit_enforced [OF this] e show ?thesis
    by (simp add: demo_sse_content demo_chunks_eval)
qed

theorem provider_stream_delivery_witness:
  "concat (fst demo_delivery) = concat demo_chunks \<and> tk_usage (tr_tracker (snd (snd demo_delivery))) = demo_usage"
proof -
  let ?t = "fold tk_observe (sseEvents (concat demo_chunks)) (newStreamUsageTracker demo_codec demo_resolved demo_request)"
  have u: "tk_usage ?t = demo_usage" by code_simp
  have run: "reads (tr_Read (lr_Read up_Read)) (replicate 6 16)
      (tk_Wrap (newResponseLimitReadCloser demo_sse 100) (newStreamUsageTracker demo_codec demo_resolved demo_request)) =
     (fst demo_delivery, Some (Sentinel EOF), snd (snd demo_delivery))"
    using demo_delivery_ends by (simp add: demo_delivery_def demo_tracker_def prod_eq_iff)
  have "int (length (concat demo_chunks)) \<le> 100" by (simp add: demo_chunks_eval)
  from provider_stream_delivery [OF run demo_sse_content this demo_short refl] u show ?thesis by simp
qed

end
