(* ===== verification/Go_Http.thy ===== *)
theory Go_Http
  imports Token_Validation
begin

text \<open>
  What the proxy and the API use of Go's \<open>net/http\<close>, \<open>mime\<close> and \<open>strings\<close>: canonical header names and
  the methods of \<open>http.Header\<close>, the parser of media types, and a few functions on strings. Case folding
  is that of ASCII letters.
\<close>

section \<open>Strings\<close>

definition EqualFold :: "string \<Rightarrow> string \<Rightarrow> bool" where
  "EqualFold a b \<longleftrightarrow> ToLower a = ToLower b"

fun ContainsStr :: "string \<Rightarrow> string \<Rightarrow> bool" where
  "ContainsStr [] sub \<longleftrightarrow> sub = []"
| "ContainsStr (c # cs) sub \<longleftrightarrow> HasPrefix (c # cs) sub \<or> ContainsStr cs sub"

definition HasSuffix :: "string \<Rightarrow> string \<Rightarrow> bool" where
  "HasSuffix s suffix \<longleftrightarrow> HasPrefix (rev s) (rev suffix)"

text \<open>\<open>strings.TrimLeft\<close> and \<open>strings.TrimRight\<close> with one byte to trim.\<close>

definition TrimLeftByte :: "char \<Rightarrow> string \<Rightarrow> string" where
  "TrimLeftByte c s = dropWhile (\<lambda>d. d = c) s"

definition TrimRightByte :: "char \<Rightarrow> string \<Rightarrow> string" where
  "TrimRightByte c s = rev (dropWhile (\<lambda>d. d = c) (rev s))"

section \<open>Checks\<close>

text \<open>
  A sequence of checks of which the first failing one is reported, and the continuation of a fallible
  step. A check has no effects, so evaluating the later ones changes nothing.
\<close>

definition failIf :: "bool \<Rightarrow> string \<Rightarrow> goerr option" where
  "failIf c message = (if c then Some (Plain message) else None)"

fun firstErr :: "goerr option list \<Rightarrow> goerr option" where
  "firstErr [] = None"
| "firstErr (e # es) = (case e of Some err \<Rightarrow> Some err | None \<Rightarrow> firstErr es)"

definition unless :: "goerr option \<Rightarrow> goerr + 'a \<Rightarrow> goerr + 'a" where
  "unless e k = (case e of Some err \<Rightarrow> Inl err | None \<Rightarrow> k)"

definition and_then :: "goerr + 'a \<Rightarrow> ('a \<Rightarrow> goerr + 'b) \<Rightarrow> goerr + 'b" where
  "and_then m k = (case m of Inl err \<Rightarrow> Inl err | Inr x \<Rightarrow> k x)"

lemma failIf_None [simp]: "failIf c m = None \<longleftrightarrow> \<not> c"
  by (simp add: failIf_def)

lemma firstErr_None [simp]: "firstErr es = None \<longleftrightarrow> list_all (\<lambda>e. e = None) es"
  by (induction es) (auto split: option.split)

declare firstErr.simps [simp del]

lemma list_all_concat: "list_all P (concat xss) \<longleftrightarrow> list_all (list_all P) xss"
  by (induction xss) simp_all

lemmas checks_simps = list_all_concat list.pred_map comp_def case_prod_unfold Let_def

lemma unless_Inr [simp]: "unless e k = Inr x \<longleftrightarrow> e = None \<and> k = Inr x"
  by (simp add: unless_def split: option.split)

lemma and_then_Inr [simp]: "and_then m k = Inr y \<longleftrightarrow> (\<exists>x. m = Inr x \<and> k x = Inr y)"
  by (simp add: and_then_def split: sum.split)

section \<open>Headers\<close>

text \<open>The bytes of a header field name.\<close>

definition token_byte :: "nat \<Rightarrow> bool" where
  "token_byte b \<longleftrightarrow> 48 \<le> b \<and> b \<le> 57 \<or> 65 \<le> b \<and> b \<le> 90 \<or> 97 \<le> b \<and> b \<le> 122 \<or>
     b \<in> set (map byte ''!#$%&*+-.^_|~'') \<or> b = 0x27 \<or> b = 0x60"

fun canonicalLoop :: "bool \<Rightarrow> string \<Rightarrow> string" where
  "canonicalLoop upper [] = []"
| "canonicalLoop upper (c # cs) =
     (if upper then to_upper_char c else to_lower_char c) # canonicalLoop (c = CHR ''-'') cs"

definition CanonicalHeaderKey :: "string \<Rightarrow> string" where
  "CanonicalHeaderKey s = (if list_all (\<lambda>c. token_byte (byte c)) s then canonicalLoop True s else s)"

definition h_Values :: "Header \<Rightarrow> string \<Rightarrow> string list" where
  "h_Values h key = (case map_of h (CanonicalHeaderKey key) of None \<Rightarrow> [] | Some vs \<Rightarrow> vs)"

definition h_Get :: "Header \<Rightarrow> string \<Rightarrow> string" where
  "h_Get h key = (case h_Values h key of [] \<Rightarrow> [] | v # _ \<Rightarrow> v)"

definition h_Set :: "string \<Rightarrow> string \<Rightarrow> Header \<Rightarrow> Header" where
  "h_Set key v h = AList.update (CanonicalHeaderKey key) [v] h"

definition h_Add :: "string \<Rightarrow> string \<Rightarrow> Header \<Rightarrow> Header" where
  "h_Add key v h = AList.update (CanonicalHeaderKey key) (h_Values h key @ [v]) h"

definition h_Del :: "string \<Rightarrow> Header \<Rightarrow> Header" where
  "h_Del key h = AList.delete (CanonicalHeaderKey key) h"

section \<open>Media types\<close>

text \<open>The byte classes of package \<open>mime\<close>, its tokens, quoted values and parameters.\<close>

definition isTSpecial :: "char \<Rightarrow> bool" where
  "isTSpecial c \<longleftrightarrow> c \<in> set ''()<>@,;:/[]?='' \<or> byte c = 0x22 \<or> byte c = 0x5C"

definition isTokenChar :: "char \<Rightarrow> bool" where
  "isTokenChar c \<longleftrightarrow> 0x20 < byte c \<and> byte c < 0x7F \<and> \<not> isTSpecial c"

definition consumeToken :: "string \<Rightarrow> string \<times> string" where
  "consumeToken v = (takeWhile isTokenChar v, dropWhile isTokenChar v)"

fun quotedValue :: "string \<Rightarrow> (string \<times> string) option" where
  "quotedValue [] = None"
| "quotedValue (c # cs) =
     (if byte c = 0x22 then Some ([], cs)
      else if byte c = 0x5C \<and> cs \<noteq> [] \<and> isTSpecial (hd cs) then
        (case cs of [] \<Rightarrow> None
         | d # ds \<Rightarrow> (case quotedValue ds of None \<Rightarrow> None | Some (v, rest) \<Rightarrow> Some (d # v, rest)))
      else if byte c = 0x0D \<or> byte c = 0x0A then None
      else (case quotedValue cs of None \<Rightarrow> None | Some (v, rest) \<Rightarrow> Some (c # v, rest)))"

definition consumeValue :: "string \<Rightarrow> string \<times> string" where
  "consumeValue v =
     (case v of
        [] \<Rightarrow> ([], [])
      | c # cs \<Rightarrow>
          if byte c \<noteq> 0x22 then consumeToken v
          else (case quotedValue cs of None \<Rightarrow> ([], v) | Some r \<Rightarrow> r))"

text \<open>A parameter's name, value and what follows; \<open>None\<close> where the Go function gives an empty name.\<close>

definition consumeMediaParam :: "string \<Rightarrow> (string \<times> string \<times> string) option" where
  "consumeMediaParam v =
     (case strip_prefix '';'' (trim_left v) of
        None \<Rightarrow> None
      | Some rest \<Rightarrow>
          (let (param, rest) = consumeToken (trim_left rest); param = ToLower param
           in if param = [] then None
              else (case strip_prefix ''='' (trim_left rest) of
                      None \<Rightarrow> None
                    | Some rest \<Rightarrow>
                        (let rest = trim_left rest; (value, rest2) = consumeValue rest
                         in if value = [] \<and> rest2 = rest then None else Some (param, value, rest2)))))"

lemma trim_left_length: "length (trim_left s) \<le> length s"
  by (induction s rule: trim_left.induct)
    (subst trim_left.simps, force split: option.split dest: strip_any_space_shorter)

lemma quotedValue_length: "quotedValue s = Some (v, rest) \<Longrightarrow> length rest < length s"
  by (induction s arbitrary: v rule: quotedValue.induct) (fastforce split: if_splits option.splits list.splits)+

lemma consumeToken_length: "consumeToken s = (t, rest) \<Longrightarrow> length rest \<le> length s"
  by (auto simp: consumeToken_def length_dropWhile_le)

lemma consumeValue_length: "consumeValue s = (v, rest) \<Longrightarrow> length rest \<le> length s"
  by (auto simp: consumeValue_def split: list.splits if_splits option.splits
      dest: consumeToken_length quotedValue_length)

lemma consumeMediaParam_length: "consumeMediaParam v = Some (p, val, rest) \<Longrightarrow> length rest < length v"
proof -
  assume a: "consumeMediaParam v = Some (p, val, rest)"
  then obtain r0 t r1 r2 where
    s0: "strip_prefix '';'' (trim_left v) = Some r0" and
    s1: "consumeToken (trim_left r0) = (t, r1)" and
    s2: "strip_prefix ''='' (trim_left r1) = Some r2" and
    s3: "consumeValue (trim_left r2) = (val, rest)"
    by (auto simp: consumeMediaParam_def Let_def split: option.splits prod.splits if_splits)
  have "length r0 < length v" using s0 trim_left_length [of v] by (auto simp: strip_prefix_Some)
  moreover have "length r1 \<le> length r0" using consumeToken_length [OF s1] trim_left_length [of r0] by simp
  moreover have "length r2 < length r1" using s2 trim_left_length [of r1] by (auto simp: strip_prefix_Some)
  moreover have "length rest \<le> length r2" using consumeValue_length [OF s3] trim_left_length [of r2] by simp
  ultimately show ?thesis by simp
qed

lemma consumeMediaParam_trimmed: "consumeMediaParam (trim_left v) = Some (p, val, rest) \<Longrightarrow> length rest < length v"
  by (drule consumeMediaParam_length) (use trim_left_length [of v] in simp)

text \<open>
  The parameters after the media type: whether they parse. Names with an asterisk are kept apart by
  their base name, which only separates names that differ anyway.
\<close>

function mediaParams :: "(string \<rightharpoonup> string) \<Rightarrow> string \<Rightarrow> bool" where
  "mediaParams params v =
     (let v = trim_left v
      in if v = [] then True
         else (case consumeMediaParam v of
                 None \<Rightarrow> TrimSpace v = '';''
               | Some (key, value, rest) \<Rightarrow>
                   (case params key of
                      Some old \<Rightarrow> if old \<noteq> value then False else mediaParams params rest
                    | None \<Rightarrow> mediaParams (params(key \<mapsto> value)) rest)))"
  by pat_completeness auto
termination
  by (relation "measure (\<lambda>(params, v). length v)")
    (auto dest!: sym [of "Some _"] consumeMediaParam_trimmed)

declare mediaParams.simps [simp del]

definition validMediaType :: "string \<Rightarrow> bool" where
  "validMediaType s =
     (let (typ, rest) = consumeToken s
      in if typ = [] then False
         else if rest = [] then True
         else (case strip_prefix ''/'' rest of
                 None \<Rightarrow> False
               | Some r \<Rightarrow> (let (subtype, rest) = consumeToken r in subtype \<noteq> [] \<and> rest = [])))"

text \<open>\<open>mime.ParseMediaType\<close>: the media type, or \<open>None\<close> with an error.\<close>

definition ParseMediaType :: "string \<Rightarrow> string option" where
  "ParseMediaType v =
     (let base = takeWhile (\<lambda>c. c \<noteq> CHR '';'') v; mediatype = TrimSpace (ToLower base)
      in if \<not> validMediaType mediatype then None
         else if mediaParams Map.empty (drop (length base) v) then Some mediatype else None)"

end
