(* ===== verification/Provider_Proxy.thy ===== *)
theory Provider_Proxy
  imports Provider_Streams Go_Http
begin

text \<open>
  The provider runtime of \<open>proxy/proxy.go\<close> around an adapter (\<open>proxy/adapter.go\<close>): one invocation
  builds the upstream request, sends it, bounds and checks the response, classifies its errors and
  returns a body or a tracked stream. The hooks of the adapter, the HTTP client and the states of the
  context are arguments; \<open>'x\<close> is the stream an adapter puts in front of the provider's.
\<close>

section \<open>Adapters\<close>

record PreparedRequest =
  pq_Body :: string
  pq_URL :: string

record OperationAdapter =
  oa_Prepare :: "(ResolvedRoute \<Rightarrow> Request \<Rightarrow> goerr + PreparedRequest) option"
  oa_ValidateResponse :: "(string \<Rightarrow> goerr option) option"

record httpRequest =
  hq_URL :: string
  hq_Body :: string
  hq_Header :: Header

record httpResponse =
  hp_StatusCode :: int
  hp_Header :: Header
  hp_Body :: upstream

type_synonym 's trackedBody = "('s, upstream responseLimitReadCloser) usageTrackingReadCloser"

text \<open>A stream the adapter hands back: the one it was given, or one of its own.\<close>

datatype ('s, 'x) adaptedStream = TrackedStream "'s trackedBody" | AdapterStream 'x

text \<open>A nil hook is \<open>None\<close>. The transform of the stream codec stands beside the other hooks.\<close>

record ('s, 'x) Adapter =
  ad_Name :: string
  ad_Operations :: "Operation \<rightharpoonup> OperationAdapter"
  ad_ApplyAuth :: "(httpRequest \<Rightarrow> Route option \<Rightarrow> goerr + httpRequest) option"
  ad_ForwardHeaders :: "(Header \<Rightarrow> Header \<Rightarrow> Header) option"
  ad_ParseError :: "(int \<Rightarrow> string \<Rightarrow> goerr option) option"
  ad_ExtractUsage :: "(ResolvedRoute \<Rightarrow> Request \<Rightarrow> string \<Rightarrow> Usage) option"
  ad_Stream :: "'s StreamCodec"
  ad_StreamTransform :: "(ResolvedRoute \<Rightarrow> Request \<Rightarrow> 's trackedBody \<Rightarrow>
    goerr + (('s, 'x) adaptedStream option \<times> bool)) option"
  ad_Preflight :: "(ResolvedRoute \<Rightarrow> Request \<Rightarrow> goerr option) option"
  ad_TransformResponse :: "(ResolvedRoute \<Rightarrow> Request \<Rightarrow> string \<Rightarrow> goerr + (string \<times> bool)) option"
  ad_ValidateRoute :: "(Route \<Rightarrow> goerr option) option"
  ad_PlanBridge :: "(Route \<Rightarrow> Request \<Rightarrow> Operation \<times> string \<times> bool) option"
  ad_ProjectTokenText :: "(string \<Rightarrow> string) option"

definition adapter_operation :: "('s, 'x) Adapter \<Rightarrow> Operation \<Rightarrow> OperationAdapter option" where
  "adapter_operation a op =
     (case ad_Operations a op of
        Some operation \<Rightarrow> if oa_Prepare operation \<noteq> None then Some operation else None
      | None \<Rightarrow> None)"

definition Provider_Supports :: "('s, 'x) Adapter \<Rightarrow> Operation \<Rightarrow> bool" where
  "Provider_Supports a op \<longleftrightarrow> adapter_operation a op \<noteq> None"

definition Provider_ValidateRoute :: "('s, 'x) Adapter \<Rightarrow> Route option \<Rightarrow> goerr option" where
  "Provider_ValidateRoute a route =
     (case route of
        None \<Rightarrow> Some (api (UnsupportedOperation ''missing route''))
      | Some r \<Rightarrow>
          if ad_Name a \<noteq> [] \<and> r_Provider r \<noteq> [] \<and> r_Provider r \<noteq> ad_Name a then
            Some (Plain (''route '' @ r_Name r @ '' provider '' @ quoted (r_Provider r) @
              '' does not match adapter '' @ quoted (ad_Name a)))
          else (case ad_ValidateRoute a of None \<Rightarrow> None | Some f \<Rightarrow> f r))"

definition Provider_PlanBridge :: "('s, 'x) Adapter \<Rightarrow> Route \<Rightarrow> Request \<Rightarrow> Operation \<times> string \<times> bool" where
  "Provider_PlanBridge a route req =
     (case ad_PlanBridge a of
        None \<Rightarrow> ([], ''route does not support requested operation'', False)
      | Some f \<Rightarrow> f route req)"

definition Provider_ProjectTokenText :: "('s, 'x) Adapter \<Rightarrow> string \<Rightarrow> string" where
  "Provider_ProjectTokenText a raw = (case ad_ProjectTokenText a of None \<Rightarrow> raw | Some f \<Rightarrow> f raw)"

definition Provider_BuildEffective :: "Request option \<Rightarrow> EffectiveParams" where
  "Provider_BuildEffective req =
     \<lparr>ep_MaxOutputTokens = (case req of None \<Rightarrow> 0 | Some r \<Rightarrow> RequestedMaxOutputTokens r)\<rparr>"

definition Provider_Preflight :: "('s, 'x) Adapter \<Rightarrow> ResolvedRoute \<Rightarrow> Request \<Rightarrow> goerr option" where
  "Provider_Preflight a route req = (case ad_Preflight a of None \<Rightarrow> None | Some f \<Rightarrow> f route req)"

section \<open>Upstream errors\<close>

definition routeLocalNotFound :: "APIError \<Rightarrow> bool" where
  "routeLocalNotFound err =
     (let v = ToLower (ae_Code err @ '' '' @ ae_Message err)
      in list_ex (ContainsStr v) [''model'', ''deployment'', ''endpoint''])"

definition withUpstreamDisposition :: "APIError \<Rightarrow> int \<Rightarrow> APIError" where
  "withUpstreamDisposition err status =
     (if status < 200 \<or> (300 \<le> status \<and> status < 400) \<or> status > 599 then
        WithDisposition False True True
          (NewError 502 ''upstream_error'' ''unexpected_upstream_status'' ''upstream returned an unexpected HTTP status'')
      else if status = 401 \<or> status = 403 then
        WithDisposition False True True
          (NewError 502 ''upstream_error'' ''upstream_authentication_failed'' ''upstream route authentication failed'')
      else if status = 404 \<and> routeLocalNotFound err then
        WithDisposition False True True
          (NewError 502 ''upstream_error'' ''upstream_route_not_found'' ''upstream route or model was not found'')
      else if 500 \<le> status then WithDisposition True True True err
      else if status = 408 \<or> status = 409 \<or> status = 425 then WithDisposition True True False err
      else if status = 429 then WithDisposition False True False err
      else err)"

definition genericUpstreamError :: "int \<Rightarrow> goerr" where
  "genericUpstreamError status =
     api (withUpstreamDisposition
       (NewError status ''upstream_error'' ''upstream_error'' (''upstream returned '' @ show_int status)) status)"

definition invalidUpstreamResponse :: "string \<Rightarrow> goerr" where
  "invalidUpstreamResponse detail =
     api (WithDisposition False True True
       (NewError 502 ''upstream_error'' ''invalid_upstream_response''
          (''upstream returned an invalid response: '' @ detail)))"

definition parseError :: "('s, 'x) Adapter \<Rightarrow> int \<Rightarrow> string \<Rightarrow> goerr" where
  "parseError a status body =
     (case ad_ParseError a of
        Some f \<Rightarrow> (case f status body of Some e \<Rightarrow> e | None \<Rightarrow> genericUpstreamError status)
      | None \<Rightarrow> genericUpstreamError status)"

definition extractUsage :: "('s, 'x) Adapter \<Rightarrow> ResolvedRoute \<Rightarrow> Request \<Rightarrow> string \<Rightarrow> Usage" where
  "extractUsage a route req body =
     (case ad_ExtractUsage a of None \<Rightarrow> zero_usage | Some f \<Rightarrow> f route req body)"

definition WithResponseHeaders :: "goerr \<Rightarrow> Header \<Rightarrow> goerr" where
  "WithResponseHeaders err headers =
     (if headers = [] then err else upd_api (\<lambda>a. a\<lparr>ae_Headers := headers\<rparr>) err)"

definition upstreamAttemptError :: "int \<Rightarrow> goerr \<Rightarrow> Usage \<Rightarrow> Header \<Rightarrow> goerr" where
  "upstreamAttemptError status err usage headers =
     (let err = WithResponseHeaders err headers
      in if status < 500 \<and> Usage_IsZero usage then WithoutAttemptCharge err
         else WithAttemptUsage err usage)"

definition safeErrorHeader :: "string \<Rightarrow> bool" where
  "safeErrorHeader key \<longleftrightarrow>
     (let lower = ToLower key
      in EqualFold key ''Retry-After'' \<or> EqualFold key ''X-Request-ID'' \<or> EqualFold key ''Request-ID'' \<or>
         HasPrefix lower ''x-ratelimit-'' \<or> HasPrefix lower ''ratelimit-'' \<or> HasPrefix lower ''anthropic-ratelimit-'')"

definition safeUpstreamErrorHeaders :: "Header \<Rightarrow> Header" where
  "safeUpstreamErrorHeaders headers =
     fold (\<lambda>(key, vs) out. if \<not> safeErrorHeader key then out else fold (h_Add key) vs out) headers []"

section \<open>Response headers\<close>

definition stripTransformedResponseHeaders :: "Header \<Rightarrow> Header" where
  "stripTransformedResponseHeaders headers =
     fold h_Del [''Content-Length'', ''Content-Encoding'', ''Content-Range'', ''Content-MD5'', ''Digest'',
       ''Content-Digest'', ''Repr-Digest'', ''ETag''] headers"

definition responseHeaderMayOverlapRequest :: "string \<Rightarrow> bool" where
  "responseHeaderMayOverlapRequest key \<longleftrightarrow>
     (let lower = ToLower (TrimSpace key)
      in lower \<in> set
           [''accept-ranges'', ''age'', ''allow'', ''alt-svc'', ''cache-control'',
            ''content-digest'', ''content-disposition'', ''content-encoding'', ''content-language'', ''content-length'',
            ''content-location'', ''content-range'', ''content-type'', ''date'', ''digest'', ''etag'', ''expires'',
            ''last-modified'', ''link'', ''location'', ''request-id'', ''repr-digest'', ''retry-after'', ''server'',
            ''timing-allow-origin'', ''vary'', ''warning'', ''www-authenticate'', ''x-correlation-id'', ''x-request-id'']
         \<or> HasPrefix lower ''access-control-'' \<or> HasPrefix lower ''x-ratelimit-'' \<or>
         HasPrefix lower ''ratelimit-'' \<or> HasPrefix lower ''anthropic-ratelimit-'')"

definition stripEchoedRequestHeaders :: "Header \<Rightarrow> Header \<Rightarrow> Header" where
  "stripEchoedRequestHeaders response request =
     fold (\<lambda>(key, _) h. if responseHeaderMayOverlapRequest key then h else h_Del key h) request response"

section \<open>The upstream request\<close>

definition applyRequestHeaders ::
  "ResolvedRoute \<Rightarrow> Route \<Rightarrow> Meta \<Rightarrow> (Header \<Rightarrow> Header \<Rightarrow> Header) option \<Rightarrow> Header \<Rightarrow> Header" where
  "applyRequestHeaders resolved route meta forward h =
     (let h = (if m_RequestID meta \<noteq> [] then h_Set ''X-Request-ID'' (m_RequestID meta) h else h);
          h = (case forward of None \<Rightarrow> h | Some f \<Rightarrow> f h (m_Headers meta));
          h = fold (\<lambda>(key, v) h. h_Set key v h) (r_Headers route) h
      in fold (\<lambda>(key, vs) h. fold (h_Add key) vs (h_Del key h)) (rr_Headers resolved) h)"

definition forwardSelectedHeaders :: "string list \<Rightarrow> Header \<Rightarrow> Header \<Rightarrow> Header" where
  "forwardSelectedHeaders keys dst src =
     fold (\<lambda>key dst. fold (h_Add key) (h_Values src key) dst) keys dst"

definition joinURL :: "string \<Rightarrow> string \<Rightarrow> string" where
  "joinURL base path = TrimRightByte (CHR ''/'') base @ ''/'' @ TrimLeftByte (CHR ''/'') path"

definition upstreamModel :: "Route option \<Rightarrow> string" where
  "upstreamModel route =
     (case route of
        None \<Rightarrow> []
      | Some r \<Rightarrow> if r_UpstreamModel r \<noteq> [] then r_UpstreamModel r else r_Model r)"

section \<open>Limits and fallback usage\<close>

definition responseBodyLimit :: "ResolvedRoute \<Rightarrow> Request option \<Rightarrow> int" where
  "responseBodyLimit route req =
     (let limit = (case req of Some r \<Rightarrow> if rq_Operation r = OpEmbeddings then 67108864 else 16777216 | None \<Rightarrow> 16777216)
      in case rr_Route route of
           Some r \<Rightarrow> if lc_MaxResponseBytes (r_Limits r) > 0 then lc_MaxResponseBytes (r_Limits r) else limit
         | None \<Rightarrow> limit)"

abbreviation maxUpstreamErrorBytes :: int where
  "maxUpstreamErrorBytes \<equiv> 1048576"

definition fallbackInput :: "Request \<Rightarrow> int" where
  "fallbackInput req =
     (let body = m_BodyBytes (rq_Meta req);
          prompt = TrimSpace (h_PromptText (rq_Hints req));
          n = h_EstimatedInputTokens (rq_Hints req);
          n = (if n = 0 \<and> body > 0 then if go_div body 4 = 0 then 1 else go_div body 4 else n);
          n = (if n = 0 \<and> prompt \<noteq> [] then int (RuneCount (map byte prompt)) div 4 + 1 else n)
      in if n = 0 then 1 else n)"

definition fallbackOutput :: "Request \<Rightarrow> int" where
  "fallbackOutput req =
     (let out = RequestedMaxOutputTokens req;
          out = (if out = 0 \<and> rq_Operation req \<noteq> OpEmbeddings then 256 else out)
      in if rq_Operation req = OpEmbeddings then 0 else out)"

definition fallbackUsage :: "Request \<Rightarrow> Usage \<Rightarrow> Usage" where
  "fallbackUsage req routeEstimate =
     (if \<not> Usage_IsZero routeEstimate then
        if u_TotalTokens routeEstimate = 0 then
          routeEstimate\<lparr>u_TotalTokens := saturatingProxyAdd (u_InputTokens routeEstimate) (u_OutputTokens routeEstimate)\<rparr>
        else routeEstimate
      else zero_usage\<lparr>u_InputTokens := fallbackInput req, u_OutputTokens := fallbackOutput req,
             u_TotalTokens := saturatingProxyAdd (fallbackInput req) (fallbackOutput req)\<rparr>)"

section \<open>One invocation\<close>

text \<open>
  What an invocation meets outside the process: whether \<open>net/url\<close> parses the URL, the state of the
  context before the call and after a failed one, the HTTP client (which follows no redirects), and the
  buffers of \<open>io.ReadAll\<close>.
\<close>

record proxyEnv =
  pe_URLParses :: "string \<Rightarrow> bool"
  pe_CtxErr :: "goerr option"
  pe_Do :: "httpRequest \<Rightarrow> goerr + httpResponse"
  pe_CtxErrAfter :: "goerr option"
  pe_Spare :: "nat \<Rightarrow> nat"

datatype ('s, 'x) providerStream =
  OpenStream "('s, 'x) adaptedStream"
  | CappedStream "('s, 'x) adaptedStream responseLimitReadCloser"

text \<open>
  The result of a call. The usage snapshot of a stream is the usage its tracker has, inside the stream.
\<close>

record ('s, 'x) providerResult =
  pr_StatusCode :: int
  pr_Headers :: Header
  pr_ContentType :: string
  pr_RawBody :: string
  pr_RawStream :: "('s, 'x) providerStream option"
  pr_Usage :: Usage

datatype ('s, 'x) invokeOutcome = Panicked | Failed goerr | Answered "('s, 'x) providerResult"

text \<open>
  The request up to the point of sending it: \<open>Inl None\<close> is the panic of a route without its configuration,
  \<open>Inl (Some e)\<close> an error before anything was sent.
\<close>

definition prepareUpstream ::
  "proxyEnv \<Rightarrow> ('s, 'x) Adapter \<Rightarrow> ResolvedRoute \<Rightarrow> Request \<Rightarrow> OperationAdapter \<Rightarrow> goerr option + httpRequest" where
  "prepareUpstream env a route req operation =
     (case the (oa_Prepare operation) route req of
        Inl e \<Rightarrow> Inl (Some (WithoutAttemptCharge e))
      | Inr prepared \<Rightarrow>
          if \<not> pe_URLParses env (pq_URL prepared) then
            Inl (Some (WithoutAttemptCharge (api (NewError 502 ''upstream_error'' ''request_failed'' ''could not build upstream request''))))
          else (case rr_Route route of
             None \<Rightarrow> Inl None
           | Some r \<Rightarrow>
               (let h = applyRequestHeaders route r (rq_Meta req) (ad_ForwardHeaders a)
                          (h_Set ''Content-Type'' ''application/json'' []);
                    httpReq = \<lparr>hq_URL = pq_URL prepared, hq_Body = pq_Body prepared, hq_Header = h\<rparr>
                in case (case ad_ApplyAuth a of None \<Rightarrow> Inr httpReq | Some f \<Rightarrow> f httpReq (rr_Route route)) of
                     Inl e \<Rightarrow> Inl (Some (WithoutAttemptCharge e))
                   | Inr httpReq \<Rightarrow>
                       (case pe_CtxErr env of
                          Some e \<Rightarrow> Inl (Some (WithoutAttemptCharge e))
                        | None \<Rightarrow> Inr httpReq))))"

definition sendFailed :: "proxyEnv \<Rightarrow> goerr \<Rightarrow> goerr" where
  "sendFailed env err =
     (if (case pe_CtxErrAfter env of None \<Rightarrow> False | Some e \<Rightarrow> err_is Canceled e) then Sentinel Canceled
      else if (case pe_CtxErrAfter env of None \<Rightarrow> False | Some e \<Rightarrow> err_is DeadlineExceeded e) then
        ApiErr (WithDisposition True True True
          (NewError 504 ''upstream_error'' ''upstream_timeout'' ''upstream request timed out'')) (Some err)
      else
        ApiErr (WithDisposition True True True
          (NewError 502 ''upstream_error'' ''request_failed'' ''upstream request failed'')) (Some err))"

definition readFailed :: "goerr \<Rightarrow> goerr" where
  "readFailed err =
     ApiErr (WithDisposition True True True
       (NewError 502 ''upstream_error'' ''read_failed'' ''failed to read upstream response'')) (Some err)"

definition rejectedStatus :: "int \<Rightarrow> bool" where
  "rejectedStatus status \<longleftrightarrow> status < 200 \<or> 300 \<le> status"

definition upstreamRejection :: "('s, 'x) Adapter \<Rightarrow> ResolvedRoute \<Rightarrow> Request \<Rightarrow> httpResponse \<Rightarrow> string \<Rightarrow> goerr" where
  "upstreamRejection a route req resp body =
     upstreamAttemptError (hp_StatusCode resp) (parseError a (hp_StatusCode resp) body)
       (extractUsage a route req body) (safeUpstreamErrorHeaders (hp_Header resp))"

text \<open>The bounded read of a response whose body is closed on return.\<close>

definition readResponse ::
  "proxyEnv \<Rightarrow> httpResponse \<Rightarrow> int \<Rightarrow> (goerr + string) \<times> upstream" where
  "readResponse env resp limit =
     (case readBounded (pe_Spare env) (hp_Body resp) limit of
        ((data, tooLarge, err), u) \<Rightarrow>
          ((case err of
              Some e \<Rightarrow> Inl (readFailed e)
            | None \<Rightarrow> if tooLarge then Inl responseTooLargeError else Inr data), snd (up_Close u)))"

definition lr_Close :: "('b \<Rightarrow> goerr option \<times> 'b) \<Rightarrow> 'b responseLimitReadCloser \<Rightarrow> goerr option \<times> 'b responseLimitReadCloser" where
  "lr_Close body_Close r = (case body_Close (lr_body r) of (e, b) \<Rightarrow> (e, r\<lparr>lr_body := b\<rparr>))"

definition closeTracked :: "'s trackedBody \<Rightarrow> upstream" where
  "closeTracked current = lr_body (tr_body (snd (tr_Close (lr_Close up_Close) current)))"

text \<open>
  A response to a streaming call. The second component is the body after it was closed; a stream that is
  handed out keeps it.
\<close>

definition openStream ::
  "('s, 'x) Adapter \<Rightarrow> ResolvedRoute \<Rightarrow> Request \<Rightarrow> httpRequest \<Rightarrow> httpResponse \<Rightarrow> int \<Rightarrow>
     ('s, 'x) invokeOutcome \<times> upstream option" where
  "openStream a route req httpReq resp limit =
     (let responseHeaders = stripEchoedRequestHeaders (hp_Header resp) (hq_Header httpReq);
          current = tk_Wrap (newResponseLimitReadCloser (hp_Body resp) limit)
                      (newStreamUsageTracker (ad_Stream a) route req)
      in case (case ad_StreamTransform a of
                 None \<Rightarrow> Inr (Some (TrackedStream current), False)
               | Some f \<Rightarrow> f route req current) of
           Inl e \<Rightarrow> (Failed e, Some (closeTracked current))
         | Inr (None, _) \<Rightarrow>
             (Failed (api (NewError 500 ''server_error'' ''invalid_adapter'' ''provider stream adapter returned no stream'')),
              Some (closeTracked current))
         | Inr (Some stream, transformed) \<Rightarrow>
             (Answered
                \<lparr>pr_StatusCode = hp_StatusCode resp,
                 pr_Headers = (if transformed then stripTransformedResponseHeaders responseHeaders else responseHeaders),
                 pr_ContentType = firstNonEmpty [h_Get (hp_Header resp) ''Content-Type'', ''text/event-stream''],
                 pr_RawBody = [],
                 pr_RawStream = Some (if transformed then CappedStream (newResponseLimitReadCloser stream limit)
                                      else OpenStream stream),
                 pr_Usage = fallbackUsage req (rr_Estimate route)\<rparr>, None))"

definition invokeStream ::
  "proxyEnv \<Rightarrow> ('s, 'x) Adapter \<Rightarrow> ResolvedRoute \<Rightarrow> Request \<Rightarrow> httpRequest \<Rightarrow> httpResponse \<Rightarrow> int \<Rightarrow>
     ('s, 'x) invokeOutcome \<times> upstream option" where
  "invokeStream env a route req httpReq resp limit =
     (if rejectedStatus (hp_StatusCode resp) then
        (case readResponse env resp maxUpstreamErrorBytes of
           (Inl e, u) \<Rightarrow> (Failed e, Some u)
         | (Inr body, u) \<Rightarrow> (Failed (upstreamRejection a route req resp body), Some u))
      else if (case ParseMediaType (h_Get (hp_Header resp) ''Content-Type'') of
                 None \<Rightarrow> True | Some mediaType \<Rightarrow> \<not> EqualFold mediaType ''text/event-stream'') then
        (Failed (invalidUpstreamResponse ''stream response is not SSE''), Some (snd (up_Close (hp_Body resp))))
      else openStream a route req httpReq resp limit)"

definition unaryResult ::
  "('s, 'x) Adapter \<Rightarrow> ResolvedRoute \<Rightarrow> Request \<Rightarrow> httpRequest \<Rightarrow> httpResponse \<Rightarrow> int \<Rightarrow> string \<Rightarrow> ('s, 'x) invokeOutcome" where
  "unaryResult a route req httpReq resp limit data =
     (let usage = extractUsage a route req data;
          responseHeaders = stripEchoedRequestHeaders (hp_Header resp) (hq_Header httpReq)
      in case (case ad_TransformResponse a of None \<Rightarrow> Inr (data, False) | Some f \<Rightarrow> f route req data) of
           Inl e \<Rightarrow> Failed (WithAttemptUsage (AllowFallback e) usage)
         | Inr (data, transformed) \<Rightarrow>
             if transformed \<and> int (length data) > limit then Failed responseTooLargeError
             else Answered
               \<lparr>pr_StatusCode = hp_StatusCode resp,
                pr_Headers = (if transformed then stripTransformedResponseHeaders responseHeaders else responseHeaders),
                pr_ContentType = (if transformed then ''application/json''
                  else firstNonEmpty [h_Get (hp_Header resp) ''Content-Type'', ''application/json'']),
                pr_RawBody = data, pr_RawStream = None,
                pr_Usage = ReconcileReportedUsage usage (fallbackUsage req (rr_Estimate route))\<rparr>)"

definition invokeUnary ::
  "proxyEnv \<Rightarrow> ('s, 'x) Adapter \<Rightarrow> ResolvedRoute \<Rightarrow> Request \<Rightarrow> OperationAdapter \<Rightarrow> httpRequest \<Rightarrow> httpResponse \<Rightarrow> int \<Rightarrow>
     ('s, 'x) invokeOutcome \<times> upstream option" where
  "invokeUnary env a route req operation httpReq resp limit =
     (let limit = (if rejectedStatus (hp_StatusCode resp) then maxUpstreamErrorBytes else limit)
      in case readResponse env resp limit of
           (Inl e, u) \<Rightarrow> (Failed e, Some u)
         | (Inr data, u) \<Rightarrow>
             ((if rejectedStatus (hp_StatusCode resp) then Failed (upstreamRejection a route req resp data)
               else (case (case oa_ValidateResponse operation of None \<Rightarrow> None | Some f \<Rightarrow> f data) of
                       Some e \<Rightarrow> Failed e
                     | None \<Rightarrow> unaryResult a route req httpReq resp limit data)), Some u))"

definition Provider_Invoke ::
  "proxyEnv \<Rightarrow> ('s, 'x) Adapter \<Rightarrow> ResolvedRoute \<Rightarrow> Request option \<Rightarrow> ('s, 'x) invokeOutcome \<times> upstream option" where
  "Provider_Invoke env a route reqp =
     (case reqp of
        None \<Rightarrow> (Failed (WithoutAttemptCharge (api (NewError 400 ''invalid_request_error'' ''invalid_request'' ''request is required''))), None)
      | Some req \<Rightarrow>
          (case adapter_operation a (rq_Operation req) of
             None \<Rightarrow> (Failed (WithoutAttemptCharge (api (UnsupportedOperation ''provider adapter does not support requested operation''))), None)
           | Some operation \<Rightarrow>
               (case prepareUpstream env a route req operation of
                  Inl None \<Rightarrow> (Panicked, None)
                | Inl (Some e) \<Rightarrow> (Failed e, None)
                | Inr httpReq \<Rightarrow>
                    (case pe_Do env httpReq of
                       Inl e \<Rightarrow> (Failed (sendFailed env e), None)
                     | Inr resp \<Rightarrow>
                         if rq_Stream req then invokeStream env a route req httpReq resp (responseBodyLimit route reqp)
                         else invokeUnary env a route req operation httpReq resp (responseBodyLimit route reqp)))))"

section \<open>Headers of a response\<close>

lemma h_Del_None [simp]: "map_of (h_Del key h) k = (if k = CanonicalHeaderKey key then None else map_of h k)"
  by (simp add: h_Del_def)

lemma strip_keeps_None:
  "map_of h k = None \<Longrightarrow> map_of (stripEchoedRequestHeaders h request) k = None"
  by (induction request arbitrary: h) (auto simp: stripEchoedRequestHeaders_def)

lemma strip_removes:
  "(key, vs) \<in> set request \<Longrightarrow> \<not> responseHeaderMayOverlapRequest key \<Longrightarrow>
     map_of (stripEchoedRequestHeaders h request) (CanonicalHeaderKey key) = None"
proof (induction request arbitrary: h)
  case (Cons r request)
  have step: "stripEchoedRequestHeaders h (r # request) =
      stripEchoedRequestHeaders (if responseHeaderMayOverlapRequest (fst r) then h else h_Del (fst r) h) request"
    by (simp add: stripEchoedRequestHeaders_def split: prod.split)
  show ?case
  proof (cases "r = (key, vs)")
    case True
    with Cons.prems show ?thesis unfolding step by (intro strip_keeps_None) simp
  next
    case False
    with Cons.prems Cons.IH show ?thesis unfolding step by simp
  qed
qed simp

lemma transformed_keeps_None: "map_of h k = None \<Longrightarrow> map_of (stripTransformedResponseHeaders h) k = None"
  by (simp add: stripTransformedResponseHeaders_def)

section \<open>What an invocation guarantees\<close>

text \<open>The request an invocation sends and the answer it gets, if it comes so far.\<close>

definition upstreamCall ::
  "proxyEnv \<Rightarrow> ('s, 'x) Adapter \<Rightarrow> ResolvedRoute \<Rightarrow> Request \<Rightarrow> (httpRequest \<times> (goerr + httpResponse)) option" where
  "upstreamCall env a route req =
     (case adapter_operation a (rq_Operation req) of
        None \<Rightarrow> None
      | Some operation \<Rightarrow>
          (case prepareUpstream env a route req operation of
             Inl _ \<Rightarrow> None
           | Inr httpReq \<Rightarrow> Some (httpReq, pe_Do env httpReq)))"

text \<open>An invocation is its call, then the handling of the answer.\<close>

lemma Invoke_cases:
  "Provider_Invoke env a route (Some req) = (out, b) \<Longrightarrow>
    (case upstreamCall env a route req of
       None \<Rightarrow> b = None \<and> (out = Panicked \<or> (\<exists>e. out = Failed (WithoutAttemptCharge e)))
     | Some (httpReq, Inl e) \<Rightarrow> b = None \<and> out = Failed (sendFailed env e)
     | Some (httpReq, Inr resp) \<Rightarrow>
         (\<exists>operation. adapter_operation a (rq_Operation req) = Some operation \<and>
            (out, b) = (if rq_Stream req then invokeStream env a route req httpReq resp (responseBodyLimit route (Some req))
              else invokeUnary env a route req operation httpReq resp (responseBodyLimit route (Some req)))))"
proof (cases "adapter_operation a (rq_Operation req)")
  case (Some operation)
  assume inv: "Provider_Invoke env a route (Some req) = (out, b)"
  show ?thesis
  proof (cases "prepareUpstream env a route req operation")
    case (Inl e)
    then have "case e of None \<Rightarrow> True | Some err \<Rightarrow> \<exists>e'. err = WithoutAttemptCharge e'"
      by (auto simp: prepareUpstream_def Let_def split: sum.splits option.splits if_splits)
    with inv Some Inl show ?thesis by (cases e) (auto simp: Provider_Invoke_def upstreamCall_def)
  next
    case (Inr httpReq)
    with inv Some show ?thesis by (cases "pe_Do env httpReq") (auto simp: Provider_Invoke_def upstreamCall_def)
  qed
qed (auto simp: Provider_Invoke_def upstreamCall_def)

lemma openStream_headers:
  "openStream a route req httpReq resp limit = (Answered r, b) \<Longrightarrow> (key, vs) \<in> set (hq_Header httpReq) \<Longrightarrow>
     \<not> responseHeaderMayOverlapRequest key \<Longrightarrow> map_of (pr_Headers r) (CanonicalHeaderKey key) = None"
  by (auto simp: openStream_def Let_def strip_removes transformed_keeps_None
      split: sum.splits option.splits prod.splits)

lemma unaryResult_headers:
  "unaryResult a route req httpReq resp limit data = Answered r \<Longrightarrow> (key, vs) \<in> set (hq_Header httpReq) \<Longrightarrow>
     \<not> responseHeaderMayOverlapRequest key \<Longrightarrow> map_of (pr_Headers r) (CanonicalHeaderKey key) = None"
  by (auto simp: unaryResult_def Let_def strip_removes transformed_keeps_None
      split: sum.splits option.splits prod.splits if_splits)

lemma invokeStream_Answered:
  "invokeStream env a route req httpReq resp limit = (Answered r, b) \<Longrightarrow>
     openStream a route req httpReq resp limit = (Answered r, b)"
  by (auto simp: invokeStream_def split: if_splits sum.splits prod.splits option.splits)

lemma invokeUnary_Answered:
  assumes "invokeUnary env a route req operation httpReq resp limit = (Answered r, b)"
  obtains data where "\<not> rejectedStatus (hp_StatusCode resp)" "fst (readResponse env resp limit) = Inr data"
    "unaryResult a route req httpReq resp limit data = Answered r" "b = Some (snd (readResponse env resp limit))"
  using assms by (auto simp: invokeUnary_def Let_def split: if_splits sum.splits prod.splits option.splits)

text \<open>
  C27. No header the gateway sent upstream comes back to the client: unless its name is one of those with a
  meaning of their own in a response, a header of the upstream request (a credential among them) is not a
  header of the result.
\<close>

theorem request_headers_not_echoed:
  assumes "Provider_Invoke env a route (Some req) = (Answered r, b)"
    and "upstreamCall env a route req = Some (httpReq, answer)"
    and "(key, vs) \<in> set (hq_Header httpReq)" "\<not> responseHeaderMayOverlapRequest key"
  shows "map_of (pr_Headers r) (CanonicalHeaderKey key) = None"
proof -
  from Invoke_cases [OF assms(1)] assms(2) obtain resp operation where
    "(Answered r, b) = (if rq_Stream req then invokeStream env a route req httpReq resp (responseBodyLimit route (Some req))
       else invokeUnary env a route req operation httpReq resp (responseBodyLimit route (Some req)))"
    by (cases answer) auto
  then show ?thesis
    using assms(3,4) by (cases "rq_Stream req")
      (auto dest!: sym [of "(Answered r, b)"] invokeStream_Answered elim!: invokeUnary_Answered
        intro: openStream_headers unaryResult_headers)
qed

section \<open>Bodies\<close>

lemma limited_Read_closes: "limited_Read n (N, u) = (r, (N', u')) \<Longrightarrow> up_closes u' = up_closes u"
  by (auto simp: limited_Read_def up_Read_def Let_def split: if_splits prod.splits list.splits)

lemma ReadAll_closes: "up_closes (snd (io_ReadAll spare acc lu)) = up_closes (snd lu)"
proof (induction spare acc lu rule: io_ReadAll.induct)
  case (1 spare acc lu)
  obtain d e N' u' where rd: "limited_Read (Suc (spare (length acc))) lu = ((d, e), (N', u'))" by (metis surj_pair)
  have "up_closes u' = up_closes (snd lu)" using limited_Read_closes [of _ "fst lu" "snd lu"] rd by simp
  then show ?case
    using "1.IH" [OF rd [symmetric] refl] by (subst io_ReadAll.simps) (cases e; simp add: rd)
qed

lemma readResponse_closes: "up_closes (snd (readResponse env resp limit)) = Suc (up_closes (hp_Body resp))"
  using ReadAll_closes [of "pe_Spare env" "[]" "(saturatingProxyAdd limit 1, hp_Body resp)"]
  by (auto simp: readResponse_def readBounded_def up_Close_def split: prod.splits option.splits)

lemma readResponse_bounded: "fst (readResponse env resp limit) = Inr data \<Longrightarrow> int (length data) \<le> limit"
  by (auto simp: readResponse_def readBounded_def split: prod.splits option.splits if_splits)

lemma closeTracked_closes: "up_closes (closeTracked (tk_Wrap (newResponseLimitReadCloser u limit) t)) = Suc (up_closes u)"
  by (simp add: closeTracked_def tr_Close_def lr_Close_def up_Close_def tk_Wrap_def newResponseLimitReadCloser_def Let_def)

text \<open>The contract of a response transform: what it reports as unchanged is unchanged.\<close>

definition honestTransform :: "('s, 'x) Adapter \<Rightarrow> bool" where
  "honestTransform a \<longleftrightarrow>
     (\<forall>f route req d d'. ad_TransformResponse a = Some f \<longrightarrow> f route req d = Inr (d', False) \<longrightarrow> d' = d)"

lemma unaryResult_bounded:
  assumes "honestTransform a" "int (length data) \<le> limit" "unaryResult a route req httpReq resp limit data = Answered r"
  shows "pr_RawStream r = None" "int (length (pr_RawBody r)) \<le> limit"
proof -
  have same: "f route req data = Inr (d', False) \<Longrightarrow> ad_TransformResponse a = Some f \<Longrightarrow> d' = data" for f d'
    using assms(1) unfolding honestTransform_def by blast
  from assms(2,3) show "pr_RawStream r = None" "int (length (pr_RawBody r)) \<le> limit"
    by (auto simp: unaryResult_def Let_def split: sum.splits option.splits prod.splits if_splits dest: same)
qed

text \<open>How the upstream body is left behind: handed out in a stream that is still open, or closed once.\<close>

definition bodyAccounted :: "('s, 'x) invokeOutcome \<Rightarrow> upstream option \<Rightarrow> upstream \<Rightarrow> bool" where
  "bodyAccounted out b body \<longleftrightarrow>
     (case b of
        Some u \<Rightarrow> up_closes u = Suc (up_closes body) \<and> (case out of Answered r \<Rightarrow> pr_RawStream r = None | _ \<Rightarrow> True)
      | None \<Rightarrow> (case out of Answered r \<Rightarrow> pr_RawStream r \<noteq> None | _ \<Rightarrow> False))"

lemma openStream_accounted:
  "openStream a route req httpReq resp limit = (out, b) \<Longrightarrow> bodyAccounted out b (hp_Body resp)"
  by (auto simp: openStream_def bodyAccounted_def Let_def closeTracked_closes
      split: sum.splits option.splits prod.splits)

lemma invokeStream_accounted:
  assumes "invokeStream env a route req httpReq resp limit = (out, b)"
  shows "bodyAccounted out b (hp_Body resp)"
proof (cases "rejectedStatus (hp_StatusCode resp)")
  case True
  with assms readResponse_closes [of env resp maxUpstreamErrorBytes] show ?thesis
    by (auto simp: invokeStream_def bodyAccounted_def split: prod.splits sum.splits)
next
  case False
  with assms show ?thesis
    by (auto simp: invokeStream_def bodyAccounted_def up_Close_def split: option.splits if_splits
        dest: openStream_accounted [unfolded bodyAccounted_def])
qed

lemma unaryResult_no_stream: "unaryResult a route req httpReq resp limit data = Answered r \<Longrightarrow> pr_RawStream r = None"
  by (auto simp: unaryResult_def Let_def split: sum.splits option.splits prod.splits if_splits)

lemma invokeUnary_accounted:
  assumes "invokeUnary env a route req operation httpReq resp limit = (out, b)"
  shows "bodyAccounted out b (hp_Body resp)"
proof -
  let ?l = "if rejectedStatus (hp_StatusCode resp) then maxUpstreamErrorBytes else limit"
  have "b = Some (snd (readResponse env resp ?l))"
    using assms by (auto simp: invokeUnary_def Let_def split: prod.splits sum.splits)
  moreover have "pr_RawStream r = None" if "out = Answered r" for r
    using assms that unaryResult_no_stream by (auto elim!: invokeUnary_Answered)
  ultimately show ?thesis
    using readResponse_closes [of env resp ?l] by (simp add: bodyAccounted_def split: invokeOutcome.split)
qed

text \<open>
  C28. A unary answer is never larger than the response limit of its route, and the body of every response
  is accounted for: closed exactly once, unless it was handed out in an open stream.
\<close>

theorem response_bounded_and_released:
  assumes "Provider_Invoke env a route (Some req) = (out, b)"
    and "upstreamCall env a route req = Some (httpReq, Inr resp)" "honestTransform a"
  shows "bodyAccounted out b (hp_Body resp) \<and>
    (case out of
       Answered r \<Rightarrow> pr_RawStream r \<noteq> None \<or> int (length (pr_RawBody r)) \<le> responseBodyLimit route (Some req)
     | _ \<Rightarrow> True)"
proof -
  let ?limit = "responseBodyLimit route (Some req)"
  from Invoke_cases [OF assms(1)] assms(2) obtain operation where
    out: "(out, b) = (if rq_Stream req then invokeStream env a route req httpReq resp ?limit
       else invokeUnary env a route req operation httpReq resp ?limit)"
    by auto
  show ?thesis
  proof (cases "rq_Stream req")
    case True
    with out have s: "invokeStream env a route req httpReq resp ?limit = (out, b)" by simp
    moreover have "pr_RawStream r \<noteq> None" if "out = Answered r" for r
      using invokeStream_Answered [of env a route req httpReq resp ?limit r b] s that
      by (auto simp: openStream_def Let_def split: sum.splits option.splits prod.splits)
    ultimately show ?thesis by (auto simp: invokeStream_accounted split: invokeOutcome.split)
  next
    case False
    with out have u: "invokeUnary env a route req operation httpReq resp ?limit = (out, b)" by simp
    moreover have "int (length (pr_RawBody r)) \<le> ?limit" if "out = Answered r" for r
      using u that unaryResult_bounded(2) [OF assms(3) readResponse_bounded] by (auto elim!: invokeUnary_Answered)
    ultimately show ?thesis by (auto simp: invokeUnary_accounted split: invokeOutcome.split)
  qed
qed

section \<open>Charging failed calls\<close>

lemma unbillable_simps [simp]:
  "AttemptUnbillable (AttemptMeta e u ub) = ub" "\<not> AttemptUnbillable (ApiErr a None)"
  "AttemptUnbillable (ApiErr a (Some c)) = AttemptUnbillable c" "\<not> AttemptUnbillable (Sentinel s)"
  by (simp_all add: AttemptUnbillable_def attemptErrorUsage_def split: option.split)

text \<open>
  The errors of the transport and of the checks on a response say nothing about charging: only the proxy
  marks attempts as unbillable.
\<close>

definition plainErrors :: "proxyEnv \<Rightarrow> ('s, 'x) Adapter \<Rightarrow> bool" where
  "plainErrors env a \<longleftrightarrow>
     (\<forall>h e. pe_Do env h = Inl e \<longrightarrow> \<not> AttemptUnbillable e) \<and>
     (\<forall>h resp limit e. pe_Do env h = Inr resp \<longrightarrow>
        snd (snd (fst (readBounded (pe_Spare env) (hp_Body resp) limit))) = Some e \<longrightarrow> \<not> AttemptUnbillable e) \<and>
     (\<forall>op oa f d e. ad_Operations a op = Some oa \<longrightarrow> oa_ValidateResponse oa = Some f \<longrightarrow> f d = Some e \<longrightarrow> \<not> AttemptUnbillable e) \<and>
     (\<forall>f route req s e. ad_StreamTransform a = Some f \<longrightarrow> f route req s = Inl e \<longrightarrow> \<not> AttemptUnbillable e)"

lemma rejection_unbillable [simp]:
  "AttemptUnbillable (upstreamRejection a route req resp data) \<longleftrightarrow>
     hp_StatusCode resp < 500 \<and> Usage_IsZero (extractUsage a route req data)"
  by (simp add: upstreamRejection_def upstreamAttemptError_def Let_def WithoutAttemptCharge_def WithAttemptUsage_def)

lemma readResponse_billable:
  assumes "plainErrors env a" "pe_Do env h = Inr resp" "readResponse env resp limit = (Inl e, u')"
  shows "\<not> AttemptUnbillable e"
proof -
  obtain data big err u where r: "readBounded (pe_Spare env) (hp_Body resp) limit = ((data, big, err), u)" by (metis surj_pair)
  have "\<not> AttemptUnbillable x" if "err = Some x" for x
    using assms(1,2) r that unfolding plainErrors_def by (metis fst_conv snd_conv)
  with assms(3) r show ?thesis
    by (auto simp: readResponse_def readFailed_def responseTooLargeError_def split: option.splits if_splits)
qed

definition freeOfCharge :: "proxyEnv \<Rightarrow> ('s, 'x) Adapter \<Rightarrow> ResolvedRoute \<Rightarrow> Request \<Rightarrow> httpResponse \<Rightarrow> bool" where
  "freeOfCharge env a route req resp \<longleftrightarrow>
     rejectedStatus (hp_StatusCode resp) \<and> hp_StatusCode resp < 500 \<and>
     (case fst (readResponse env resp maxUpstreamErrorBytes) of
        Inl _ \<Rightarrow> False
      | Inr data \<Rightarrow> Usage_IsZero (extractUsage a route req data))"

lemma openStream_billable:
  assumes "plainErrors env a" "openStream a route req httpReq resp limit = (Failed err, b)"
  shows "\<not> AttemptUnbillable err"
proof (cases "ad_StreamTransform a")
  case (Some f)
  let ?cur = "tk_Wrap (newResponseLimitReadCloser (hp_Body resp) limit) (newStreamUsageTracker (ad_Stream a) route req)"
  have "\<not> AttemptUnbillable e" if "f route req ?cur = Inl e" for e
    using assms(1) Some that unfolding plainErrors_def by blast
  with Some assms(2) show ?thesis
    by (auto simp: openStream_def Let_def split: sum.splits option.splits prod.splits)
qed (use assms(2) in \<open>simp add: openStream_def Let_def\<close>)

lemma invokeStream_billable:
  assumes "plainErrors env a" "pe_Do env h = Inr resp" "invokeStream env a route req httpReq resp limit = (Failed err, b)"
  shows "AttemptUnbillable err \<longleftrightarrow> freeOfCharge env a route req resp"
proof (cases "rejectedStatus (hp_StatusCode resp)")
  case True
  with assms(3) show ?thesis
    by (auto simp: invokeStream_def freeOfCharge_def split: prod.splits sum.splits
        dest: readResponse_billable [OF assms(1,2)])
next
  case False
  with assms(3) show ?thesis
    using openStream_billable [OF assms(1)]
    by (auto simp: invokeStream_def freeOfCharge_def invalidUpstreamResponse_def split: option.splits if_splits)
qed

lemma unaryResult_billable: "unaryResult a route req httpReq resp limit data = Failed err \<Longrightarrow> \<not> AttemptUnbillable err"
  by (auto simp: unaryResult_def Let_def WithAttemptUsage_def responseTooLargeError_def
      split: sum.splits option.splits prod.splits if_splits)

lemma invokeUnary_billable:
  assumes "plainErrors env a" "pe_Do env h = Inr resp" "adapter_operation a op = Some operation"
    and "invokeUnary env a route req operation httpReq resp limit = (Failed err, b)"
  shows "AttemptUnbillable err \<longleftrightarrow> freeOfCharge env a route req resp"
proof -
  have op: "ad_Operations a op = Some operation"
    using assms(3) by (auto simp: adapter_operation_def split: option.splits if_splits)
  have val: "\<not> AttemptUnbillable e" if "oa_ValidateResponse operation = Some f" "f d = Some e" for f d e
    using assms(1) op that unfolding plainErrors_def by blast
  show ?thesis
  proof (cases "rejectedStatus (hp_StatusCode resp)")
    case True
    with assms(4) show ?thesis
      by (auto simp: invokeUnary_def freeOfCharge_def split: prod.splits sum.splits
          dest: readResponse_billable [OF assms(1,2)])
  next
    case False
    with assms(4) show ?thesis
      by (auto simp: invokeUnary_def freeOfCharge_def split: prod.splits sum.splits option.splits
          dest: readResponse_billable [OF assms(1,2)] val unaryResult_billable)
  qed
qed

text \<open>
  C29. A failed call is free of charge exactly when nothing was sent, or when the provider rejected it with
  a status below 500 and reported no usage; every other failure is charged.
\<close>

theorem failed_call_charging:
  assumes "Provider_Invoke env a route (Some req) = (Failed err, b)" "plainErrors env a"
  shows "AttemptUnbillable err \<longleftrightarrow>
    (case upstreamCall env a route req of
       None \<Rightarrow> True
     | Some (httpReq, Inl e) \<Rightarrow> False
     | Some (httpReq, Inr resp) \<Rightarrow> freeOfCharge env a route req resp)"
proof (cases "upstreamCall env a route req")
  case None
  with Invoke_cases [OF assms(1)] show ?thesis by (auto simp: WithoutAttemptCharge_def)
next
  case (Some call)
  obtain httpReq answer where call: "call = (httpReq, answer)" by (cases call)
  have do: "pe_Do env httpReq = answer"
    using Some call by (auto simp: upstreamCall_def split: option.splits sum.splits)
  show ?thesis
  proof (cases answer)
    case (Inl e)
    have "\<not> AttemptUnbillable e" using assms(2) do Inl unfolding plainErrors_def by blast
    with Invoke_cases [OF assms(1)] Some call Inl show ?thesis by (auto simp: sendFailed_def)
  next
    case (Inr resp)
    with Invoke_cases [OF assms(1)] Some call do show ?thesis
      using invokeStream_billable [OF assms(2)] invokeUnary_billable [OF assms(2)]
      by (auto dest!: sym [of "(Failed err, b)"] split: if_splits)
  qed
qed

section \<open>Errors of a provider\<close>

text \<open>
  A status the client should not act on never reaches it: redirects, statuses out of range, failed
  authentication of the gateway itself and a missing upstream model become a 502 open to fallback.
\<close>

lemma withUpstreamDisposition_cases:
  "withUpstreamDisposition e status =
     (if status \<in> {401, 403} \<or> status < 200 \<or> (300 \<le> status \<and> status < 400) \<or> 599 < status \<or>
         (status = 404 \<and> routeLocalNotFound e)
      then (withUpstreamDisposition e status)\<lparr>ae_Status := 502, ae_Fallback := True, ae_CircuitFailure := True\<rparr>
      else e\<lparr>ae_Retryable := (if status \<in> {408, 409, 425} \<or> 500 \<le> status then True else if status = 429 then False else ae_Retryable e),
             ae_Fallback := (if status \<in> {408, 409, 425, 429} \<or> 500 \<le> status then True else ae_Fallback e),
             ae_CircuitFailure := (if 500 \<le> status then True else if status \<in> {408, 409, 425, 429} then False else ae_CircuitFailure e),
             ae_dispositionSet := (if status \<in> {408, 409, 425, 429} \<or> 500 \<le> status then True else ae_dispositionSet e)\<rparr>)"
  by (auto simp: withUpstreamDisposition_def WithDisposition_def NewError_def)

section \<open>A call at work\<close>

text \<open>
  An adapter with one operation, a client that always answers with one response, and calls that are
  answered, rejected and streamed.
\<close>

definition demo_adapter :: "(nat, unit) Adapter" where
  "demo_adapter =
     \<lparr>ad_Name = ''openai'',
      ad_Operations = [OpChatCompletions \<mapsto>
        \<lparr>oa_Prepare = Some (\<lambda>_ req. Inr \<lparr>pq_Body = rq_RawBody req, pq_URL = ''u''\<rparr>), oa_ValidateResponse = None\<rparr>],
      ad_ApplyAuth = Some (\<lambda>r _. Inr (r\<lparr>hq_Header := h_Set ''x-api-key'' ''secret'' (hq_Header r)\<rparr>)),
      ad_ForwardHeaders = None, ad_ParseError = None, ad_ExtractUsage = None, ad_Stream = demo_codec,
      ad_StreamTransform = None, ad_Preflight = None, ad_TransformResponse = None, ad_ValidateRoute = None,
      ad_PlanBridge = None, ad_ProjectTokenText = None\<rparr>"

definition demo_response :: "int \<Rightarrow> httpResponse" where
  "demo_response status =
     \<lparr>hp_StatusCode = status, hp_Header = [(''X-Api-Key'', [''secret'']), (''Retry-After'', [''1''])],
      hp_Body = \<lparr>up_reads = [(''ok'', None)], up_closes = 0, up_closeErr = None\<rparr>\<rparr>"

definition demo_env :: "int \<Rightarrow> proxyEnv" where
  "demo_env status =
     \<lparr>pe_URLParses = (\<lambda>_. True), pe_CtxErr = None, pe_Do = (\<lambda>_. Inr (demo_response status)),
      pe_CtxErrAfter = None, pe_Spare = (\<lambda>n. n)\<rparr>"

definition demo_call :: "int \<Rightarrow> (nat, unit) invokeOutcome \<times> upstream option" where
  "demo_call status = Provider_Invoke (demo_env status) demo_adapter demo_resolved (Some demo_request)"

definition demo_answer :: "(nat, unit) providerResult" where
  "demo_answer = (case fst (demo_call 200) of Answered r \<Rightarrow> r | _ \<Rightarrow> undefined)"

definition demo_error :: goerr where
  "demo_error = (case fst (demo_call 429) of Failed e \<Rightarrow> e | _ \<Rightarrow> Sentinel EOF)"

definition demo_sent :: httpRequest where
  "demo_sent = (case upstreamCall (demo_env 200) demo_adapter demo_resolved demo_request of
     Some (h, _) \<Rightarrow> h | None \<Rightarrow> \<lparr>hq_URL = [], hq_Body = [], hq_Header = []\<rparr>)"

lemma demo_upstreamCall:
  "upstreamCall (demo_env status) demo_adapter demo_resolved demo_request = Some (demo_sent, Inr (demo_response status))"
  by (simp add: upstreamCall_def demo_sent_def prepareUpstream_def adapter_operation_def demo_adapter_def demo_env_def
      demo_resolved_def demo_request_def)

lemma demo_sent_header: "hq_Header demo_sent = [(''Content-Type'', [''application/json'']), (''X-Request-Id'', [''r1'']), (''X-Api-Key'', [''secret''])]"
  by code_simp

lemma demo_answered: "demo_call 200 = (Answered demo_answer, snd (demo_call 200))"
proof -
  have "case fst (demo_call 200) of Answered r \<Rightarrow> True | _ \<Rightarrow> False" by code_simp
  then show ?thesis by (auto simp: demo_answer_def prod_eq_iff split: invokeOutcome.splits)
qed

lemma demo_failed: "demo_call 429 = (Failed demo_error, snd (demo_call 429))"
proof -
  have "case fst (demo_call 429) of Failed e \<Rightarrow> True | _ \<Rightarrow> False" by code_simp
  then show ?thesis by (auto simp: demo_error_def prod_eq_iff split: invokeOutcome.splits)
qed

theorem request_headers_not_echoed_witness:
  "map_of (hp_Header (demo_response 200)) ''X-Api-Key'' = Some [''secret''] \<and> map_of (pr_Headers demo_answer) ''X-Api-Key'' = None"
proof -
  have k: "CanonicalHeaderKey ''X-Api-Key'' = ''X-Api-Key''" "\<not> responseHeaderMayOverlapRequest ''X-Api-Key''" by code_simp+
  have "(''X-Api-Key'', [''secret'']) \<in> set (hq_Header demo_sent)" by (simp add: demo_sent_header)
  from request_headers_not_echoed [OF demo_answered [unfolded demo_call_def] demo_upstreamCall this k(2)] k(1)
  show ?thesis by (simp add: demo_response_def)
qed

theorem response_bounded_and_released_witness:
  "bodyAccounted (Answered demo_answer) (snd (demo_call 200)) (hp_Body (demo_response 200)) \<and>
   pr_RawStream demo_answer = None \<and> int (length (pr_RawBody demo_answer)) \<le> 16777216"
proof -
  have "pr_RawStream demo_answer = None" by code_simp
  moreover have "honestTransform demo_adapter" by (simp add: honestTransform_def demo_adapter_def)
  moreover have "responseBodyLimit demo_resolved (Some demo_request) = 16777216" by code_simp
  ultimately show ?thesis
    using response_bounded_and_released [OF demo_answered [unfolded demo_call_def] demo_upstreamCall]
    by (simp add: demo_call_def)
qed

lemma readBounded_no_error:
  "snd (content (up_reads u)) = Sentinel EOF \<Longrightarrow> snd (snd (fst (readBounded spare u limit))) = None"
  using ReadAll_body [of u "saturatingProxyAdd limit 1" spare "[]"]
  by (auto simp: readBounded_def split: prod.split option.split)

theorem failed_call_charging_witness:
  "AttemptUnbillable demo_error \<and> freeOfCharge (demo_env 429) demo_adapter demo_resolved demo_request (demo_response 429)"
proof -
  have "snd (content (up_reads (hp_Body (demo_response 429)))) = Sentinel EOF" by (simp add: demo_response_def)
  from readBounded_no_error [OF this] have "plainErrors (demo_env 429) demo_adapter"
    by (auto simp: plainErrors_def demo_env_def demo_adapter_def split: if_splits)
  moreover have "freeOfCharge (demo_env 429) demo_adapter demo_resolved demo_request (demo_response 429)" by code_simp
  ultimately show ?thesis
    using failed_call_charging [OF demo_failed [unfolded demo_call_def]] demo_upstreamCall [of 429] by simp
qed

end
