(* ===== verification/Configuration.thy ===== *)
theory Configuration
  imports Request_Policies Go_Http
begin

text \<open>
  The configuration of \<open>gateway/config.go\<close>: what \<open>finalize\<close> accepts, resolves from the environment and
  fills with defaults (server, authentication, store, routes, quotas), the verification key of JSON web
  tokens (\<open>gateway/jwt.go\<close>) and the registry of providers (\<open>gateway/providers.go\<close>). Reading YAML gives the
  records of this theory. The environment, the parser of URLs, the Redis client's parser and the parsers of
  keys are arguments. A configuration that is rejected is thrown away, so an operation returns the new one
  or an error.
\<close>

section \<open>The file\<close>

record ServerConfig =
  sv_Listen :: string
  sv_ReadTimeout :: duration
  sv_WriteTimeout :: duration
  sv_StreamWriteTimeout :: duration
  sv_IdleTimeout :: duration
  sv_ShutdownTimeout :: duration

record StoreConfig =
  st_Mode :: string
  st_RedisURL :: string
  st_RedisURLEnv :: string
  st_RedisNamespace :: string
  st_RedisAddr :: string
  st_RedisPasswordEnv :: string
  st_RedisDB :: int
  st_PostgresDSN :: string
  st_PostgresDSNEnv :: string
  st_QuotaTable :: string
  st_LimitCacheTTL :: duration
  st_ReservationTTL :: duration
  st_StartupTimeout :: duration

text \<open>
  The authentication settings of the file: those the interceptors read, the limit on bodies, the names of
  environment variables and the cached verification key.
\<close>

datatype publicKey = RSAKey "int option" | ECDSAKey "string option" | Ed25519Key nat | OtherKey

datatype verificationKey = HMACKey string | PublicKey publicKey

record AuthFile = AuthConfig +
  ac_MaxBodyBytes :: int
  ac_TokenEnvs :: "(string, Principal) gomap"
  ac_SecretEnv :: string
  ac_PublicKeyEnv :: string
  ac_verificationKey :: "verificationKey option"

record TelemetryConfig =
  tc_ServiceName :: string

record Config =
  cf_Server :: ServerConfig
  cf_Auth :: AuthFile
  cf_Store :: StoreConfig
  cf_Quota :: QuotaConfig
  cf_Catalog :: Snapshot
  cf_Telemetry :: TelemetryConfig
  cf_LoadedAt :: instant

section \<open>The world outside\<close>

record parsedURL =
  ur_Scheme :: string
  ur_Host :: string
  ur_Hostname :: string
  ur_HasUser :: bool
  ur_RawQuery :: string
  ur_Fragment :: string

record RedisOptions =
  ro_DB :: int
  ro_Protocol :: int
  ro_MaxRetries :: int
  ro_DialTimeout :: duration
  ro_ReadTimeout :: duration
  ro_WriteTimeout :: duration
  ro_PoolTimeout :: duration
  ro_MinRetryBackoff :: duration
  ro_MaxRetryBackoff :: duration
  ro_PoolSize :: int
  ro_MinIdleConns :: int
  ro_MaxIdleConns :: int
  ro_MaxActiveConns :: int

text \<open>
  \<open>os.LookupEnv\<close>, \<open>url.Parse\<close>, \<open>redis.ParseURL\<close>, \<open>pem.Decode\<close> (the bytes of the block and the rest), the two
  parsers of \<open>crypto/x509\<close>, and the clock. The size of an RSA modulus and the name of a curve are \<open>None\<close> for
  a nil one.
\<close>

record configEnv =
  ce_LookupEnv :: "string \<Rightarrow> string option"
  ce_ParseURL :: "string \<Rightarrow> goerr + parsedURL"
  ce_RedisParseURL :: "string \<Rightarrow> goerr + RedisOptions"
  ce_PemDecode :: "string \<Rightarrow> (string \<times> string) option"
  ce_ParsePKIX :: "string \<Rightarrow> publicKey option"
  ce_ParsePKCS1 :: "string \<Rightarrow> goerr + publicKey"
  ce_Now :: instant

definition lookupNonEmpty :: "configEnv \<Rightarrow> string \<Rightarrow> string \<Rightarrow> goerr + string" where
  "lookupNonEmpty env name message =
     (case ce_LookupEnv env name of
        None \<Rightarrow> Inl (Plain message)
      | Some v \<Rightarrow> if TrimSpace v = [] then Inl (Plain message) else Inr v)"

section \<open>Verification keys\<close>

datatype keyKind = KindRSA | KindECDSA | KindEd25519

fun keyHasKind :: "keyKind \<Rightarrow> publicKey \<Rightarrow> bool" where
  "keyHasKind KindRSA (RSAKey n) = True"
| "keyHasKind KindECDSA (ECDSAKey c) = True"
| "keyHasKind KindEd25519 (Ed25519Key n) = True"
| "keyHasKind _ _ = False"

definition legacyJWTPublicKey :: "configEnv \<Rightarrow> keyKind \<Rightarrow> string \<Rightarrow> goerr + publicKey" where
  "legacyJWTPublicKey env kind der =
     (if kind = KindRSA then
        (case ce_ParsePKCS1 env der of
           Inl e \<Rightarrow> Inl (Wrapped ''invalid RSA public key'' e)
         | Inr key \<Rightarrow> Inr key)
      else Inl (Plain ''invalid jwt public key encoding''))"

definition parseJWTPublicKey :: "configEnv \<Rightarrow> keyKind \<Rightarrow> string \<Rightarrow> goerr + publicKey" where
  "parseJWTPublicKey env kind v =
     (let incompatible = Inl (Plain ''jwt public key type is incompatible with the configured algorithm'')
      in if TrimSpace v = [] then Inl (Plain ''jwt public key is required'')
         else (case ce_PemDecode env v of
            None \<Rightarrow> Inl (Plain ''invalid jwt public key PEM'')
          | Some (der, rest) \<Rightarrow>
              if TrimSpace rest \<noteq> [] then Inl (Plain ''invalid jwt public key PEM'')
              else (case ce_ParsePKIX env der of
                 Some key \<Rightarrow> if keyHasKind kind key then Inr key else incompatible
               | None \<Rightarrow>
                   and_then (legacyJWTPublicKey env kind der)
                     (\<lambda>key. if keyHasKind kind key then Inr key else incompatible))))"

definition validateECDSACurve :: "string \<Rightarrow> publicKey \<Rightarrow> goerr option" where
  "validateECDSACurve algorithm key =
     (case key of
        ECDSAKey (Some curve) \<Rightarrow>
          (case map_of [(''ES256'', ''P-256''), (''ES384'', ''P-384''), (''ES512'', ''P-521'')] algorithm of
             None \<Rightarrow> Some (Plain (''unsupported ECDSA jwt algorithm '' @ quoted algorithm))
           | Some expected \<Rightarrow>
               failIf (curve \<noteq> expected) (algorithm @ '' requires curve '' @ expected @ '', got '' @ curve))
      | _ \<Rightarrow> Some (Plain ''invalid ECDSA public key''))"

definition hmacMinimum :: "string \<Rightarrow> nat" where
  "hmacMinimum algorithm = (if algorithm = ''HS256'' then 32 else if algorithm = ''HS384'' then 48 else 64)"

definition rsaStrength :: "string \<Rightarrow> publicKey \<Rightarrow> goerr + verificationKey" where
  "rsaStrength alg key =
     (case key of
        RSAKey (Some bits) \<Rightarrow>
          if bits < 2048 then
            Inl (Plain (alg @ '' requires an RSA key of at least 2048 bits (got '' @ show_int bits @ '')''))
          else Inr (PublicKey key)
      | _ \<Rightarrow> Inl (Plain ''invalid RSA public key''))"

definition ed25519Length :: "publicKey \<Rightarrow> goerr + verificationKey" where
  "ed25519Length key =
     (case key of
        Ed25519Key n \<Rightarrow> if n \<noteq> 32 then Inl (Plain ''invalid Ed25519 public key length'') else Inr (PublicKey key)
      | _ \<Rightarrow> Inl (Plain ''invalid Ed25519 public key length''))"

definition VerificationKey :: "configEnv \<Rightarrow> verificationKey option \<Rightarrow> JWTConfig \<Rightarrow> goerr + verificationKey" where
  "VerificationKey env cached cfg =
     (case cached of
        Some key \<Rightarrow> Inr key
      | None \<Rightarrow>
          (let j = JWT_Normalize cfg; alg = jw_Algorithm j
           in if alg \<in> {''HS256'', ''HS384'', ''HS512''} then
                unless (firstErr
                  [failIf (TrimSpace (jw_Secret j) = []) (''jwt secret is required for '' @ alg),
                   failIf (length (jw_Secret j) < hmacMinimum alg)
                     (alg @ '' requires a jwt secret of at least '' @ show_nat (hmacMinimum alg) @
                      '' bytes (got '' @ show_nat (length (jw_Secret j)) @ '')'')])
                  (Inr (HMACKey (jw_Secret j)))
              else if alg \<in> {''RS256'', ''RS384'', ''RS512''} then
                and_then (parseJWTPublicKey env KindRSA (jw_PublicKey j)) (rsaStrength alg)
              else if alg \<in> {''ES256'', ''ES384'', ''ES512''} then
                and_then (parseJWTPublicKey env KindECDSA (jw_PublicKey j)) (\<lambda>key.
                  unless (validateECDSACurve alg key) (Inr (PublicKey key)))
              else if alg = ''EdDSA'' then
                and_then (parseJWTPublicKey env KindEd25519 (jw_PublicKey j)) ed25519Length
              else Inl (Plain (''unsupported jwt algorithm '' @ quoted alg))))"

section \<open>Authentication\<close>

definition PermissionManageLimits :: string where "PermissionManageLimits = ''manage_limits''"
definition PermissionViewOperations :: string where "PermissionViewOperations = ''view_operations''"

definition validatePrincipal :: "string \<Rightarrow> Principal \<Rightarrow> goerr option" where
  "validatePrincipal path p =
     firstErr
       ([failIf (firstNonEmpty [TrimSpace (pr_ID p), TrimSpace (pr_KeyID p), TrimSpace (pr_QuotaKey p)] = [])
           (path @ '' principal must configure at least one of id, key_id, or quota_key'')] @
        map (\<lambda>provider. map_option (Wrapped (path @ '' principal has invalid provider reference'')) (validateProviderName provider))
          (pr_Providers p) @
        map (\<lambda>permission. failIf (permission \<noteq> PermissionManageLimits \<and> permission \<noteq> PermissionViewOperations)
              (path @ '' principal references unsupported permission '' @ quoted permission))
          (pr_Permissions p))"

fun validateTokens :: "(string, Principal) gomap \<Rightarrow> goerr option" where
  "validateTokens [] = None"
| "validateTokens ((token, p) # ts) =
     firstErr
       [failIf (TrimSpace token = []) ''auth.tokens contains an empty bearer token'',
        failIf (token \<noteq> TrimSpace token) ''auth.tokens bearer tokens must not contain leading or trailing whitespace'',
        validatePrincipal ''auth.tokens'' p, validateTokens ts]"

fun resolveTokenEnvs ::
  "configEnv \<Rightarrow> (string, Principal) gomap \<Rightarrow> (string, Principal) gomap \<Rightarrow> goerr + (string, Principal) gomap" where
  "resolveTokenEnvs env [] tokens = Inr tokens"
| "resolveTokenEnvs env ((envName, p) # es) tokens =
     unless (firstErr
       [failIf (TrimSpace envName = []) ''auth.token_envs contains an empty environment variable name'',
        validatePrincipal (''auth.token_envs.'' @ envName) p])
       (and_then (lookupNonEmpty env envName
            (''auth.token_envs environment variable '' @ quoted envName @ '' is not set or is empty''))
          (\<lambda>v. let token = TrimSpace v
               in if map_of tokens token \<noteq> None then
                    Inl (Plain (''auth.token_envs environment variable '' @ quoted envName @ '' resolves to a duplicate bearer token''))
                  else resolveTokenEnvs env es (AList.update token p tokens)))"

text \<open>A variable is read when its name is set; the secrets are kept as they are.\<close>

definition resolveSecret :: "configEnv \<Rightarrow> string \<Rightarrow> string \<Rightarrow> string \<Rightarrow> goerr + string" where
  "resolveSecret env label literal envName =
     (if envName = [] then Inr literal
      else lookupNonEmpty env envName (label @ '' '' @ quoted envName @ '' is not set or is empty''))"

definition jwtKeyMaterial :: "JWTConfig \<Rightarrow> goerr option" where
  "jwtKeyMaterial j =
     (let alg = jw_Algorithm j
      in if alg \<in> {''HS256'', ''HS384'', ''HS512''} then
           firstErr
             [failIf (TrimSpace (jw_Secret j) = []) (''auth.jwt.secret or auth.jwt.secret_env is required for '' @ alg),
              failIf (jw_PublicKey j \<noteq> []) (''auth.jwt.public_key cannot be used with '' @ alg)]
         else if alg \<in> {''RS256'', ''RS384'', ''RS512'', ''ES256'', ''ES384'', ''ES512'', ''EdDSA''} then
           firstErr
             [failIf (TrimSpace (jw_PublicKey j) = []) (''auth.jwt.public_key or auth.jwt.public_key_env is required for '' @ alg),
              failIf (jw_Secret j \<noteq> []) (''auth.jwt.secret cannot be used with '' @ alg)]
         else Some (Plain (''auth.jwt.algorithm '' @ quoted alg @ '' is not supported'')))"

definition resolveAndValidateJWT :: "configEnv \<Rightarrow> AuthFile \<Rightarrow> goerr + AuthFile" where
  "resolveAndValidateJWT env auth =
     (let jwt = ac_JWT auth
      in unless (firstErr
           [failIf (jw_Secret jwt \<noteq> [] \<and> ac_SecretEnv auth \<noteq> []) ''auth.jwt.secret and auth.jwt.secret_env are mutually exclusive'',
            failIf (jw_PublicKey jwt \<noteq> [] \<and> ac_PublicKeyEnv auth \<noteq> [])
              ''auth.jwt.public_key and auth.jwt.public_key_env are mutually exclusive''])
         (and_then (resolveSecret env ''auth.jwt.secret_env'' (jw_Secret jwt) (ac_SecretEnv auth)) (\<lambda>secret.
          and_then (resolveSecret env ''auth.jwt.public_key_env'' (jw_PublicKey jwt) (ac_PublicKeyEnv auth)) (\<lambda>publicKey.
            let jwt = jwt\<lparr>jw_Secret := secret, jw_PublicKey := publicKey\<rparr>
            in if jw_Algorithm jwt = [] \<and> jw_Issuer jwt = [] \<and> jw_Audience jwt = [] \<and> secret = [] \<and> publicKey = []
               then Inr (auth\<lparr>ac_JWT := jwt\<rparr>)
               else (let jwt = JWT_Normalize jwt
                     in unless (jwtKeyMaterial jwt)
                          (case VerificationKey env (ac_verificationKey auth) jwt of
                             Inl e \<Rightarrow> Inl (Wrapped ''auth.jwt verification key is invalid'' e)
                           | Inr key \<Rightarrow> Inr (auth\<lparr>ac_JWT := jwt, ac_verificationKey := Some key\<rparr>)))))))"

definition resolveAndValidateAuth :: "configEnv \<Rightarrow> AuthFile \<Rightarrow> goerr + AuthFile" where
  "resolveAndValidateAuth env auth =
     unless (firstErr
       [failIf (ac_MaxBodyBytes auth < 0) ''auth.max_body_bytes must be greater than or equal to zero'',
        validateTokens (ac_Tokens auth)])
       (and_then (resolveTokenEnvs env (ac_TokenEnvs auth) (ac_Tokens auth)) (\<lambda>tokens.
        and_then (resolveAndValidateJWT env (auth\<lparr>ac_Tokens := tokens\<rparr>)) (\<lambda>auth.
          unless (failIf (\<not> ac_AllowAnonymous auth \<and> ac_Tokens auth = [] \<and> \<not> JWT_Enabled (ac_JWT auth))
              ''authentication is not configured; set auth.allow_anonymous to true explicitly or configure a bearer token/JWT'')
            (Inr auth))))"

section \<open>Server and store\<close>

definition validateDurationsAndLimits :: "ServerConfig \<Rightarrow> StoreConfig \<Rightarrow> goerr option" where
  "validateDurationsAndLimits sv st =
     firstErr
       (map (\<lambda>(name, v). failIf (v < 0) (name @ '' must be greater than or equal to zero''))
          [(''server.read_timeout'', sv_ReadTimeout sv), (''server.write_timeout'', sv_WriteTimeout sv),
           (''server.stream_write_timeout'', sv_StreamWriteTimeout sv), (''server.idle_timeout'', sv_IdleTimeout sv),
           (''server.shutdown_timeout'', sv_ShutdownTimeout sv), (''store.limit_cache_ttl'', st_LimitCacheTTL st),
           (''store.reservation_ttl'', st_ReservationTTL st), (''store.startup_timeout'', st_StartupTimeout st)] @
        [failIf (st_RedisDB st < 0) ''store.redis_db must be greater than or equal to zero''])"

abbreviation defaulted :: "int \<Rightarrow> int \<Rightarrow> int" where
  "defaulted v d \<equiv> (if v = 0 then d else v)"

definition serverDefaults :: "ServerConfig \<Rightarrow> ServerConfig" where
  "serverDefaults sv =
     sv\<lparr>sv_Listen := orDefault (sv_Listen sv) '':8080'',
        sv_ShutdownTimeout := defaulted (sv_ShutdownTimeout sv) (10 * Second),
        sv_ReadTimeout := defaulted (sv_ReadTimeout sv) (15 * Second),
        sv_IdleTimeout := defaulted (sv_IdleTimeout sv) (60 * Second),
        sv_StreamWriteTimeout := defaulted (sv_StreamWriteTimeout sv) (30 * Second)\<rparr>"

definition effectiveBackoff :: "duration \<Rightarrow> duration \<Rightarrow> duration" where
  "effectiveBackoff v d = (if v = 0 then d else if v = - 1 then 0 else v)"

abbreviation maximumRedisPoolConnections :: int where
  "maximumRedisPoolConnections \<equiv> 4096"

definition redisPoolDefaults :: "RedisOptions \<Rightarrow> RedisOptions" where
  "redisPoolDefaults r =
     (let r = r\<lparr>ro_PoolSize := defaulted (ro_PoolSize r) 64\<rparr>;
          r = r\<lparr>ro_MaxIdleConns := defaulted (ro_MaxIdleConns r) (ro_PoolSize r)\<rparr>
      in if ro_MaxActiveConns r = 0 then
           r\<lparr>ro_MaxActiveConns :=
             (let n = ro_PoolSize r * 2; n = (if n < 128 then 128 else n)
              in if n > maximumRedisPoolConnections then maximumRedisPoolConnections else n)\<rparr>
         else r)"

definition redisRanges :: "RedisOptions \<Rightarrow> goerr option list" where
  "redisRanges r =
     [failIf (ro_DB r < 0) ''database must be greater than or equal to zero'',
      failIf (ro_Protocol r \<noteq> 0 \<and> ro_Protocol r \<noteq> 2 \<and> ro_Protocol r \<noteq> 3) ''protocol must be 2 or 3'',
      failIf (ro_MaxRetries r < - 1 \<or> ro_MaxRetries r > 10) ''max_retries must be between -1 and 10''] @
     concat (map (\<lambda>(name, v). [failIf (v < 0) (name @ '' must not disable timeouts''),
                               failIf (v > 30 * Second) (name @ '' must not exceed 30s'')])
       [(''dial_timeout'', ro_DialTimeout r), (''read_timeout'', ro_ReadTimeout r),
        (''write_timeout'', ro_WriteTimeout r), (''pool_timeout'', ro_PoolTimeout r)]) @
     concat (map (\<lambda>(name, v). [failIf (v < - 1) (name @ '' must be -1 or greater''),
                               failIf (v > 5 * Second) (name @ '' must not exceed 5s'')])
       [(''min_retry_backoff'', ro_MinRetryBackoff r), (''max_retry_backoff'', ro_MaxRetryBackoff r)]) @
     concat (map (\<lambda>(name, v). [failIf (v < 0) (name @ '' must be greater than or equal to zero''),
                               failIf (v > maximumRedisPoolConnections) (name @ '' must not exceed 4096'')])
       [(''pool_size'', ro_PoolSize r), (''min_idle_conns'', ro_MinIdleConns r),
        (''max_idle_conns'', ro_MaxIdleConns r), (''max_active_conns'', ro_MaxActiveConns r)])"

definition redisOrdering :: "RedisOptions \<Rightarrow> goerr option list" where
  "redisOrdering r =
     (let minBackoff = effectiveBackoff (ro_MinRetryBackoff r) (8 * Millisecond);
          maxBackoff = effectiveBackoff (ro_MaxRetryBackoff r) (512 * Millisecond)
      in [failIf (ro_MinIdleConns r > ro_PoolSize r) ''min_idle_conns must not exceed pool_size'',
          failIf (ro_MaxIdleConns r > ro_PoolSize r) ''max_idle_conns must not exceed pool_size'',
          failIf (ro_MinIdleConns r > ro_MaxIdleConns r) ''min_idle_conns must not exceed max_idle_conns'',
          failIf (ro_PoolSize r > ro_MaxActiveConns r) ''pool_size must not exceed max_active_conns'',
          failIf (ro_MinIdleConns r > ro_MaxActiveConns r) ''min_idle_conns must not exceed max_active_conns'',
          failIf (ro_MaxIdleConns r > ro_MaxActiveConns r) ''max_idle_conns must not exceed max_active_conns'',
          failIf (minBackoff > 0 \<and> maxBackoff > 0 \<and> minBackoff > maxBackoff)
            ''min_retry_backoff must not exceed max_retry_backoff''])"

definition normalizeAndValidateRedisOptions :: "RedisOptions \<Rightarrow> goerr + RedisOptions" where
  "normalizeAndValidateRedisOptions options =
     unless (firstErr (redisRanges options))
       (let options = redisPoolDefaults options
        in unless (firstErr (redisOrdering options)) (Inr options))"

text \<open>The cause that \<open>safeRedisURLParseError\<close> keeps of a URL error is part of the parameter.\<close>

definition validateRedisURL :: "configEnv \<Rightarrow> string \<Rightarrow> goerr option" where
  "validateRedisURL env raw =
     (case ce_ParseURL env raw of
        Inl e \<Rightarrow> Some (Wrapped ''parse Redis URL'' e)
      | Inr parsed \<Rightarrow>
          firstErr
            [failIf (ur_Scheme parsed \<noteq> ''redis'' \<and> ur_Scheme parsed \<noteq> ''rediss'') ''scheme must be redis or rediss'',
             failIf (ur_Hostname parsed = []) ''host is required'',
             failIf (ur_Fragment parsed \<noteq> []) ''fragment is not allowed'',
             (case ce_RedisParseURL env raw of
                Inl e \<Rightarrow> Some (Wrapped ''parse Redis URL'' e)
              | Inr options \<Rightarrow>
                  (case normalizeAndValidateRedisOptions options of Inl e \<Rightarrow> Some e | Inr _ \<Rightarrow> None))])"

definition validRedisNamespace :: "string \<Rightarrow> bool" where
  "validRedisNamespace ns \<longleftrightarrow> ns \<noteq> [] \<and> length ns \<le> 128 \<and>
     list_all (\<lambda>c. 48 \<le> byte c \<and> byte c \<le> 57 \<or> 97 \<le> byte c \<and> byte c \<le> 122 \<or> 65 \<le> byte c \<and> byte c \<le> 90 \<or> c \<in> set ''._-'') ns"

definition trimStore :: "StoreConfig \<Rightarrow> StoreConfig" where
  "trimStore st =
     st\<lparr>st_Mode := ToLower (TrimSpace (orDefault (st_Mode st) ''memory'')),
        st_RedisURL := TrimSpace (st_RedisURL st), st_RedisURLEnv := TrimSpace (st_RedisURLEnv st),
        st_RedisNamespace := TrimSpace (st_RedisNamespace st), st_RedisAddr := TrimSpace (st_RedisAddr st),
        st_RedisPasswordEnv := TrimSpace (st_RedisPasswordEnv st)\<rparr>"

definition resolveRedisURL :: "configEnv \<Rightarrow> StoreConfig \<Rightarrow> goerr + StoreConfig" where
  "resolveRedisURL env st =
     (if st_RedisURL st = [] \<and> st_RedisURLEnv st \<noteq> [] then
        and_then (lookupNonEmpty env (st_RedisURLEnv st)
            (''store.redis_url_env '' @ quoted (st_RedisURLEnv st) @ '' is not set or is empty''))
          (\<lambda>v. Inr (st\<lparr>st_RedisURL := TrimSpace v\<rparr>))
      else Inr st)"

definition redisConnection :: "configEnv \<Rightarrow> StoreConfig \<Rightarrow> goerr option" where
  "redisConnection env st =
     (let hasURL = st_RedisURL st \<noteq> [];
          hasAddressOptions = (st_RedisAddr st \<noteq> [] \<or> st_RedisPasswordEnv st \<noteq> [] \<or> st_RedisDB st \<noteq> 0)
      in firstErr
           [failIf (hasURL \<and> hasAddressOptions) ''store.redis_url cannot be combined with redis_addr, redis_password_env, or redis_db'',
            failIf (\<not> hasURL \<and> st_RedisAddr st = []) ''store.redis_addr or store.redis_url is required when store.mode is redis'',
            (if hasURL then map_option (Wrapped ''store.redis_url is invalid'') (validateRedisURL env (st_RedisURL st))
             else if st_RedisPasswordEnv st \<noteq> [] then
               (case lookupNonEmpty env (st_RedisPasswordEnv st)
                       (''store.redis_password_env '' @ quoted (st_RedisPasswordEnv st) @ '' is not set or is empty'') of
                  Inl e \<Rightarrow> Some e | Inr _ \<Rightarrow> None)
             else None),
            failIf (st_RedisNamespace st \<noteq> [] \<and> \<not> validRedisNamespace (st_RedisNamespace st))
              ''store.redis_namespace must contain only letters, digits, '.', '_', or '-' and be at most 128 bytes''])"

definition resolvePostgres :: "configEnv \<Rightarrow> StoreConfig \<Rightarrow> goerr + StoreConfig" where
  "resolvePostgres env st =
     unless (failIf (st_PostgresDSN st \<noteq> [] \<and> st_PostgresDSNEnv st \<noteq> []) ''store.postgres_dsn and store.postgres_dsn_env are mutually exclusive'')
       (if st_PostgresDSN st = [] \<and> st_PostgresDSNEnv st \<noteq> [] then
          and_then (lookupNonEmpty env (st_PostgresDSNEnv st)
              (''store.postgres_dsn_env '' @ quoted (st_PostgresDSNEnv st) @ '' is not set or is empty''))
            (\<lambda>v. Inr (st\<lparr>st_PostgresDSN := v\<rparr>))
        else Inr st)"

definition storeDefaults :: "StoreConfig \<Rightarrow> StoreConfig" where
  "storeDefaults st =
     st\<lparr>st_QuotaTable := orDefault (st_QuotaTable st) ''quota_limits'',
        st_LimitCacheTTL := defaulted (st_LimitCacheTTL st) (30 * Second),
        st_ReservationTTL := defaulted (st_ReservationTTL st) (10 * Minute),
        st_StartupTimeout := defaulted (st_StartupTimeout st) (10 * Second)\<rparr>"

definition finalizeStore :: "configEnv \<Rightarrow> StoreConfig \<Rightarrow> goerr + StoreConfig" where
  "finalizeStore env st =
     (let st = trimStore st
      in unless (firstErr
           [failIf (st_Mode st \<noteq> ''memory'' \<and> st_Mode st \<noteq> ''redis'')
              (''store.mode must be one of memory or redis, got '' @ quoted (st_Mode st)),
            failIf (st_RedisURL st \<noteq> [] \<and> st_RedisURLEnv st \<noteq> []) ''store.redis_url and store.redis_url_env are mutually exclusive''])
         (and_then (if st_Mode st = ''redis'' then
              and_then (resolveRedisURL env st) (\<lambda>st. unless (redisConnection env st) (Inr st))
            else Inr st) (\<lambda>st.
          and_then (resolvePostgres env st) (\<lambda>st. Inr (storeDefaults st)))))"

section \<open>Routes\<close>

definition validHTTPTokenByte :: "char \<Rightarrow> bool" where
  "validHTTPTokenByte c \<longleftrightarrow>
     48 \<le> byte c \<and> byte c \<le> 57 \<or> 97 \<le> byte c \<and> byte c \<le> 122 \<or> 65 \<le> byte c \<and> byte c \<le> 90 \<or>
     c \<in> set ''!#$%&*+-.^_|~'' \<or> byte c = 0x27 \<or> byte c = 0x60"

definition validHTTPHeaderName :: "string \<Rightarrow> bool" where
  "validHTTPHeaderName name \<longleftrightarrow> name \<noteq> [] \<and> list_all validHTTPTokenByte name"

definition validHTTPHeaderValue :: "string \<Rightarrow> bool" where
  "validHTTPHeaderValue v \<longleftrightarrow> list_all (\<lambda>c. \<not> (byte c = 0x7F \<or> byte c < 0x20 \<and> byte c \<noteq> 9)) v"

definition forbiddenRouteHeader :: "string \<Rightarrow> bool" where
  "forbiddenRouteHeader header \<longleftrightarrow>
     CanonicalHeaderKey header \<in> set [''Connection'', ''Content-Length'', ''Host'', ''Keep-Alive'', ''Proxy-Authenticate'',
       ''Proxy-Authorization'', ''Proxy-Connection'', ''Te'', ''Trailer'', ''Transfer-Encoding'', ''Upgrade'']"

fun normalizeRouteHeaders ::
  "string \<Rightarrow> (string, string) gomap \<Rightarrow> (string, string) gomap \<Rightarrow> goerr + (string, string) gomap" where
  "normalizeRouteHeaders routeName [] acc = Inr acc"
| "normalizeRouteHeaders routeName ((header, v) # hs) acc =
     (let canonical = CanonicalHeaderKey header
      in unless (firstErr
           [failIf (\<not> validHTTPHeaderName header) (''route '' @ routeName @ '' has invalid header name '' @ quoted header),
            failIf (\<not> validHTTPHeaderValue v)
              (''route '' @ routeName @ '' header '' @ quoted header @ '' contains invalid control characters''),
            failIf (map_of acc canonical \<noteq> None)
              (''route '' @ routeName @ '' configures header '' @ quoted canonical @ '' more than once with different casing''),
            failIf (forbiddenRouteHeader canonical)
              (''route '' @ routeName @ '' header '' @ quoted canonical @ '' is managed by the HTTP transport and cannot be configured'')])
         (normalizeRouteHeaders routeName hs (AList.update canonical v acc)))"

definition validateBaseURL :: "configEnv \<Rightarrow> string \<Rightarrow> goerr option" where
  "validateBaseURL env raw =
     (if raw = [] then Some (Plain ''is required'')
      else (case ce_ParseURL env raw of
         Inl e \<Rightarrow> Some (Wrapped ''is invalid'' e)
       | Inr parsed \<Rightarrow>
           firstErr
             [failIf (ur_Scheme parsed \<noteq> ''http'' \<and> ur_Scheme parsed \<noteq> ''https'') ''scheme must be http or https'',
              failIf (ur_Host parsed = []) ''must be an absolute URL with a host'',
              failIf (ur_HasUser parsed) ''must not contain user information'',
              failIf (ur_RawQuery parsed \<noteq> []) ''must not contain a query string'',
              failIf (ur_Fragment parsed \<noteq> []) ''must not contain a fragment'']))"

definition supportedTokenizerFamilies :: "string list" where
  "supportedTokenizerFamilies =
     [''o200k_base'', ''cl100k_base'', ''p50k_base'', ''p50k_edit'', ''r50k_base'', ''claude'', ''gemini'']"

definition routeSupportsGeneratedOutput :: "Operation list \<Rightarrow> bool" where
  "routeSupportsGeneratedOutput ops \<longleftrightarrow> list_ex (\<lambda>op. op \<in> {OpChatCompletions, OpResponses, OpCompletions}) ops"

definition MaximumRouteWeight :: int where
  "MaximumRouteWeight = 1000000"

text \<open>The checks of \<open>validateRoute\<close>, in its order, by the part of the route they look at.\<close>

definition routeIdentityChecks :: "configEnv \<Rightarrow> string \<Rightarrow> Route \<Rightarrow> goerr option list" where
  "routeIdentityChecks env name r =
     [failIf (\<not> validHTTPHeaderValue name) (''route name '' @ quoted name @ '' contains invalid HTTP header value bytes''),
      failIf (r_Provider r = []) (''route '' @ name @ '' missing provider''),
      map_option (Wrapped (''route '' @ name)) (validateProviderName (r_Provider r)),
      failIf (r_Backend r \<noteq> [] \<and> (\<not> validHTTPHeaderValue (r_Backend r) \<or> length (r_Backend r) > 128))
        (''route '' @ name @ '' backend contains invalid bytes or exceeds 128 bytes''),
      failIf (r_Model r = []) (''route '' @ name @ '' missing model''),
      failIf (\<not> validHTTPHeaderValue (r_Model r)) (''route '' @ name @ '' model contains invalid HTTP header value bytes'')] @
     concat (map (\<lambda>(header, v).
       [failIf (\<not> validHTTPHeaderName header) (''route '' @ name @ '' has invalid header name '' @ quoted header),
        failIf (\<not> validHTTPHeaderValue v) (''route '' @ name @ '' header '' @ quoted header @ '' contains invalid control characters'')])
       (r_Headers r)) @
     [failIf (r_UpstreamModel r = []) (''route '' @ name @ '' missing upstream model''),
      map_option (Wrapped (''route '' @ name @ '' base_url'')) (validateBaseURL env (r_BaseURL r))]"

definition nonNegative :: "string \<Rightarrow> string \<Rightarrow> int \<Rightarrow> goerr option" where
  "nonNegative name field v = failIf (v < 0) (''route '' @ name @ '' '' @ field @ '' must be greater than or equal to zero'')"

definition notAbove :: "string \<Rightarrow> string \<Rightarrow> int \<Rightarrow> int \<Rightarrow> goerr option" where
  "notAbove name field v bound = failIf (v > bound) (''route '' @ name @ '' '' @ field @ '' must not exceed '' @ show_int bound)"

definition routeScheduleChecks :: "string \<Rightarrow> Route \<Rightarrow> goerr option list" where
  "routeScheduleChecks name r =
     [nonNegative name ''priority'' (r_Priority r),
      nonNegative name ''weight'' (r_Weight r), notAbove name ''weight'' (r_Weight r) MaximumRouteWeight,
      nonNegative name ''retries'' (r_Retries r), notAbove name ''retries'' (r_Retries r) MaximumRouteRetries,
      nonNegative name ''timeout'' (r_Timeout r),
      nonNegative name ''circuit.failures'' (cc_Failures (r_Circuit r)),
      nonNegative name ''circuit.cooldown'' (cc_Cooldown (r_Circuit r))] @
     concat (map (\<lambda>(field, v). [nonNegative name field v, notAbove name field v MaximumQuotaValue])
       [(''limits.rpm'', lc_RPM (r_Limits r)), (''limits.tpm'', lc_TPM (r_Limits r)),
        (''limits.concurrency'', lc_Concurrency (r_Limits r)),
        (''limits.provider_concurrency'', lc_ProviderConcurrency (r_Limits r)),
        (''limits.max_body_bytes'', lc_MaxBodyBytes (r_Limits r)),
        (''limits.max_response_bytes'', lc_MaxResponseBytes (r_Limits r))])"

fun operationChecks :: "string \<Rightarrow> Operation list \<Rightarrow> Operation list \<Rightarrow> goerr option" where
  "operationChecks name seen [] = None"
| "operationChecks name seen (op # ops) =
     firstErr
       [failIf (\<not> isKnownOperation op) (''route '' @ name @ '' declares unsupported operation '' @ quoted op),
        failIf (op \<in> set seen) (''route '' @ name @ '' declares operation '' @ quoted op @ '' more than once''),
        operationChecks name (op # seen) ops]"

definition routeCapabilityChecks :: "string \<Rightarrow> Capability \<Rightarrow> goerr option list" where
  "routeCapabilityChecks name c =
     [failIf (cap_MaxInputTokens c < 0 \<or> cap_MaxOutputTokens c < 0)
        (''route '' @ name @ '' capability token limits must be greater than or equal to zero''),
      failIf (cap_MaxInputTokens c > MaximumQuotaValue \<or> cap_MaxOutputTokens c > MaximumQuotaValue)
        (''route '' @ name @ '' capability token limits must not exceed '' @ show_int MaximumQuotaValue),
      failIf (cap_VisionInputTokenSurcharge c < 0 \<or> cap_AudioInputTokenSurcharge c < 0)
        (''route '' @ name @ '' capability multimodal token surcharges must be greater than or equal to zero''),
      failIf (\<not> cap_VisionInput c \<and> cap_VisionInputTokenSurcharge c \<noteq> 0)
        (''route '' @ name @ '' capabilities.vision_input_token_surcharge requires vision_input''),
      failIf (\<not> cap_Audio c \<and> cap_AudioInputTokenSurcharge c \<noteq> 0)
        (''route '' @ name @ '' capabilities.audio_input_token_surcharge requires audio''),
      failIf (cap_Operations c = []) (''route '' @ name @ '' must declare at least one capability operation''),
      failIf (routeSupportsGeneratedOutput (cap_Operations c) \<and> cap_MaxOutputTokens c \<le> 0)
        (''route '' @ name @ '' capabilities.max_output_tokens must be greater than zero for generative operations''),
      failIf (cap_Tokenizer c \<notin> set supportedTokenizerFamilies)
        (if cap_Tokenizer c = [] then ''route '' @ name @ '' capabilities.tokenizer is required''
         else ''route '' @ name @ '' uses unsupported capabilities.tokenizer '' @ quoted (cap_Tokenizer c)),
      operationChecks name [] (cap_Operations c)]"

definition finitePrice :: "string \<Rightarrow> string \<Rightarrow> f64 \<Rightarrow> goerr option" where
  "finitePrice name field v =
     failIf (\<not> f64_finite_nonneg v) (''route '' @ name @ '' '' @ field @ '' must be a finite value greater than or equal to zero'')"

definition routePricingChecks :: "string \<Rightarrow> Pricing \<Rightarrow> goerr option list" where
  "routePricingChecks name p =
     [finitePrice name ''pricing.input_per_1m'' (p_InputPer1M p),
      finitePrice name ''pricing.output_per_1m'' (p_OutputPer1M p),
      finitePrice name ''pricing.cache_read_per_1m'' (p_CacheReadPer1M p),
      finitePrice name ''pricing.cache_write_per_1m'' (p_CacheWritePer1M p)] @
     concat (map (\<lambda>(unit, u).
       let field = ''pricing.provider_units.'' @ unit
       in [failIf (TrimSpace unit = []) (''route '' @ name @ '' pricing.provider_units contains an empty unit name''),
           finitePrice name (field @ ''.micros_per_unit'') (pu_MicrosPerUnit u),
           nonNegative name (field @ ''.max_units_per_request'') (pu_MaxUnitsPerRequest u),
           notAbove name (field @ ''.max_units_per_request'') (pu_MaxUnitsPerRequest u) MaximumQuotaValue])
       (p_ProviderUnits p))"

definition validateRoute :: "configEnv \<Rightarrow> string \<Rightarrow> Route \<Rightarrow> goerr option" where
  "validateRoute env name r =
     firstErr (routeIdentityChecks env name r @ routeScheduleChecks name r @
       routeCapabilityChecks name (r_Capabilities r) @ routePricingChecks name (r_Pricing r))"

definition resolveField :: "configEnv \<Rightarrow> string \<Rightarrow> string \<Rightarrow> string \<Rightarrow> string \<Rightarrow> goerr + string \<times> string" where
  "resolveField env name label literal envName =
     (let literal = TrimSpace literal; envName = TrimSpace envName
      in unless (failIf (literal \<noteq> [] \<and> envName \<noteq> [])
             (''route '' @ name @ '' '' @ label @ '' and '' @ label @ ''_env are mutually exclusive''))
           (if envName = [] then Inr (literal, envName)
            else and_then (lookupNonEmpty env envName
                (''route '' @ name @ '' '' @ label @ ''_env '' @ quoted envName @ '' is not set or is empty''))
              (\<lambda>v. Inr (TrimSpace v, envName))))"

definition resolveRouteEnvironment :: "configEnv \<Rightarrow> string \<Rightarrow> Route \<Rightarrow> goerr + Route" where
  "resolveRouteEnvironment env name r =
     and_then (resolveField env name ''api_key'' (r_APIKey r) (r_APIKeyEnv r)) (\<lambda>(key, keyEnv).
     and_then (resolveField env name ''project'' (r_Project r) (r_ProjectEnv r)) (\<lambda>(project, projectEnv).
     and_then (resolveField env name ''location'' (r_Location r) (r_LocationEnv r)) (\<lambda>(location, locationEnv).
       Inr (r\<lparr>r_APIKey := key, r_APIKeyEnv := keyEnv, r_Project := project, r_ProjectEnv := projectEnv,
              r_Location := location, r_LocationEnv := locationEnv\<rparr>))))"

definition capabilityDefaults :: "Capability \<Rightarrow> Capability" where
  "capabilityDefaults c =
     c\<lparr>cap_Tokenizer := ToLower (TrimSpace (cap_Tokenizer c)),
       cap_VisionInputTokenSurcharge :=
         (if cap_VisionInput c \<and> cap_VisionInputTokenSurcharge c = 0 then 1024 else cap_VisionInputTokenSurcharge c),
       cap_AudioInputTokenSurcharge :=
         (if cap_Audio c \<and> cap_AudioInputTokenSurcharge c = 0 then 8192 else cap_AudioInputTokenSurcharge c)\<rparr>"

definition normalizeRoute :: "string \<Rightarrow> Route \<Rightarrow> Route" where
  "normalizeRoute name r =
     r\<lparr>r_Name := name, r_Provider := ToLower (TrimSpace (r_Provider r)), r_Backend := ToLower (TrimSpace (r_Backend r)),
       r_Model := TrimSpace (r_Model r),
       r_UpstreamModel := orDefault (TrimSpace (r_UpstreamModel r)) (TrimSpace (r_Model r)),
       r_Capabilities := capabilityDefaults (r_Capabilities r), r_BaseURL := TrimSpace (r_BaseURL r)\<rparr>"

definition routeDefaults :: "Route \<Rightarrow> Route" where
  "routeDefaults r =
     r\<lparr>r_Weight := defaulted (r_Weight r) 1, r_Timeout := defaulted (r_Timeout r) (30 * Second),
       r_Circuit := \<lparr>cc_Failures = defaulted (cc_Failures (r_Circuit r)) 3,
                     cc_Cooldown = defaulted (cc_Cooldown (r_Circuit r)) (30 * Second)\<rparr>\<rparr>"

definition checkedRoute :: "configEnv \<Rightarrow> string \<Rightarrow> Route \<Rightarrow> goerr + Route" where
  "checkedRoute env name route =
     and_then (resolveRouteEnvironment env name (normalizeRoute name route)) (\<lambda>r.
     and_then (normalizeRouteHeaders name (r_Headers r) []) (\<lambda>headers.
       let r = r\<lparr>r_Headers := headers\<rparr> in unless (validateRoute env name r) (Inr r)))"

fun finalizeRoutes ::
  "configEnv \<Rightarrow> (string \<rightharpoonup> int) \<Rightarrow> (string, Route option) gomap \<Rightarrow> goerr + (string, Route option) gomap" where
  "finalizeRoutes env concurrency [] = Inr []"
| "finalizeRoutes env concurrency ((name, route) # rs) =
     unless (firstErr
       [failIf (TrimSpace name = []) ''route name must not be empty'',
        failIf (route = None) (''route '' @ name @ '' must not be null'')])
       (and_then (checkedRoute env name (the route)) (\<lambda>r.
          let prior = concurrency (r_Provider r); n = lc_ProviderConcurrency (r_Limits r)
          in unless (failIf (prior \<noteq> None \<and> the prior \<noteq> n)
                 (''routes for provider '' @ r_Provider r @ '' must use one consistent limits.provider_concurrency value (got '' @
                  show_int (the prior) @ '' and '' @ show_int n @ '')''))
               (and_then (finalizeRoutes env (concurrency(r_Provider r \<mapsto> n)) rs) (\<lambda>out.
                  Inr ((name, Some (routeDefaults r)) # out)))))"

section \<open>Quotas and references\<close>

definition profileChecks :: "(string, LimitSpec) gomap \<Rightarrow> goerr option list" where
  "profileChecks profiles =
     concat (map (\<lambda>(name, profile).
       [failIf (TrimSpace name = []) ''quota profile name must not be empty'',
        validateLimitSpec (''quota.profiles.'' @ name) profile]) profiles)"

definition quotaKeyChecks :: "QuotaConfig \<Rightarrow> goerr option list" where
  "quotaKeyChecks q =
     concat (map (\<lambda>(keyID, profile).
       [failIf (TrimSpace keyID = []) ''quota key id must not be empty'',
        failIf (map_of (qc_Profiles q) profile = None)
          (''quota.keys.'' @ keyID @ '' references unknown profile '' @ quoted profile)]) (qc_Keys q))"

definition referenceChecks :: "string set \<Rightarrow> string \<Rightarrow> string list \<Rightarrow> goerr option list" where
  "referenceChecks known path providers =
     map (\<lambda>provider. failIf (provider \<notin> known)
       (path @ '' references provider '' @ quoted provider @ '', which has no configured route'')) providers"

definition validateConfiguredProviderReferences ::
  "AuthFile \<Rightarrow> QuotaConfig \<Rightarrow> (string, Route option) gomap \<Rightarrow> goerr option" where
  "validateConfiguredProviderReferences auth quota routes =
     (let known = set (map r_Provider (List.map_filter snd routes))
      in firstErr
           (concat (map (\<lambda>(_, p). referenceChecks known ''auth.tokens principal'' (pr_Providers p)) (ac_Tokens auth)) @
            concat (map (\<lambda>(envName, p). referenceChecks known (''auth.token_envs.'' @ envName) (pr_Providers p)) (ac_TokenEnvs auth)) @
            concat (map (\<lambda>(name, profile). referenceChecks known (''quota.profiles.'' @ name @ ''.provider_allowlist'')
              (slice_elems (ls_ProviderAllowlist profile))) (qc_Profiles quota))))"

section \<open>Finalizing, publishing and reloading\<close>

definition finalize :: "configEnv \<Rightarrow> Config \<Rightarrow> goerr + Config" where
  "finalize env cfg =
     and_then (resolveAndValidateAuth env (cf_Auth cfg)) (\<lambda>auth.
     unless (validateDurationsAndLimits (cf_Server cfg) (cf_Store cfg))
     (and_then (finalizeStore env (cf_Store cfg)) (\<lambda>store.
      unless (failIf (sn_Routes (cf_Catalog cfg) = []) ''no routes configured'')
      (and_then (finalizeRoutes env Map.empty (sn_Routes (cf_Catalog cfg))) (\<lambda>routes.
       unless (firstErr
         (profileChecks (qc_Profiles (cf_Quota cfg)) @
          [validateConfiguredProviderReferences auth (cf_Quota cfg) routes] @ quotaKeyChecks (cf_Quota cfg)))
       (Inr \<lparr>cf_Server = serverDefaults (cf_Server cfg),
             cf_Auth = auth\<lparr>ac_MaxBodyBytes := defaulted (ac_MaxBodyBytes auth) 4194304\<rparr>,
             cf_Store = store, cf_Quota = cf_Quota cfg,
             cf_Catalog = rebuildRouteCatalog ((cf_Catalog cfg)\<lparr>sn_Routes := routes\<rparr>),
             cf_Telemetry = cf_Telemetry cfg, cf_LoadedAt = ce_Now env\<rparr>))))))"

definition snapshotForPublication :: "Config option \<Rightarrow> Config option" where
  "snapshotForPublication source =
     map_option (\<lambda>cfg. cfg\<lparr>cf_Catalog := rebuildRouteCatalog (cf_Catalog cfg)\<rparr>) source"

text \<open>The configuration store is the published snapshot; \<open>decode\<close> is the file as YAML gives it.\<close>

type_synonym ConfigStore = "Config option"

definition cs_Swap :: "Config option \<Rightarrow> ConfigStore \<Rightarrow> ConfigStore" where
  "cs_Swap cfg store = snapshotForPublication cfg"

definition LoadConfigFile :: "configEnv \<Rightarrow> goerr + Config \<Rightarrow> goerr + Config" where
  "LoadConfigFile env decode = and_then decode (finalize env)"

definition cs_Reload :: "configEnv \<Rightarrow> goerr + Config \<Rightarrow> ConfigStore \<Rightarrow> (goerr + Config) \<times> ConfigStore" where
  "cs_Reload env decode store =
     (case LoadConfigFile env decode of
        Inl e \<Rightarrow> (Inl e, store)
      | Inr cfg \<Rightarrow> (Inr cfg, cs_Swap (Some cfg) store))"

fun registryChecks :: "nat \<Rightarrow> string list \<Rightarrow> Provider option list \<Rightarrow> goerr option" where
  "registryChecks i seen [] = None"
| "registryChecks i seen (None # ps) = Some (Plain (''provider registry entry '' @ show_nat i @ '' is nil''))"
| "registryChecks i seen (Some p # ps) =
     firstErr
       [map_option (Wrapped (''provider registry entry '' @ show_nat i)) (validateProviderName (pv_Name p)),
        failIf (pv_Name p \<in> set seen) (''provider '' @ quoted (pv_Name p) @ '' is registered more than once''),
        registryChecks (Suc i) (pv_Name p # seen) ps]"

text \<open>\<open>validator\<close> is the route check of a provider that has one.\<close>

definition providerRouteChecks ::
  "(Provider \<Rightarrow> (Route \<Rightarrow> goerr option) option) \<Rightarrow> (string \<rightharpoonup> Provider) \<Rightarrow> string \<Rightarrow> Route option \<Rightarrow> goerr option" where
  "providerRouteChecks validator registry name route =
     (case route of
        None \<Rightarrow> Some (Plain (''route '' @ name @ '' must not be null''))
      | Some r \<Rightarrow>
          (case registry (r_Provider r) of
             None \<Rightarrow> Some (Plain (''route '' @ name @ '' references unregistered provider '' @ quoted (r_Provider r)))
           | Some p \<Rightarrow>
               firstErr
                 (map (\<lambda>op. failIf (\<not> pv_Supports p op)
                    (''route '' @ name @ '' provider '' @ r_Provider r @ '' does not support operation '' @ quoted op))
                    (cap_Operations (r_Capabilities r)) @
                  [(case validator p of
                      None \<Rightarrow> None
                    | Some f \<Rightarrow> map_option (Wrapped (''route '' @ name @ '' is invalid for provider '' @ r_Provider r)) (f r))])))"

definition ValidateProviders ::
  "(Provider \<Rightarrow> (Route \<Rightarrow> goerr option) option) \<Rightarrow> Config option \<Rightarrow> Provider option list \<Rightarrow> goerr option" where
  "ValidateProviders validator snapshot providers =
     (case snapshot of
        None \<Rightarrow> Some (Plain ''provider validation requires a configuration snapshot'')
      | Some cfg \<Rightarrow>
          (let routes = sn_Routes (cf_Catalog cfg)
           in firstErr
                (registryChecks 0 [] providers #
                 map (\<lambda>name. providerRouteChecks validator (providerRegistry providers) name
                        (case map_of routes name of Some r \<Rightarrow> r | None \<Rightarrow> None))
                   (sort (map fst routes)))))"

text \<open>\<open>Reload\<close> of the service: nothing is swapped unless the new file passes everything.\<close>

definition Service_Reload ::
  "configEnv \<Rightarrow> (Provider \<Rightarrow> (Route \<Rightarrow> goerr option) option) \<Rightarrow> Provider option list \<Rightarrow> goerr + Config \<Rightarrow>
     ConfigStore \<Rightarrow> goerr option \<times> ConfigStore" where
  "Service_Reload env validator providers decode store =
     (case LoadConfigFile env decode of
        Inl e \<Rightarrow> (Some e, store)
      | Inr cfg \<Rightarrow>
          (case ValidateProviders validator (Some cfg) providers of
             Some e \<Rightarrow> (Some (Wrapped ''validate providers'' e), store)
           | None \<Rightarrow>
               if (case store of
                     None \<Rightarrow> False
                   | Some current \<Rightarrow>
                       cf_Server current \<noteq> cf_Server cfg \<or> cf_Store current \<noteq> cf_Store cfg \<or>
                       cf_Telemetry current \<noteq> cf_Telemetry cfg)
               then (Some (Plain ''reload changes restart-only server, store, or telemetry settings''), store)
               else (None, cs_Swap (Some cfg) store)))"

section \<open>What an accepted configuration guarantees\<close>

definition quotaRange :: "int \<Rightarrow> bool" where
  "quotaRange v \<longleftrightarrow> 0 \<le> v \<and> v \<le> MaximumQuotaValue"

definition limits_ok :: "LimitConfig \<Rightarrow> bool" where
  "limits_ok l \<longleftrightarrow>
     list_all quotaRange [lc_RPM l, lc_TPM l, lc_Concurrency l, lc_ProviderConcurrency l, lc_MaxBodyBytes l, lc_MaxResponseBytes l]"

definition capability_ok :: "Capability \<Rightarrow> bool" where
  "capability_ok c \<longleftrightarrow>
     quotaRange (cap_MaxInputTokens c) \<and> quotaRange (cap_MaxOutputTokens c) \<and>
     0 \<le> cap_VisionInputTokenSurcharge c \<and> 0 \<le> cap_AudioInputTokenSurcharge c \<and>
     (cap_VisionInputTokenSurcharge c \<noteq> 0 \<longrightarrow> cap_VisionInput c) \<and> (cap_AudioInputTokenSurcharge c \<noteq> 0 \<longrightarrow> cap_Audio c) \<and>
     cap_Tokenizer c \<in> set supportedTokenizerFamilies \<and>
     cap_Operations c \<noteq> [] \<and> distinct (cap_Operations c) \<and> list_all isKnownOperation (cap_Operations c) \<and>
     (routeSupportsGeneratedOutput (cap_Operations c) \<longrightarrow> 0 < cap_MaxOutputTokens c)"

definition pricing_ok :: "Pricing \<Rightarrow> bool" where
  "pricing_ok p \<longleftrightarrow>
     list_all f64_finite_nonneg [p_InputPer1M p, p_OutputPer1M p, p_CacheReadPer1M p, p_CacheWritePer1M p] \<and>
     list_all (\<lambda>(unit, u). TrimSpace unit \<noteq> [] \<and> f64_finite_nonneg (pu_MicrosPerUnit u) \<and> quotaRange (pu_MaxUnitsPerRequest u)) (p_ProviderUnits p)"

definition headers_ok :: "(string, string) gomap \<Rightarrow> bool" where
  "headers_ok hs \<longleftrightarrow>
     distinct (map fst hs) \<and>
     list_all (\<lambda>(h, v). validHTTPHeaderName h \<and> validHTTPHeaderValue v \<and> \<not> forbiddenRouteHeader h) hs"

text \<open>An absolute URL of a host, without credentials, query or fragment.\<close>

definition base_url_ok :: "configEnv \<Rightarrow> string \<Rightarrow> bool" where
  "base_url_ok env raw \<longleftrightarrow>
     raw \<noteq> [] \<and>
     (case ce_ParseURL env raw of
        Inl _ \<Rightarrow> False
      | Inr u \<Rightarrow> ur_Scheme u \<in> {''http'', ''https''} \<and> ur_Host u \<noteq> [] \<and> \<not> ur_HasUser u \<and> ur_RawQuery u = [] \<and> ur_Fragment u = [])"

definition route_ok :: "configEnv \<Rightarrow> string \<Rightarrow> Route \<Rightarrow> bool" where
  "route_ok env name r \<longleftrightarrow>
     r_Name r = name \<and> TrimSpace name \<noteq> [] \<and> validHTTPHeaderValue name \<and>
     r_Provider r \<noteq> [] \<and> validateProviderName (r_Provider r) = None \<and>
     validHTTPHeaderValue (r_Backend r) \<and> length (r_Backend r) \<le> 128 \<and>
     r_Model r \<noteq> [] \<and> validHTTPHeaderValue (r_Model r) \<and> r_UpstreamModel r \<noteq> [] \<and>
     base_url_ok env (r_BaseURL r) \<and> headers_ok (r_Headers r) \<and>
     0 \<le> r_Priority r \<and> 1 \<le> r_Weight r \<and> r_Weight r \<le> MaximumRouteWeight \<and>
     0 \<le> r_Retries r \<and> r_Retries r \<le> MaximumRouteRetries \<and> 0 < r_Timeout r \<and>
     0 < cc_Failures (r_Circuit r) \<and> 0 < cc_Cooldown (r_Circuit r) \<and>
     limits_ok (r_Limits r) \<and> capability_ok (r_Capabilities r) \<and> pricing_ok (r_Pricing r)"

text \<open>Keys of the kind and the strength their algorithm needs.\<close>

fun key_ok :: "string \<Rightarrow> verificationKey \<Rightarrow> bool" where
  "key_ok alg (HMACKey secret) \<longleftrightarrow>
     (alg = ''HS256'' \<and> 32 \<le> length secret \<or> alg = ''HS384'' \<and> 48 \<le> length secret \<or> alg = ''HS512'' \<and> 64 \<le> length secret)"
| "key_ok alg (PublicKey (RSAKey (Some bits))) \<longleftrightarrow> alg \<in> {''RS256'', ''RS384'', ''RS512''} \<and> 2048 \<le> bits"
| "key_ok alg (PublicKey (ECDSAKey (Some curve))) \<longleftrightarrow>
     (alg, curve) \<in> {(''ES256'', ''P-256''), (''ES384'', ''P-384''), (''ES512'', ''P-521'')}"
| "key_ok alg (PublicKey (Ed25519Key n)) \<longleftrightarrow> alg = ''EdDSA'' \<and> n = 32"
| "key_ok _ _ \<longleftrightarrow> False"

text \<open>A principal that identifies a subject, with valid names and known permissions.\<close>

definition principal_ok :: "Principal \<Rightarrow> bool" where
  "principal_ok p \<longleftrightarrow>
     su_KeyID (Principal_Subject p) \<noteq> [] \<and> list_all (\<lambda>n. validateProviderName n = None) (pr_Providers p) \<and>
     set (pr_Permissions p) \<subseteq> {PermissionManageLimits, PermissionViewOperations}"

definition token_ok :: "string \<times> Principal \<Rightarrow> bool" where
  "token_ok t \<longleftrightarrow> fst t \<noteq> [] \<and> TrimSpace (fst t) = fst t \<and> principal_ok (snd t)"

definition auth_ok :: "AuthFile \<Rightarrow> bool" where
  "auth_ok a \<longleftrightarrow>
     list_all token_ok (ac_Tokens a) \<and>
     (ac_AllowAnonymous a \<or> ac_Tokens a \<noteq> [] \<or> JWT_Enabled (ac_JWT a)) \<and>
     (JWT_Enabled (ac_JWT a) \<longrightarrow>
        (case ac_verificationKey a of None \<Rightarrow> False | Some key \<Rightarrow> key_ok (jw_Algorithm (ac_JWT a)) key) \<and>
        (jw_Secret (ac_JWT a) = [] \<or> jw_PublicKey (ac_JWT a) = [])) \<and>
     0 < ac_MaxBodyBytes a"

text \<open>A Redis store has a checked URL or an address, and a namespace that is safe in a key.\<close>

definition redis_ok :: "configEnv \<Rightarrow> StoreConfig \<Rightarrow> bool" where
  "redis_ok env st \<longleftrightarrow>
     (if st_RedisURL st \<noteq> [] then
        st_RedisAddr st = [] \<and> st_RedisPasswordEnv st = [] \<and> st_RedisDB st = 0 \<and> validateRedisURL env (st_RedisURL st) = None
      else st_RedisAddr st \<noteq> [] \<and>
        (st_RedisPasswordEnv st \<noteq> [] \<longrightarrow>
           (\<exists>password. ce_LookupEnv env (st_RedisPasswordEnv st) = Some password \<and> TrimSpace password \<noteq> []))) \<and>
     (st_RedisNamespace st \<noteq> [] \<longrightarrow> validRedisNamespace (st_RedisNamespace st))"

definition store_ok :: "configEnv \<Rightarrow> StoreConfig \<Rightarrow> bool" where
  "store_ok env st \<longleftrightarrow> (st_Mode st = ''memory'' \<or> st_Mode st = ''redis'' \<and> redis_ok env st) \<and>
     0 < st_LimitCacheTTL st \<and> 0 < st_ReservationTTL st \<and> 0 < st_StartupTimeout st \<and> 0 \<le> st_RedisDB st"

definition server_ok :: "ServerConfig \<Rightarrow> bool" where
  "server_ok sv \<longleftrightarrow> sv_Listen sv \<noteq> [] \<and> 0 < sv_ReadTimeout sv \<and> 0 \<le> sv_WriteTimeout sv \<and>
     0 < sv_StreamWriteTimeout sv \<and> 0 < sv_IdleTimeout sv \<and> 0 < sv_ShutdownTimeout sv"

definition quota_ok :: "QuotaConfig \<Rightarrow> bool" where
  "quota_ok q \<longleftrightarrow>
     list_all (\<lambda>(name, l). TrimSpace name \<noteq> [] \<and> validateLimitSpec (''quota.profiles.'' @ name) l = None) (qc_Profiles q) \<and>
     list_all (\<lambda>(k, profile). TrimSpace k \<noteq> [] \<and> map_of (qc_Profiles q) profile \<noteq> None) (qc_Keys q)"

definition routes_ok :: "configEnv \<Rightarrow> (string, Route option) gomap \<Rightarrow> bool" where
  "routes_ok env rs \<longleftrightarrow>
     rs \<noteq> [] \<and> list_all (\<lambda>(name, r). r \<noteq> None \<and> route_ok env name (the r)) rs \<and>
     (\<forall>a \<in> set rs. \<forall>b \<in> set rs. r_Provider (the (snd a)) = r_Provider (the (snd b)) \<longrightarrow>
        lc_ProviderConcurrency (r_Limits (the (snd a))) = lc_ProviderConcurrency (r_Limits (the (snd b))))"

text \<open>The providers that principals and quota profiles name have routes.\<close>

definition references_ok :: "AuthFile \<Rightarrow> QuotaConfig \<Rightarrow> (string, Route option) gomap \<Rightarrow> bool" where
  "references_ok a q rs \<longleftrightarrow>
     (let routed = set (map r_Provider (List.map_filter snd rs))
      in (\<forall>(t, p) \<in> set (ac_Tokens a). set (pr_Providers p) \<subseteq> routed) \<and>
         (\<forall>(e, p) \<in> set (ac_TokenEnvs a). set (pr_Providers p) \<subseteq> routed) \<and>
         (\<forall>(n, l) \<in> set (qc_Profiles q). set (slice_elems (ls_ProviderAllowlist l)) \<subseteq> routed))"

definition config_ok :: "configEnv \<Rightarrow> Config \<Rightarrow> bool" where
  "config_ok env c \<longleftrightarrow>
     server_ok (cf_Server c) \<and> auth_ok (cf_Auth c) \<and> store_ok env (cf_Store c) \<and> quota_ok (cf_Quota c) \<and>
     routes_ok env (sn_Routes (cf_Catalog c)) \<and>
     references_ok (cf_Auth c) (cf_Quota c) (sn_Routes (cf_Catalog c))"

subsection \<open>Routes\<close>

lemma operationChecks_None:
  "operationChecks name seen ops = None \<longleftrightarrow> list_all isKnownOperation ops \<and> distinct ops \<and> set ops \<inter> set seen = {}"
  by (induction name seen ops rule: operationChecks.induct) auto

lemma capability_checked: "list_all (\<lambda>e. e = None) (routeCapabilityChecks name c) \<Longrightarrow> capability_ok c"
  by (auto simp: routeCapabilityChecks_def capability_ok_def quotaRange_def operationChecks_None)

lemma pricing_checked: "list_all (\<lambda>e. e = None) (routePricingChecks name p) \<Longrightarrow> pricing_ok p"
  by (simp add: routePricingChecks_def pricing_ok_def finitePrice_def nonNegative_def notAbove_def quotaRange_def
      checks_simps) (force simp: list_all_iff)

lemma limits_checked: "list_all (\<lambda>e. e = None) (routeScheduleChecks name r) \<Longrightarrow> limits_ok (r_Limits r)"
  by (simp add: routeScheduleChecks_def limits_ok_def nonNegative_def notAbove_def quotaRange_def)

lemma schedule_checked:
  assumes "list_all (\<lambda>e. e = None) (routeScheduleChecks name r)"
  shows "0 \<le> r_Priority r" "0 \<le> r_Weight r" "r_Weight r \<le> MaximumRouteWeight" "0 \<le> r_Retries r"
    "r_Retries r \<le> MaximumRouteRetries" "0 \<le> r_Timeout r" "0 \<le> cc_Failures (r_Circuit r)" "0 \<le> cc_Cooldown (r_Circuit r)"
  using assms by (simp_all add: routeScheduleChecks_def nonNegative_def notAbove_def)

lemma normalizeRouteHeaders_ok:
  "normalizeRouteHeaders name hs acc = Inr out \<Longrightarrow>
     distinct (map fst acc) \<Longrightarrow> list_all (\<lambda>(h, v). \<not> forbiddenRouteHeader h) acc \<Longrightarrow>
     distinct (map fst out) \<and> list_all (\<lambda>(h, v). \<not> forbiddenRouteHeader h) out"
proof (induction name hs acc rule: normalizeRouteHeaders.induct)
  case (2 name header v hs acc)
  let ?c = "CanonicalHeaderKey header"
  have run: "normalizeRouteHeaders name hs (AList.update ?c v acc) = Inr out" and f: "\<not> forbiddenRouteHeader ?c"
    using "2.prems"(1) by (simp_all add: Let_def)
  have "list_all (\<lambda>(h, v). \<not> forbiddenRouteHeader h) (AList.update ?c v acc)"
    using "2.prems"(3) f by (auto simp: list_all_iff dest!: set_gomap_update)
  moreover have "distinct (map fst (AList.update ?c v acc))" using "2.prems"(2) by (simp add: distinct_update)
  ultimately show ?case using "2.IH" run by simp
qed simp

lemma validateBaseURL_ok: "validateBaseURL env raw = None \<longleftrightarrow> base_url_ok env raw"
  by (auto simp: validateBaseURL_def base_url_ok_def split: sum.splits)

lemma identity_checked:
  assumes "list_all (\<lambda>e. e = None) (routeIdentityChecks env name r)"
  shows "validHTTPHeaderValue name" "r_Provider r \<noteq> []" "validateProviderName (r_Provider r) = None"
    "validHTTPHeaderValue (r_Backend r)" "length (r_Backend r) \<le> 128"
    "r_Model r \<noteq> []" "validHTTPHeaderValue (r_Model r)" "r_UpstreamModel r \<noteq> []" "base_url_ok env (r_BaseURL r)"
    "list_all (\<lambda>(h, v). validHTTPHeaderName h \<and> validHTTPHeaderValue v) (r_Headers r)"
  using assms by (auto simp: routeIdentityChecks_def checks_simps validateBaseURL_ok validHTTPHeaderValue_def)

lemma resolveRouteEnvironment_keeps:
  "resolveRouteEnvironment env name r = Inr r' \<Longrightarrow> r_Name r' = r_Name r"
  by (auto simp: resolveRouteEnvironment_def split: prod.splits)

text \<open>A checked route with its defaults is a good one.\<close>

lemma checkedRoute_ok:
  assumes "checkedRoute env name route = Inr r" "TrimSpace name \<noteq> []"
  shows "route_ok env name (routeDefaults r)"
proof -
  from assms(1) obtain r0 hs where r0: "resolveRouteEnvironment env name (normalizeRoute name route) = Inr r0"
    and hs: "normalizeRouteHeaders name (r_Headers r0) [] = Inr hs" and r: "r = r0\<lparr>r_Headers := hs\<rparr>"
    and v: "validateRoute env name r = None"
    by (auto simp: checkedRoute_def Let_def)
  have n: "r_Name r = name" using resolveRouteEnvironment_keeps [OF r0] by (simp add: r normalizeRoute_def)
  have c: "list_all (\<lambda>e. e = None) (routeIdentityChecks env name r)" "list_all (\<lambda>e. e = None) (routeScheduleChecks name r)"
    "list_all (\<lambda>e. e = None) (routeCapabilityChecks name (r_Capabilities r))"
    "list_all (\<lambda>e. e = None) (routePricingChecks name (r_Pricing r))"
    using v by (simp_all add: validateRoute_def)
  have h: "headers_ok (r_Headers r)"
    using normalizeRouteHeaders_ok [OF hs] identity_checked(10) [OF c(1)]
    by (auto simp: headers_ok_def r list_all_iff)
  show ?thesis
    using identity_checked [OF c(1)] schedule_checked [OF c(2)] limits_checked [OF c(2)] capability_checked [OF c(3)]
      pricing_checked [OF c(4)] h n assms(2)
    by (simp add: route_ok_def routeDefaults_def MaximumRouteWeight_def)
qed

text \<open>The concurrency of a provider is one number through all its routes.\<close>

lemma finalizeRoutes_ok:
  "finalizeRoutes env concurrency rs = Inr out \<Longrightarrow>
     list_all (\<lambda>(name, r). r \<noteq> None \<and> route_ok env name (the r)) out \<and> map fst out = map fst rs \<and>
     (\<exists>f. (\<forall>p n. concurrency p = Some n \<longrightarrow> f p = n) \<and>
        (\<forall>e \<in> set out. lc_ProviderConcurrency (r_Limits (the (snd e))) = f (r_Provider (the (snd e)))))"
proof (induction env concurrency rs arbitrary: out rule: finalizeRoutes.induct)
  case (1 env concurrency)
  then show ?case by (auto intro!: exI [of _ "\<lambda>p. the (concurrency p)"])
next
  case (2 env concurrency name route rs)
  from "2.prems" obtain r out' where r: "checkedRoute env name (the route) = Inr r"
    and c: "concurrency (r_Provider r) \<noteq> None \<longrightarrow> the (concurrency (r_Provider r)) = lc_ProviderConcurrency (r_Limits r)"
    and rest: "finalizeRoutes env (concurrency(r_Provider r \<mapsto> lc_ProviderConcurrency (r_Limits r))) rs = Inr out'"
    and out: "out = (name, Some (routeDefaults r)) # out'" and n: "firstErr
       [failIf (TrimSpace name = []) ''route name must not be empty'',
        failIf (route = None) (''route '' @ name @ '' must not be null'')] = None"
    by (auto simp: Let_def)
  from "2.IH" [OF refl refl rest] obtain f where f:
    "\<forall>p n. (concurrency(r_Provider r \<mapsto> lc_ProviderConcurrency (r_Limits r))) p = Some n \<longrightarrow> f p = n"
    "\<forall>e \<in> set out'. lc_ProviderConcurrency (r_Limits (the (snd e))) = f (r_Provider (the (snd e)))"
    and ok: "list_all (\<lambda>(name, r). r \<noteq> None \<and> route_ok env name (the r)) out'" "map fst out' = map fst rs"
    by auto
  have "f (r_Provider r) = lc_ProviderConcurrency (r_Limits r)" using f(1) by simp
  moreover have "f p = n" if "concurrency p = Some n" for p n
    using f(1) c that by (cases "p = r_Provider r") auto
  ultimately show ?case
    using ok f(2) checkedRoute_ok [OF r] n by (auto simp: out routeDefaults_def intro!: exI [of _ f])
qed

lemma routes_finalized: "finalizeRoutes env Map.empty rs = Inr out \<Longrightarrow> rs \<noteq> [] \<Longrightarrow> routes_ok env out"
  using finalizeRoutes_ok [of env Map.empty rs out] by (fastforce simp: routes_ok_def)

subsection \<open>Authentication, server, store and quotas\<close>

lemma firstNonEmpty_nonempty: "firstNonEmpty xs \<noteq> [] \<longleftrightarrow> list_ex (\<lambda>x. x \<noteq> []) xs"
  by (induction xs) auto

lemma principal_checked: "validatePrincipal path p = None \<Longrightarrow> principal_ok p"
  by (simp add: validatePrincipal_def principal_ok_def Principal_Subject_def firstNonEmpty_nonempty checks_simps)
    (auto simp: list_all_iff)

lemma validateTokens_ok: "validateTokens ts = None \<Longrightarrow> list_all token_ok ts"
  by (induction ts rule: validateTokens.induct) (auto simp: token_ok_def dest: principal_checked)

text \<open>A trimmed token stays as it is when it is trimmed again.\<close>

lemma strip_any_None: "strip_any ps s = None \<longleftrightarrow> (\<forall>p \<in> set ps. \<forall>r. s \<noteq> p @ r)"
proof (induction ps)
  case (Cons p ps)
  have "strip_prefix p s = None \<longleftrightarrow> (\<forall>r. s \<noteq> p @ r)" by (metis not_Some_eq strip_prefix_Some)
  with Cons show ?case by (cases "strip_prefix p s") simp_all
qed simp

lemma trim_left_stops: "strip_any space_encodings (trim_left s) = None"
  by (induction s rule: trim_left.induct) (subst trim_left.simps, simp split: option.split)

lemma trim_right_rev_stops: "strip_any (map rev space_encodings) (trim_right_rev s) = None"
  by (induction s rule: trim_right_rev.induct) (subst trim_right_rev.simps, simp split: option.split)

lemma trim_right_rev_suffix: "\<exists>p. s = p @ trim_right_rev s"
proof (induction s rule: trim_right_rev.induct)
  case (1 s)
  show ?case
  proof (cases "strip_any (map rev space_encodings) s")
    case (Some r)
    with 1 strip_any_Some [OF Some] obtain q p where "s = q @ r" "r = p @ trim_right_rev r" by blast
    then have "s = (q @ p) @ trim_right_rev r" by simp
    with Some show ?thesis by (metis option.simps(5) trim_right_rev.simps)
  qed (subst trim_right_rev.simps, simp)
qed

lemma TrimSpace_idem: "TrimSpace (TrimSpace s) = TrimSpace s"
proof -
  let ?a = "trim_left s"
  let ?t = "TrimSpace s"
  obtain p where "rev ?a = p @ trim_right_rev (rev ?a)" using trim_right_rev_suffix by blast
  then have a: "?a = ?t @ rev p" by (metis TrimSpace_def rev_append rev_rev_ident)
  have "strip_any space_encodings ?t = None"
    using trim_left_stops [of s] a unfolding strip_any_None by (metis append.assoc)
  then have "trim_left ?t = ?t" by (subst trim_left.simps) simp
  moreover have "trim_right_rev (rev ?t) = rev ?t"
    using trim_right_rev_stops [of "rev ?a"] by (subst trim_right_rev.simps) (simp add: TrimSpace_def)
  ultimately show ?thesis by (simp add: TrimSpace_def [of ?t])
qed

lemma resolveTokenEnvs_ok:
  "resolveTokenEnvs env es tokens = Inr out \<Longrightarrow>
     list_all token_ok tokens \<Longrightarrow>
     list_all token_ok out"
proof (induction env es tokens rule: resolveTokenEnvs.induct)
  case (2 env envName p es tokens)
  from "2.prems"(1) obtain v where v: "lookupNonEmpty env envName
      (''auth.token_envs environment variable '' @ quoted envName @ '' is not set or is empty'') = Inr v"
    and p: "validatePrincipal (''auth.token_envs.'' @ envName) p = None"
    and n: "map_of tokens (TrimSpace v) = None"
    and run: "resolveTokenEnvs env es (AList.update (TrimSpace v) p tokens) = Inr out"
    by (auto simp: Let_def split: if_splits)
  have "TrimSpace v \<noteq> []" using v by (auto simp: lookupNonEmpty_def split: option.splits if_splits)
  then have "list_all token_ok (AList.update (TrimSpace v) p tokens)"
    using "2.prems"(2) principal_checked [OF p] by (auto simp: list_all_iff token_ok_def TrimSpace_idem dest!: set_gomap_update)
  with "2.IH" [OF refl _ run] n show ?case by simp
qed simp

lemma rsaStrength_ok: "rsaStrength alg k = Inr key \<Longrightarrow> alg \<in> {''RS256'', ''RS384'', ''RS512''} \<Longrightarrow> key_ok alg key"
  by (auto simp: rsaStrength_def split: publicKey.splits option.splits if_splits)

lemma ed25519Length_ok: "ed25519Length k = Inr key \<Longrightarrow> key_ok ''EdDSA'' key"
  by (auto simp: ed25519Length_def split: publicKey.splits if_splits)

lemma validateECDSACurve_ok: "validateECDSACurve alg k = None \<Longrightarrow> key_ok alg (PublicKey k)"
  by (auto simp: validateECDSACurve_def split: publicKey.splits option.splits if_splits)

lemma VerificationKey_ok:
  "VerificationKey env None cfg = Inr key \<Longrightarrow> key_ok (jw_Algorithm (JWT_Normalize cfg)) key"
  by (auto simp: VerificationKey_def Let_def hmacMinimum_def split: if_splits
      dest: rsaStrength_ok ed25519Length_ok validateECDSACurve_ok)

text \<open>A supported algorithm is in its normal form, and only its own key material is configured.\<close>

lemma algorithm_names:
  "ToUpper ''HS256'' = ''HS256''" "ToUpper ''HS384'' = ''HS384''" "ToUpper ''HS512'' = ''HS512''" "ToUpper ''RS256'' = ''RS256''"
  "ToUpper ''RS384'' = ''RS384''" "ToUpper ''RS512'' = ''RS512''" "ToUpper ''ES256'' = ''ES256''" "ToUpper ''ES384'' = ''ES384''"
  "ToUpper ''ES512'' = ''ES512''" "ToUpper ''EdDSA'' = ''EDDSA''"
  by code_simp+

lemma jwtKeyMaterial_ok:
  assumes "jwtKeyMaterial j = None"
  shows "jw_Algorithm (JWT_Normalize j) = jw_Algorithm j" "jw_Secret j = [] \<or> jw_PublicKey j = []"
  using assms by (auto simp: jwtKeyMaterial_def JWT_Normalize_def Let_def algorithm_names split: if_splits)

lemma resolveAndValidateJWT_ok:
  assumes "resolveAndValidateJWT env auth = Inr auth'" "ac_verificationKey auth = None"
  shows "ac_Tokens auth' = ac_Tokens auth" "ac_AllowAnonymous auth' = ac_AllowAnonymous auth"
    "ac_MaxBodyBytes auth' = ac_MaxBodyBytes auth" "ac_TokenEnvs auth' = ac_TokenEnvs auth"
    "JWT_Enabled (ac_JWT auth') \<Longrightarrow>
       (\<exists>key. ac_verificationKey auth' = Some key \<and> key_ok (jw_Algorithm (ac_JWT auth')) key) \<and>
       (jw_Secret (ac_JWT auth') = [] \<or> jw_PublicKey (ac_JWT auth') = [])"
  using assms
  by (auto simp: resolveAndValidateJWT_def Let_def JWT_Enabled_def split: if_splits sum.splits
      dest!: VerificationKey_ok dest: jwtKeyMaterial_ok simp: jwtKeyMaterial_ok(1))

lemma auth_resolved:
  assumes "resolveAndValidateAuth env auth = Inr auth'" "ac_verificationKey auth = None"
  shows "auth_ok (auth'\<lparr>ac_MaxBodyBytes := defaulted (ac_MaxBodyBytes auth') 4194304\<rparr>)"
proof -
  from assms(1) obtain tokens where t: "validateTokens (ac_Tokens auth) = None" "0 \<le> ac_MaxBodyBytes auth"
    and e: "resolveTokenEnvs env (ac_TokenEnvs auth) (ac_Tokens auth) = Inr tokens"
    and j: "resolveAndValidateJWT env (auth\<lparr>ac_Tokens := tokens\<rparr>) = Inr auth'"
    and a: "ac_AllowAnonymous auth' \<or> ac_Tokens auth' \<noteq> [] \<or> JWT_Enabled (ac_JWT auth')"
    by (auto simp: resolveAndValidateAuth_def)
  note jw = resolveAndValidateJWT_ok [OF j]
  have v: "ac_verificationKey (auth\<lparr>ac_Tokens := tokens\<rparr>) = None" using assms(2) by simp
  have "JWT_Enabled (ac_JWT auth') \<longrightarrow>
      (case ac_verificationKey auth' of None \<Rightarrow> False | Some key \<Rightarrow> key_ok (jw_Algorithm (ac_JWT auth')) key) \<and>
      (jw_Secret (ac_JWT auth') = [] \<or> jw_PublicKey (ac_JWT auth') = [])"
    using jw(5) [OF v] by auto
  moreover have "list_all token_ok (ac_Tokens auth')"
    using jw(1) [OF v] resolveTokenEnvs_ok [OF e validateTokens_ok [OF t(1)]] by simp
  ultimately show ?thesis using a t(2) jw(3) [OF v] by (cases "ac_verificationKey auth'") (simp_all add: auth_ok_def)
qed

lemma server_finalized: "validateDurationsAndLimits sv st = None \<Longrightarrow> server_ok (serverDefaults sv)"
  by (simp add: validateDurationsAndLimits_def server_ok_def serverDefaults_def)

text \<open>Resolving the store changes addresses only.\<close>

lemma resolveRedisURL_frame:
  "resolveRedisURL env st = Inr st' \<Longrightarrow> \<exists>u. st' = st\<lparr>st_RedisURL := u\<rparr>"
  by (auto simp: resolveRedisURL_def split: if_splits intro: exI [of _ "st_RedisURL st"])

lemma resolvePostgres_frame:
  "resolvePostgres env st = Inr st' \<Longrightarrow> \<exists>d. st' = st\<lparr>st_PostgresDSN := d\<rparr>"
  by (auto simp: resolvePostgres_def split: if_splits intro: exI [of _ "st_PostgresDSN st"])

lemma redisConnection_ok: "redisConnection env st = None \<Longrightarrow> redis_ok env st"
  by (auto simp: redisConnection_def redis_ok_def Let_def lookupNonEmpty_def split: if_splits sum.splits option.splits)

lemma store_finalized:
  assumes "validateDurationsAndLimits sv st = None" "finalizeStore env st = Inr st'"
  shows "store_ok env st'"
proof -
  from assms(2) obtain st1 st2 where m: "st_Mode (trimStore st) = ''memory'' \<or> st_Mode (trimStore st) = ''redis'' \<and> redis_ok env st1"
    and s1: "st1 = trimStore st \<or> resolveRedisURL env (trimStore st) = Inr st1"
    and s2: "resolvePostgres env st1 = Inr st2" and st': "st' = storeDefaults st2"
    by (auto simp: finalizeStore_def Let_def split: if_splits dest: redisConnection_ok)
  from s1 obtain u where st1: "st1 = (trimStore st)\<lparr>st_RedisURL := u\<rparr>"
    using resolveRedisURL_frame [of env "trimStore st" st1] by (metis StoreConfig.surjective StoreConfig.update_convs(2))
  from resolvePostgres_frame [OF s2] obtain d where st2: "st2 = st1\<lparr>st_PostgresDSN := d\<rparr>" by blast
  have "redis_ok env st' = redis_ok env st1" by (simp add: st' st2 redis_ok_def storeDefaults_def)
  with assms(1) m show ?thesis
    by (auto simp: st' st2 st1 store_ok_def storeDefaults_def trimStore_def validateDurationsAndLimits_def)
qed

lemma quota_checked:
  "list_all (\<lambda>e. e = None) (profileChecks (qc_Profiles q)) \<Longrightarrow> list_all (\<lambda>e. e = None) (quotaKeyChecks q) \<Longrightarrow> quota_ok q"
  by (auto simp: profileChecks_def quotaKeyChecks_def quota_ok_def checks_simps list_all_iff)

lemma references_checked:
  "validateConfiguredProviderReferences a q rs = None \<Longrightarrow> references_ok a q rs"
  by (simp add: validateConfiguredProviderReferences_def references_ok_def referenceChecks_def checks_simps)
    (auto simp: list_all_iff)

lemma catalog_routes [simp]: "sn_Routes (rebuildRouteCatalog s) = sn_Routes s"
  by (simp add: rebuildRouteCatalog_def Let_def)

lemma accepted_config:
  assumes "finalize env cfg = Inr cfg'" "ac_verificationKey (cf_Auth cfg) = None"
  shows "config_ok env cfg'"
proof -
  from assms(1) obtain auth store routes where
    auth: "resolveAndValidateAuth env (cf_Auth cfg) = Inr auth" and
    dur: "validateDurationsAndLimits (cf_Server cfg) (cf_Store cfg) = None" and
    store: "finalizeStore env (cf_Store cfg) = Inr store" and
    routes: "finalizeRoutes env Map.empty (sn_Routes (cf_Catalog cfg)) = Inr routes" "sn_Routes (cf_Catalog cfg) \<noteq> []" and
    quota: "list_all (\<lambda>e. e = None) (profileChecks (qc_Profiles (cf_Quota cfg)))" "list_all (\<lambda>e. e = None) (quotaKeyChecks (cf_Quota cfg))" and
    refs: "validateConfiguredProviderReferences auth (cf_Quota cfg) routes = None" and
    cfg': "cfg' = \<lparr>cf_Server = serverDefaults (cf_Server cfg),
             cf_Auth = auth\<lparr>ac_MaxBodyBytes := defaulted (ac_MaxBodyBytes auth) 4194304\<rparr>,
             cf_Store = store, cf_Quota = cf_Quota cfg,
             cf_Catalog = rebuildRouteCatalog ((cf_Catalog cfg)\<lparr>sn_Routes := routes\<rparr>),
             cf_Telemetry = cf_Telemetry cfg, cf_LoadedAt = ce_Now env\<rparr>"
    by (auto simp: finalize_def)
  show ?thesis
    using auth_resolved [OF auth assms(2)] server_finalized [OF dur] store_finalized [OF dur store]
      quota_checked [OF quota] routes_finalized [OF routes] references_checked [OF refs]
    by (simp add: config_ok_def references_ok_def cfg')
qed


subsection \<open>Candidates, reloads and the connection pool\<close>

lemma routes_okD: "routes_ok env rs \<Longrightarrow> r \<in> set (List.map_filter snd rs) \<Longrightarrow> route_ok env (r_Name r) r"
  by (force simp: routes_ok_def list_all_iff List.map_filter_def route_ok_def)

lemma finalize_catalog:
  "finalize env cfg = Inr cfg' \<Longrightarrow> \<exists>s. cf_Catalog cfg' = rebuildRouteCatalog s \<and> sn_Routes s = sn_Routes (cf_Catalog cfg')"
  by (auto simp: finalize_def)

lemma published_candidate:
  assumes "routes_ok env (sn_Routes s)" "Resolve providers (rebuildRouteCatalog s) req = Inr cs" "c \<in> set cs"
  shows "\<exists>r. rr_Route c = Some r \<and> route_ok env (r_Name r) r"
proof -
  let ?f = "\<lambda>r. case prepareRoute providers r req of Inr c \<Rightarrow> Some c | Inl _ \<Rightarrow> None"
  have "c \<in> set (List.map_filter ?f (routesFor (rebuildRouteCatalog s) (rq_Model req)))"
    using assms(3) mset_eq_setD [OF Resolve_Inr(1) [OF assms(2)]] by (simp add: prepareAll_candidates)
  then obtain r where "r \<in> set (routesFor (rebuildRouteCatalog s) (rq_Model req))" "prepareRoute providers r req = Inr c"
    by (auto simp: List.map_filter_def split: sum.splits option.splits)
  moreover from this(2) have "rr_Route c = Some r"
    using prepareRoute_canServe [of providers r req c] by (simp add: canServe_def)
  ultimately show ?thesis using routes_okD [OF assms(1)] by (simp add: routesFor_catalog)
qed

text \<open>
  C35. Whatever request comes in, every candidate the router takes from an accepted configuration is a
  validated route.
\<close>

theorem candidates_validated:
  assumes "finalize env cfg = Inr cfg'" "ac_verificationKey (cf_Auth cfg) = None"
    and "Resolve providers (cf_Catalog cfg') req = Inr cs" "c \<in> set cs"
  shows "\<exists>r. rr_Route c = Some r \<and> route_ok env (r_Name r) r"
proof -
  from finalize_catalog [OF assms(1)] obtain s where s: "cf_Catalog cfg' = rebuildRouteCatalog s" "sn_Routes s = sn_Routes (cf_Catalog cfg')"
    by blast
  from assms(1) obtain routes where "finalizeRoutes env Map.empty (sn_Routes (cf_Catalog cfg)) = Inr routes"
    "sn_Routes (cf_Catalog cfg) \<noteq> []" "sn_Routes (cf_Catalog cfg') = routes"
    by (auto simp: finalize_def)
  with s(2) have "routes_ok env (sn_Routes s)" using routes_finalized by metis
  from published_candidate [OF this] s(1) assms(3,4) show ?thesis by metis
qed

lemma rebuild_twice: "rebuildRouteCatalog (rebuildRouteCatalog s) = rebuildRouteCatalog s"
  by (simp add: rebuildRouteCatalog_def Let_def)

lemma published_is_finalized: "finalize env cfg = Inr cfg' \<Longrightarrow> cs_Swap (Some cfg') store = Some cfg'"
  by (auto simp: cs_Swap_def snapshotForPublication_def finalize_def rebuild_twice)

definition served :: "Provider option list \<Rightarrow> Config \<Rightarrow> bool" where
  "served providers cfg \<longleftrightarrow>
     (\<forall>(name, route) \<in> set (sn_Routes (cf_Catalog cfg)). \<exists>r p. map_of (sn_Routes (cf_Catalog cfg)) name = Some (Some r) \<and>
        providerRegistry providers (r_Provider r) = Some p \<and> list_all (pv_Supports p) (cap_Operations (r_Capabilities r)))"

lemma ValidateProviders_served:
  assumes "ValidateProviders validator (Some cfg) providers = None"
  shows "served providers cfg"
proof -
  have "\<exists>r p. map_of (sn_Routes (cf_Catalog cfg)) name = Some (Some r) \<and>
        providerRegistry providers (r_Provider r) = Some p \<and> list_all (pv_Supports p) (cap_Operations (r_Capabilities r))"
    if "(name, route) \<in> set (sn_Routes (cf_Catalog cfg))" for name route
  proof -
    have "providerRouteChecks validator (providerRegistry providers) name
        (case map_of (sn_Routes (cf_Catalog cfg)) name of Some r \<Rightarrow> r | None \<Rightarrow> None) = None"
      using assms that by (force simp: ValidateProviders_def Let_def list_all_iff)
    then show ?thesis
      by (auto simp: providerRouteChecks_def list_all_iff split: option.splits)
  qed
  then show ?thesis by (auto simp: served_def)
qed

text \<open>
  C36. A reload is all or nothing: on any error the published snapshot stays; on success it is replaced by
  an accepted configuration whose routes the registered providers support, and the settings that need a
  restart (those of the server, the store and telemetry) are those of the snapshot it replaces.
\<close>

theorem reload_all_or_nothing:
  assumes "Service_Reload env validator providers decode store = (e, store')"
    and "\<forall>cfg. decode = Inr cfg \<longrightarrow> ac_verificationKey (cf_Auth cfg) = None"
  shows "case e of
      Some err \<Rightarrow> store' = store
    | None \<Rightarrow> \<exists>cfg. store' = Some cfg \<and> config_ok env cfg \<and> served providers cfg \<and>
        (case store of None \<Rightarrow> True
         | Some old \<Rightarrow> cf_Server cfg = cf_Server old \<and> cf_Store cfg = cf_Store old \<and> cf_Telemetry cfg = cf_Telemetry old)"
proof (cases e)
  case None
  with assms(1) obtain cfg where load: "LoadConfigFile env decode = Inr cfg"
    and v: "ValidateProviders validator (Some cfg) providers = None" and st: "store' = cs_Swap (Some cfg) store"
    and same: "case store of None \<Rightarrow> True
      | Some old \<Rightarrow> cf_Server cfg = cf_Server old \<and> cf_Store cfg = cf_Store old \<and> cf_Telemetry cfg = cf_Telemetry old"
    by (auto simp: Service_Reload_def split: sum.splits option.splits if_splits)
  from load obtain raw where raw: "decode = Inr raw" "finalize env raw = Inr cfg" by (auto simp: LoadConfigFile_def)
  have "config_ok env cfg" using accepted_config [OF raw(2)] assms(2) raw(1) by simp
  with None st same ValidateProviders_served [OF v] published_is_finalized [OF raw(2)] show ?thesis by auto
qed (use assms(1) in \<open>auto simp: Service_Reload_def split: sum.splits option.splits if_splits\<close>)

text \<open>
  The Redis connection pool is bounded and consistent: in accepted options the pool holds between 1
  and 4096 connections, the idle ones fit the pool and the pool fits the active ones.
\<close>

theorem redis_pool_bounded:
  assumes "normalizeAndValidateRedisOptions options = Inr r"
  shows "0 \<le> ro_MinIdleConns r \<and> ro_MinIdleConns r \<le> ro_MaxIdleConns r \<and> ro_MaxIdleConns r \<le> ro_PoolSize r \<and>
    1 \<le> ro_PoolSize r \<and> ro_PoolSize r \<le> ro_MaxActiveConns r \<and> ro_MaxActiveConns r \<le> 4096"
proof -
  have r: "r = redisPoolDefaults options" and ranges: "list_all (\<lambda>e. e = None) (redisRanges options)"
    and order: "list_all (\<lambda>e. e = None) (redisOrdering r)"
    using assms by (auto simp: normalizeAndValidateRedisOptions_def Let_def)
  from ranges have b: "0 \<le> ro_MinIdleConns options" "0 \<le> ro_PoolSize options" "ro_MaxActiveConns options \<le> 4096"
    by (simp_all add: redisRanges_def)
  have "ro_MinIdleConns r = ro_MinIdleConns options" "1 \<le> ro_PoolSize r" "ro_MaxActiveConns r \<le> 4096"
    using b by (simp_all add: r redisPoolDefaults_def Let_def)
  moreover have "ro_MinIdleConns r \<le> ro_MaxIdleConns r" "ro_MaxIdleConns r \<le> ro_PoolSize r" "ro_PoolSize r \<le> ro_MaxActiveConns r"
    using order by (simp_all add: redisOrdering_def Let_def)
  ultimately show ?thesis using b by simp
qed

section \<open>A configuration at work\<close>

text \<open>One route and one bearer token, with almost everything left to the defaults.\<close>

definition demo_config_env :: configEnv where
  "demo_config_env =
     \<lparr>ce_LookupEnv = (\<lambda>name. if name = ''KEY'' then Some ''k'' else None),
      ce_ParseURL = (\<lambda>_. Inr \<lparr>ur_Scheme = ''https'', ur_Host = ''h'', ur_Hostname = ''h'', ur_HasUser = False, ur_RawQuery = [], ur_Fragment = []\<rparr>),
      ce_RedisParseURL = (\<lambda>_. Inl (Plain [])), ce_PemDecode = (\<lambda>_. None), ce_ParsePKIX = (\<lambda>_. None),
      ce_ParsePKCS1 = (\<lambda>_. Inl (Plain [])), ce_Now = 0\<rparr>"

definition demo_file_route :: Route where
  "demo_file_route = demo_route\<lparr>r_Provider := '' OpenAI'', r_BaseURL := ''u'', r_APIKeyEnv := ''KEY'', r_Weight := 0,
     r_Capabilities := (r_Capabilities demo_route)\<lparr>cap_Tokenizer := ''o200k_base'', cap_MaxOutputTokens := 10\<rparr>\<rparr>"

definition demo_file :: Config where
  "demo_file =
     \<lparr>cf_Server = \<lparr>sv_Listen = [], sv_ReadTimeout = 0, sv_WriteTimeout = 0, sv_StreamWriteTimeout = 0, sv_IdleTimeout = 0,
        sv_ShutdownTimeout = 0\<rparr>,
      cf_Auth = \<lparr>ac_RequireUser = False, ac_RequireProject = False, ac_AllowAnonymous = False,
        ac_Tokens = [(''t'', \<lparr>pr_ID = ''p'', pr_Name = [], pr_KeyID = [], pr_Providers = [''openai''], pr_Models = [],
           pr_Projects = [], pr_Permissions = [], pr_QuotaKey = []\<rparr>)],
        ac_JWT = \<lparr>jw_Algorithm = [], jw_Issuer = [], jw_Audience = [], jw_Secret = [], jw_PublicKey = [],
          jw_Claims = \<lparr>jc_Principal = [], jc_Name = [], jc_KeyID = [], jc_Providers = [], jc_Models = [], jc_Projects = [],
            jc_Permissions = []\<rparr>\<rparr>,
        ac_MaxBodyBytes = 0, ac_TokenEnvs = [], ac_SecretEnv = [], ac_PublicKeyEnv = [], ac_verificationKey = None\<rparr>,
      cf_Store = \<lparr>st_Mode = [], st_RedisURL = [], st_RedisURLEnv = [], st_RedisNamespace = [], st_RedisAddr = [],
        st_RedisPasswordEnv = [], st_RedisDB = 0, st_PostgresDSN = [], st_PostgresDSNEnv = [], st_QuotaTable = [],
        st_LimitCacheTTL = 0, st_ReservationTTL = 0, st_StartupTimeout = 0\<rparr>,
      cf_Quota = \<lparr>qc_Profiles = [(''free'', zero_limit)], qc_Keys = [(''p'', ''free'')]\<rparr>,
      cf_Catalog = \<lparr>sn_Routes = [(''a'', Some demo_file_route)], sn_models = [], sn_modelSet = None, sn_routesByModel = None\<rparr>,
      cf_Telemetry = \<lparr>tc_ServiceName = []\<rparr>, cf_LoadedAt = 0\<rparr>"

definition demo_final_route :: Route where
  "demo_final_route = demo_route\<lparr>r_BaseURL := ''u'', r_APIKey := ''k'', r_APIKeyEnv := ''KEY'', r_Timeout := 30 * Second,
     r_Capabilities := (r_Capabilities demo_route)\<lparr>cap_Tokenizer := ''o200k_base'', cap_MaxOutputTokens := 10\<rparr>\<rparr>"

definition demo_accepted :: Config where
  "demo_accepted =
     \<lparr>cf_Server = serverDefaults (cf_Server demo_file), cf_Auth = (cf_Auth demo_file)\<lparr>ac_MaxBodyBytes := 4194304\<rparr>,
      cf_Store = storeDefaults ((cf_Store demo_file)\<lparr>st_Mode := ''memory''\<rparr>), cf_Quota = cf_Quota demo_file,
      cf_Catalog = rebuildRouteCatalog ((cf_Catalog demo_file)\<lparr>sn_Routes := [(''a'', Some demo_final_route)]\<rparr>),
      cf_Telemetry = \<lparr>tc_ServiceName = []\<rparr>, cf_LoadedAt = 0\<rparr>"

text \<open>The snapshot an earlier file gave: without quota profiles.\<close>

definition demo_old :: Config where
  "demo_old = demo_accepted\<lparr>cf_Quota := \<lparr>qc_Profiles = [], qc_Keys = []\<rparr>\<rparr>"

definition demo_registered :: Provider where
  "demo_registered = \<lparr>pv_Name = ''openai'', pv_Supports = (\<lambda>_. True), pv_PlanBridge = None, pv_Preflight = None\<rparr>"

lemma demo_trims:
  "TrimSpace '' OpenAI'' = ''OpenAI''" "TrimSpace ''gpt'' = ''gpt''" "TrimSpace ''u'' = ''u''" "TrimSpace ''a'' = ''a''"
  "TrimSpace ''KEY'' = ''KEY''" "TrimSpace ''k'' = ''k''" "TrimSpace ''t'' = ''t''" "TrimSpace ''p'' = ''p''"
  "TrimSpace ''free'' = ''free''" "TrimSpace ''o200k_base'' = ''o200k_base''" "TrimSpace ''memory'' = ''memory''"
  "TrimSpace ''openai'' = ''openai''" "ToLower ''OpenAI'' = ''openai''" "ToLower ''openai'' = ''openai''"
  "ToLower ''memory'' = ''memory''" "ToLower ''o200k_base'' = ''o200k_base''" "ToLower [] = []"
  by code_simp+

lemma demo_valid:
  "validateProviderName ''openai'' = None" "validHTTPHeaderValue ''a''" "validHTTPHeaderValue ''gpt''"
  by code_simp+

lemma demo_auth: "resolveAndValidateAuth demo_config_env (cf_Auth demo_file) = Inr (cf_Auth demo_file)"
  by (simp add: resolveAndValidateAuth_def demo_file_def resolveAndValidateJWT_def resolveSecret_def Let_def
      validatePrincipal_def demo_trims demo_valid)

lemma demo_store:
  "finalizeStore demo_config_env (cf_Store demo_file) = Inr (storeDefaults ((cf_Store demo_file)\<lparr>st_Mode := ''memory''\<rparr>))"
  by (simp add: finalizeStore_def demo_file_def trimStore_def demo_trims resolvePostgres_def Let_def)

lemma demo_route_checked:
  "checkedRoute demo_config_env ''a'' demo_file_route = Inr (demo_final_route\<lparr>r_Weight := 0, r_Timeout := 0\<rparr>)"
  by (simp add: checkedRoute_def normalizeRoute_def demo_file_route_def demo_route_def resolveRouteEnvironment_def
      resolveField_def demo_config_env_def lookupNonEmpty_def demo_trims capabilityDefaults_def Let_def demo_final_route_def
      validateRoute_def routeIdentityChecks_def demo_valid validateBaseURL_def routeScheduleChecks_def nonNegative_def
      notAbove_def MaximumRouteWeight_def MaximumRouteRetries_def MaximumQuotaValue_def routeCapabilityChecks_def
      supportedTokenizerFamilies_def isKnownOperation_def routePricingChecks_def finitePrice_def demo_pricing_def)

lemma demo_routes_finalized:
  "finalizeRoutes demo_config_env Map.empty (sn_Routes (cf_Catalog demo_file)) = Inr [(''a'', Some demo_final_route)]"
  by (simp add: demo_file_def demo_route_checked demo_trims demo_final_route_def routeDefaults_def demo_route_def Let_def)

lemma demo_quota_checks:
  "firstErr (profileChecks (qc_Profiles (cf_Quota demo_file)) @
     [validateConfiguredProviderReferences (cf_Auth demo_file) (cf_Quota demo_file) [(''a'', Some demo_final_route)]] @
     quotaKeyChecks (cf_Quota demo_file)) = None"
  by (simp add: profileChecks_def quotaKeyChecks_def validateConfiguredProviderReferences_def referenceChecks_def demo_file_def
      demo_trims validateLimitSpec_def limitFields_def MaximumQuotaValue_def demo_final_route_def demo_route_def
      List.map_filter_def)

lemma demo_durations: "validateDurationsAndLimits (cf_Server demo_file) (cf_Store demo_file) = None"
  by (simp add: validateDurationsAndLimits_def demo_file_def)

lemma demo_finalized: "finalize demo_config_env demo_file = Inr demo_accepted"
proof -
  have "sn_Routes (cf_Catalog demo_file) \<noteq> []" "cf_Telemetry demo_file = \<lparr>tc_ServiceName = []\<rparr>" "ac_MaxBodyBytes (cf_Auth demo_file) = 0"
    "ce_Now demo_config_env = 0"
    by (simp_all add: demo_file_def demo_config_env_def)
  then show ?thesis
    unfolding finalize_def demo_accepted_def using demo_quota_checks
    by (simp add: demo_auth demo_store demo_routes_finalized demo_durations)
qed

lemma demo_no_key: "ac_verificationKey (cf_Auth demo_file) = None"
  by (simp add: demo_file_def)


theorem candidates_validated_witness:
  "\<exists>cs. Resolve Map.empty (cf_Catalog demo_accepted) demo_request = Inr cs \<and> cs \<noteq> [] \<and>
     (\<exists>r. rr_Route (hd cs) = Some r \<and> route_ok demo_config_env (r_Name r) r)"
proof -
  have "case Resolve Map.empty (cf_Catalog demo_accepted) demo_request of Inr cs \<Rightarrow> cs \<noteq> [] | Inl _ \<Rightarrow> False" by code_simp
  then obtain cs where cs: "Resolve Map.empty (cf_Catalog demo_accepted) demo_request = Inr cs" "cs \<noteq> []"
    by (auto split: sum.splits)
  with candidates_validated [OF demo_finalized demo_no_key cs(1), of "hd cs"] show ?thesis by auto
qed

theorem reload_all_or_nothing_witness:
  "\<exists>cfg. snd (Service_Reload demo_config_env (\<lambda>_. None) [Some demo_registered] (Inr demo_file) (Some demo_old)) = Some cfg \<and>
     config_ok demo_config_env cfg \<and> cf_Quota cfg \<noteq> cf_Quota demo_old \<and> cf_Server cfg = cf_Server demo_old \<and>
     cf_Store cfg = cf_Store demo_old \<and> cf_Telemetry cfg = cf_Telemetry demo_old"
proof -
  let ?r = "Service_Reload demo_config_env (\<lambda>_. None) [Some demo_registered] (Inr demo_file) (Some demo_old)"
  have v: "ValidateProviders (\<lambda>_. None) (Some demo_accepted) [Some demo_registered] = None" by code_simp
  have r: "?r = (None, cs_Swap (Some demo_accepted) (Some demo_old))"
    using v by (simp add: Service_Reload_def LoadConfigFile_def and_then_def demo_finalized demo_old_def)
  have "cf_Quota demo_accepted \<noteq> cf_Quota demo_old" by (simp add: demo_old_def demo_accepted_def demo_file_def)
  with reload_all_or_nothing [OF r] demo_no_key r published_is_finalized [OF demo_finalized] show ?thesis by auto
qed

theorem redis_pool_bounded_witness:
  "\<exists>r. normalizeAndValidateRedisOptions \<lparr>ro_DB = 0, ro_Protocol = 3, ro_MaxRetries = 3, ro_DialTimeout = 0, ro_ReadTimeout = 0,
     ro_WriteTimeout = 0, ro_PoolTimeout = 0, ro_MinRetryBackoff = 0, ro_MaxRetryBackoff = 0, ro_PoolSize = 0,
     ro_MinIdleConns = 8, ro_MaxIdleConns = 0, ro_MaxActiveConns = 0\<rparr> = Inr r \<and>
     ro_PoolSize r \<le> ro_MaxActiveConns r \<and> ro_MaxActiveConns r \<le> 4096"
proof -
  let ?o = "\<lparr>ro_DB = 0, ro_Protocol = 3, ro_MaxRetries = 3, ro_DialTimeout = 0, ro_ReadTimeout = 0,
     ro_WriteTimeout = 0, ro_PoolTimeout = 0, ro_MinRetryBackoff = 0, ro_MaxRetryBackoff = 0, ro_PoolSize = 0,
     ro_MinIdleConns = 8, ro_MaxIdleConns = 0, ro_MaxActiveConns = 0\<rparr>"
  have "case normalizeAndValidateRedisOptions ?o of Inr _ \<Rightarrow> True | Inl _ \<Rightarrow> False" by code_simp
  then obtain r where "normalizeAndValidateRedisOptions ?o = Inr r" by (auto split: sum.splits)
  with redis_pool_bounded [OF this] show ?thesis by blast
qed

end
