(* ===== verification/Http_Responses.thy ===== *)
theory Http_Responses
  imports Provider_Streams Go_Http
begin

text \<open>
  What the API sends back to a client (\<open>api/response.go\<close>): the headers it takes over from a provider's
  response or error, the write of a buffered body, and the loop that passes a stream on. The writes and
  the write deadlines of the connection are the environment's.
\<close>

section \<open>Headers\<close>

definition isHopByHopHeader :: "string \<Rightarrow> bool" where
  "isHopByHopHeader key \<longleftrightarrow> CanonicalHeaderKey key \<in> set [''Connection'', ''Keep-Alive'', ''Proxy-Authenticate'',
     ''Proxy-Authorization'', ''Proxy-Connection'', ''Te'', ''Trailer'', ''Transfer-Encoding'', ''Upgrade'']"

definition sensitiveHeaders :: "string list" where
  "sensitiveHeaders =
     [''authorization'', ''proxy-authorization'',
      ''cookie'', ''cookie2'', ''set-cookie'', ''set-cookie2'',
      ''authentication-info'', ''proxy-authentication-info'',
      ''forwarded'', ''x-forwarded-for'', ''x-forwarded-host'', ''x-forwarded-proto'', ''x-forwarded-port'',
      ''x-real-ip'', ''x-client-ip'', ''x-cluster-client-ip'', ''true-client-ip'', ''cf-connecting-ip'',
      ''host'', ''origin'', ''referer'', ''user-agent'',
      ''openai-organization'', ''openai-project'', ''anthropic-version'', ''anthropic-beta'',
      ''x-goog-api-client'', ''x-goog-user-project'',
      ''x-amz-signature'',
      ''traceparent'', ''tracestate'', ''baggage'', ''x-ot-span-context'', ''uber-trace-id'']"

definition isSensitiveUpstreamResponseHeader :: "string \<Rightarrow> bool" where
  "isSensitiveUpstreamResponseHeader key \<longleftrightarrow>
     (let lower = ToLower (TrimSpace key)
      in lower \<in> set sensitiveHeaders \<or> lower = ''key'' \<or> lower = ''token'' \<or>
         HasSuffix lower ''-key'' \<or> HasSuffix lower ''-token'' \<or>
         ContainsStr lower ''credential'' \<or> ContainsStr lower ''secret'')"

text \<open>The headers that the upstream's \<open>Connection\<close> header names.\<close>

definition connectionHeaders :: "Header \<Rightarrow> string list" where
  "connectionHeaders src =
     concat (map (\<lambda>(key, values).
       if EqualFold key ''Connection'' then
         filter (\<lambda>t. t \<noteq> [])
           (map (\<lambda>t. CanonicalHeaderKey (TrimSpace t)) (concat (map (SplitByte CHR '','') values)))
       else []) src)"

definition addAll :: "string \<Rightarrow> string list \<Rightarrow> Header \<Rightarrow> Header" where
  "addAll key values dst = fold (h_Add key) values dst"

definition copyProxyHeader :: "string list \<Rightarrow> string \<times> string list \<Rightarrow> Header \<Rightarrow> Header" where
  "copyProxyHeader nominated kv dst =
     (let (key, values) = kv
      in if CanonicalHeaderKey key \<in> set nominated \<or> isHopByHopHeader key \<or>
            isSensitiveUpstreamResponseHeader key \<or> HasPrefix (ToLower key) ''x-llmgw-''
         then dst
         else if EqualFold key ''X-Request-ID'' then
           (if values \<noteq> [] then h_Set ''X-LLMGW-Upstream-Request-ID'' (last values) dst else dst)
         else if EqualFold key ''X-LLMGW-Upstream-Request-ID'' then dst
         else addAll key values (h_Del key dst))"

definition copyProxyHeaders :: "Header \<Rightarrow> Header \<Rightarrow> Header" where
  "copyProxyHeaders dst src = fold (copyProxyHeader (connectionHeaders src)) src dst"

definition copyProviderErrorHeader :: "string \<times> string list \<Rightarrow> Header \<Rightarrow> Header" where
  "copyProviderErrorHeader kv dst =
     (let (key, values) = kv; lower = ToLower key
      in if EqualFold key ''X-Request-ID'' then
           (if values \<noteq> [] then h_Set ''X-LLMGW-Upstream-Request-ID'' (last values) dst else dst)
         else if EqualFold key ''Request-ID'' then
           (if values \<noteq> [] then h_Set ''X-LLMGW-Upstream-Request-ID'' (last values) (h_Set ''Request-ID'' (last values) dst)
            else dst)
         else if EqualFold key ''Retry-After'' \<or> HasPrefix lower ''x-ratelimit-'' \<or>
            HasPrefix lower ''ratelimit-'' \<or> HasPrefix lower ''anthropic-ratelimit-''
         then addAll key values dst
         else dst)"

definition copyProviderErrorHeaders :: "Header \<Rightarrow> Header \<Rightarrow> Header" where
  "copyProviderErrorHeaders dst src = fold copyProviderErrorHeader src dst"

definition statusOrDefault :: "int \<Rightarrow> int" where
  "statusOrDefault status = (if status = 0 then 200 else status)"

section \<open>Writers\<close>

text \<open>
  The response of a connection: the header map, the status and the headers that were sent, the body, how
  much of it was flushed, whether a write deadline is armed, and how many deadlines were set and writes
  made. The environment answers each of these; a write takes the first \<open>n\<close> bytes.
\<close>

datatype deadlineAnswer = DeadlineSet | DeadlineUnsupported | DeadlineFailed goerr

record writerEnv =
  we_Flusher :: bool
  we_deadline :: "nat \<Rightarrow> deadlineAnswer"
  we_write :: "nat \<Rightarrow> string \<Rightarrow> nat \<times> goerr option"

record responseWriter =
  rw_Header :: Header
  rw_Sent :: "(int \<times> Header) option"
  rw_Body :: string
  rw_Flushed :: nat
  rw_Armed :: bool
  rw_deadlines :: nat
  rw_writes :: nat

definition WriteHeader :: "int \<Rightarrow> responseWriter \<Rightarrow> responseWriter" where
  "WriteHeader status w = (if rw_Sent w = None then w\<lparr>rw_Sent := Some (status, rw_Header w)\<rparr> else w)"

definition w_Write :: "writerEnv \<Rightarrow> string \<Rightarrow> responseWriter \<Rightarrow> goerr option \<times> responseWriter" where
  "w_Write env d w =
     (let (n, err) = we_write env (rw_writes w) d
      in (err, w\<lparr>rw_Body := rw_Body w @ take n d, rw_writes := Suc (rw_writes w)\<rparr>))"

definition w_Flush :: "responseWriter \<Rightarrow> responseWriter" where
  "w_Flush w = w\<lparr>rw_Flushed := length (rw_Body w)\<rparr>"

text \<open>\<open>SetWriteDeadline\<close> with its unsupported answer taken for success, and its reset.\<close>

definition refreshWriteDeadline :: "writerEnv \<Rightarrow> responseWriter \<Rightarrow> goerr option \<times> responseWriter" where
  "refreshWriteDeadline env w =
     (let answer = we_deadline env (rw_deadlines w); w = w\<lparr>rw_deadlines := Suc (rw_deadlines w)\<rparr>
      in case answer of
           DeadlineSet \<Rightarrow> (None, w\<lparr>rw_Armed := True\<rparr>)
         | DeadlineUnsupported \<Rightarrow> (None, w)
         | DeadlineFailed e \<Rightarrow> (Some e, w))"

definition clearWriteDeadline :: "responseWriter \<Rightarrow> responseWriter" where
  "clearWriteDeadline w = w\<lparr>rw_Armed := False\<rparr>"

definition setContentType :: "string \<Rightarrow> Header \<Rightarrow> Header" where
  "setContentType contentType h = (if contentType \<noteq> [] then h_Set ''Content-Type'' contentType h else h)"

definition api_emptyResult :: goerr where
  "api_emptyResult = api (NewError 502 ''server_error'' ''empty_result'' ''provider returned no raw response body'')"

definition writeProviderResult ::
  "writerEnv \<Rightarrow> Result option \<Rightarrow> responseWriter \<Rightarrow> (Usage \<times> goerr option) \<times> responseWriter" where
  "writeProviderResult env result w =
     (case result of
        None \<Rightarrow> ((zero_usage, Some api_emptyResult), w)
      | Some r \<Rightarrow>
          if rs_RawBody r = [] then ((zero_usage, Some api_emptyResult), w)
          else (case refreshWriteDeadline env w of
                  (Some e, w) \<Rightarrow> ((FinalUsage result, Some e), w)
                | (None, w) \<Rightarrow>
                    (let w = w\<lparr>rw_Header := setContentType (rs_ContentType r) (copyProxyHeaders (rw_Header w) (rs_Headers r))\<rparr>;
                         w = WriteHeader (statusOrDefault (rs_StatusCode r)) w;
                         (err, w) = w_Write env (rs_RawBody r) w
                     in ((rs_Usage r, err), clearWriteDeadline w))))"

section \<open>Streaming\<close>

abbreviation streamBuffer :: nat where
  "streamBuffer \<equiv> 32 * 1024"

text \<open>The loop's state: the stream, whether a first byte was sent, the calls of \<open>onFirstByte\<close>, the writer.\<close>

record 'b streamState =
  ss_stream :: 'b
  ss_firstByteSent :: bool
  ss_firstByteCalls :: nat
  ss_w :: responseWriter

definition markFirstByte :: "'b streamState \<Rightarrow> 'b streamState" where
  "markFirstByte s =
     (if ss_firstByteSent s then s
      else s\<lparr>ss_firstByteSent := True, ss_firstByteCalls := Suc (ss_firstByteCalls s)\<rparr>)"

text \<open>One chunk of at least one byte: the new deadline, the write, the mark and the flush.\<close>

definition writeChunk :: "writerEnv \<Rightarrow> string \<Rightarrow> 'b streamState \<Rightarrow> goerr option \<times> 'b streamState" where
  "writeChunk env d s =
     (case refreshWriteDeadline env (ss_w s) of
        (Some e, w) \<Rightarrow> (Some e, s\<lparr>ss_w := w\<rparr>)
      | (None, w) \<Rightarrow>
          (case w_Write env d w of
             (Some e, w) \<Rightarrow> (Some e, s\<lparr>ss_w := w\<rparr>)
           | (None, w) \<Rightarrow>
               (let s = markFirstByte (s\<lparr>ss_w := w\<rparr>) in (None, s\<lparr>ss_w := w_Flush (ss_w s)\<rparr>))))"

text \<open>The loop with a bound on its iterations; \<open>None\<close> when it is reached.\<close>

fun streamLoop :: "writerEnv \<Rightarrow> 'b Reader \<Rightarrow> nat \<Rightarrow> 'b streamState \<Rightarrow> (goerr option \<times> 'b streamState) option" where
  "streamLoop env Read 0 s = None"
| "streamLoop env Read (Suc fuel) s =
     (let ((d, err), b) = Read streamBuffer (ss_stream s); s = s\<lparr>ss_stream := b\<rparr>
      in case (if d \<noteq> [] then writeChunk env d s else (None, s)) of
           (Some e, s) \<Rightarrow> Some (Some e, s)
         | (None, s) \<Rightarrow>
             (case err of
                None \<Rightarrow> streamLoop env Read fuel s
              | Some e \<Rightarrow> Some (if e = Sentinel EOF then None else Some e, s)))"

definition streamingUnsupported :: goerr where
  "streamingUnsupported =
     api (NewError 500 ''server_error'' ''streaming_unsupported'' ''response writer does not support streaming'')"

text \<open>
  The write of a stream. The stream is the reader the engine left in the result, closed on every path;
  \<open>FinalUsage\<close> is what the result's snapshot answers once it is closed or read.
\<close>

definition writeProviderStream ::
  "writerEnv \<Rightarrow> 'b Reader \<Rightarrow> ('b \<Rightarrow> goerr option \<times> 'b) \<Rightarrow> nat \<Rightarrow> Result option \<Rightarrow> 'b option \<Rightarrow> responseWriter \<Rightarrow>
     ((Usage \<times> goerr option) \<times> 'b option \<times> nat \<times> responseWriter) option" where
  "writeProviderStream env Read Close fuel result stream w =
     (case (result, stream) of
        (Some r, Some b) \<Rightarrow>
          (if \<not> we_Flusher env then Some ((FinalUsage result, Some streamingUnsupported), Some (snd (Close b)), 0, w)
           else
             (let w = w\<lparr>rw_Header := setContentType (rs_ContentType r)
                          (h_Del ''Content-Length'' (copyProxyHeaders (rw_Header w) (rs_Headers r)))\<rparr>
              in case refreshWriteDeadline env w of
                   (Some e, w) \<Rightarrow> Some ((FinalUsage result, Some e), Some (snd (Close b)), 0, w)
                 | (None, w) \<Rightarrow>
                     map_option (\<lambda>(err, s).
                         ((FinalUsage result, err), Some (snd (Close (ss_stream s))), ss_firstByteCalls s,
                          clearWriteDeadline (ss_w s)))
                       (streamLoop env Read fuel
                          \<lparr>ss_stream = b, ss_firstByteSent = False, ss_firstByteCalls = 0,
                           ss_w = WriteHeader (statusOrDefault (rs_StatusCode r)) w\<rparr>)))
      | _ \<Rightarrow> Some ((zero_usage, Some (api (UnsupportedOperation ''provider-native raw stream is not available''))),
                 stream, 0, w))"

section \<open>The stream reaches the client\<close>

text \<open>A reader that makes progress: a read into a buffer that is not empty leaves less to do.\<close>

locale draining_reader = go_reader +
  fixes work :: "'a \<Rightarrow> nat"
  assumes Read_work: "Read n b = ((d, None), b') \<Longrightarrow> 0 < n \<Longrightarrow> work b' < work b"

text \<open>An \<open>io.Writer\<close> that takes less than it is given returns an error.\<close>

definition writes_all_or_fails :: "writerEnv \<Rightarrow> bool" where
  "writes_all_or_fails env \<longleftrightarrow> (\<forall>i d n. we_write env i d = (n, None) \<longrightarrow> n = length d)"

text \<open>What was written from a state on; the mark of the first byte goes with the first chunk.\<close>

definition chunk_written :: "string \<Rightarrow> goerr option \<Rightarrow> 'b streamState \<Rightarrow> 'b streamState \<Rightarrow> bool" where
  "chunk_written bs err s s' \<longleftrightarrow>
     rw_Body (ss_w s') = rw_Body (ss_w s) @ bs \<and> rw_Sent (ss_w s') = rw_Sent (ss_w s) \<and>
     (ss_firstByteSent s \<longrightarrow> ss_firstByteSent s' \<and> ss_firstByteCalls s' = ss_firstByteCalls s) \<and>
     (\<not> ss_firstByteSent s \<longrightarrow>
        ss_firstByteCalls s' = ss_firstByteCalls s + (if ss_firstByteSent s' then 1 else 0)) \<and>
     (err = None \<longrightarrow> bs \<noteq> [] \<longrightarrow> ss_firstByteSent s') \<and>
     (bs = [] \<longrightarrow> err = None \<longrightarrow> ss_firstByteSent s' = ss_firstByteSent s \<and> rw_Flushed (ss_w s') = rw_Flushed (ss_w s)) \<and>
     (err = None \<longrightarrow> bs \<noteq> [] \<longrightarrow> rw_Flushed (ss_w s') = length (rw_Body (ss_w s')))"

lemma refreshWriteDeadline_writer:
  "refreshWriteDeadline env w = (e, w') \<Longrightarrow>
     rw_Body w' = rw_Body w \<and> rw_Sent w' = rw_Sent w \<and> rw_Header w' = rw_Header w \<and> rw_writes w' = rw_writes w \<and>
     rw_Flushed w' = rw_Flushed w"
  by (auto simp: refreshWriteDeadline_def Let_def split: deadlineAnswer.splits)

lemma w_Write_writer:
  "w_Write env d w = (e, w') \<Longrightarrow>
     \<exists>n. we_write env (rw_writes w) d = (n, e) \<and> rw_Body w' = rw_Body w @ take n d \<and> rw_Sent w' = rw_Sent w \<and>
       rw_Flushed w' = rw_Flushed w"
  by (auto simp: w_Write_def split: prod.splits)

lemma writeChunk_written:
  assumes "writeChunk env d s = (err, s')" "d \<noteq> []" "writes_all_or_fails env"
  shows "\<exists>bs. prefix bs d \<and> (err = None \<longrightarrow> bs = d) \<and> chunk_written bs err s s' \<and> ss_stream s' = ss_stream s"
proof -
  obtain e w where r: "refreshWriteDeadline env (ss_w s) = (e, w)" by fastforce
  note rw = refreshWriteDeadline_writer [OF r]
  show ?thesis
  proof (cases e)
    case (Some e')
    with assms(1) r have "err = Some e'" "s' = s\<lparr>ss_w := w\<rparr>" by (auto simp: writeChunk_def)
    with rw show ?thesis by (intro exI [of _ "[]"]) (simp add: chunk_written_def)
  next
    case None
    obtain e2 w2 where wr: "w_Write env d w = (e2, w2)" by fastforce
    then obtain n where n: "we_write env (rw_writes w) d = (n, e2)" "rw_Body w2 = rw_Body w @ take n d" "rw_Sent w2 = rw_Sent w"
      using w_Write_writer by blast
    show ?thesis
    proof (cases e2)
      case (Some e')
      with assms(1) r wr None have "err = Some e'" "s' = s\<lparr>ss_w := w2\<rparr>" by (auto simp: writeChunk_def)
      with n rw show ?thesis by (intro exI [of _ "take n d"]) (simp add: chunk_written_def take_is_prefix)
    next
      case ok: None
      then have "n = length d" using assms(3) n(1) by (simp add: writes_all_or_fails_def)
      moreover have "err = None" "s' = (markFirstByte (s\<lparr>ss_w := w2\<rparr>))\<lparr>ss_w := w_Flush w2\<rparr>"
        using assms(1) r wr None ok by (auto simp: writeChunk_def markFirstByte_def Let_def)
      ultimately show ?thesis using n rw assms(2)
        by (intro exI [of _ d]) (simp add: chunk_written_def markFirstByte_def w_Flush_def)
    qed
  qed
qed

lemma chunk_written_trans:
  assumes "chunk_written bs None s s1" "chunk_written bs' err s1 s2"
  shows "chunk_written (bs @ bs') err s s2"
  using assms unfolding chunk_written_def by (cases "bs' = []") auto

context draining_reader
begin

lemma streamLoop_written:
  assumes "writes_all_or_fails env" "work (ss_stream s) < fuel"
  shows "\<exists>err s' bs. streamLoop env Read fuel s = Some (err, s') \<and> chunk_written bs err s s' \<and>
    prefix bs (fst (contents (ss_stream s))) \<and>
    (err = None \<longrightarrow> contents (ss_stream s) = (bs, Sentinel EOF))"
  using assms(2)
proof (induction fuel arbitrary: s)
  case (Suc fuel)
  obtain d e b where rd: "Read streamBuffer (ss_stream s) = ((d, e), b)" by (metis surj_pair)
  let ?s = "s\<lparr>ss_stream := b\<rparr>"
  obtain err s1 where ch: "(if d \<noteq> [] then writeChunk env d ?s else (None, ?s)) = (err, s1)" by fastforce
  then obtain bs where bs: "prefix bs d" "err = None \<longrightarrow> bs = d" "chunk_written bs err ?s s1" "ss_stream s1 = b"
    using writeChunk_written [of env d ?s err s1] assms(1) by (cases "d = []") (auto simp: chunk_written_def)
  then have w: "chunk_written bs err s s1" by (simp add: chunk_written_def)
  note c = Read_contents [OF rd]
  have pre: "prefix bs (fst (contents (ss_stream s)))" using bs(1) c by (cases e) (auto intro: prefix_prefix)
  show ?case
  proof (cases err)
    case (Some x)
    with rd ch w pre show ?thesis by (intro exI conjI) (auto simp: Let_def)
  next
    case ok: None
    show ?thesis
    proof (cases e)
      case (Some e')
      with rd ch ok have "streamLoop env Read (Suc fuel) s = Some (if e' = Sentinel EOF then None else Some e', s1)"
        by (simp add: Let_def)
      moreover have "chunk_written bs (if e' = Sentinel EOF then None else Some e') s s1"
        using w ok by (auto simp: chunk_written_def)
      ultimately show ?thesis using pre c Some ok bs(2) by (intro exI conjI) (auto split: if_splits)
    next
      case None
      then have "work (ss_stream s1) < fuel" using Read_work [of streamBuffer "ss_stream s" d b] rd Suc.prems bs(4) by simp
      from Suc.IH [OF this] obtain err' s' bs' where ih: "streamLoop env Read fuel s1 = Some (err', s')"
        "chunk_written bs' err' s1 s'" "prefix bs' (fst (contents b))"
        "err' = None \<longrightarrow> contents b = (bs', Sentinel EOF)"
        using bs(4) by auto
      have "streamLoop env Read (Suc fuel) s = Some (err', s')" using rd ch ok None ih(1) by (simp add: Let_def)
      moreover have "chunk_written (bs @ bs') err' s s'" using chunk_written_trans w ih(2) ok by blast
      ultimately show ?thesis using ih(3,4) c None ok bs(2) by (intro exI conjI) auto
    qed
  qed
qed simp

end

interpretation streamed: draining_reader pf_Read "\<lambda>pa. pf_content (fst pa)" "\<lambda>pa. pf_work (fst pa)"
proof
  show "pf_content (fst b) = (case e of Some err \<Rightarrow> (d, err)
      | None \<Rightarrow> (d @ fst (pf_content (fst b')), snd (pf_content (fst b'))))"
    if "pf_Read n b = ((d, e), b')" for n b d e b'
    using that by (rule pf_Read_content)
  show "length d \<le> n" if "pf_Read n b = ((d, e), b')" for n b d e b'
    using that by (auto simp: pf_Read_def ar_Read_def up_Read_def Let_def
        split: prod.splits option.splits if_splits list.splits)
  show "pf_work (fst b') < pf_work (fst b)" if "pf_Read n b = ((d, None), b')" "0 < n" for n b d b'
    using that by (rule pf_Read_work)
qed

text \<open>Reading keeps the attempt's reader in order; the close completes the attempt's usage.\<close>

lemma pf_Read_ok: "ar_ok i (pf_Tail p, acc) \<Longrightarrow> pf_Read n (p, acc) = (out, p', acc') \<Longrightarrow> ar_ok i (pf_Tail p', acc')"
  using ar_Read_ok [of i "(pf_Tail p, acc)" n]
  by (auto simp: pf_Read_def split: if_splits option.splits prod.splits)

lemma pf_Close_settles: "ar_ok i (pf_Tail p, acc) \<Longrightarrow> settled i (snd (snd (pf_Close (p, acc))))"
  using ar_Close_ok [of i "(pf_Tail p, acc)"] by (auto simp: pf_Close_def split: prod.splits)

lemma writeChunk_stream: "writeChunk env d s = (err, s') \<Longrightarrow> ss_stream s' = ss_stream s"
  by (auto simp: writeChunk_def markFirstByte_def Let_def split: prod.splits option.splits if_splits)

lemma streamLoop_ok:
  "streamLoop env pf_Read fuel s = Some (err, s') \<Longrightarrow> ar_ok i (pf_Tail (fst (ss_stream s)), snd (ss_stream s)) \<Longrightarrow>
     ar_ok i (pf_Tail (fst (ss_stream s')), snd (ss_stream s'))"
proof (induction fuel arbitrary: s)
  case (Suc fuel)
  obtain d e b where rd: "pf_Read streamBuffer (ss_stream s) = ((d, e), b)" by (metis surj_pair)
  have b: "ar_ok i (pf_Tail (fst b), snd b)"
    using pf_Read_ok [of i "fst (ss_stream s)" "snd (ss_stream s)" streamBuffer "(d, e)" "fst b" "snd b"] rd Suc.prems(2)
    by simp
  obtain err1 s1 where ch: "(if d \<noteq> [] then writeChunk env d (s\<lparr>ss_stream := b\<rparr>) else (None, s\<lparr>ss_stream := b\<rparr>)) = (err1, s1)"
    by fastforce
  then have "ss_stream s1 = b" using writeChunk_stream [of env d "s\<lparr>ss_stream := b\<rparr>" err1 s1] by (auto split: if_splits)
  with b have ok: "ar_ok i (pf_Tail (fst (ss_stream s1)), snd (ss_stream s1))" by simp
  show ?case using Suc.prems(1) Suc.IH [of s1] ok rd ch by (cases err1; cases e) (simp_all add: Let_def)
qed simp

text \<open>
  C26. A stream the engine has admitted reaches the client: the write always comes to an end; the body
  sent is a prefix of the provider's bytes and, when the write reports no error, all of them, flushed, with
  the provider's end of file; the headers are sent once with the result's status; the first byte is
  reported once, when there is one; and the stream is closed, so that the attempt's usage is settled, whether
  the client, the deadline or the provider failed.
\<close>

theorem stream_reaches_client:
  assumes "writes_all_or_fails env"
    and "prefetchStream ctxErr (r, acc) = (Inr p, acc1)" "ar_ok i (r, acc)"
    and "streamWork (up_reads (ar_up r)) < fuel"
    and "rw_Sent w = None" "rw_Body w = []"
  shows "\<exists>err p' acc2 marks w'.
    writeProviderStream env pf_Read pf_Close fuel (Some res) (Some (p, acc1)) w =
      Some ((FinalUsage (Some res), err), Some (p', acc2), marks, w') \<and>
    prefix (rw_Body w') (fst (content (up_reads (ar_up r)))) \<and>
    (err = None \<longrightarrow> content (up_reads (ar_up r)) = (rw_Body w', Sentinel EOF) \<and> \<not> rw_Armed w' \<and>
       map_option fst (rw_Sent w') = Some (statusOrDefault (rs_StatusCode res)) \<and>
       (rw_Body w' \<noteq> [] \<longrightarrow> rw_Flushed w' = length (rw_Body w') \<and> marks = 1)) \<and>
    marks \<le> 1 \<and> settled i acc2"
proof -
  note ok = prefetchStream_ok [OF assms(3,2)]
  then have okp: "ar_ok i (pf_Tail p, acc1)" by simp
  have close: "settled i (snd (snd (pf_Close (p, acc1))))" using pf_Close_settles [OF okp] .
  let ?w = "w\<lparr>rw_Header := setContentType (rs_ContentType res)
    (h_Del ''Content-Length'' (copyProxyHeaders (rw_Header w) (rs_Headers res)))\<rparr>"
  obtain e w1 where rf: "refreshWriteDeadline env ?w = (e, w1)" by fastforce
  note rw = refreshWriteDeadline_writer [OF rf]
  show ?thesis
  proof (cases "we_Flusher env \<and> e = None")
    case False
    obtain p' acc2 where cl: "snd (pf_Close (p, acc1)) = (p', acc2)" by fastforce
    with close have s: "settled i acc2" by simp
    show ?thesis
    proof (cases "we_Flusher env")
      case True
      with False obtain e' where "e = Some e'" by auto
      with True rf rw cl s assms(6) show ?thesis
        by (intro exI [of _ "Some e'"] exI [of _ p'] exI [of _ acc2] exI [of _ 0] exI [of _ w1])
          (simp add: writeProviderStream_def Let_def)
    next
      case False
      with cl s assms(6) show ?thesis
        by (intro exI [of _ "Some streamingUnsupported"] exI [of _ p'] exI [of _ acc2] exI [of _ 0] exI [of _ w])
          (simp add: writeProviderStream_def)
    qed
  next
    case True
    let ?s = "\<lparr>ss_stream = (p, acc1), ss_firstByteSent = False, ss_firstByteCalls = 0,
      ss_w = WriteHeader (statusOrDefault (rs_StatusCode res)) w1\<rparr>"
    have pw: "pf_work (fst (ss_stream ?s)) < fuel" using prefetchStream_content(2) [OF assms(2)] assms(4) by simp
    from streamed.streamLoop_written [OF assms(1) pw] obtain err s' bs where
      l: "streamLoop env pf_Read fuel ?s = Some (err, s')" "chunk_written bs err ?s s'"
        "prefix bs (fst (content (up_reads (ar_up r))))" "err = None \<longrightarrow> content (up_reads (ar_up r)) = (bs, Sentinel EOF)"
      by (auto simp: prefetchStream_content(1) [OF assms(2)])
    obtain p' acc2 where cl: "snd (pf_Close (ss_stream s')) = (p', acc2)" by fastforce
    then have st: "settled i acc2"
      using pf_Close_settles [of i "fst (ss_stream s')" "snd (ss_stream s')"] streamLoop_ok [OF l(1), of i] okp by simp
    have sent: "rw_Body (ss_w ?s) = []" "rw_Sent (ss_w ?s) = Some (statusOrDefault (rs_StatusCode res), rw_Header w1)"
      using rw assms(5,6) by (simp_all add: WriteHeader_def)
    have cw: "rw_Body (ss_w s') = bs" "rw_Sent (ss_w s') = rw_Sent (ss_w ?s)" "ss_firstByteCalls s' \<le> 1"
        "err = None \<Longrightarrow> bs \<noteq> [] \<Longrightarrow> rw_Flushed (ss_w s') = length bs \<and> ss_firstByteCalls s' = 1"
      using l(2) sent(1) by (auto simp: chunk_written_def)
    show ?thesis using True rf l(1,3,4) cl st cw sent(2)
      by (intro exI [of _ err] exI [of _ p'] exI [of _ acc2] exI [of _ "ss_firstByteCalls s'"]
          exI [of _ "clearWriteDeadline (ss_w s')"])
        (simp add: writeProviderStream_def Let_def clearWriteDeadline_def)
  qed
qed

section \<open>The headers of the provider\<close>

text \<open>A canonical name is determined by its letters whatever their case.\<close>

lemma byte_lower: "byte (to_lower_char c) = (if 65 \<le> byte c \<and> byte c \<le> 90 then byte c + 32 else byte c)"
  by (simp add: to_lower_char_def)

lemma byte_upper: "byte (to_upper_char c) = (if 97 \<le> byte c \<and> byte c \<le> 122 then byte c - 32 else byte c)"
  by (auto simp: to_upper_char_def)

lemma byte_eqI: "byte c = byte d \<Longrightarrow> c = d"
  by simp

lemma lower_upper_char [simp]:
  "to_upper_char (to_lower_char c) = to_upper_char c" "to_lower_char (to_lower_char c) = to_lower_char c"
  "to_lower_char c = CHR ''-'' \<longleftrightarrow> c = CHR ''-''"
proof -
  show "to_upper_char (to_lower_char c) = to_upper_char c" by (rule byte_eqI) (simp add: byte_lower byte_upper)
  show "to_lower_char (to_lower_char c) = to_lower_char c" by (rule byte_eqI) (simp add: byte_lower)
  have "byte (to_lower_char c) = byte CHR ''-'' \<longleftrightarrow> byte c = byte CHR ''-''" by (simp add: byte_lower)
  then show "to_lower_char c = CHR ''-'' \<longleftrightarrow> c = CHR ''-''" by (simp only: of_char_eq_iff)
qed

lemma token_lower [simp]: "token_byte (byte (to_lower_char c)) \<longleftrightarrow> token_byte (byte c)"
  by (auto simp: token_byte_def byte_lower)

lemma canonicalLoop_lower: "canonicalLoop u (ToLower s) = canonicalLoop u s"
  by (induction s arbitrary: u) (simp_all add: ToLower_def)

lemma token_ToLower: "list_all (\<lambda>c. token_byte (byte c)) (ToLower s) = list_all (\<lambda>c. token_byte (byte c)) s"
  by (simp add: ToLower_def list.pred_map comp_def)

lemma canonical_EqualFold:
  assumes "CanonicalHeaderKey k = k" "list_all (\<lambda>c. token_byte (byte c)) name"
  shows "EqualFold k name \<longleftrightarrow> k = CanonicalHeaderKey name"
proof
  assume "EqualFold k name"
  then have e: "ToLower k = ToLower name" by (simp add: EqualFold_def)
  then have "list_all (\<lambda>c. token_byte (byte c)) k" using assms(2) token_ToLower by metis
  with assms e show "k = CanonicalHeaderKey name"
    by (metis CanonicalHeaderKey_def canonicalLoop_lower)
next
  have "ToLower (canonicalLoop u s) = ToLower s" for u s
    by (induction s arbitrary: u) (auto simp: ToLower_def intro!: byte_eqI simp: byte_lower byte_upper)
  moreover assume "k = CanonicalHeaderKey name"
  ultimately show "EqualFold k name" using assms(2) by (simp add: EqualFold_def CanonicalHeaderKey_def)
qed

lemma map_of_addAll:
  "map_of (addAll key vs h) k =
     (if k = CanonicalHeaderKey key \<and> vs \<noteq> [] then Some (h_Values h key @ vs) else map_of h k)"
  unfolding addAll_def
  by (induction vs arbitrary: h) (auto simp: h_Add_def h_Values_def)

text \<open>What the proxy drops: what the upstream's connection names, hop-by-hop and sensitive headers, the gateway's own.\<close>

definition withheld :: "string list \<Rightarrow> string \<Rightarrow> bool" where
  "withheld nominated key \<longleftrightarrow> key \<in> set nominated \<or> isHopByHopHeader key \<or> isSensitiveUpstreamResponseHeader key \<or>
     HasPrefix (ToLower key) ''x-llmgw-''"

lemma id_names:
  "CanonicalHeaderKey ''X-Request-ID'' = ''X-Request-Id''"
  "CanonicalHeaderKey ''X-LLMGW-Upstream-Request-ID'' = ''X-Llmgw-Upstream-Request-Id''"
  "list_all (\<lambda>c. token_byte (byte c)) ''X-Request-ID''"
  "list_all (\<lambda>c. token_byte (byte c)) ''X-LLMGW-Upstream-Request-ID''"
  "HasPrefix (ToLower ''X-Llmgw-Upstream-Request-Id'') ''x-llmgw-''"
  by code_simp+

lemma copyProxyHeader_map_of:
  assumes "CanonicalHeaderKey key = key"
  shows "map_of (copyProxyHeader nominated (key, vs) h) k =
    (if withheld nominated key then map_of h k
     else if key = ''X-Request-Id'' then
       (if k = ''X-Llmgw-Upstream-Request-Id'' \<and> vs \<noteq> [] then Some [last vs] else map_of h k)
     else if k = key then (if vs = [] then None else Some vs)
     else map_of h k)"
proof -
  have "EqualFold key ''X-Request-ID'' \<longleftrightarrow> key = ''X-Request-Id''"
    using canonical_EqualFold [OF assms id_names(3)] id_names(1) by simp
  moreover have "EqualFold key ''X-LLMGW-Upstream-Request-ID'' \<Longrightarrow> withheld nominated key"
    using canonical_EqualFold [OF assms id_names(4)] id_names(2,5) by (simp add: withheld_def)
  ultimately show ?thesis
    by (auto simp: copyProxyHeader_def assms withheld_def [symmetric] map_of_addAll h_Set_def h_Del_def h_Values_def id_names(2))
qed

lemma copyProxyHeader_other:
  assumes "CanonicalHeaderKey key = key" "k \<noteq> key" "k = ''X-Llmgw-Upstream-Request-Id'' \<longrightarrow> key \<noteq> ''X-Request-Id''"
  shows "map_of (copyProxyHeader nominated (key, vs) h) k = map_of h k"
  using assms by (auto simp: copyProxyHeader_map_of)

lemma copyProxyHeaders_other:
  assumes "\<forall>key \<in> set (map fst src). CanonicalHeaderKey key = key" "k \<notin> set (map fst src)"
    "k = ''X-Llmgw-Upstream-Request-Id'' \<longrightarrow> ''X-Request-Id'' \<notin> set (map fst src)"
  shows "map_of (fold (copyProxyHeader nominated) src dst) k = map_of dst k"
  using assms by (induction src arbitrary: dst) (auto simp: copyProxyHeader_other)

text \<open>The ID of the upstream is the last value of its request ID header, unless that is withheld.\<close>

lemma copyProxyHeaders_id:
  assumes "\<forall>key \<in> set (map fst src). CanonicalHeaderKey key = key" "distinct (map fst src)"
  shows "map_of (fold (copyProxyHeader nominated) src dst) ''X-Llmgw-Upstream-Request-Id'' =
    (case map_of src ''X-Request-Id'' of
       None \<Rightarrow> map_of dst ''X-Llmgw-Upstream-Request-Id''
     | Some vs \<Rightarrow> if vs = [] \<or> withheld nominated ''X-Request-Id'' then map_of dst ''X-Llmgw-Upstream-Request-Id''
                  else Some [last vs])"
  using assms
proof (induction src arbitrary: dst)
  case (Cons kv src)
  obtain key vs where kv: "kv = (key, vs)" by fastforce
  have own: "withheld nominated ''X-Llmgw-Upstream-Request-Id''" using id_names(5) by (simp add: withheld_def)
  show ?case
  proof (cases "key = ''X-Request-Id''")
    case True
    with Cons.prems kv have notin: "''X-Request-Id'' \<notin> set (map fst src)" by simp
    then have none: "map_of src ''X-Request-Id'' = None" by (simp add: map_of_eq_None_iff)
    have "map_of (fold (copyProxyHeader nominated) src h) ''X-Llmgw-Upstream-Request-Id'' =
        map_of h ''X-Llmgw-Upstream-Request-Id''" for h
      using Cons.IH [of h] Cons.prems none by simp
    with True Cons.prems kv show ?thesis by (simp add: copyProxyHeader_map_of)
  next
    case False
    with Cons.prems kv own have "map_of (copyProxyHeader nominated (key, vs) dst) ''X-Llmgw-Upstream-Request-Id'' =
        map_of dst ''X-Llmgw-Upstream-Request-Id''"
      by (auto simp: copyProxyHeader_map_of)
    with Cons kv False show ?thesis by (simp split: option.split)
  qed
qed simp

lemma copyProxyHeaders_key:
  assumes "\<forall>key \<in> set (map fst src). CanonicalHeaderKey key = key" "distinct (map fst src)"
    "k \<noteq> ''X-Llmgw-Upstream-Request-Id''"
  shows "map_of (fold (copyProxyHeader nominated) src dst) k =
    (if withheld nominated k \<or> k = ''X-Request-Id'' then map_of dst k
     else case map_of src k of None \<Rightarrow> map_of dst k | Some vs \<Rightarrow> if vs = [] then None else Some vs)"
  using assms(1,2)
proof (induction src arbitrary: dst)
  case (Cons kv src)
  obtain key vs where kv: "kv = (key, vs)" by fastforce
  show ?case
  proof (cases "key = k")
    case True
    with Cons.prems kv have "map_of src k = None" by (simp add: map_of_eq_None_iff)
    with Cons kv True assms(3) show ?thesis by (simp add: copyProxyHeader_map_of)
  next
    case False
    with Cons kv assms(3) show ?thesis by (simp add: copyProxyHeader_map_of split: option.split)
  qed
qed simp

text \<open>
  C33. The headers a client sees of a provider's response: a header of the response, with all its values,
  replaces the gateway's own of that name exactly when it is not hop-by-hop, sensitive, named by the
  response's \<open>Connection\<close> header, one of the gateway's \<open>X-LLMGW-\<close> headers or the request ID; the upstream's
  request ID appears as the gateway's \<open>X-LLMGW-Upstream-Request-ID\<close>; every other header stays as the
  gateway had set it.
\<close>

theorem provider_headers_filtered:
  assumes "\<forall>key \<in> set (map fst src). CanonicalHeaderKey key = key" "distinct (map fst src)"
  shows "map_of (copyProxyHeaders dst src) k =
    (if k = ''X-Llmgw-Upstream-Request-Id'' then
       (case map_of src ''X-Request-Id'' of
          Some vs \<Rightarrow> if vs = [] \<or> withheld (connectionHeaders src) ''X-Request-Id'' then map_of dst k else Some [last vs]
        | None \<Rightarrow> map_of dst k)
     else if withheld (connectionHeaders src) k \<or> k = ''X-Request-Id'' then map_of dst k
     else (case map_of src k of None \<Rightarrow> map_of dst k | Some vs \<Rightarrow> if vs = [] then None else Some vs))"
  using copyProxyHeaders_id [OF assms] copyProxyHeaders_key [OF assms]
  by (auto simp: copyProxyHeaders_def split: option.split)

definition demo_upstream_headers :: Header where
  "demo_upstream_headers =
     [(''Content-Type'', [''application/json'']), (''X-Request-Id'', [''up-1'']), (''Set-Cookie'', [''a=b'']),
      (''Connection'', [''x-internal, close'']), (''X-Internal'', [''7'']), (''X-Llmgw-Route'', [''forged''])]"

definition demo_own_headers :: Header where
  "demo_own_headers = [(''X-Request-Id'', [''req-1''])]"

theorem provider_headers_filtered_witness:
  "map (map_of (copyProxyHeaders demo_own_headers demo_upstream_headers))
     [''X-Llmgw-Upstream-Request-Id'', ''X-Request-Id'', ''Content-Type'', ''Set-Cookie'', ''X-Internal'', ''X-Llmgw-Route''] =
   [Some [''up-1''], Some [''req-1''], Some [''application/json''], None, None, None]"
proof -
  have ks: "\<forall>key \<in> set (map fst demo_upstream_headers). CanonicalHeaderKey key = key" "distinct (map fst demo_upstream_headers)"
    by code_simp+
  have w: "map (withheld (connectionHeaders demo_upstream_headers))
      [''X-Request-Id'', ''Content-Type'', ''Set-Cookie'', ''X-Internal'', ''X-Llmgw-Route''] = [False, False, True, True, True]"
    by code_simp
  from w have w': "\<not> withheld (connectionHeaders demo_upstream_headers) ''X-Request-Id''"
    "\<not> withheld (connectionHeaders demo_upstream_headers) ''Content-Type''"
    "withheld (connectionHeaders demo_upstream_headers) ''Set-Cookie''"
    "withheld (connectionHeaders demo_upstream_headers) ''X-Internal''"
    "withheld (connectionHeaders demo_upstream_headers) ''X-Llmgw-Route''" by simp_all
  have "map (map_of demo_upstream_headers) [''X-Request-Id'', ''Content-Type''] = [Some [''up-1''], Some [''application/json'']]"
    by code_simp
  then have l: "map_of demo_upstream_headers ''X-Request-Id'' = Some [''up-1'']"
    "map_of demo_upstream_headers ''Content-Type'' = Some [''application/json'']" by simp_all
  have own: "map_of demo_own_headers = [''X-Request-Id'' \<mapsto> [''req-1'']]" by (simp add: demo_own_headers_def)
  show ?thesis by (simp add: provider_headers_filtered [OF ks] w' l own)
qed

definition demo_writer_env :: writerEnv where
  "demo_writer_env = \<lparr>we_Flusher = True, we_deadline = (\<lambda>i. if i = 0 then DeadlineSet else DeadlineUnsupported),
     we_write = (\<lambda>i d. (length d, None))\<rparr>"

definition demo_writer :: responseWriter where
  "demo_writer = \<lparr>rw_Header = demo_own_headers, rw_Sent = None, rw_Body = [], rw_Flushed = 0, rw_Armed = False,
     rw_deadlines = 0, rw_writes = 0\<rparr>"

definition demo_attempted :: AttemptUsageAccumulator where
  "demo_attempted = acc_begin ''x1:1'' demo_resolved []"

lemma demo_attempt_prefetch:
  "prefetchStream (\<lambda>_. None) (demo_reader, acc) = (Inr demo_prefetched, acc)"
proof -
  have "prefetchLoop (\<lambda>_. None) (Suc (Suc 6)) (demo_reader, acc) =
      (Inr (''ab'', None), (pf_Tail demo_prefetched, acc))"
    by (simp only: prefetchLoop.simps) (simp add: ar_Read_def up_Read_def demo_reader_def demo_prefetched_def)
  then show ?thesis by (simp add: prefetchStream_def demo_prefetched_def)
qed

theorem stream_reaches_client_witness:
  "\<exists>err p' acc2 marks w'.
     writeProviderStream demo_writer_env pf_Read pf_Close 7 (Some demo_stream) (Some (demo_prefetched, demo_attempted)) demo_writer =
       Some ((FinalUsage (Some demo_stream), err), Some (p', acc2), marks, w') \<and>
     prefix (rw_Body w') ''abc'' \<and> settled ''x1:1'' acc2"
proof -
  have env: "writes_all_or_fails demo_writer_env" by (simp add: writes_all_or_fails_def demo_writer_env_def)
  have ok: "ar_ok ''x1:1'' (demo_reader, demo_attempted)"
    by (simp add: ar_ok_def demo_reader_def demo_attempted_def acc_begin_def Let_def)
  have work: "streamWork (up_reads (ar_up demo_reader)) < 7" and body: "content (up_reads (ar_up demo_reader)) = (''abc'', Sentinel EOF)"
    by code_simp+
  have w: "rw_Sent demo_writer = None" "rw_Body demo_writer = []" by (simp_all add: demo_writer_def)
  from stream_reaches_client [OF env demo_attempt_prefetch ok work w, of demo_stream] body
  show ?thesis by (elim exE conjE) (intro exI conjI; (simp; fail)?)
qed

end
