(* ===== verification/Http_Api.thy ===== *)
theory Http_Api
  imports Configuration Http_Responses
begin

text \<open>
  The HTTP front of the gateway (package \<open>api\<close>): bearer authentication and the ingresses of the provider
  protocols, the endpoints that show models and read and write quota limits, the request ID, and what is
  copied from a provider's response to the client, headers and stream. JSON encoding and decoding, routing
  by \<open>http.ServeMux\<close> and the sockets are outside; what they decide is an argument.
\<close>

section \<open>Requests\<close>

record apiRequest =
  aq_Method :: string
  aq_Path :: string
  aq_Header :: Header
  aq_ContextID :: string

definition validRequestID :: "string \<Rightarrow> bool" where
  "validRequestID v \<longleftrightarrow> v \<noteq> [] \<and> length v \<le> 128 \<and> list_all (\<lambda>c. 0x21 \<le> byte c \<and> byte c \<le> 0x7E) v"

text \<open>The ID of the context, else a valid one of the client, else a generated one.\<close>

definition requestID :: "string \<Rightarrow> apiRequest \<Rightarrow> string" where
  "requestID generated r =
     (if aq_ContextID r \<noteq> [] then aq_ContextID r
      else (let v = TrimSpace (h_Get (aq_Header r) ''X-Request-ID'')
            in if validRequestID v then v else generated))"

definition methodNotAllowed :: goerr where
  "methodNotAllowed = api (NewError 405 ''invalid_request_error'' ''method_not_allowed'' ''method not allowed'')"

definition methodHandler :: "string \<Rightarrow> (apiRequest \<Rightarrow> goerr + 'a) \<Rightarrow> apiRequest \<Rightarrow> goerr + 'a" where
  "methodHandler meth next r = (if aq_Method r \<noteq> meth then Inl methodNotAllowed else next r)"

definition notReady :: goerr where
  "notReady = api (NewError 503 ''server_error'' ''not_ready'' ''configuration not loaded'')"

section \<open>Authentication\<close>

text \<open>\<open>strings.SplitN(s, " ", 2)\<close> when there is a space.\<close>

definition cutSpace :: "string \<Rightarrow> (string \<times> string) option" where
  "cutSpace s =
     (if CHR '' '' \<in> set s then Some (takeWhile (\<lambda>c. c \<noteq> CHR '' '') s, tl (dropWhile (\<lambda>c. c \<noteq> CHR '' '') s))
      else None)"

definition bearerToken :: "string \<Rightarrow> string option" where
  "bearerToken auth =
     (case cutSpace auth of
        None \<Rightarrow> None
      | Some (scheme, rest) \<Rightarrow>
          if \<not> EqualFold scheme ''Bearer'' \<or> TrimSpace rest = [] then None else Some (TrimSpace rest))"

definition authOf :: "Config \<Rightarrow> AuthConfig" where
  "authOf cfg = AuthConfig.truncate (cf_Auth cfg)"

definition someInr :: "'e + 'a \<Rightarrow> 'e + 'a option" where
  "someInr r = (case r of Inl e \<Rightarrow> Inl e | Inr x \<Rightarrow> Inr (Some x))"

definition authenticateBearerRequest ::
  "'key jwtLibrary \<Rightarrow> Config \<Rightarrow> apiRequest \<Rightarrow> bool \<Rightarrow> goerr + Principal option" where
  "authenticateBearerRequest lib cfg r permitAnonymous =
     (let auth = TrimSpace (h_Get (aq_Header r) ''Authorization'')
      in if auth = [] \<and> permitAnonymous \<and> ac_AllowAnonymous (cf_Auth cfg) then Inr None
         else (case bearerToken auth of
                 None \<Rightarrow> Inl (api (Unauthorized ''missing bearer token''))
               | Some token \<Rightarrow> someInr (AuthenticatePrincipal lib (authOf cfg) token)))"

text \<open>The authenticator of an ingress; an empty native header is none.\<close>

definition bearerIngressAuthenticator ::
  "'key jwtLibrary \<Rightarrow> string \<Rightarrow> Config \<Rightarrow> apiRequest \<Rightarrow> goerr + Principal option" where
  "bearerIngressAuthenticator lib header cfg r =
     (let auth = TrimSpace (h_Get (aq_Header r) ''Authorization'')
      in if auth \<noteq> [] then
           (case bearerToken auth of
              None \<Rightarrow> Inl (api (Unauthorized ''invalid authorization header''))
            | Some token \<Rightarrow> someInr (AuthenticatePrincipal lib (authOf cfg) token))
         else (let token = (if header \<noteq> [] then TrimSpace (h_Get (aq_Header r) header) else [])
               in if token = [] then
                    if ac_AllowAnonymous (cf_Auth cfg) then Inr None
                    else Inl (api (Unauthorized ''missing bearer token''))
                  else someInr (AuthenticatePrincipal lib (authOf cfg) token)))"

definition HasPermission :: "Principal \<Rightarrow> string \<Rightarrow> bool" where
  "HasPermission p permission \<longleftrightarrow> permission \<in> set (pr_Permissions p)"

definition protectOperations ::
  "'key jwtLibrary \<Rightarrow> ConfigStore \<Rightarrow> (apiRequest \<Rightarrow> goerr + 'a) \<Rightarrow> apiRequest \<Rightarrow> goerr + 'a" where
  "protectOperations lib store next r =
     (case store of
        None \<Rightarrow> Inl notReady
      | Some cfg \<Rightarrow>
          (case authenticateBearerRequest lib cfg r True of
             Inl e \<Rightarrow> Inl e
           | Inr (Some p) \<Rightarrow>
               if \<not> HasPermission p PermissionViewOperations then
                 Inl (api (NewError 403 ''invalid_request_error'' ''permission_denied'' ''view_operations permission is required''))
               else next r
           | Inr None \<Rightarrow> next r))"

section \<open>Limits\<close>

text \<open>
  The dynamic limit store and the usage store of the server, either of which may be missing. \<open>'m\<close> is the
  state of the limit store; \<open>ctxErr\<close> is the error of the request's context.
\<close>

record 'm limitServer =
  ls_get :: "(string \<Rightarrow> 'm \<Rightarrow> limitAnswer \<times> 'm) option"
  ls_put :: "(string \<Rightarrow> LimitSpec \<Rightarrow> 'm \<Rightarrow> goerr option \<times> 'm) option"
  ls_usage :: "(ScopedLimit \<Rightarrow> goerr + QuotaUsage) option"
  ls_ctxErr :: "sentinel option"

record limitsResponse =
  lp_KeyID :: string
  lp_Source :: string
  lp_Limits :: LimitSpec
  lp_Usage :: "QuotaUsage option"
  lp_UsageUnavailable :: bool

definition quotaLimitStoreError :: "sentinel option \<Rightarrow> goerr \<Rightarrow> goerr" where
  "quotaLimitStoreError ctxErr err =
     (if (case ctxErr of None \<Rightarrow> False | Some e \<Rightarrow> err_is e err) then err
      else ApiErr (WithDisposition False False False
        (NewError 503 ''server_error'' ''quota_limit_store_unavailable'' ''quota limit service is temporarily unavailable'')) (Some err))"

definition authenticateLimitsRequest ::
  "'key jwtLibrary \<Rightarrow> ConfigStore \<Rightarrow> apiRequest \<Rightarrow> goerr + Config \<times> Principal \<times> Subject" where
  "authenticateLimitsRequest lib store r =
     (case store of
        None \<Rightarrow> Inl notReady
      | Some cfg \<Rightarrow>
          (case authenticateBearerRequest lib cfg r False of
             Inl e \<Rightarrow> Inl e
           | Inr None \<Rightarrow> Inl notReady
           | Inr (Some p) \<Rightarrow>
               (let subject = Principal_Subject p
                in if su_KeyID subject = [] then
                     Inl (api (NewError 400 ''invalid_request_error'' ''missing_key_id''
                       ''authenticated token did not resolve to a quota key id''))
                   else Inr (cfg, p, subject))))"

text \<open>The scope, its source and whether there is one.\<close>

definition resolveLimitsScope ::
  "'m limitServer \<Rightarrow> Config \<Rightarrow> Subject \<Rightarrow> 'm \<Rightarrow> (goerr + (ScopedLimit \<times> string) option) \<times> 'm" where
  "resolveLimitsScope s cfg subject m =
     (let static = (case ResolveQuotaScopes (cf_Quota cfg) subject of
                      [] \<Rightarrow> None | scope # _ \<Rightarrow> Some (scope, ''config''))
      in case ls_get s of
           None \<Rightarrow> (Inr static, m)
         | Some get \<Rightarrow>
             (case get (su_KeyID subject) m of
                (Inl e, m') \<Rightarrow> (Inl (quotaLimitStoreError (ls_ctxErr s) e), m')
              | (Inr (limit, True), m') \<Rightarrow>
                  (Inr (Some (\<lparr>sl_Ref = \<lparr>sr_Kind = ScopeKey, sr_ID = su_KeyID subject\<rparr>, sl_Limits = limit\<rparr>, ''dynamic'')), m')
              | (Inr (limit, False), m') \<Rightarrow> (Inr static, m')))"

definition withUsage :: "'m limitServer \<Rightarrow> ScopedLimit \<Rightarrow> limitsResponse \<Rightarrow> limitsResponse" where
  "withUsage s scope resp =
     (case ls_usage s of
        None \<Rightarrow> resp
      | Some get \<Rightarrow>
          (case get scope of
             Inl e \<Rightarrow> resp\<lparr>lp_UsageUnavailable := True\<rparr>
           | Inr usage \<Rightarrow> resp\<lparr>lp_Usage := Some usage\<rparr>))"

definition getLimits ::
  "'key jwtLibrary \<Rightarrow> 'm limitServer \<Rightarrow> ConfigStore \<Rightarrow> apiRequest \<Rightarrow> 'm \<Rightarrow> (goerr + limitsResponse) \<times> 'm" where
  "getLimits lib s store r m =
     (case authenticateLimitsRequest lib store r of
        Inl e \<Rightarrow> (Inl e, m)
      | Inr (cfg, p, subject) \<Rightarrow>
          (case resolveLimitsScope s cfg subject m of
             (Inl e, m') \<Rightarrow> (Inl e, m')
           | (Inr None, m') \<Rightarrow>
               (Inl (api (NewError 404 ''invalid_request_error'' ''quota_limits_not_found'' ''no quota limits configured for this token'')), m')
           | (Inr (Some (scope, source)), m') \<Rightarrow>
               (Inr (withUsage s scope
                  \<lparr>lp_KeyID = su_KeyID subject, lp_Source = source, lp_Limits = sl_Limits scope, lp_Usage = None,
                   lp_UsageUnavailable = False\<rparr>), m')))"

text \<open>
  The body of a write as the JSON decoder sees it: the limits, or an error; then what a second decode
  finds, \<open>None\<close> for end of file, \<open>Some None\<close> for more data.
\<close>

datatype decodeError = MaxBytesError | BadJSON string

record limitsBody =
  lb_Limits :: "decodeError + LimitSpec"
  lb_Trailing :: "decodeError option option"

definition quotaJSONError :: "decodeError \<Rightarrow> goerr" where
  "quotaJSONError err =
     (case err of
        MaxBytesError \<Rightarrow> api (NewError 413 ''invalid_request_error'' ''body_too_large'' ''request body exceeds configured maximum'')
      | BadJSON message \<Rightarrow> api (NewError 400 ''invalid_request_error'' ''invalid_json'' message))"

definition invalidLimit :: "string \<Rightarrow> goerr" where
  "invalidLimit message = api (NewError 400 ''invalid_request_error'' ''invalid_limit'' message)"

definition knownProviders :: "Config \<Rightarrow> string set" where
  "knownProviders cfg = {p \<in> set (map r_Provider (List.map_filter snd (sn_Routes (cf_Catalog cfg)))). p \<noteq> []}"

text \<open>\<open>text\<close> is \<open>Error()\<close> of the validation error.\<close>

definition api_validateLimitSpec :: "(goerr \<Rightarrow> string) \<Rightarrow> Config \<Rightarrow> LimitSpec \<Rightarrow> goerr option" where
  "api_validateLimitSpec errorText cfg limit =
     (case ValidateLimitSpec limit of
        Some e \<Rightarrow> Some (invalidLimit (errorText e))
      | None \<Rightarrow>
          (case filter (\<lambda>p. p \<notin> knownProviders cfg) (slice_elems (ls_ProviderAllowlist limit)) of
             [] \<Rightarrow> None
           | p # _ \<Rightarrow> Some (invalidLimit (''provider_allowlist contains unknown provider '' @ quoted p))))"

definition decodeLimits :: "limitsBody \<Rightarrow> goerr + LimitSpec" where
  "decodeLimits body =
     (case lb_Limits body of
        Inl e \<Rightarrow> Inl (quotaJSONError e)
      | Inr limit \<Rightarrow>
          (case lb_Trailing body of
             None \<Rightarrow> Inr limit
           | Some None \<Rightarrow> Inl (quotaJSONError (BadJSON ''request body must contain exactly one JSON object''))
           | Some (Some e) \<Rightarrow> Inl (quotaJSONError e)))"

text \<open>The body is decoded under the limit of the configuration, 4 MiB when it has none.\<close>

definition maxLimitsBytes :: "Config \<Rightarrow> int" where
  "maxLimitsBytes cfg = (if ac_MaxBodyBytes (cf_Auth cfg) \<le> 0 then 4194304 else ac_MaxBodyBytes (cf_Auth cfg))"

definition putLimits ::
  "'key jwtLibrary \<Rightarrow> (goerr \<Rightarrow> string) \<Rightarrow> 'm limitServer \<Rightarrow> ConfigStore \<Rightarrow> (int \<Rightarrow> limitsBody) \<Rightarrow> apiRequest \<Rightarrow> 'm \<Rightarrow>
     (goerr + limitsResponse) \<times> 'm" where
  "putLimits lib errorText s store body r m =
     (case ls_put s of
        None \<Rightarrow> (Inl (api (NewError 503 ''server_error'' ''quota_limit_store_unavailable'' ''dynamic quota limit store is not configured'')), m)
      | Some put \<Rightarrow>
          (case authenticateLimitsRequest lib store r of
             Inl e \<Rightarrow> (Inl e, m)
           | Inr (cfg, p, subject) \<Rightarrow>
               if \<not> HasPermission p PermissionManageLimits then
                 (Inl (api (NewError 403 ''invalid_request_error'' ''permission_denied'' ''manage_limits permission is required'')), m)
               else
                 (case decodeLimits (body (maxLimitsBytes cfg)) of
                    Inl e \<Rightarrow> (Inl e, m)
                  | Inr limit \<Rightarrow>
                      (case api_validateLimitSpec errorText cfg limit of
                         Some e \<Rightarrow> (Inl e, m)
                       | None \<Rightarrow>
                           (case put (su_KeyID subject) limit m of
                              (Some e, m') \<Rightarrow> (Inl (quotaLimitStoreError (ls_ctxErr s) e), m')
                            | (None, m') \<Rightarrow>
                                (Inr (withUsage s \<lparr>sl_Ref = \<lparr>sr_Kind = ScopeKey, sr_ID = su_KeyID subject\<rparr>, sl_Limits = limit\<rparr>
                                   \<lparr>lp_KeyID = su_KeyID subject, lp_Source = ''dynamic'', lp_Limits = limit, lp_Usage = None,
                                    lp_UsageUnavailable = False\<rparr>), m'))))))"

definition limits ::
  "'key jwtLibrary \<Rightarrow> (goerr \<Rightarrow> string) \<Rightarrow> 'm limitServer \<Rightarrow> ConfigStore \<Rightarrow> (int \<Rightarrow> limitsBody) \<Rightarrow> apiRequest \<Rightarrow> 'm \<Rightarrow>
     (goerr + limitsResponse) \<times> 'm" where
  "limits lib errorText s store body r m =
     (if aq_Method r = ''GET'' then getLimits lib s store r m
      else if aq_Method r = ''PUT'' then putLimits lib errorText s store body r m
      else (Inl methodNotAllowed, m))"

section \<open>Models\<close>

definition visibleRoute :: "Principal option \<Rightarrow> LimitSpec option \<Rightarrow> Route \<Rightarrow> bool" where
  "visibleRoute p quotaLimit route \<longleftrightarrow>
     (case p of None \<Rightarrow> True | Some p \<Rightarrow> pr_Providers p = [] \<or> r_Provider route \<in> set (pr_Providers p)) \<and>
     (case quotaLimit of None \<Rightarrow> True
      | Some l \<Rightarrow> slice_elems (ls_ProviderAllowlist l) = [] \<or> r_Provider route \<in> set (slice_elems (ls_ProviderAllowlist l)))"

definition modelsForPrincipal :: "Config \<Rightarrow> Principal option \<Rightarrow> LimitSpec option \<Rightarrow> string list" where
  "modelsForPrincipal cfg p quotaLimit =
     filter (\<lambda>model.
       (case p of None \<Rightarrow> True | Some p \<Rightarrow> pr_Models p = [] \<or> model \<in> set (pr_Models p)) \<and>
       (case quotaLimit of None \<Rightarrow> True
        | Some l \<Rightarrow> slice_elems (ls_ModelAllowlist l) = [] \<or> model \<in> set (slice_elems (ls_ModelAllowlist l))) \<and>
       list_ex (\<lambda>(_, route). case route of None \<Rightarrow> False | Some r \<Rightarrow> r_Model r = model \<and> visibleRoute p quotaLimit r)
         (sn_Routes (cf_Catalog cfg)))
       (sn_models (cf_Catalog cfg))"

definition api_models ::
  "'key jwtLibrary \<Rightarrow> 'm limitServer \<Rightarrow> ConfigStore \<Rightarrow> apiRequest \<Rightarrow> 'm \<Rightarrow> (goerr + string list) \<times> 'm" where
  "api_models lib s store r m =
     (case store of
        None \<Rightarrow> (Inl notReady, m)
      | Some cfg \<Rightarrow>
          (case authenticateBearerRequest lib cfg r True of
             Inl e \<Rightarrow> (Inl e, m)
           | Inr p \<Rightarrow>
               (let subject = (case p of None \<Rightarrow> \<lparr>su_KeyID = ''anonymous''\<rparr> | Some p \<Rightarrow> Principal_Subject p)
                in case resolveLimitsScope s cfg subject m of
                     (Inl e, m') \<Rightarrow> (Inl e, m')
                   | (Inr scoped, m') \<Rightarrow>
                       (Inr (modelsForPrincipal cfg p (map_option (\<lambda>(scope, _). sl_Limits scope) scoped)), m'))))"

section \<open>Error envelopes\<close>

text \<open>The JSON object of an error by its fields.\<close>

datatype errorEnvelope =
  OpenAIEnvelope (oe_message: string) (oe_type: string) (oe_param: string) (oe_code: string)
| AnthropicEnvelope (an_type: string) (an_message: string)
| GeminiEnvelope (ge_code: int) (ge_message: string) (ge_status: string)

record errorResponse =
  er_Status :: int
  er_Header :: Header
  er_Body :: errorEnvelope

definition writeJSON :: "int \<Rightarrow> errorEnvelope \<Rightarrow> Header \<Rightarrow> errorResponse" where
  "writeJSON status payload h = \<lparr>er_Status = status, er_Header = h_Set ''Content-Type'' ''application/json'' h, er_Body = payload\<rparr>"

definition writeError :: "goerr \<Rightarrow> Header \<Rightarrow> errorResponse" where
  "writeError err h =
     (let apiErr = AsAPIError err
      in writeJSON (ae_Status apiErr) (OpenAIEnvelope (ae_Message apiErr) (ae_Type apiErr) (ae_Param apiErr) (ae_Code apiErr)) h)"

definition writeOpenAIError :: "goerr \<Rightarrow> Header \<Rightarrow> errorResponse" where
  "writeOpenAIError err h = writeError err (copyProviderErrorHeaders h (ae_Headers (AsAPIError err)))"

definition anthropicErrorType :: "int \<Rightarrow> string" where
  "anthropicErrorType status =
     (if status = 401 then ''authentication_error''
      else if status = 403 then ''permission_error''
      else if status = 404 then ''not_found_error''
      else if status = 413 then ''request_too_large''
      else if status = 429 then ''rate_limit_error''
      else if status = 503 \<or> status = 529 then ''overloaded_error''
      else if 400 \<le> status \<and> status < 500 then ''invalid_request_error''
      else ''api_error'')"

definition writeAnthropicError :: "goerr \<Rightarrow> Header \<Rightarrow> errorResponse" where
  "writeAnthropicError err h =
     (let apiErr = AsAPIError err
      in writeJSON (ae_Status apiErr) (AnthropicEnvelope (anthropicErrorType (ae_Status apiErr)) (ae_Message apiErr))
           (copyProviderErrorHeaders h (ae_Headers apiErr)))"

definition googleErrorStatus :: "int \<Rightarrow> string" where
  "googleErrorStatus status =
     (if status = 400 \<or> status = 413 \<or> status = 422 then ''INVALID_ARGUMENT''
      else if status = 401 then ''UNAUTHENTICATED''
      else if status = 403 then ''PERMISSION_DENIED''
      else if status = 404 then ''NOT_FOUND''
      else if status = 409 then ''ABORTED''
      else if status = 429 then ''RESOURCE_EXHAUSTED''
      else if status = 408 \<or> status = 504 then ''DEADLINE_EXCEEDED''
      else if status = 503 \<or> status = 502 then ''UNAVAILABLE''
      else ''INTERNAL'')"

definition writeGeminiError :: "goerr \<Rightarrow> Header \<Rightarrow> errorResponse" where
  "writeGeminiError err h =
     (let apiErr = AsAPIError err
      in writeJSON (ae_Status apiErr) (GeminiEnvelope (ae_Status apiErr) (ae_Message apiErr) (googleErrorStatus (ae_Status apiErr)))
           (copyProviderErrorHeaders h (ae_Headers apiErr)))"

section \<open>Ingresses\<close>

text \<open>
  A decoder gets the request and the limit on its body and answers the canonical request, \<open>None\<close> for
  \<open>nil\<close>. The decoders of the protocols parse JSON and are arguments.
\<close>

type_synonym RequestDecoder = "apiRequest \<Rightarrow> int \<Rightarrow> goerr + Request option"
type_synonym IngressAuthenticator = "Config \<Rightarrow> apiRequest \<Rightarrow> goerr + Principal option"
type_synonym IngressErrorWriter = "goerr \<Rightarrow> Header \<Rightarrow> errorResponse"

text \<open>What a resolver answers: the operation, the decoder and the request to decode, or an error with the operation.\<close>

type_synonym resolution = "Operation \<times> (goerr + RequestDecoder option \<times> apiRequest)"

record IngressRoute =
  ir_Pattern :: string
  ir_Method :: string
  ir_Operation :: Operation
  ir_Decoder :: "RequestDecoder option"
  ir_Resolve :: "(apiRequest \<Rightarrow> resolution) option"

record Ingress =
  ig_Provider :: string
  ig_Routes :: "IngressRoute list"
  ig_Authenticate :: "IngressAuthenticator option"
  ig_WriteError :: "IngressErrorWriter option"
  ig_MatchPath :: "(string \<Rightarrow> bool) option"
  ig_Fallback :: bool

definition notFound :: goerr where
  "notFound = api (NewError 404 ''invalid_request_error'' ''not_found'' ''endpoint not found'')"

definition ingressNotConfigured :: goerr where
  "ingressNotConfigured =
     api (NewError 500 ''server_error'' ''ingress_not_configured'' ''ingress request decoder is not configured'')"

definition ir_resolve :: "IngressRoute \<Rightarrow> apiRequest \<Rightarrow> resolution" where
  "ir_resolve route r =
     (case ir_Resolve route of
        Some resolve \<Rightarrow> resolve r
      | None \<Rightarrow>
          (case ir_Decoder route of
             None \<Rightarrow> (ir_Operation route, Inl ingressNotConfigured)
           | Some decoder \<Rightarrow> (ir_Operation route, Inr (Some decoder, r))))"

definition ig_matches :: "Ingress \<Rightarrow> string \<Rightarrow> bool" where
  "ig_matches ingress path =
     (case ig_MatchPath ingress of
        Some matchPath \<Rightarrow> matchPath path
      | None \<Rightarrow>
          list_ex (\<lambda>route. if HasSuffix (ir_Pattern route) ''/'' then HasPrefix path (ir_Pattern route)
                           else path = ir_Pattern route) (ig_Routes ingress))"

definition providerName :: "Ingress \<Rightarrow> string" where
  "providerName ingress = (let provider = TrimSpace (ig_Provider ingress) in if provider \<noteq> [] then provider else ''unknown'')"

definition ig_authenticate :: "'key jwtLibrary \<Rightarrow> Ingress \<Rightarrow> IngressAuthenticator" where
  "ig_authenticate lib ingress =
     (case ig_Authenticate ingress of Some a \<Rightarrow> a | None \<Rightarrow> bearerIngressAuthenticator lib [])"

definition ig_writeError :: "Ingress \<Rightarrow> IngressErrorWriter" where
  "ig_writeError ingress = (case ig_WriteError ingress of Some w \<Rightarrow> w | None \<Rightarrow> writeOpenAIError)"

definition ingressForPath :: "'key jwtLibrary \<Rightarrow> Ingress list \<Rightarrow> string \<Rightarrow> Ingress" where
  "ingressForPath lib ingresses path =
     (case find (\<lambda>i. \<not> ig_Fallback i \<and> ig_matches i path) ingresses of
        Some i \<Rightarrow> i
      | None \<Rightarrow>
          (case find (\<lambda>i. ig_matches i path) ingresses of
             Some i \<Rightarrow> i
           | None \<Rightarrow>
               (case find ig_Fallback ingresses of
                  Some i \<Rightarrow> i
                | None \<Rightarrow>
                    \<lparr>ig_Provider = ''unknown'', ig_Routes = [], ig_Authenticate = Some (bearerIngressAuthenticator lib []),
                     ig_WriteError = Some writeOpenAIError, ig_MatchPath = None, ig_Fallback = True\<rparr>)))"

section \<open>The protocols\<close>

definition AnthropicIngress :: "'key jwtLibrary \<Rightarrow> RequestDecoder \<Rightarrow> Ingress" where
  "AnthropicIngress lib anthropicRequest =
     \<lparr>ig_Provider = ''anthropic'',
      ig_Routes = [\<lparr>ir_Pattern = ''/v1/messages'', ir_Method = ''POST'', ir_Operation = OpChatCompletions,
                    ir_Decoder = Some anthropicRequest, ir_Resolve = None\<rparr>],
      ig_Authenticate = Some (bearerIngressAuthenticator lib ''x-api-key''),
      ig_WriteError = Some writeAnthropicError,
      ig_MatchPath = Some (\<lambda>path. HasPrefix path ''/v1/messages''), ig_Fallback = False\<rparr>"

definition openAIRoute :: "(Operation \<Rightarrow> RequestDecoder) \<Rightarrow> string \<Rightarrow> Operation \<Rightarrow> IngressRoute" where
  "openAIRoute openAIRequest pattern op =
     \<lparr>ir_Pattern = pattern, ir_Method = ''POST'', ir_Operation = op, ir_Decoder = Some (openAIRequest op), ir_Resolve = None\<rparr>"

definition OpenAIIngress :: "'key jwtLibrary \<Rightarrow> (Operation \<Rightarrow> RequestDecoder) \<Rightarrow> Ingress" where
  "OpenAIIngress lib openAIRequest =
     \<lparr>ig_Provider = ''openai'',
      ig_Routes = [openAIRoute openAIRequest ''/v1/chat/completions'' OpChatCompletions,
                   openAIRoute openAIRequest ''/v1/responses'' OpResponses,
                   openAIRoute openAIRequest ''/v1/completions'' OpCompletions,
                   openAIRoute openAIRequest ''/v1/embeddings'' OpEmbeddings],
      ig_Authenticate = Some (bearerIngressAuthenticator lib []),
      ig_WriteError = Some writeOpenAIError,
      ig_MatchPath = None, ig_Fallback = True\<rparr>"

text \<open>\<open>url.PathUnescape\<close>: an error for a percent sign without two hexadecimal digits.\<close>

definition unhex :: "char \<Rightarrow> nat option" where
  "unhex c =
     (if 48 \<le> byte c \<and> byte c \<le> 57 then Some (byte c - 48)
      else if 97 \<le> byte c \<and> byte c \<le> 102 then Some (byte c - 87)
      else if 65 \<le> byte c \<and> byte c \<le> 70 then Some (byte c - 55)
      else None)"

fun PathUnescape :: "string \<Rightarrow> string option" where
  "PathUnescape [] = Some []"
| "PathUnescape (c # cs) =
     (if c = CHR ''%'' then
        (case cs of
           a # b # rest \<Rightarrow>
             (case (unhex a, unhex b, PathUnescape rest) of
                (Some x, Some y, Some out) \<Rightarrow> Some (char_of (16 * x + y) # out)
              | _ \<Rightarrow> None)
         | _ \<Rightarrow> None)
      else map_option ((#) c) (PathUnescape cs))"

definition TrimSuffix :: "string \<Rightarrow> string \<Rightarrow> string" where
  "TrimSuffix s sfx = (if HasSuffix s sfx then take (length s - length sfx) s else s)"

definition geminiSuffix :: "string \<Rightarrow> (string \<times> Operation) option" where
  "geminiSuffix rest =
     (if HasSuffix rest '':streamGenerateContent'' then Some (TrimSuffix rest '':streamGenerateContent'', OpChatCompletions)
      else if HasSuffix rest '':generateContent'' then Some (TrimSuffix rest '':generateContent'', OpChatCompletions)
      else if HasSuffix rest '':embedContent'' then Some (TrimSuffix rest '':embedContent'', OpEmbeddings)
      else None)"

definition parseGeminiOperation :: "string \<Rightarrow> string \<Rightarrow> (string \<times> Operation) option" where
  "parseGeminiOperation path pre =
     (case strip_prefix pre path of
        None \<Rightarrow> None
      | Some rest \<Rightarrow>
          if rest = [] then None
          else (case geminiSuffix rest of
                  None \<Rightarrow> None
                | Some (model, op) \<Rightarrow>
                    (case PathUnescape (TrimSpace model) of
                       None \<Rightarrow> None
                     | Some model \<Rightarrow>
                         if model = [] \<or> ContainsStr model ''/'' then None else Some (model, op))))"

text \<open>
  The Gemini decoders take the model from the path. The API version of the path, a hint for the adapter
  only, is not part of the model's request.
\<close>

definition geminiDecoder :: "RequestDecoder \<Rightarrow> string \<Rightarrow> RequestDecoder" where
  "geminiDecoder decode model r maxBytes =
     (case decode r maxBytes of
        Inl e \<Rightarrow> Inl e
      | Inr None \<Rightarrow> Inr None
      | Inr (Some out) \<Rightarrow> Inr (Some (out\<lparr>rq_Model := model\<rparr>)))"

definition geminiRoute ::
  "RequestDecoder \<Rightarrow> RequestDecoder \<Rightarrow> (apiRequest \<Rightarrow> string \<Rightarrow> apiRequest) \<Rightarrow> string \<Rightarrow> IngressRoute" where
  "geminiRoute generateRequest embeddingRequest withModelQuery pre =
     \<lparr>ir_Pattern = pre, ir_Method = ''POST'', ir_Operation = OpChatCompletions, ir_Decoder = None,
      ir_Resolve = Some (\<lambda>r.
        case parseGeminiOperation (aq_Path r) pre of
          None \<Rightarrow> (OpChatCompletions, Inl notFound)
        | Some (model, op) \<Rightarrow>
            (let request = withModelQuery r model
             in if op = OpChatCompletions then (op, Inr (Some (geminiDecoder generateRequest model), request))
                else if op = OpEmbeddings then (op, Inr (Some (geminiDecoder embeddingRequest model), request))
                else (op, Inl (api (UnsupportedOperation ''gemini operation is not supported'')))))\<rparr>"

definition GeminiIngress ::
  "'key jwtLibrary \<Rightarrow> RequestDecoder \<Rightarrow> RequestDecoder \<Rightarrow> (apiRequest \<Rightarrow> string \<Rightarrow> apiRequest) \<Rightarrow> Ingress" where
  "GeminiIngress lib generateRequest embeddingRequest withModelQuery =
     \<lparr>ig_Provider = ''gemini'',
      ig_Routes = [geminiRoute generateRequest embeddingRequest withModelQuery ''/v1beta/models/'',
                   geminiRoute generateRequest embeddingRequest withModelQuery ''/v1/models/''],
      ig_Authenticate = Some (bearerIngressAuthenticator lib ''x-goog-api-key''),
      ig_WriteError = Some writeGeminiError,
      ig_MatchPath = Some (\<lambda>path. HasPrefix path ''/v1beta/'' \<or> HasPrefix path ''/v1/models/''),
      ig_Fallback = False\<rparr>"

section \<open>Handling an operation\<close>

text \<open>
  The steps of a request an ingress takes, in the order they happen. \<open>'x\<close> is an execution of the engine;
  the write of its result ends with the usage and the error it reports, or panics.
\<close>

datatype 'x ingressEvent =
  Authenticated "Principal option"
| Decoded int
| Executed Request
| Written 'x
| Settled 'x Usage "goerr option"
| ErrorWritten goerr

datatype writeOutcome = WriteDone Usage "goerr option" | WritePanicked

record 'x engineEnv =
  ee_execute :: "Config \<Rightarrow> Principal option \<Rightarrow> Request \<Rightarrow> goerr + 'x"
  ee_write :: "'x \<Rightarrow> writeOutcome"

definition invalidIngressRequest :: goerr where
  "invalidIngressRequest =
     api (NewError 500 ''server_error'' ''invalid_ingress_request'' ''ingress decoder returned no request'')"

text \<open>The write of an execution's result and the deferred settlement, which runs on a panic too.\<close>

definition writeAndSettle :: "'x engineEnv \<Rightarrow> 'x \<Rightarrow> 'x ingressEvent list" where
  "writeAndSettle env exec =
     (case ee_write env exec of
        WriteDone actual responseErr \<Rightarrow> [Written exec, Settled exec actual responseErr]
      | WritePanicked \<Rightarrow> [Settled exec zero_usage (Some (Plain ''response handling panicked''))])"

definition handleIngressOperation ::
  "'key jwtLibrary \<Rightarrow> 'x engineEnv \<Rightarrow> ConfigStore \<Rightarrow> Ingress \<Rightarrow> Operation \<Rightarrow> RequestDecoder \<Rightarrow> string \<Rightarrow> instant \<Rightarrow> apiRequest \<Rightarrow>
     'x ingressEvent list" where
  "handleIngressOperation lib env store ingress op decoder generated now r =
     (case store of
        None \<Rightarrow> [ErrorWritten notReady]
      | Some cfg \<Rightarrow>
          (case ig_authenticate lib ingress cfg r of
             Inl e \<Rightarrow> [ErrorWritten e]
           | Inr who \<Rightarrow>
               Authenticated who # Decoded (ac_MaxBodyBytes (cf_Auth cfg)) #
               (case decoder r (ac_MaxBodyBytes (cf_Auth cfg)) of
                  Inl e \<Rightarrow> [ErrorWritten e]
                | Inr None \<Rightarrow> [ErrorWritten invalidIngressRequest]
                | Inr (Some request) \<Rightarrow>
                    (let request = request\<lparr>rq_Provider := providerName ingress, rq_Operation := op,
                                      rq_Meta := (rq_Meta request)\<lparr>m_RequestID := requestID generated r, m_ReceivedAt := now\<rparr>\<rparr>
                     in Executed request #
                        (case ee_execute env cfg who request of
                           Inl e \<Rightarrow> [ErrorWritten e]
                         | Inr exec \<Rightarrow> writeAndSettle env exec)))))"

definition ingressRouteHandler ::
  "'key jwtLibrary \<Rightarrow> 'x engineEnv \<Rightarrow> ConfigStore \<Rightarrow> Ingress \<Rightarrow> IngressRoute \<Rightarrow> string \<Rightarrow> instant \<Rightarrow> apiRequest \<Rightarrow>
     'x ingressEvent list" where
  "ingressRouteHandler lib env store ingress route generated now r =
     (if aq_Method r \<noteq> ir_Method route then [ErrorWritten methodNotAllowed]
      else (case ir_resolve route r of
              (op, Inl e) \<Rightarrow> [ErrorWritten e]
            | (op, Inr (None, request)) \<Rightarrow> [ErrorWritten ingressNotConfigured]
            | (op, Inr (Some decoder, request)) \<Rightarrow>
                handleIngressOperation lib env store ingress (if op = [] then ir_Operation route else op) decoder generated now request))"

text \<open>The write of an execution's result: a stream when it has one, else its body.\<close>

definition writeExecution ::
  "writerEnv \<Rightarrow> 'b Reader \<Rightarrow> ('b \<Rightarrow> goerr option \<times> 'b) \<Rightarrow> nat \<Rightarrow> responseWriter \<Rightarrow> Result \<times> 'b option \<Rightarrow> writeOutcome option" where
  "writeExecution env Read Close fuel w exec =
     (case exec of
        (result, Some b) \<Rightarrow>
          map_option (\<lambda>((actual, responseErr), _). WriteDone actual responseErr)
            (writeProviderStream env Read Close fuel (Some result) (Some b) w)
      | (result, None) \<Rightarrow>
          (case writeProviderResult env (Some result) w of ((actual, responseErr), _) \<Rightarrow> Some (WriteDone actual responseErr)))"

section \<open>Credentials\<close>

definition bearerOf :: "apiRequest \<Rightarrow> string option" where
  "bearerOf r = bearerToken (TrimSpace (h_Get (aq_Header r) ''Authorization''))"

lemma authenticateBearerRequest_cases:
  "authenticateBearerRequest lib cfg r permitAnonymous = Inr who \<Longrightarrow>
     (case who of
        None \<Rightarrow> permitAnonymous \<and> ac_AllowAnonymous (cf_Auth cfg)
      | Some p \<Rightarrow> (\<exists>token. bearerOf r = Some token \<and> authentic lib (authOf cfg) token p))"
  by (auto simp: authenticateBearerRequest_def bearerOf_def Let_def someInr_def
      split: if_splits option.splits sum.splits dest: AuthenticatePrincipal_authentic)

text \<open>The credential an ingress with a native header looks at.\<close>

definition presented :: "string \<Rightarrow> apiRequest \<Rightarrow> string option" where
  "presented header r =
     (if TrimSpace (h_Get (aq_Header r) ''Authorization'') \<noteq> [] then bearerOf r
      else if header = [] \<or> TrimSpace (h_Get (aq_Header r) header) = [] then None
      else Some (TrimSpace (h_Get (aq_Header r) header)))"

lemma bearerIngressAuthenticator_cases:
  "bearerIngressAuthenticator lib header cfg r = Inr who \<Longrightarrow>
     (case who of
        None \<Rightarrow> ac_AllowAnonymous (cf_Auth cfg) \<and> presented header r = None
      | Some p \<Rightarrow> (\<exists>token. presented header r = Some token \<and> authentic lib (authOf cfg) token p))"
  by (auto simp: bearerIngressAuthenticator_def bearerOf_def presented_def Let_def someInr_def
      split: if_splits option.splits sum.splits dest: AuthenticatePrincipal_authentic)

lemma authenticateLimitsRequest_Inr:
  assumes "authenticateLimitsRequest lib store r = Inr (cfg, p, subject)"
  shows "store = Some cfg" "subject = Principal_Subject p" "su_KeyID subject \<noteq> []"
    "\<exists>token. bearerOf r = Some token \<and> authentic lib (authOf cfg) token p"
  using assms authenticateBearerRequest_cases [of lib cfg r False "Some p"]
  by (auto simp: authenticateLimitsRequest_def Let_def split: option.splits sum.splits if_splits)

section \<open>Writing limits\<close>

lemma api_validateLimitSpec_None:
  "api_validateLimitSpec errorText cfg limit = None \<longleftrightarrow>
     ValidateLimitSpec limit = None \<and> set (slice_elems (ls_ProviderAllowlist limit)) \<subseteq> knownProviders cfg"
proof -
  have "set (slice_elems (ls_ProviderAllowlist limit)) \<subseteq> knownProviders cfg \<longleftrightarrow>
      filter (\<lambda>p. p \<notin> knownProviders cfg) (slice_elems (ls_ProviderAllowlist limit)) = []"
    by (auto simp: filter_empty_conv)
  then show ?thesis by (auto simp: api_validateLimitSpec_def split: option.splits list.splits)
qed

lemma decodeLimits_Inr: "decodeLimits b = Inr limit \<longleftrightarrow> lb_Limits b = Inr limit \<and> lb_Trailing b = None"
  by (auto simp: decodeLimits_def split: sum.splits option.splits)

text \<open>A write that reaches the store.\<close>

definition authorized_write ::
  "'key jwtLibrary \<Rightarrow> ConfigStore \<Rightarrow> (int \<Rightarrow> limitsBody) \<Rightarrow> apiRequest \<Rightarrow> string \<Rightarrow> LimitSpec \<Rightarrow> bool" where
  "authorized_write lib store body r keyID limit \<longleftrightarrow>
     (\<exists>cfg p token.
        store = Some cfg \<and> bearerOf r = Some token \<and> authentic lib (authOf cfg) token p \<and>
        HasPermission p PermissionManageLimits \<and> keyID = su_KeyID (Principal_Subject p) \<and> keyID \<noteq> [] \<and>
        lb_Limits (body (maxLimitsBytes cfg)) = Inr limit \<and> lb_Trailing (body (maxLimitsBytes cfg)) = None \<and>
        ValidateLimitSpec limit = None \<and> set (slice_elems (ls_ProviderAllowlist limit)) \<subseteq> knownProviders cfg)"

lemma putLimits_cases:
  assumes "putLimits lib errorText s store body r m = (out, m')"
  obtains e where "out = Inl e" "m' = m"
  | put keyID limit err where "ls_put s = Some put" "authorized_write lib store body r keyID limit"
      "\<exists>cfg p subject. authenticateLimitsRequest lib store r = Inr (cfg, p, subject) \<and> keyID = su_KeyID subject"
      "put keyID limit m = (err, m')"
      "out = (case err of
         Some e \<Rightarrow> Inl (quotaLimitStoreError (ls_ctxErr s) e)
       | None \<Rightarrow> Inr (withUsage s \<lparr>sl_Ref = \<lparr>sr_Kind = ScopeKey, sr_ID = keyID\<rparr>, sl_Limits = limit\<rparr>
           \<lparr>lp_KeyID = keyID, lp_Source = ''dynamic'', lp_Limits = limit, lp_Usage = None, lp_UsageUnavailable = False\<rparr>))"
proof (cases "\<exists>e. out = Inl e \<and> m' = m")
  case True
  then show ?thesis using that(1) by blast
next
  case False
  then obtain put cfg p subject limit err where
    h: "ls_put s = Some put" "authenticateLimitsRequest lib store r = Inr (cfg, p, subject)"
      "HasPermission p PermissionManageLimits" "decodeLimits (body (maxLimitsBytes cfg)) = Inr limit"
      "api_validateLimitSpec errorText cfg limit = None" "put (su_KeyID subject) limit m = (err, m')"
      "out = (case err of
         Some e \<Rightarrow> Inl (quotaLimitStoreError (ls_ctxErr s) e)
       | None \<Rightarrow> Inr (withUsage s \<lparr>sl_Ref = \<lparr>sr_Kind = ScopeKey, sr_ID = su_KeyID subject\<rparr>, sl_Limits = limit\<rparr>
           \<lparr>lp_KeyID = su_KeyID subject, lp_Source = ''dynamic'', lp_Limits = limit, lp_Usage = None, lp_UsageUnavailable = False\<rparr>))"
    using assms unfolding putLimits_def
    by (fastforce split: option.splits sum.splits prod.splits if_splits)
  note a = authenticateLimitsRequest_Inr [OF h(2)]
  from a h(3-5) have "authorized_write lib store body r (su_KeyID subject) limit"
    unfolding authorized_write_def decodeLimits_Inr api_validateLimitSpec_None by auto
  with h(1,2,6,7) show ?thesis using that(2) by blast
qed

lemma resolveLimitsScope_state:
  "resolveLimitsScope s cfg subject m = (out, m') \<Longrightarrow>
     m' = m \<or> (\<exists>get. ls_get s = Some get \<and> m' = snd (get (su_KeyID subject) m))"
  by (cases "ls_get s") (auto simp: resolveLimitsScope_def Let_def split: prod.splits sum.splits bool.splits)

lemma getLimits_state:
  assumes "getLimits lib s store r m = (out, m')" "m' \<noteq> m"
  shows "\<exists>get cfg p subject. ls_get s = Some get \<and> authenticateLimitsRequest lib store r = Inr (cfg, p, subject) \<and>
    m' = snd (get (su_KeyID subject) m)"
  using assms by (auto simp: getLimits_def split: sum.splits prod.splits option.splits dest!: resolveLimitsScope_state)

text \<open>
  C38. The limits endpoint writes to the store only for an authenticated principal with the permission
  \<open>manage_limits\<close>: the write goes to the principal's own quota key, with the limits of the request's body,
  which are valid and allow only providers that some route has. The only other call that may touch the
  store's state is its own \<open>Get\<close>, on a \<open>GET\<close> of an authenticated principal and with its own key; every other
  request leaves the store as it was.
\<close>

theorem limits_written_by_managers:
  assumes "limits lib errorText s store body r m = (out, m')" "m' \<noteq> m"
  shows "(aq_Method r = ''PUT'' \<and>
      (\<exists>put keyID limit. ls_put s = Some put \<and> authorized_write lib store body r keyID limit \<and>
         m' = snd (put keyID limit m))) \<or>
    (aq_Method r = ''GET'' \<and>
      (\<exists>get cfg p token. ls_get s = Some get \<and> store = Some cfg \<and> bearerOf r = Some token \<and>
         authentic lib (authOf cfg) token p \<and> m' = snd (get (su_KeyID (Principal_Subject p)) m)))"
proof (cases "aq_Method r = ''GET''")
  case True
  with assms(1) have "getLimits lib s store r m = (out, m')" by (simp add: limits_def)
  from getLimits_state [OF this assms(2)] obtain get cfg p subject where
    g: "ls_get s = Some get" "authenticateLimitsRequest lib store r = Inr (cfg, p, subject)" "m' = snd (get (su_KeyID subject) m)"
    by blast
  with authenticateLimitsRequest_Inr [OF g(2)] True show ?thesis by blast
next
  case False
  then have put: "aq_Method r = ''PUT''" "putLimits lib errorText s store body r m = (out, m')"
    using assms by (auto simp: limits_def split: if_splits)
  from put(2) show ?thesis by (rule putLimits_cases) (use put(1) assms(2) in auto, metis snd_conv)
qed

section \<open>The limit store behind the endpoint\<close>

text \<open>What the endpoint relies on: a limit that was put is the one that is found, up to empty lists.\<close>

locale limit_backend =
  fixes get :: "string \<Rightarrow> 'm \<Rightarrow> limitAnswer \<times> 'm" and put :: "string \<Rightarrow> LimitSpec \<Rightarrow> 'm \<Rightarrow> goerr option \<times> 'm"
  assumes put_get: "k \<noteq> [] \<Longrightarrow> put k l m = (None, m') \<Longrightarrow> fst (get k m') = Inr (cloneLimitSpec l, True)"
begin

lemma put_then_read:
  assumes "ls_get s = Some get" "ls_put s = Some put"
    and "putLimits lib errorText s store body r m = (Inr resp, m')"
    and "aq_Header r' = aq_Header r"
  shows "\<exists>resp' m''. getLimits lib s store r' m' = (Inr resp', m'') \<and> lp_KeyID resp' = lp_KeyID resp \<and>
    lp_Source resp' = ''dynamic'' \<and> lp_Limits resp' = cloneLimitSpec (lp_Limits resp)"
  using assms(3)
proof (rule putLimits_cases)
  fix put' keyID limit err
  assume p: "ls_put s = Some put'" "put' keyID limit m = (err, m')"
    and au: "\<exists>cfg p subject. authenticateLimitsRequest lib store r = Inr (cfg, p, subject) \<and> keyID = su_KeyID subject"
    and o: "Inr resp = (case err of
       Some e \<Rightarrow> Inl (quotaLimitStoreError (ls_ctxErr s) e)
     | None \<Rightarrow> Inr (withUsage s \<lparr>sl_Ref = \<lparr>sr_Kind = ScopeKey, sr_ID = keyID\<rparr>, sl_Limits = limit\<rparr>
         \<lparr>lp_KeyID = keyID, lp_Source = ''dynamic'', lp_Limits = limit, lp_Usage = None, lp_UsageUnavailable = False\<rparr>))"
  from au obtain cfg p subject where a: "authenticateLimitsRequest lib store r = Inr (cfg, p, subject)" "keyID = su_KeyID subject"
    by blast
  have "authenticateBearerRequest lib c r' b = authenticateBearerRequest lib c r b" for c b
    using assms(4) by (simp add: authenticateBearerRequest_def)
  then have a': "authenticateLimitsRequest lib store r' = Inr (cfg, p, subject)"
    using a(1) by (cases store) (simp_all add: authenticateLimitsRequest_def)
  have k: "keyID \<noteq> []" using authenticateLimitsRequest_Inr(3) [OF a(1)] a(2) by simp
  have sel: "lp_KeyID (withUsage s sc x) = lp_KeyID x" "lp_Source (withUsage s sc x) = lp_Source x"
    "lp_Limits (withUsage s sc x) = lp_Limits x" for sc x
    by (simp_all add: withUsage_def split: option.split sum.split)
  have "err = None" using o by (cases err) simp_all
  with o have resp: "lp_KeyID resp = keyID" "lp_Limits resp = limit" by (simp_all add: sel)
  have "put keyID limit m = (None, m')" using p assms(2) \<open>err = None\<close> by simp
  then obtain m'' where g: "get keyID m' = (Inr (cloneLimitSpec limit, True), m'')"
    using put_get [OF k] by (metis prod.collapse)
  show ?thesis using g a' a(2) assms(1) resp
    by (auto simp: getLimits_def resolveLimitsScope_def sel)
qed simp

end

text \<open>The in-memory store and the snapshot store are such stores.\<close>

interpretation memlimits: limit_backend "\<lambda>k m. (ml_Get (\<lambda>_. None) k m, m)" "ml_Put (\<lambda>_. None)"
  by unfold_locales (auto simp: ml_Put_def ml_Get_def found_Some split: option.splits)

interpretation snap: limit_backend "\<lambda>k r. (rl_Get k r, r)" "rl_Put sourcePut" for sourcePut
  by unfold_locales (auto simp: rl_Put_def rl_Get_def found_Some Let_def split: option.splits if_splits)

definition memoryLimitServer :: "(ScopedLimit \<Rightarrow> goerr + QuotaUsage) option \<Rightarrow> MemoryQuotaLimitStore limitServer" where
  "memoryLimitServer usage =
     \<lparr>ls_get = Some (\<lambda>k m. (ml_Get (\<lambda>_. None) k m, m)), ls_put = Some (ml_Put (\<lambda>_. None)), ls_usage = usage, ls_ctxErr = None\<rparr>"

text \<open>
  C39. What a principal writes to the limits endpoint is what it reads back: after a \<open>PUT\<close> that succeeds, a
  \<open>GET\<close> with the same credentials succeeds and shows the same quota key, the source \<open>dynamic\<close> and the limits
  that were written, with empty allow lists left out; the quota usage has no part in it.
\<close>

theorem limits_roundtrip:
  assumes "limits lib errorText (memoryLimitServer usage) store body r m = (Inr resp, m')" "aq_Method r = ''PUT''"
    and "aq_Method r' = ''GET''" "aq_Header r' = aq_Header r"
  shows "\<exists>resp'. limits lib errorText (memoryLimitServer usage) store body r' m' = (Inr resp', m') \<and>
    lp_KeyID resp' = lp_KeyID resp \<and> lp_Source resp' = ''dynamic'' \<and> lp_Limits resp' = cloneLimitSpec (lp_Limits resp)"
proof -
  let ?s = "memoryLimitServer usage"
  have put: "putLimits lib errorText ?s store body r m = (Inr resp, m')" using assms(1,2) by (simp add: limits_def)
  from memlimits.put_then_read [OF _ _ put assms(4)] obtain resp' m'' where
    g: "getLimits lib ?s store r' m' = (Inr resp', m'')" "lp_KeyID resp' = lp_KeyID resp"
      "lp_Source resp' = ''dynamic''" "lp_Limits resp' = cloneLimitSpec (lp_Limits resp)"
    by (auto simp: memoryLimitServer_def)
  have "m'' = m'"
    using getLimits_state [OF g(1)] by (fastforce simp: memoryLimitServer_def)
  with g assms(3) show ?thesis by (simp add: limits_def)
qed

section \<open>The order of an operation\<close>

definition is_settlement :: "'x ingressEvent \<Rightarrow> bool" where
  "is_settlement e \<longleftrightarrow> (case e of Settled _ _ _ \<Rightarrow> True | _ \<Rightarrow> False)"

definition settlement :: "'x engineEnv \<Rightarrow> 'x \<Rightarrow> 'x ingressEvent" where
  "settlement env x =
     (case ee_write env x of
        WriteDone usage err \<Rightarrow> Settled x usage err
      | WritePanicked \<Rightarrow> Settled x zero_usage (Some (Plain ''response handling panicked'')))"

lemma settlement_only: "filter is_settlement (writeAndSettle env x) = [settlement env x]"
  by (simp add: writeAndSettle_def settlement_def is_settlement_def split: writeOutcome.split)

text \<open>
  C25. An operation of an ingress authenticates before anything of the body is read, and settles what it
  executed: a request either ends with an error before its body was touched, or its credential was
  checked (a bearer token or the protocol's own header, authentic under the configuration; none only when
  anonymous access is allowed) and the decoder then got the configured limit of the body. Exactly the
  requests whose execution succeeded are settled, once, with what the write reported, and with an error when
  the write panicked; a request that was not executed, or whose execution failed, is not settled and gets
  an error.
\<close>

theorem operation_authenticated_and_settled:
  assumes "ig_Authenticate ingress = Some (bearerIngressAuthenticator lib header)"
    and "handleIngressOperation lib env store ingress op decoder generated now r = trace"
  shows "(\<exists>e. trace = [ErrorWritten e]) \<or>
    (\<exists>cfg who rest. store = Some cfg \<and> trace = Authenticated who # Decoded (ac_MaxBodyBytes (cf_Auth cfg)) # rest \<and>
       (case who of
          None \<Rightarrow> ac_AllowAnonymous (cf_Auth cfg) \<and> presented header r = None
        | Some p \<Rightarrow> (\<exists>token. presented header r = Some token \<and> authentic lib (authOf cfg) token p)) \<and>
       ((\<exists>e. last rest = ErrorWritten e \<and> filter is_settlement trace = [] \<and>
           (\<forall>q. Executed q \<in> set rest \<longrightarrow> ee_execute env cfg who q = Inl e)) \<or>
        (\<exists>q x. hd rest = Executed q \<and> rq_Provider q = providerName ingress \<and> ee_execute env cfg who q = Inr x \<and>
           filter is_settlement trace = [settlement env x])))"
proof (cases "\<exists>e. trace = [ErrorWritten e]")
  case False
  then obtain cfg who where h: "store = Some cfg" "bearerIngressAuthenticator lib header cfg r = Inr who"
    using assms by (auto simp: handleIngressOperation_def ig_authenticate_def split: option.splits sum.splits)
  let ?rest = "drop 2 trace"
  have t: "trace = Authenticated who # Decoded (ac_MaxBodyBytes (cf_Auth cfg)) # ?rest"
    using h assms by (auto simp: handleIngressOperation_def ig_authenticate_def)
  have s: "filter is_settlement trace = filter is_settlement ?rest" by (subst t) (simp add: is_settlement_def)
  have "(\<exists>e. last ?rest = ErrorWritten e \<and> filter is_settlement ?rest = [] \<and>
      (\<forall>q. Executed q \<in> set ?rest \<longrightarrow> ee_execute env cfg who q = Inl e)) \<or>
    (\<exists>q x. hd ?rest = Executed q \<and> rq_Provider q = providerName ingress \<and> ee_execute env cfg who q = Inr x \<and>
      filter is_settlement ?rest = [settlement env x])"
  proof (cases "decoder r (ac_MaxBodyBytes (cf_Auth cfg))")
    case (Inl e)
    then show ?thesis using h assms(1,2) by (auto simp: handleIngressOperation_def ig_authenticate_def is_settlement_def)
  next
    case (Inr request)
    show ?thesis
    proof (cases request)
      case None
      with Inr show ?thesis using h assms(1,2) by (auto simp: handleIngressOperation_def ig_authenticate_def is_settlement_def)
    next
      case (Some q0)
      obtain q where q: "rq_Provider q = providerName ingress"
        "?rest = Executed q # (case ee_execute env cfg who q of Inl e \<Rightarrow> [ErrorWritten e] | Inr x \<Rightarrow> writeAndSettle env x)"
        using that h assms(1,2) Inr Some by (auto simp: handleIngressOperation_def ig_authenticate_def Let_def)
      show ?thesis using q by (cases "ee_execute env cfg who q") (auto simp: settlement_only is_settlement_def)
    qed
  qed
  with t s h(1) bearerIngressAuthenticator_cases [OF h(2)] show ?thesis
    by (intro disjI2 exI [of _ cfg] exI [of _ who] exI [of _ ?rest]) simp
qed simp

text \<open>The handler of a route ends with an error of its own or handles the operation it resolved.\<close>

lemma ingressRouteHandler_cases:
  assumes "ingressRouteHandler lib env store ingress route generated now r = trace"
  obtains e where "trace = [ErrorWritten e]"
  | op decoder request where "trace = handleIngressOperation lib env store ingress op decoder generated now request"
      "aq_Method r = ir_Method route" "\<exists>op'. ir_resolve route r = (op', Inr (Some decoder, request))"
  using assms
  by (auto simp: ingressRouteHandler_def split: if_splits prod.splits sum.splits option.splits)

lemma gemini_path:
  "parseGeminiOperation path pre = Some (model, op) \<Longrightarrow>
     model \<noteq> [] \<and> \<not> ContainsStr model ''/'' \<and> (op = OpChatCompletions \<or> op = OpEmbeddings)"
  by (auto simp: parseGeminiOperation_def geminiSuffix_def split: option.splits if_splits)

section \<open>Concrete runs\<close>

definition demo_manager :: Principal where
  "demo_manager = demo_principal\<lparr>pr_Permissions := [PermissionManageLimits]\<rparr>"

definition demo_managed :: Config where
  "demo_managed = demo_file\<lparr>cf_Auth := (cf_Auth demo_file)\<lparr>ac_Tokens := [(''t'', demo_manager)]\<rparr>\<rparr>"

definition demo_call_limits :: "string \<Rightarrow> apiRequest" where
  "demo_call_limits meth = \<lparr>aq_Method = meth, aq_Path = ''/v1/limits'', aq_Header = [(''Authorization'', [''Bearer t''])], aq_ContextID = []\<rparr>"

definition demo_limits_body :: "int \<Rightarrow> limitsBody" where
  "demo_limits_body n = \<lparr>lb_Limits = Inr zero_limit, lb_Trailing = None\<rparr>"

abbreviation demo_jwt_lib where
  "demo_jwt_lib \<equiv> gp_JWT demo_gateway"

lemma demo_bearer: "bearerToken (TrimSpace (h_Get [(''Authorization'', [''Bearer t''])] ''Authorization'')) = Some ''t''"
  "TrimSpace (h_Get [(''Authorization'', [''Bearer t''])] ''Authorization'') \<noteq> []"
  by code_simp+

lemma demo_authenticated: "AuthenticatePrincipal lib (authOf demo_managed) ''t'' = Inr demo_manager"
  by (simp add: AuthenticatePrincipal_def authOf_def demo_managed_def demo_file_def AuthConfig.defs)

lemma demo_limits_authenticated:
  "authenticateLimitsRequest lib (Some demo_managed) (demo_call_limits meth) = Inr (demo_managed, demo_manager, \<lparr>su_KeyID = ''k''\<rparr>)"
proof -
  have "Principal_Subject demo_manager = \<lparr>su_KeyID = ''k''\<rparr>"
    by (simp add: Principal_Subject_def demo_manager_def demo_principal_def)
  then show ?thesis using demo_bearer demo_authenticated [of lib]
    by (simp add: authenticateLimitsRequest_def authenticateBearerRequest_def demo_call_limits_def someInr_def)
qed

lemma demo_limits_put:
  "limits lib errorText (memoryLimitServer None) (Some demo_managed) demo_limits_body (demo_call_limits ''PUT'') Map.empty =
     (Inr \<lparr>lp_KeyID = ''k'', lp_Source = ''dynamic'', lp_Limits = zero_limit, lp_Usage = None, lp_UsageUnavailable = False\<rparr>,
      [''k'' \<mapsto> zero_limit])"
proof -
  have v: "ml_Put (\<lambda>_. None) ''k'' zero_limit Map.empty = (None, [''k'' \<mapsto> zero_limit])"
    by (simp add: ml_Put_def demo_limit_valid)
  have a: "api_validateLimitSpec errorText demo_managed zero_limit = None"
    by (simp add: api_validateLimitSpec_None ValidateLimitSpec_def validateLimitSpec_def limitFields_def MaximumQuotaValue_def)
  have p: "HasPermission demo_manager PermissionManageLimits" by (simp add: HasPermission_def demo_manager_def)
  have m: "aq_Method (demo_call_limits ''PUT'') = ''PUT''" by (simp add: demo_call_limits_def)
  show ?thesis
    by (simp add: limits_def m putLimits_def memoryLimitServer_def demo_limits_authenticated p decodeLimits_def
        demo_limits_body_def a v withUsage_def)
qed

theorem limits_written_by_managers_witness:
  "\<exists>put keyID limit. ls_put (memoryLimitServer None) = Some put \<and>
     authorized_write demo_jwt_lib (Some demo_managed) demo_limits_body (demo_call_limits ''PUT'') keyID limit \<and>
     [''k'' \<mapsto> zero_limit] = snd (put keyID limit Map.empty)"
proof -
  have "aq_Method (demo_call_limits ''PUT'') = ''PUT''" by (simp add: demo_call_limits_def)
  moreover have "[''k'' \<mapsto> zero_limit] \<noteq> Map.empty" by simp
  ultimately show ?thesis using limits_written_by_managers [OF demo_limits_put [of demo_jwt_lib "\<lambda>_. []"]] by simp
qed

theorem limits_roundtrip_witness:
  "\<exists>resp'. limits demo_jwt_lib (\<lambda>_. []) (memoryLimitServer None) (Some demo_managed) demo_limits_body (demo_call_limits ''GET'')
       [''k'' \<mapsto> zero_limit] = (Inr resp', [''k'' \<mapsto> zero_limit]) \<and>
     lp_KeyID resp' = ''k'' \<and> lp_Source resp' = ''dynamic'' \<and> lp_Limits resp' = zero_limit"
proof -
  have "aq_Method (demo_call_limits ''PUT'') = ''PUT''" "aq_Method (demo_call_limits ''GET'') = ''GET''"
    "aq_Header (demo_call_limits ''GET'') = aq_Header (demo_call_limits ''PUT'')" by (simp_all add: demo_call_limits_def)
  from limits_roundtrip [OF demo_limits_put [of demo_jwt_lib "\<lambda>_. []"] this] show ?thesis
    by (auto simp: cloneLimitSpec_def cloneSlice_def)
qed

text \<open>A message with the protocol's own key; the engine answers, the write of the answer panics.\<close>

definition demo_engine_env :: "string engineEnv" where
  "demo_engine_env = \<lparr>ee_execute = (\<lambda>cfg who q. Inr (rq_Provider q)), ee_write = (\<lambda>x. WritePanicked)\<rparr>"

definition demo_message :: apiRequest where
  "demo_message = \<lparr>aq_Method = ''POST'', aq_Path = ''/v1/messages'', aq_Header = [(''X-Api-Key'', [''t''])], aq_ContextID = ''r''\<rparr>"

definition demo_decoder :: RequestDecoder where
  "demo_decoder r maxBytes = Inr (Some demo_request)"

definition demo_trace :: "string ingressEvent list" where
  "demo_trace = handleIngressOperation demo_jwt_lib demo_engine_env (Some demo_managed) (AnthropicIngress demo_jwt_lib demo_decoder)
     OpChatCompletions demo_decoder [] 0 demo_message"

theorem operation_authenticated_and_settled_witness:
  "filter is_settlement demo_trace = [Settled ''anthropic'' zero_usage (Some (Plain ''response handling panicked''))] \<and>
   authentic demo_jwt_lib (authOf demo_managed) ''t'' demo_manager"
proof -
  let ?i = "AnthropicIngress demo_jwt_lib demo_decoder"
  have i: "ig_Authenticate ?i = Some (bearerIngressAuthenticator demo_jwt_lib ''x-api-key'')" by (simp add: AnthropicIngress_def)
  have pr: "presented ''x-api-key'' demo_message = Some ''t''" "TrimSpace (h_Get (aq_Header demo_message) ''Authorization'') = []"
      "TrimSpace (h_Get (aq_Header demo_message) ''x-api-key'') = ''t''" "providerName ?i = ''anthropic''"
    by code_simp+
  have who: "bearerIngressAuthenticator demo_jwt_lib ''x-api-key'' demo_managed demo_message = Inr (Some demo_manager)"
    using pr demo_authenticated [of demo_jwt_lib] by (simp add: bearerIngressAuthenticator_def someInr_def)
  have hd: "hd demo_trace = Authenticated (Some demo_manager)" "\<nexists>e. demo_trace = [ErrorWritten e]"
    by (simp_all add: demo_trace_def handleIngressOperation_def ig_authenticate_def i who)
  have ex: "ee_execute demo_engine_env c w q = Inr (rq_Provider q)" "settlement demo_engine_env x =
      Settled x zero_usage (Some (Plain ''response handling panicked''))" for c w q x
    by (simp_all add: demo_engine_env_def settlement_def)
  have executed: "\<exists>q. Executed q \<in> set demo_trace"
    by (auto simp: demo_trace_def handleIngressOperation_def ig_authenticate_def i who demo_decoder_def Let_def)
  from operation_authenticated_and_settled [OF i demo_trace_def [symmetric]] hd(2)
  obtain who rest where t: "demo_trace = Authenticated who # Decoded (ac_MaxBodyBytes (cf_Auth demo_managed)) # rest"
    and c: "case who of
        None \<Rightarrow> ac_AllowAnonymous (cf_Auth demo_managed) \<and> presented ''x-api-key'' demo_message = None
      | Some p \<Rightarrow> (\<exists>token. presented ''x-api-key'' demo_message = Some token \<and> authentic demo_jwt_lib (authOf demo_managed) token p)"
    and d: "(\<exists>e. \<forall>q. Executed q \<in> set rest \<longrightarrow> ee_execute demo_engine_env demo_managed who q = Inl e) \<or>
      (\<exists>q x. rq_Provider q = providerName ?i \<and> ee_execute demo_engine_env demo_managed who q = Inr x \<and>
         filter is_settlement demo_trace = [settlement demo_engine_env x])"
    by blast
  have "who = Some demo_manager" using hd(1) t by (metis list.sel(1) ingressEvent.inject(1))
  then have "authentic demo_jwt_lib (authOf demo_managed) ''t'' demo_manager" using c pr(1) by simp
  moreover have "\<exists>q. Executed q \<in> set rest" using executed unfolding t by simp
  then have "filter is_settlement demo_trace = [Settled ''anthropic'' zero_usage (Some (Plain ''response handling panicked''))]"
    using d pr(4) by (auto simp: ex)
  ultimately show ?thesis by simp
qed

end
