(* ===== verification/Service_Lifecycle.thy ===== *)
theory Service_Lifecycle
  imports Configuration
begin

text \<open>
  The life of the service (\<open>app/app.go\<close>): the count of active requests, the shutdown that stops the
  server, waits for the requests or leaves the wait to the background, and closes the stores. Requests and
  the shutdown interleave; each critical section of \<open>requestMu\<close> is one step.
\<close>

section \<open>The request tracker\<close>

text \<open>
  \<open>requestsDrained\<close> is \<open>None\<close> for a nil channel, else whether it is closed. Closing a nil or closed channel
  panics, which is \<open>None\<close> below.
\<close>

record Service =
  sc_activeRequests :: int
  sc_shuttingDown :: bool
  sc_requestsDrained :: "bool option"
  sc_drainClosed :: bool

definition newService :: Service where
  "newService = \<lparr>sc_activeRequests = 0, sc_shuttingDown = False, sc_requestsDrained = None, sc_drainClosed = False\<rparr>"

definition makeDrained :: "Service \<Rightarrow> Service" where
  "makeDrained s = (if sc_requestsDrained s = None then s\<lparr>sc_requestsDrained := Some False\<rparr> else s)"

definition closeDrained :: "Service \<Rightarrow> Service option" where
  "closeDrained s =
     (if sc_requestsDrained s = Some False then Some (s\<lparr>sc_requestsDrained := Some True, sc_drainClosed := True\<rparr>) else None)"

definition beginRequest :: "Service \<Rightarrow> bool \<times> Service" where
  "beginRequest s =
     (if sc_shuttingDown s then (False, s)
      else (let s = makeDrained s in (True, s\<lparr>sc_activeRequests := sc_activeRequests s + 1\<rparr>)))"

definition endRequest :: "Service \<Rightarrow> Service option" where
  "endRequest s =
     (let s = (if sc_activeRequests s > 0 then s\<lparr>sc_activeRequests := sc_activeRequests s - 1\<rparr> else s)
      in if sc_shuttingDown s \<and> sc_activeRequests s = 0 \<and> \<not> sc_drainClosed s then closeDrained s else Some s)"

definition beginShutdown :: "Service \<Rightarrow> Service option" where
  "beginShutdown s =
     (let s = (makeDrained s)\<lparr>sc_shuttingDown := True\<rparr>
      in if sc_activeRequests s = 0 \<and> \<not> sc_drainClosed s then closeDrained s else Some s)"

section \<open>Closing the stores\<close>

text \<open>The closers among the stores, each once; \<open>None\<close> is a store that has nothing to close.\<close>

definition uniqueClosers :: "'c option list \<Rightarrow> 'c list" where
  "uniqueClosers values =
     fold (\<lambda>v out. case v of None \<Rightarrow> out | Some c \<Rightarrow> if c \<in> set out then out else out @ [c]) values []"

definition closeOperationalResources :: "('c \<Rightarrow> goerr option) \<Rightarrow> 'c list \<Rightarrow> goerr option" where
  "closeOperationalResources close closers = fold (\<lambda>c err. errors_Join [err, close c]) closers None"

definition ShutdownTimeout :: "ConfigStore option \<Rightarrow> duration" where
  "ShutdownTimeout config =
     (case config of
        Some (Some cfg) \<Rightarrow> sv_ShutdownTimeout (cf_Server cfg)
      | _ \<Rightarrow> 10 * Second)"

section \<open>The shutdown beside the requests\<close>

text \<open>
  \<open>Stopping\<close>: the server is told to stop. \<open>Awaiting\<close>: it has stopped, in time or not, with the error of
  closing the listener. \<open>Background\<close>: the call has returned, the cleanup waits for the last request.
\<close>

datatype phase =
  Serving
| Stopping
| Awaiting (stop_err: "goerr option") (listener_err: "goerr option")
| Background (result: "goerr option")
| Finished (result: "goerr option")

text \<open>\<open>lf_handlers\<close> counts the handlers between \<open>beginRequest\<close> and \<open>endRequest\<close>; \<open>lf_closed\<close> lists what was closed.\<close>

record 'c lifecycle =
  lf_service :: Service
  lf_handlers :: nat
  lf_phase :: phase
  lf_closed :: "'c list"

definition closeStores :: "'c list \<Rightarrow> phase \<Rightarrow> 'c lifecycle \<Rightarrow> 'c lifecycle" where
  "closeStores closers ph l = l\<lparr>lf_phase := ph, lf_closed := lf_closed l @ closers\<rparr>"

inductive life_step :: "('c \<Rightarrow> goerr option) \<Rightarrow> 'c list \<Rightarrow> 'c lifecycle \<Rightarrow> 'c lifecycle \<Rightarrow> bool"
  for close closers where
  admitted: "beginRequest (lf_service l) = (True, s) \<Longrightarrow>
    life_step close closers l (l\<lparr>lf_service := s, lf_handlers := Suc (lf_handlers l)\<rparr>)"
| refused: "beginRequest (lf_service l) = (False, s) \<Longrightarrow> life_step close closers l (l\<lparr>lf_service := s\<rparr>)"
| ended: "lf_handlers l = Suc n \<Longrightarrow> endRequest (lf_service l) = Some s \<Longrightarrow>
    life_step close closers l (l\<lparr>lf_service := s, lf_handlers := n\<rparr>)"
| shutdown: "lf_phase l = Serving \<Longrightarrow> beginShutdown (lf_service l) = Some s \<Longrightarrow>
    life_step close closers l (l\<lparr>lf_service := s, lf_phase := Stopping\<rparr>)"
| stopped: "lf_phase l = Stopping \<Longrightarrow> life_step close closers l (l\<lparr>lf_phase := Awaiting shutdownErr closeErr\<rparr>)"
| cleanup: "lf_phase l = Awaiting shutdownErr closeErr \<Longrightarrow> sc_requestsDrained (lf_service l) = Some True \<Longrightarrow>
    life_step close closers l
      (closeStores closers
        (Finished (errors_Join [shutdownErr, errors_Join [closeErr, closeOperationalResources close closers]])) l)"
| detached: "lf_phase l = Awaiting (Some err) closeErr \<Longrightarrow> sc_requestsDrained (lf_service l) \<noteq> Some True \<Longrightarrow>
    life_step close closers l (l\<lparr>lf_phase := Background (errors_Join [Some err, closeErr])\<rparr>)"
| cleanup_later: "lf_phase l = Background r \<Longrightarrow> sc_requestsDrained (lf_service l) = Some True \<Longrightarrow>
    life_step close closers l (closeStores closers (Finished r) l)"

inductive life_reach :: "('c \<Rightarrow> goerr option) \<Rightarrow> 'c list \<Rightarrow> 'c lifecycle \<Rightarrow> bool"
  for close closers where
  life_init: "life_reach close closers \<lparr>lf_service = newService, lf_handlers = 0, lf_phase = Serving, lf_closed = []\<rparr>"
| life_next: "life_reach close closers l \<Longrightarrow> life_step close closers l l' \<Longrightarrow> life_reach close closers l'"

section \<open>Every store is closed once, after the last request\<close>

definition service_inv :: "nat \<Rightarrow> phase \<Rightarrow> Service \<Rightarrow> bool" where
  "service_inv handlers ph s \<longleftrightarrow>
     sc_activeRequests s = int handlers \<and>
     (sc_shuttingDown s \<longleftrightarrow> ph \<noteq> Serving) \<and>
     (sc_drainClosed s \<longleftrightarrow> ph \<noteq> Serving \<and> handlers = 0) \<and>
     (sc_requestsDrained s = Some True \<longleftrightarrow> sc_drainClosed s) \<and>
     (handlers > 0 \<or> ph \<noteq> Serving \<longrightarrow> sc_requestsDrained s \<noteq> None)"

definition life_inv :: "'c list \<Rightarrow> 'c lifecycle \<Rightarrow> bool" where
  "life_inv closers l \<longleftrightarrow>
     service_inv (lf_handlers l) (lf_phase l) (lf_service l) \<and>
     lf_closed l = (case lf_phase l of Finished _ \<Rightarrow> closers | _ \<Rightarrow> []) \<and>
     (\<forall>r. lf_phase l = Finished r \<longrightarrow> lf_handlers l = 0)"

lemmas tracker_defs = beginRequest_def endRequest_def beginShutdown_def makeDrained_def closeDrained_def Let_def

lemma beginRequest_inv:
  "service_inv n ph s \<Longrightarrow> beginRequest s = (True, s') \<Longrightarrow> ph = Serving \<and> service_inv (Suc n) ph s'"
  by (auto simp: service_inv_def tracker_defs split: if_splits)

lemma beginRequest_refused: "beginRequest s = (False, s') \<Longrightarrow> s' = s"
  by (auto simp: beginRequest_def Let_def split: if_splits)

lemma endRequest_inv: "service_inv (Suc n) ph s \<Longrightarrow> endRequest s = Some s' \<Longrightarrow> service_inv n ph s'"
  by (cases "ph = Serving"; cases n) (auto simp: service_inv_def tracker_defs split: if_splits)

lemma beginShutdown_inv: "service_inv n Serving s \<Longrightarrow> beginShutdown s = Some s' \<Longrightarrow> ph \<noteq> Serving \<Longrightarrow> service_inv n ph s'"
  by (cases n) (auto simp: service_inv_def tracker_defs split: if_splits)

lemma phase_inv: "service_inv n ph s \<Longrightarrow> ph \<noteq> Serving \<Longrightarrow> ph' \<noteq> Serving \<Longrightarrow> service_inv n ph' s"
  by (simp add: service_inv_def)

lemma drained_inv: "service_inv n ph s \<Longrightarrow> sc_requestsDrained s = Some True \<Longrightarrow> n = 0"
  by (auto simp: service_inv_def)

lemma endRequest_total: "service_inv (Suc n) ph s \<Longrightarrow> endRequest s \<noteq> None"
  by (cases "sc_requestsDrained s") (auto simp: service_inv_def tracker_defs)

lemma beginShutdown_total: "service_inv n Serving s \<Longrightarrow> beginShutdown s \<noteq> None"
  by (cases "sc_requestsDrained s") (auto simp: service_inv_def tracker_defs)

lemma life_step_inv: "life_step close closers l l' \<Longrightarrow> life_inv closers l \<Longrightarrow> life_inv closers l'"
proof (induction rule: life_step.induct)
  case (admitted l s)
  then have "service_inv (lf_handlers l) (lf_phase l) (lf_service l)" by (simp add: life_inv_def)
  with admitted(1) have "lf_phase l = Serving \<and> service_inv (Suc (lf_handlers l)) (lf_phase l) s"
    by (rule beginRequest_inv [rotated])
  with admitted(2) show ?case by (auto simp: life_inv_def)
next
  case (refused l s)
  then show ?case using beginRequest_refused [OF refused(1)] by simp
next
  case (ended l n s)
  then show ?case using endRequest_inv [of n "lf_phase l" "lf_service l" s] by (simp add: life_inv_def)
next
  case (shutdown l s)
  then show ?case using beginShutdown_inv [of "lf_handlers l" "lf_service l" s Stopping] by (simp add: life_inv_def)
next
  case (stopped l shutdownErr closeErr)
  then show ?case using phase_inv [of "lf_handlers l" "lf_phase l"] by (simp add: life_inv_def)
next
  case (cleanup l shutdownErr closeErr)
  then show ?case using phase_inv [of "lf_handlers l" "lf_phase l"] drained_inv [of "lf_handlers l" "lf_phase l" "lf_service l"]
    by (simp add: life_inv_def closeStores_def)
next
  case (detached l err closeErr)
  then show ?case using phase_inv [of "lf_handlers l" "lf_phase l"] by (simp add: life_inv_def)
next
  case (cleanup_later l r)
  then show ?case using phase_inv [of "lf_handlers l" "lf_phase l"] drained_inv [of "lf_handlers l" "lf_phase l" "lf_service l"]
    by (simp add: life_inv_def closeStores_def)
qed

lemma life_reach_inv: "life_reach close closers l \<Longrightarrow> life_inv closers l"
proof (induction rule: life_reach.induct)
  case life_init
  then show ?case by (simp add: life_inv_def service_inv_def newService_def)
next
  case (life_next l l')
  then show ?case using life_step_inv by blast
qed

text \<open>
  C37. A graceful shutdown never takes the stores away from a request: in every interleaving of requests
  and shutdown, no request is admitted once the shutdown has begun, no step of the tracker panics on its
  channel, the channel is closed exactly when the shutdown has begun and no request is active, and the
  stores are closed only then: all of them, each once, and never while a handler can still settle its quota,
  also when the server had to be stopped by force.
\<close>

theorem shutdown_spares_requests:
  assumes "life_reach close closers l"
  shows "sc_activeRequests (lf_service l) = int (lf_handlers l) \<and>
    (lf_phase l \<noteq> Serving \<longrightarrow> fst (beginRequest (lf_service l)) = False) \<and>
    (lf_handlers l > 0 \<longrightarrow> endRequest (lf_service l) \<noteq> None) \<and>
    (lf_phase l = Serving \<longrightarrow> beginShutdown (lf_service l) \<noteq> None) \<and>
    (sc_requestsDrained (lf_service l) = Some True \<longleftrightarrow> lf_phase l \<noteq> Serving \<and> lf_handlers l = 0) \<and>
    (lf_closed l = [] \<or> lf_handlers l = 0 \<and> lf_closed l = closers)"
proof -
  have inv: "life_inv closers l" using life_reach_inv [OF assms] .
  then have s: "service_inv (lf_handlers l) (lf_phase l) (lf_service l)" by (simp add: life_inv_def)
  from s have "endRequest (lf_service l) \<noteq> None" if "lf_handlers l > 0"
    using that endRequest_total by (cases "lf_handlers l") simp_all
  moreover from s have "beginShutdown (lf_service l) \<noteq> None" if "lf_phase l = Serving"
    using that beginShutdown_total by simp
  moreover from inv have "lf_closed l = [] \<or> lf_handlers l = 0 \<and> lf_closed l = closers"
    by (cases "lf_phase l") (auto simp: life_inv_def)
  ultimately show ?thesis using s by (auto simp: service_inv_def beginRequest_def)
qed

text \<open>The closers handed to the service are distinct, so closing all of them once closes each store once.\<close>

lemma uniqueClosers_distinct: "distinct (uniqueClosers vs) \<and> set (uniqueClosers vs) = {c. Some c \<in> set vs}"
proof -
  have "distinct out \<Longrightarrow>
      distinct (fold (\<lambda>v out. case v of None \<Rightarrow> out | Some c \<Rightarrow> if c \<in> set out then out else out @ [c]) vs out) \<and>
      set (fold (\<lambda>v out. case v of None \<Rightarrow> out | Some c \<Rightarrow> if c \<in> set out then out else out @ [c]) vs out) =
        set out \<union> {c. Some c \<in> set vs}" for out
    by (induction vs arbitrary: out) (auto split: option.split)
  then show ?thesis by (simp add: uniqueClosers_def)
qed

section \<open>A shutdown comes to its end\<close>

lemma life_reach_trans: "(life_step close closers)\<^sup>*\<^sup>* l l' \<Longrightarrow> life_reach close closers l \<Longrightarrow> life_reach close closers l'"
  by (induction rule: rtranclp_induct) (auto intro: life_next)

lemma requests_end:
  assumes "life_reach close closers l" "lf_phase l \<noteq> Serving"
  shows "\<exists>l'. (life_step close closers)\<^sup>*\<^sup>* l l' \<and> lf_handlers l' = 0 \<and> lf_phase l' = lf_phase l"
  using assms
proof (induction "lf_handlers l" arbitrary: l)
  case 0
  then show ?case by auto
next
  case (Suc n)
  have "service_inv (Suc n) (lf_phase l) (lf_service l)"
    using life_reach_inv [OF Suc.prems(1)] Suc.hyps(2) by (simp add: life_inv_def)
  then obtain s where s: "endRequest (lf_service l) = Some s" using endRequest_total by blast
  let ?l = "l\<lparr>lf_service := s, lf_handlers := n\<rparr>"
  have st: "life_step close closers l ?l" using ended [OF Suc.hyps(2) [symmetric] s] .
  then have "life_reach close closers ?l" using Suc.prems(1) by (rule life_next [rotated])
  from Suc.hyps(1) [OF _ this] Suc.prems(2) obtain l' where
    "(life_step close closers)\<^sup>*\<^sup>* ?l l'" "lf_handlers l' = 0" "lf_phase l' = lf_phase l" by auto
  with st show ?case by (meson converse_rtranclp_into_rtranclp)
qed

text \<open>
  A shutdown that has begun can always be completed: from every state the service can reach, whatever
  the server's answer, once the active requests have ended the stores are closed.
\<close>

theorem shutdown_completes:
  assumes "life_reach close closers l" "lf_phase l \<noteq> Serving"
  shows "\<exists>l' r. (life_step close closers)\<^sup>*\<^sup>* l l' \<and> lf_phase l' = Finished r \<and> lf_handlers l' = 0 \<and> lf_closed l' = closers"
proof -
  obtain l1 where l1: "(life_step close closers)\<^sup>*\<^sup>* l l1" "lf_handlers l1 = 0" "lf_phase l1 \<noteq> Serving"
    using requests_end [OF assms] assms(2) by metis
  obtain l2 where l2: "(life_step close closers)\<^sup>*\<^sup>* l1 l2" "lf_handlers l2 = 0" "lf_phase l2 \<notin> {Serving, Stopping}"
  proof (cases "lf_phase l1 = Stopping")
    case True
    then show ?thesis using that [of "l1\<lparr>lf_phase := Awaiting None None\<rparr>"] stopped [OF True] l1(2) by (metis (no_types, lifting)
        insertE lifecycle.select_convs(2,3) lifecycle.surjective lifecycle.update_convs(3) phase.distinct(3,9) r_into_rtranclp singletonD)
  qed (use that l1 in auto)
  have reach: "life_reach close closers l2" using life_reach_trans l1(1) l2(1) assms(1) by metis
  have drained: "sc_requestsDrained (lf_service l2) = Some True"
    using life_reach_inv [OF reach] l2(2,3) by (auto simp: life_inv_def service_inv_def)
  have "\<exists>l3 r. (life_step close closers)\<^sup>*\<^sup>* l2 l3 \<and> lf_phase l3 = Finished r"
  proof (cases "lf_phase l2")
    case (Awaiting a b)
    from cleanup [OF this drained, where close = close and closers = closers] show ?thesis
      by (intro exI conjI) (rule r_into_rtranclp, assumption, simp add: closeStores_def)
  next
    case (Background r)
    from cleanup_later [OF this drained, where close = close and closers = closers] show ?thesis
      by (intro exI conjI) (rule r_into_rtranclp, assumption, simp add: closeStores_def)
  qed (use l2(3) in auto)
  then obtain l3 r where l3: "(life_step close closers)\<^sup>*\<^sup>* l2 l3" "lf_phase l3 = Finished r" by blast
  have "life_inv closers l3" using life_reach_inv life_reach_trans [OF l3(1) reach] by blast
  moreover have "(life_step close closers)\<^sup>*\<^sup>* l l3" using l1(1) l2(1) l3(1) by (meson rtranclp_trans)
  ultimately show ?thesis using l3(2) by (intro exI [of _ l3] exI [of _ r]) (simp add: life_inv_def)
qed

section \<open>A concrete run\<close>

text \<open>Two requests; the shutdown begins while they run and is forced, so the cleanup stays behind until both have ended.\<close>

definition demo_life :: "bool lifecycle" where
  "demo_life = \<lparr>lf_service = \<lparr>sc_activeRequests = 2, sc_shuttingDown = True, sc_requestsDrained = Some False, sc_drainClosed = False\<rparr>,
     lf_handlers = 2, lf_phase = Background (Some (Joined [Sentinel DeadlineExceeded])), lf_closed = []\<rparr>"

lemma demo_life_reach: "life_reach (\<lambda>_. None) [True, False] demo_life"
proof -
  let ?r = "life_reach (\<lambda>_. None) [True, False]"
  let ?s = "\<lambda>n d. \<lparr>sc_activeRequests = n, sc_shuttingDown = d, sc_requestsDrained = Some False, sc_drainClosed = False\<rparr>"
  have 1: "?r \<lparr>lf_service = ?s 1 False, lf_handlers = 1, lf_phase = Serving, lf_closed = []\<rparr>"
    using life_next [OF life_init [of "\<lambda>_. None" "[True, False]"] admitted [where s = "?s 1 False"]]
    by (simp add: newService_def tracker_defs)
  have 2: "?r \<lparr>lf_service = ?s 2 False, lf_handlers = 2, lf_phase = Serving, lf_closed = []\<rparr>"
    using life_next [OF 1 admitted [where s = "?s 2 False"]] by (simp add: tracker_defs eval_nat_numeral)
  have 3: "?r \<lparr>lf_service = ?s 2 True, lf_handlers = 2, lf_phase = Stopping, lf_closed = []\<rparr>"
    using life_next [OF 2 shutdown [where s = "?s 2 True"]] by (simp add: tracker_defs)
  have 4: "?r \<lparr>lf_service = ?s 2 True, lf_handlers = 2, lf_phase = Awaiting (Some (Sentinel DeadlineExceeded)) None, lf_closed = []\<rparr>"
    using life_next [OF 3 stopped [where shutdownErr = "Some (Sentinel DeadlineExceeded)" and closeErr = None]] by simp
  show ?thesis using life_next [OF 4 detached [where err = "Sentinel DeadlineExceeded" and closeErr = None]]
    by (simp add: demo_life_def errors_Join_def)
qed

theorem shutdown_spares_requests_witness:
  "fst (beginRequest (lf_service demo_life)) = False \<and> endRequest (lf_service demo_life) \<noteq> None \<and> lf_closed demo_life = []"
  using shutdown_spares_requests [OF demo_life_reach] by (auto simp: demo_life_def)

theorem shutdown_completes_witness:
  "\<exists>l' r. (life_step (\<lambda>_. None) [True, False])\<^sup>*\<^sup>* demo_life l' \<and> lf_phase l' = Finished r \<and> lf_handlers l' = 0 \<and>
     lf_closed l' = [True, False]"
  by (rule shutdown_completes [OF demo_life_reach]) (simp add: demo_life_def)

end
