(* ===== verification/Rate_Store.thy ===== *)
theory Rate_Store
  imports Attempt_Pipeline
begin

text \<open>
  The in-memory rate store (\<open>store/rlm.go\<close>): batches of debits on token buckets, applied all or not at all.
  The bucket is the limiter of \<open>golang.org/x/time/rate\<close>, a parameter: \<open>'l\<close> is a limiter, \<open>'r\<close> a reservation. Nothing
  is assumed of it: the theorems say which reservations are made and which of them are canceled.
\<close>

section \<open>The limiter library\<close>

record ('l, 'r) rateLibrary =
  xr_NewLimiter :: "f64 \<Rightarrow> int \<Rightarrow> 'l"
  xr_Limit :: "'l \<Rightarrow> f64"
  xr_Burst :: "'l \<Rightarrow> int"
  xr_TokensAt :: "instant \<Rightarrow> 'l \<Rightarrow> f64"
  xr_ReserveN :: "instant \<Rightarrow> int \<Rightarrow> 'l \<Rightarrow> 'r \<times> 'l"
  xr_OK :: "'r \<Rightarrow> bool"
  xr_DelayFrom :: "instant \<Rightarrow> 'r \<Rightarrow> duration"
  xr_CancelAt :: "instant \<Rightarrow> 'r \<Rightarrow> 'l \<Rightarrow> 'l"

section \<open>The store\<close>

record 'l memoryRateEntry =
  me_limiter :: 'l
  me_lastSeen :: instant

record 'l MemoryRateStore =
  mr_limiters :: "(string, 'l memoryRateEntry) gomap"
  mr_operations :: int

abbreviation memoryRateEntryIdleTTL :: duration where
  "memoryRateEntryIdleTTL \<equiv> 10 * Minute"


text \<open>Float64 division, for the arguments that occur: the quotient rounded, infinities for a zero divisor.\<close>

fun f64_div :: "f64 \<Rightarrow> f64 \<Rightarrow> f64" where
  "f64_div (Fin a) (Fin b) = (if b = 0 then (if a = 0 then NaN else if a > 0 then PInf else NInf) else round64 (a / b))"
| "f64_div NaN _ = NaN"
| "f64_div _ NaN = NaN"
| "f64_div (Fin a) _ = Fin 0"
| "f64_div PInf (Fin b) = (if b < 0 then NInf else PInf)"
| "f64_div NInf (Fin b) = (if b < 0 then PInf else NInf)"
| "f64_div _ _ = NaN"

text \<open>\<open>Duration.Seconds\<close> of a duration that is not negative.\<close>

definition Seconds :: "duration \<Rightarrow> f64" where
  "Seconds d = f64_add (f64_of_int (d div Second)) (f64_div (f64_of_int (d mod Second)) (f64_of_int 1000000000))"

definition ratePerSecond :: "RateRequest \<Rightarrow> f64" where
  "ratePerSecond q =
     (let period = (if rt_Period q \<le> 0 then Minute else rt_Period q)
      in f64_div (f64_of_int (rt_Rate q)) (Seconds period))"

definition burstSize :: "RateRequest \<Rightarrow> int" where
  "burstSize q = (if rt_Burst q > 0 then rt_Burst q else if rt_Rate q > 0 then rt_Rate q else 1)"

definition sameLimit :: "RateRequest \<Rightarrow> RateRequest \<Rightarrow> bool" where
  "sameLimit p q \<longleftrightarrow> rt_Rate p = rt_Rate q \<and> rt_Burst p = rt_Burst q \<and> rt_Period p = rt_Period q"

section \<open>Normalization\<close>

definition addDebit :: "int \<Rightarrow> int \<Rightarrow> int" where
  "addDebit a b = (if a > i64 (MaxInt64 - b) then MaxInt64 else i64 (a + b))"

text \<open>The requests that debit something, those of one key merged; an error when their limits differ.\<close>

fun normalizeLoop :: "RateRequest list \<Rightarrow> RateRequest list \<Rightarrow> goerr + RateRequest list" where
  "normalizeLoop out [] = Inr out"
| "normalizeLoop out (q # qs) =
     (if rt_Rate q \<le> 0 \<or> rt_N q \<le> 0 then normalizeLoop out qs
      else case find (\<lambda>p. rt_Key p = rt_Key q) out of
        Some p \<Rightarrow>
          if \<not> sameLimit p q then
            Inl (Plain (''duplicate rate key '' @ quoted (rt_Key q) @ '' has inconsistent limits''))
          else normalizeLoop (map (\<lambda>p. if rt_Key p = rt_Key q then p\<lparr>rt_N := addDebit (rt_N p) (rt_N q)\<rparr> else p) out) qs
      | None \<Rightarrow> normalizeLoop (out @ [q]) qs)"

definition normalizeRateRequests :: "RateRequest list \<Rightarrow> goerr + RateRequest list" where
  "normalizeRateRequests requests = normalizeLoop [] requests"

section \<open>Buckets\<close>

text \<open>
  Every sixteenth operation inspects up to 64 entries and drops those that are idle and full. \<open>order\<close> is the order
  in which the iteration over the map takes the keys.
\<close>

definition staleEntry :: "('l, 'r) rateLibrary \<Rightarrow> instant \<Rightarrow> 'l memoryRateEntry \<Rightarrow> bool" where
  "staleEntry lib now e \<longleftrightarrow>
     now - me_lastSeen e > memoryRateEntryIdleTTL \<and>
     f64_le (f64_of_int (xr_Burst lib (me_limiter e))) (xr_TokensAt lib now (me_limiter e))"

definition pruneLocked :: "('l, 'r) rateLibrary \<Rightarrow> string list \<Rightarrow> instant \<Rightarrow> 'l MemoryRateStore \<Rightarrow> 'l MemoryRateStore" where
  "pruneLocked lib order now s =
     (let s = s\<lparr>mr_operations := (mr_operations s + 1) mod 2 ^ 64\<rparr>
      in if mr_operations s mod 16 \<noteq> 0 then s
         else s\<lparr>mr_limiters := filter (\<lambda>(k, e). \<not> (k \<in> set (take 64 order) \<and> staleEntry lib now e)) (mr_limiters s)\<rparr>)"

definition limitChanged :: "('l, 'r) rateLibrary \<Rightarrow> 'l \<Rightarrow> RateRequest \<Rightarrow> bool" where
  "limitChanged lib current q \<longleftrightarrow>
     \<not> f64_eq (xr_Limit lib current) (ratePerSecond q) \<or> xr_Burst lib current \<noteq> burstSize q"

definition getLimiterLocked :: "('l, 'r) rateLibrary \<Rightarrow> instant \<Rightarrow> RateRequest \<Rightarrow> 'l MemoryRateStore \<Rightarrow> 'l MemoryRateStore" where
  "getLimiterLocked lib now q s =
     (let limiter = (case map_of (mr_limiters s) (rt_Key q) of
                       Some e \<Rightarrow> if limitChanged lib (me_limiter e) q then xr_NewLimiter lib (ratePerSecond q) (burstSize q)
                                 else me_limiter e
                     | None \<Rightarrow> xr_NewLimiter lib (ratePerSecond q) (burstSize q))
      in s\<lparr>mr_limiters := AList.update (rt_Key q) \<lparr>me_limiter = limiter, me_lastSeen = now\<rparr> (mr_limiters s)\<rparr>)"

definition updLimiter :: "string \<Rightarrow> ('l \<Rightarrow> 'l) \<Rightarrow> 'l MemoryRateStore \<Rightarrow> 'l MemoryRateStore" where
  "updLimiter k f s =
     (case map_of (mr_limiters s) k of
        None \<Rightarrow> s
      | Some e \<Rightarrow> s\<lparr>mr_limiters := AList.update k (e\<lparr>me_limiter := f (me_limiter e)\<rparr>) (mr_limiters s)\<rparr>)"

definition limiterOf :: "string \<Rightarrow> 'l MemoryRateStore \<Rightarrow> 'l option" where
  "limiterOf k s = map_option me_limiter (map_of (mr_limiters s) k)"

section \<open>Batches\<close>

text \<open>The reservations, the newest first.\<close>

definition rollback :: "('l, 'r) rateLibrary \<Rightarrow> instant \<Rightarrow> (string \<times> 'r) list \<Rightarrow> 'l MemoryRateStore \<Rightarrow> 'l MemoryRateStore" where
  "rollback lib now reservations s = fold (\<lambda>(k, r). updLimiter k (xr_CancelAt lib now r)) reservations s"

fun reserveLoop ::
  "('l, 'r) rateLibrary \<Rightarrow> instant \<Rightarrow> (string \<times> 'r) list \<Rightarrow> RateRequest list \<Rightarrow> 'l MemoryRateStore \<Rightarrow>
     (string + (string \<times> 'r) list) \<times> 'l MemoryRateStore" where
  "reserveLoop lib now reservations [] s = (Inr reservations, s)"
| "reserveLoop lib now reservations (q # qs) s =
     (if rt_Rate q \<le> 0 \<or> rt_N q \<le> 0 then reserveLoop lib now reservations qs s
      else
        let s = getLimiterLocked lib now q s
        in case limiterOf (rt_Key q) s of
             None \<Rightarrow> (Inl (rt_Key q), s)
           | Some l \<Rightarrow>
               (let (r, l') = xr_ReserveN lib now (rt_N q) l; s = updLimiter (rt_Key q) (\<lambda>_. l') s
                in if \<not> xr_OK lib r \<or> xr_DelayFrom lib now r > 0 then
                     (Inl (rt_Key q),
                      rollback lib now reservations (if xr_OK lib r then updLimiter (rt_Key q) (xr_CancelAt lib now r) s else s))
                   else reserveLoop lib now ((rt_Key q, r) # reservations) qs s))"

text \<open>\<open>ctx 0\<close> is the context's error at the start, \<open>ctx 1\<close> the one after the debits.\<close>

definition AllowBatch ::
  "('l, 'r) rateLibrary \<Rightarrow> (nat \<Rightarrow> goerr option) \<Rightarrow> string list \<Rightarrow> instant \<Rightarrow> RateRequest list \<Rightarrow> 'l MemoryRateStore \<Rightarrow>
     goerr option \<times> 'l MemoryRateStore" where
  "AllowBatch lib ctx order now requests s =
     (case ctx 0 of
        Some err \<Rightarrow> (Some err, s)
      | None \<Rightarrow>
          (case normalizeRateRequests requests of
             Inl err \<Rightarrow> (Some err, s)
           | Inr qs \<Rightarrow>
               (case reserveLoop lib now [] qs (pruneLocked lib order now s) of
                  (Inl key, s) \<Rightarrow> (Some (BatchRateLimitError key), s)
                | (Inr reservations, s) \<Rightarrow>
                    (case ctx 1 of
                       Some err \<Rightarrow> (Some err, rollback lib now reservations s)
                     | None \<Rightarrow> (None, s)))))"

definition Allow ::
  "('l, 'r) rateLibrary \<Rightarrow> (nat \<Rightarrow> goerr option) \<Rightarrow> string list \<Rightarrow> instant \<Rightarrow> RateRequest \<Rightarrow> 'l MemoryRateStore \<Rightarrow>
     goerr option \<times> 'l MemoryRateStore" where
  "Allow lib ctx order now q s = AllowBatch lib ctx order now [q] s"

section \<open>Normalized requests\<close>

definition requested :: "string \<Rightarrow> RateRequest list \<Rightarrow> int" where
  "requested k qs = sum_list (map rt_N (filter (\<lambda>q. rt_Key q = k \<and> 0 < rt_Rate q \<and> 0 < rt_N q) qs))"


lemma requested_simps [simp]:
  "requested k [] = 0"
  "requested k (q # qs) = (if rt_Key q = k \<and> 0 < rt_Rate q \<and> 0 < rt_N q then rt_N q else 0) + requested k qs"
  "requested k (ps @ qs) = requested k ps + requested k qs"
  by (simp_all add: requested_def)








section \<open>Debits and their cancellation\<close>




















section \<open>A concrete bucket\<close>




end
