(* ===== verification/Spec2Isabelle.thy ===== *)
theory Spec2Isabelle
  imports Quota_Properties Usage_Accounting Attempt_Pipeline Router Quota_Interceptor Engine Limit_Stores Token_Validation Request_Policies
    Provider_Proxy Configuration Http_Responses Http_Api Service_Lifecycle Rate_Store
begin

text \<open>
  \<^bold>\<open>A verification development of \<open>llmgw\<close>\<close>, an HTTP gateway for language models that
  routes requests to providers and enforces limits and quotas.

  \<^bold>\<open>The program.\<close> An ingress of \<open>api/\<close> speaks one provider's protocol: it authenticates a request, decodes it
  and hands it to the engine with the current snapshot of the configuration (\<open>gateway/config.go\<close>). There it passes
  a chain of request interceptors (\<open>app/app.go\<close>): authentication
  (\<open>policy/request.go\<close>, \<open>policy/jwt.go\<close>), checks of metadata, identities, body size and tokens
  (\<open>policy/token.go\<close>), access control, the preflight of the providers, quota scopes and the quota
  reservation (\<open>policy/quota.go\<close>, against a store of \<open>store/\<close>). The engine (\<open>gateway/gateway.go\<close>)
  then tries the candidates the router found, each as one attempt with retries under the attempt
  interceptors (\<open>policy/attempt.go\<close>: circuit breaker, concurrency, rates, forwarded headers), accounts for the
  usage of every provider call (\<open>gateway/usage.go\<close>, made by \<open>proxy/proxy.go\<close>), and settles the reservation when the
  ingress has written the answer. The configuration is reloaded while requests run, and a shutdown waits
  for them.

  \<^bold>\<open>The theories\<close>, in the order they build on each other:

  \<^item> \<open>Go_Prelude\<close>, \<open>Go_Float\<close>, \<open>Go_Hash\<close>, \<open>Go_Http\<close>: Go's 64-bit integers (\<open>int\<close> with the wrap-around \<open>i64\<close>),
    maps, strings and instants, \<open>float64\<close>, FNV-1a and SHA-256, and the headers of \<open>net/http\<close>.
  \<^item> \<open>Gateway_Types\<close>: the data and the errors of package \<open>gateway\<close> (\<open>types.go\<close>, \<open>config.go\<close>, \<open>gateway.go\<close>).
  \<^item> \<open>Quota_Keys\<close>, \<open>Memory_Quota_Store\<close>: the accounting keys with their time buckets and the in-memory quota
    and counter stores of \<open>store/store.go\<close>, every method with its expiry and settlement helpers.
    \<open>Quota_Accounting\<close> and \<open>Quota_Settlement\<close> prove the invariants (the values of the counters are the sums of the
    holds and charges; the settlement table is bounded and disjoint from the reservations), \<open>Quota_Properties\<close>
    the properties C1 to C6 over all runs of the store, with replays, refunds and expiry, \<open>Quota_Budgets\<close> what a
    top-up and a commit leave of the token budgets, for C18.
  \<^item> \<open>Usage_Accounting\<close>: \<open>gateway/usage.go\<close>, normalization and reconciliation of reported usage, prices, and the
    accumulator of a request (C7, C8).
  \<^item> \<open>Circuit_Breaker\<close> (C9), \<open>Concurrency_Limiter\<close> (C10, all interleavings of goroutines) and
    \<open>Attempt_Pipeline\<close> (C14 to C16): \<open>policy/attempt.go\<close>, the parts of an attempt and \<open>AttemptLimits.WrapAttempt\<close> with its
    retries, local and distributed slots and panics, whose calls to the environment are events on a trace. \<open>Rate_Store\<close>: the local rate store of
    \<open>store/rlm.go\<close> over any token bucket: which reservations a batch makes and which it cancels (C40).
  \<^item> \<open>Router\<close>: \<open>Router.Resolve\<close> and the route catalog (C11 to C13).
  \<^item> \<open>Quota_Interceptor\<close>: \<open>policy/quota.go\<close> over any store that keeps the contract of the locale \<open>quota_store\<close>, which
    the in-memory store is proved to keep (interpretation \<open>mem\<close>); C17 to C19 relate what the interceptor
    counts as reserved to what the store holds, in every interleaving of the attempts.
  \<^item> \<open>Engine\<close>: the rest of \<open>gateway/gateway.go\<close>, dispatch with fallback, provider calls, prefetched streams,
    preflight and settlement (C20, C21).
  \<^item> \<open>Limit_Stores\<close>: the stores of quota limits in \<open>store/limits.go\<close> and the validation of limits (C22); the
    cache is a transition system of readers and a writer.
  \<^item> \<open>Token_Validation\<close>: \<open>policy/token.go\<close>, the token estimate of a candidate (C23).
  \<^item> \<open>Request_Policies\<close>: the chain of interceptors up to the quota scopes (C24).
  \<^item> \<open>Provider_Streams\<close>: \<open>proxy/stream.go\<close>, the tracker that reads the usage out of a stream while it passes, proved
    equal to a reference decoder of server-sent events, and the response limit (C30 to C32).
    \<open>Provider_Proxy\<close>: \<open>proxy/proxy.go\<close> over any adapter, one provider call from the request to the result, its
    headers, limits and errors (C27 to C29).
  \<^item> \<open>Configuration\<close>: defaults, environment variables and validation in \<open>gateway/config.go\<close>, \<open>gateway/providers.go\<close> and
    \<open>gateway/jwt.go\<close>, publication and reload (C34 to C36). \<open>Service_Lifecycle\<close>: the request tracker and the shutdown
    of \<open>app/app.go\<close> as a transition system (C37).
  \<^item> \<open>Http_Responses\<close>: \<open>api/response.go\<close>, writing results and streams to the client (C26, C33); any reader that drains
    its source serves the client lemmas of the locale \<open>draining_reader\<close>, and the engine's prefetched stream is one.
    \<open>Http_Api\<close>: \<open>api/server.go\<close>, \<open>api/quota.go\<close> and the ingress files, the operation handler (C25) and the
    limits endpoint (C38, C39) over the stores that keep the locale \<open>limit_backend\<close>.

  \<^bold>\<open>Conventions.\<close> Structures are records with the source's field names, errors are values of \<open>goerr\<close>, and a
  function that may fail returns \<open>goerr + 'a\<close>. A method of a shared object takes and returns its state. The
  clock is explicit: a store keeps the readings still to come, other operations take the instant as an
  argument. Maps the code iterates over are association lists in the order of the run, so statements hold for
  every iteration order; maps that are only looked up are HOL maps. Strings are byte sequences; changing and
  comparing case (\<open>ToLower\<close>, \<open>EqualFold\<close>, canonical header names) and the escapes of \<open>%q\<close> are those of ASCII. Third-party code (tokenizers, JSON web
  tokens, token buckets, the distributed stores), the HTTP transport and the adapters that rewrite JSON are
  parameters with named hypotheses.

  \<^bold>\<open>Loops.\<close> Recursive functions end structurally or by a measure: the
  retry loop of \<open>acquireLimiter\<close> because each round deletes a retired limiter, the eviction of settlements because the
  order list shrinks, the retries of an attempt because they are counted, and streams are finite sequences
  of reads. One loop has fuel, \<open>streamLoop\<close> of \<open>writeProviderStream\<close>, because it ends only when the reader it is given
  does; C26 proves that for the engine's stream any fuel above the work left in the provider's reads gives
  a result.

  \<^bold>\<open>Not modelled\<close>: the Redis and Postgres stores (Lua scripts and SQL run by servers; the time to live that
  \<open>store/redis.go\<close> computes is), the renewal of distributed slots, the adapters, bridges, token projections and request decoders of
  \<open>proxy/\<close> that rewrite JSON documents, the parsing of keys and tokens (\<open>crypto/x509\<close>, \<open>golang-jwt\<close>), reading YAML and
  watching its file, the \<open>ServeMux\<close> with the health, metrics and document handlers (\<open>api/server.go\<close>,
  \<open>api/spec.go\<close>), metrics and tracing (\<open>observer/\<close>), and construction and start-up of the process (\<open>app/\<close>, \<open>cmd/\<close>).
\<close>

end
